(* ===== verification/Prelude.thy ===== *)
theory Prelude
  imports Main "HOL-Library.Word" "HOL-Library.AList"
begin

text \<open>
  What every component theory shares: names for Go's integer types, the
  parts of Go's standard library the modelled code calls (saturating time
  subtraction, decimal printing, \<^verbatim>\<open>strings.TrimSpace\<close>,
  \<^verbatim>\<open>strings.HasPrefix\<close>, prefix and suffix tests), and generic
  lemmas on association lists, which stand for Go maps. A Go string is a list
  of bytes, that is a HOL \<^typ>\<open>string\<close>.
\<close>

section \<open>Integers and time\<close>

type_synonym u8 = "8 word"
type_synonym u16 = "16 word"
type_synonym u32 = "32 word"
type_synonym u64 = "64 word"

text \<open>Times and durations are counted in nanoseconds.\<close>

type_synonym nanos = int

definition millisecond :: nanos where
  "millisecond = 1000000"

definition second :: nanos where
  "second = 1000 * millisecond"

text \<open>\<^verbatim>\<open>time.Time.Sub\<close> saturates at the ends of the 64-bit range.\<close>

definition time_sub :: "nanos \<Rightarrow> nanos \<Rightarrow> nanos" where
  "time_sub a b = max (- (2 ^ 63)) (min (2 ^ 63 - 1) (a - b))"

text \<open>Conversion of a 64-bit signed value to 16 bits keeps the low bits, as \<^verbatim>\<open>int16(v)\<close> does.\<close>

definition int16_of :: "int \<Rightarrow> u16" where
  "int16_of v = word_of_int v"

text \<open>A 64-bit signed product wraps around.\<close>

definition wrap64 :: "int \<Rightarrow> int" where
  "wrap64 v = signed_take_bit 63 v"

lemma wrap64_id: "- (2 ^ 63) \<le> v \<Longrightarrow> v < 2 ^ 63 \<Longrightarrow> wrap64 v = v"
  by (simp add: wrap64_def signed_take_bit_int_eq_self)

lemma time_sub_small:
  "\<bar>a - b\<bar> < 2 ^ 63 \<Longrightarrow> time_sub a b = a - b"
  by (simp add: time_sub_def)

text \<open>Go's integer division truncates towards zero.\<close>

definition go_div :: "int \<Rightarrow> int \<Rightarrow> int" where
  "go_div a b = sgn a * sgn b * (\<bar>a\<bar> div \<bar>b\<bar>)"

lemma go_div_nonneg: "0 \<le> a \<Longrightarrow> 0 < b \<Longrightarrow> go_div a b = a div b"
  by (cases "a = 0") (auto simp: go_div_def sgn_if)

lemma int_div_mult_le: "0 < b \<Longrightarrow> (a div b) * b \<le> (a :: int)"
  using minus_mod_eq_div_mult [of a b] pos_mod_sign [of b a] by linarith

lemma le_int_div: "0 < b \<Longrightarrow> q * b \<le> a \<Longrightarrow> q \<le> a div (b :: int)"
  using zdiv_mono1 [of "q * b" a b] by simp

lemma int_div_less: "0 < b \<Longrightarrow> a < c * b \<Longrightarrow> a div b < (c :: int)"
  using int_div_mult_le [of b a] by (meson le_less_trans mult_less_cancel_right_pos)

section \<open>Strings\<close>

definition has_prefix :: "string \<Rightarrow> string \<Rightarrow> bool" where
  "has_prefix s p \<longleftrightarrow> take (length p) s = p"

definition has_suffix :: "string \<Rightarrow> string \<Rightarrow> bool" where
  "has_suffix s p \<longleftrightarrow> length p \<le> length s \<and> drop (length s - length p) s = p"

lemma has_prefix_iff: "has_prefix s p \<longleftrightarrow> (\<exists>r. s = p @ r)"
  unfolding has_prefix_def by (metis append_eq_conv_conj)

lemma has_suffix_append [simp]: "has_suffix (a @ p) p"
  by (simp add: has_suffix_def)

text \<open>The UTF-8 encodings of the characters \<^verbatim>\<open>unicode.IsSpace\<close> accepts.\<close>

definition byte_string :: "nat list \<Rightarrow> string" where
  "byte_string = map char_of"

definition space_encodings :: "string list" where
  "space_encodings =
     map byte_string
      ([[9], [10], [11], [12], [13], [32], [194, 133], [194, 160], [225, 154, 128]]
       @ map (\<lambda>i. [226, 128, 128 + i]) [0 ..< 11]
       @ [[226, 128, 168], [226, 128, 169], [226, 128, 175], [226, 129, 159], [227, 128, 128]])"

text \<open>The same list as literals, for evaluation.\<close>

lemma space_encodings_code [code]: "space_encodings =
  [[CHR 0x09], [CHR 0x0A], [CHR 0x0B], [CHR 0x0C], [CHR 0x0D], [CHR 0x20],
   [CHR 0xC2, CHR 0x85], [CHR 0xC2, CHR 0xA0], [CHR 0xE1, CHR 0x9A, CHR 0x80],
   [CHR 0xE2, CHR 0x80, CHR 0x80], [CHR 0xE2, CHR 0x80, CHR 0x81], [CHR 0xE2, CHR 0x80, CHR 0x82],
   [CHR 0xE2, CHR 0x80, CHR 0x83], [CHR 0xE2, CHR 0x80, CHR 0x84], [CHR 0xE2, CHR 0x80, CHR 0x85],
   [CHR 0xE2, CHR 0x80, CHR 0x86], [CHR 0xE2, CHR 0x80, CHR 0x87], [CHR 0xE2, CHR 0x80, CHR 0x88],
   [CHR 0xE2, CHR 0x80, CHR 0x89], [CHR 0xE2, CHR 0x80, CHR 0x8A], [CHR 0xE2, CHR 0x80, CHR 0xA8],
   [CHR 0xE2, CHR 0x80, CHR 0xA9], [CHR 0xE2, CHR 0x80, CHR 0xAF], [CHR 0xE2, CHR 0x81, CHR 0x9F],
   [CHR 0xE3, CHR 0x80, CHR 0x80]]"
  by (simp add: space_encodings_def byte_string_def upt_rec char_of_eq_iff take_bit_eq_mod)

lemma space_encodings_nonempty [simp]: "[] \<notin> set space_encodings"
  by (auto simp: space_encodings_def byte_string_def)

lemma space_encoding_length: "e \<in> set space_encodings \<Longrightarrow> 0 < length e"
  using space_encodings_nonempty by (metis length_greater_0_conv)

lemma find_prefix_shorter:
  assumes "find (has_prefix s) space_encodings = Some e"
  shows "length s - length e < length s"
proof -
  from assms have "e \<in> set space_encodings" "has_prefix s e"
    by (auto simp: find_Some_iff)
  then have "0 < length e" "length e \<le> length s"
    by (auto simp: has_prefix_iff dest: space_encoding_length)
  then show ?thesis by linarith
qed

lemma find_suffix_shorter:
  assumes "find (has_suffix s) space_encodings = Some e"
  shows "length s - length e < length s"
proof -
  from assms have "e \<in> set space_encodings" "has_suffix s e"
    by (auto simp: find_Some_iff)
  then have "0 < length e" "length e \<le> length s"
    by (auto simp: has_suffix_def dest: space_encoding_length)
  then show ?thesis by linarith
qed

function trim_left :: "string \<Rightarrow> string" where
  "trim_left s =
     (case find (has_prefix s) space_encodings of
        None \<Rightarrow> s
      | Some e \<Rightarrow> trim_left (drop (length e) s))"
  by pat_completeness auto
termination
  by (relation "measure length") (auto dest: find_prefix_shorter)

function trim_right :: "string \<Rightarrow> string" where
  "trim_right s =
     (case find (has_suffix s) space_encodings of
        None \<Rightarrow> s
      | Some e \<Rightarrow> trim_right (take (length s - length e) s))"
  by pat_completeness auto
termination
  by (relation "measure length") (auto dest: find_suffix_shorter)

declare trim_left.simps [simp del] trim_right.simps [simp del]

text \<open>\<^verbatim>\<open>strings.TrimSpace\<close>.\<close>

definition trim_space :: "string \<Rightarrow> string" where
  "trim_space s = trim_right (trim_left s)"

lemma trim_left_done: "find (has_prefix (trim_left s)) space_encodings = None"
proof (induction s rule: trim_left.induct)
  case (1 s)
  then show ?case by (subst trim_left.simps) (auto split: option.split)
qed

lemma trim_right_done: "find (has_suffix (trim_right s)) space_encodings = None"
proof (induction s rule: trim_right.induct)
  case (1 s)
  then show ?case by (subst trim_right.simps) (auto split: option.split)
qed

lemma trim_right_take: "\<exists>n. trim_right s = take n s"
proof (induction s rule: trim_right.induct)
  case (1 s)
  show ?case
  proof (cases "find (has_suffix s) space_encodings")
    case None
    then show ?thesis by (subst trim_right.simps) (auto intro: exI [of _ "length s"])
  next
    case (Some e)
    from "1.IH" [OF Some] Some show ?thesis by (subst trim_right.simps) (auto simp: min_def)
  qed
qed

lemma has_prefix_take: "has_prefix (take n s) p \<Longrightarrow> has_prefix s p"
  unfolding has_prefix_iff by (metis append.assoc append_take_drop_id)

lemma trim_space_idem [simp]: "trim_space (trim_space s) = trim_space s"
proof -
  let ?t = "trim_space s"
  have "find (has_prefix ?t) space_encodings = None"
    using trim_left_done [of s] trim_right_take [of "trim_left s"] has_prefix_take
    unfolding trim_space_def find_None_iff by metis
  then have "trim_left ?t = ?t" by (simp add: trim_left.simps)
  moreover have "trim_right ?t = ?t"
    using trim_right_done [of "trim_left s"]
    by (subst trim_right.simps) (simp add: trim_space_def)
  ultimately show ?thesis by (simp add: trim_space_def)
qed

text \<open>\<^verbatim>\<open>strconv.Itoa\<close> of a value that is not negative.\<close>

fun dec_nat :: "nat \<Rightarrow> string" where
  "dec_nat n = (if n < 10 then [char_of (48 + n)] else dec_nat (n div 10) @ [char_of (48 + n mod 10)])"

declare dec_nat.simps [simp del]

definition is_digit :: "char \<Rightarrow> bool" where
  "is_digit c \<longleftrightarrow> 48 \<le> (of_char c :: nat) \<and> (of_char c :: nat) \<le> 57"

fun undec :: "string \<Rightarrow> nat" where
  "undec [] = 0"
| "undec (c # cs) = (of_char c - 48) * 10 ^ length cs + undec cs"

lemma undec_append: "undec (xs @ ys) = undec xs * 10 ^ length ys + undec ys"
  by (induction xs) (auto simp: power_add algebra_simps)

lemma dec_nat_nonempty: "dec_nat n \<noteq> []"
  by (subst dec_nat.simps) simp

lemma dec_nat_digits: "c \<in> set (dec_nat n) \<Longrightarrow> is_digit c"
proof (induction n rule: dec_nat.induct)
  case (1 n)
  show ?case
  proof (cases "n < 10")
    case True
    with "1.prems" show ?thesis
      by (subst (asm) dec_nat.simps) (auto simp: is_digit_def)
  next
    case False
    have "48 + n mod 10 < 256" by simp
    then have "is_digit (char_of (48 + n mod 10))"
      by (simp add: is_digit_def)
    with False "1.prems" "1.IH" show ?thesis
      by (subst (asm) dec_nat.simps) auto
  qed
qed

lemma undec_dec_nat [simp]: "undec (dec_nat n) = n"
proof (induction n rule: dec_nat.induct)
  case (1 n)
  show ?case
  proof (cases "n < 10")
    case True
    then show ?thesis by (subst dec_nat.simps) simp
  next
    case False
    with "1.IH" have "undec (dec_nat (n div 10)) = n div 10" by simp
    with False show ?thesis
      by (subst dec_nat.simps) (simp add: undec_append)
  qed
qed

lemma dec_nat_inj: "dec_nat m = dec_nat n \<longleftrightarrow> m = n"
  by (metis undec_dec_nat)

text \<open>
  \<^verbatim>\<open>strings.ToLower\<close>, as far as a comparison with an ASCII string can tell: besides the
  ASCII capitals only U+0130 and U+212A have an ASCII lower case letter.
\<close>

definition ascii_lower :: "char \<Rightarrow> char" where
  "ascii_lower c =
     (let n = (of_char c :: nat) in if 65 \<le> n \<and> n \<le> 90 then char_of (n + 32) else c)"

lemma ascii_lower_code [code]:
  "ascii_lower c = (let n = (of_char c :: int) in if 65 \<le> n \<and> n \<le> 90 then char_of (n + 32) else c)"
proof -
  have n: "(of_char c :: int) = int (of_char c)" by (simp add: of_nat_of_char)
  have "65 \<le> int (of_char c) \<longleftrightarrow> 65 \<le> (of_char c :: nat)" "int (of_char c) \<le> 90 \<longleftrightarrow> (of_char c :: nat) \<le> 90"
    by linarith+
  moreover have "(char_of (int (of_char c) + 32) :: char) = char_of ((of_char c :: nat) + 32)"
    by (metis char_of_nat of_nat_add of_nat_numeral)
  ultimately show ?thesis unfolding ascii_lower_def Let_def n by simp
qed

fun to_lower :: "string \<Rightarrow> string" where
  "to_lower [] = []"
| "to_lower (c # cs) =
     (if c = CHR 0xC4 \<and> take 1 cs = [CHR 0xB0] then CHR ''i'' # to_lower (drop 1 cs)
      else if c = CHR 0xE2 \<and> take 2 cs = [CHR 0x84, CHR 0xAA]
      then CHR ''k'' # to_lower (drop 2 cs)
      else ascii_lower c # to_lower cs)"

definition is_hex_digit :: "char \<Rightarrow> bool" where
  "is_hex_digit c \<longleftrightarrow> (let n = (of_char c :: nat) in
     (48 \<le> n \<and> n \<le> 57) \<or> (97 \<le> n \<and> n \<le> 102) \<or> (65 \<le> n \<and> n \<le> 70))"

definition is_alnum :: "char \<Rightarrow> bool" where
  "is_alnum c \<longleftrightarrow> (let n = (of_char c :: nat) in
     (48 \<le> n \<and> n \<le> 57) \<or> (97 \<le> n \<and> n \<le> 122) \<or> (65 \<le> n \<and> n \<le> 90))"

text \<open>\<^verbatim>\<open>strings.Join\<close> with a separator of one character.\<close>

fun join_with :: "char \<Rightarrow> string list \<Rightarrow> string" where
  "join_with c [] = []"
| "join_with c [w] = w"
| "join_with c (w # v # ws) = w @ c # join_with c (v # ws)"

lemma append_sep_inj:
  "c \<notin> set a \<Longrightarrow> c \<notin> set b \<Longrightarrow> a @ c # xs = b @ c # ys \<longleftrightarrow> a = b \<and> xs = ys"
proof (induction a arbitrary: b)
  case Nil
  then show ?case by (cases b) auto
next
  case (Cons x a)
  then show ?case by (cases b) auto
qed

lemma join_with_inj:
  "length vs = length ws \<Longrightarrow> \<forall>w \<in> set vs \<union> set ws. c \<notin> set w \<Longrightarrow>
     join_with c vs = join_with c ws \<longleftrightarrow> vs = ws"
proof (induction vs arbitrary: ws rule: join_with.induct)
  case (1 c)
  then show ?case by simp
next
  case (2 c w)
  then show ?case by (cases ws) auto
next
  case (3 c w v vs)
  then obtain w' v' ws' where ws: "ws = w' # v' # ws'" "length vs = length ws'"
    by (cases ws; cases "tl ws") auto
  with 3 show ?case by (simp add: append_sep_inj)
qed

section \<open>Association lists for Go maps\<close>

lemma length_update_le: "length (AList.update k v m) \<le> Suc (length m)"
  by (induction m) auto

lemma length_update_old: "map_of m k \<noteq> None \<Longrightarrow> length (AList.update k v m) = length m"
  by (induction m) (auto split: if_splits)

lemma length_update_new: "map_of m k = None \<Longrightarrow> length (AList.update k v m) = Suc (length m)"
  by (induction m) (auto split: if_splits)

lemma set_update_subset: "set (AList.update k v m) \<subseteq> insert (k, v) (set m)"
  by (induction m) auto

lemma list_all_update:
  "(\<And>k' v'. (k', v') \<in> set m \<Longrightarrow> P v') \<Longrightarrow> P v \<Longrightarrow> (k', v') \<in> set (AList.update k v m) \<Longrightarrow> P v'"
  using set_update_subset [of k v m] by auto

lemma distinct_filter_keys: "distinct (map fst m) \<Longrightarrow> distinct (map fst (filter P m))"
  by (induction m) auto

end
