(* ===== verification/OwnedBridges.thy ===== *)
theory OwnedBridges
  imports Prelude
begin

text \<open>
  The contract both bridge managers keep towards those who start a bridge: what the table holds for a stream is
  taken out by the owner of that very bridge only.
\<close>

locale owned_bridges =
  fixes bridge_at :: "'m \<Rightarrow> string \<Rightarrow> nat option" and stop_owned :: "string \<Rightarrow> nat \<Rightarrow> 'm \<Rightarrow> 'm"
  assumes stop_other_same: "bridge_at m s \<noteq> Some b \<Longrightarrow> stop_owned s b m = m"
    and stop_own: "bridge_at m s = Some b \<Longrightarrow> bridge_at (stop_owned s b m) s = None"
    and stop_rest: "bridge_at m s = Some b \<Longrightarrow> bridge_at m s' \<noteq> Some b \<Longrightarrow>
      bridge_at (stop_owned s b m) s' = bridge_at m s'"
begin

lemma stop_twice: "stop_owned s b (stop_owned s b m) = stop_owned s b m"
  by (cases "bridge_at m s = Some b") (simp_all add: stop_other_same stop_own)

lemma stop_fenced: "bridge_at m s = Some new \<Longrightarrow> b \<noteq> new \<Longrightarrow> bridge_at (stop_owned s' b m) s = Some new"
  using stop_rest [of m s' b s] stop_other_same [of m s' b] by (cases "bridge_at m s' = Some b") auto

text \<open>Any number of late stops by the owners of other bridges.\<close>

lemma stops_fenced:
  "bridge_at m s = Some new \<Longrightarrow> new \<notin> snd ` set stops \<Longrightarrow>
   bridge_at (foldl (\<lambda>m (s, b). stop_owned s b m) m stops) s = Some new"
proof (induction stops arbitrary: m)
  case Nil
  then show ?case by simp
next
  case (Cons x stops)
  obtain s' b where x: "x = (s', b)" by fastforce
  with Cons.prems have "bridge_at (stop_owned s' b m) s = Some new" by (intro stop_fenced) auto
  with Cons x show ?case by simp
qed

end

end
