(* ===== verification/AudioPcm.thy ===== *)
theory AudioPcm
  imports Prelude
begin

text \<open>
  The sample and packet level of \<^verbatim>\<open>internal/audioingest/manager.go\<close>: the PCM
  constants, the soft limiter that every mixed sample passes, the signal test,
  the RTP packet that carries one 20 ms frame to FFmpeg, and the frame clock
  that decides how many frames are due. \<open>int64\<close> values are integers with the
  wrap-around of the limiter's product written out; 16 and 32 bit fields are
  words.
\<close>

unbundle bit_operations_syntax

section \<open>Constants\<close>

definition audioRTPFrameInterval :: nanos where
  "audioRTPFrameInterval = 20 * millisecond"

definition audioRTPClockStep :: u32 where [simp]: "audioRTPClockStep = 960"
definition audioRTPPayloadType :: u8 where [simp]: "audioRTPPayloadType = 96"
definition audioRTPSSRC :: u32 where [simp]: "audioRTPSSRC = 0x41535452"
definition audioRTPQueueSize :: nat where [simp]: "audioRTPQueueSize = 2048"
definition audioSamplesPerFrame :: nat where [simp]: "audioSamplesPerFrame = 960"
definition audioChannels :: nat where [simp]: "audioChannels = 2"
definition audioPCMFrameSamples :: nat where [simp]: "audioPCMFrameSamples = 960 * 2"
definition audioPCMFrameBytes :: nat where [simp]: "audioPCMFrameBytes = 960 * 2 * 2"
definition audioMaxOpusFrameSamples :: nat where [simp]: "audioMaxOpusFrameSamples = 5760 * 2"
definition audioSpeakerQueueSize :: nat where [simp]: "audioSpeakerQueueSize = 100"
definition audioMaxTrackedSpeakers :: nat where [simp]: "audioMaxTrackedSpeakers = 24"
definition audioSpeakerIdleTimeout :: nanos where "audioSpeakerIdleTimeout = 30 * second"
definition audioMaxConcealmentFrames :: nat where [simp]: "audioMaxConcealmentFrames = 5"
definition audioMaxConcealmentPackets :: nat where [simp]: "audioMaxConcealmentPackets = 5"
definition audioSequenceHalfRange :: u16 where [simp]: "audioSequenceHalfRange = 32768"

lemma audioRTPFrameInterval_eq [simp]: "audioRTPFrameInterval = 20000000"
  by (simp add: audioRTPFrameInterval_def millisecond_def)

lemma audioSpeakerIdleTimeout_eq [simp]: "audioSpeakerIdleTimeout = 30000000000"
  by (simp add: audioSpeakerIdleTimeout_def second_def millisecond_def)

section \<open>The soft limiter\<close>

definition softLimitThreshold :: int where [simp]: "softLimitThreshold = 32767 * 15 div 16"
definition softLimitHeadroom :: int where [simp]: "softLimitHeadroom = 32767 - softLimitThreshold"

definition softLimitPCMSample :: "int \<Rightarrow> u16 \<times> bool" where
  "softLimitPCMSample value =
     (let sign = (if value < 0 then -1 else 1);
          magnitude = (if value < 0 then wrap64 (- value) else value)
      in if magnitude \<le> softLimitThreshold then (int16_of value, False)
         else let excess = magnitude - softLimitThreshold;
                  limited = softLimitThreshold
                    + go_div (wrap64 (softLimitHeadroom * excess)) (softLimitHeadroom + excess)
              in (int16_of (sign * limited), True))"

text \<open>The curve above the threshold, on a magnitude that does not overflow the product.\<close>

definition limit_curve :: "int \<Rightarrow> int" where
  "limit_curve m =
     (if m \<le> 30719 then m else 30719 + (2048 * (m - 30719)) div (2048 + (m - 30719)))"

lemma limit_quotient_bounds:
  "0 \<le> x \<Longrightarrow> 0 \<le> (2048 * x) div (2048 + x) \<and> (2048 * x) div (2048 + x) < (2048 :: int)"
proof
  assume x: "0 \<le> x"
  then show "0 \<le> (2048 * x) div (2048 + x)" by (simp add: pos_imp_zdiv_nonneg_iff)
  show "(2048 * x) div (2048 + x) < 2048"
    using x by (intro int_div_less) auto
qed

lemma limit_quotient_mono:
  assumes "0 \<le> x" and "x \<le> (y :: int)"
  shows "(2048 * x) div (2048 + x) \<le> (2048 * y) div (2048 + y)"
proof -
  define q where "q = (2048 * x) div (2048 + x)"
  have q: "0 \<le> q" "q < 2048"
    using limit_quotient_bounds [OF assms(1)] by (auto simp: q_def)
  have "q * (2048 + x) \<le> 2048 * x"
    unfolding q_def using assms(1) by (intro int_div_mult_le) simp
  then have "q * 2048 \<le> (2048 - q) * x" by (simp add: algebra_simps)
  also have "\<dots> \<le> (2048 - q) * y" using q assms(2) by (intro mult_left_mono) auto
  finally have "q * (2048 + y) \<le> 2048 * y" by (simp add: algebra_simps)
  then have "q \<le> (2048 * y) div (2048 + y)"
    using assms by (intro le_int_div) auto
  then show ?thesis by (simp add: q_def)
qed

lemma limit_curve_range: "0 \<le> m \<Longrightarrow> 0 \<le> limit_curve m \<and> limit_curve m \<le> 32766 \<or> m \<le> 30719 \<and> limit_curve m = m"
  using limit_quotient_bounds [of "m - 30719"] by (auto simp: limit_curve_def)

lemma limit_curve_le: "limit_curve m \<le> 32766"
  using limit_quotient_bounds [of "m - 30719"] by (auto simp: limit_curve_def)

lemma limit_curve_nonneg: "0 \<le> m \<Longrightarrow> 0 \<le> limit_curve m"
  using limit_quotient_bounds [of "m - 30719"] by (auto simp: limit_curve_def)

lemma limit_curve_mono: "m \<le> n \<Longrightarrow> limit_curve m \<le> limit_curve n"
  using limit_quotient_bounds [of "n - 30719"] limit_quotient_mono [of "m - 30719" "n - 30719"]
  by (auto simp: limit_curve_def)

text \<open>
  On the magnitudes where the product does not overflow (up to \<open>2 ^ 52\<close>) the
  limiter is the curve applied to the magnitude, with the sign put back.
\<close>

definition signed_limit :: "int \<Rightarrow> int" where
  "signed_limit v = (if v < 0 then - limit_curve (- v) else limit_curve v)"

lemma limit_product:
  "0 < e \<Longrightarrow> e < 2 ^ 52 \<Longrightarrow>
   go_div (wrap64 (2048 * e)) (2048 + e) = (2048 * e) div (2048 + e)"
  by (simp add: wrap64_id go_div_nonneg)

lemma softLimitPCMSample_eq:
  assumes "\<bar>v\<bar> \<le> 2 ^ 52"
  shows "softLimitPCMSample v = (int16_of (signed_limit v), 30719 < \<bar>v\<bar>)"
proof -
  define m where "m = \<bar>v\<bar>"
  have m: "(if v < 0 then wrap64 (- v) else v) = m"
    using assms by (auto simp: m_def wrap64_id)
  have curve: "softLimitThreshold + go_div (wrap64 (softLimitHeadroom * (m - softLimitThreshold)))
      (softLimitHeadroom + (m - softLimitThreshold)) = limit_curve m" if "\<not> m \<le> 30719"
    using limit_product [of "m - 30719"] that assms by (simp add: limit_curve_def m_def)
  show ?thesis
  proof (cases "m \<le> 30719")
    case True
    then have "signed_limit v = v"
      by (auto simp: signed_limit_def limit_curve_def m_def)
    with True show ?thesis
      unfolding softLimitPCMSample_def m by (simp add: m_def)
  next
    case False
    have "signed_limit v = (if v < 0 then -1 else 1) * limit_curve m"
      by (auto simp: signed_limit_def m_def)
    with False show ?thesis
      unfolding softLimitPCMSample_def m Let_def curve [OF False]
      by (simp add: m_def)
  qed
qed

lemma signed_limit_range: "\<bar>signed_limit v\<bar> \<le> 32766"
  using limit_curve_le [of v] limit_curve_le [of "- v"] limit_curve_nonneg [of v]
    limit_curve_nonneg [of "- v"]
  by (auto simp: signed_limit_def)

lemma signed_limit_mono: "v \<le> w \<Longrightarrow> signed_limit v \<le> signed_limit w"
  using limit_curve_mono [of v w] limit_curve_mono [of "- w" "- v"]
    limit_curve_nonneg [of w] limit_curve_nonneg [of "- v"]
  by (auto simp: signed_limit_def)

lemma sint_int16_of: "\<bar>v\<bar> < 2 ^ 15 \<Longrightarrow> sint (int16_of v) = v"
  unfolding int16_of_def
  by (simp add: signed_of_int signed_take_bit_int_eq_self)

definition pcmFrameHasSignal :: "u16 list \<Rightarrow> bool" where
  "pcmFrameHasSignal frame = (\<exists>sample \<in> set frame. sample \<noteq> 0)"

section \<open>The RTP packet\<close>

text \<open>\<^verbatim>\<open>binary.BigEndian.PutUint16\<close> and \<^verbatim>\<open>PutUint32\<close>.\<close>

definition be16 :: "u16 \<Rightarrow> u8 list" where
  "be16 w = [ucast (drop_bit 8 w), ucast w]"

definition be32 :: "u32 \<Rightarrow> u8 list" where
  "be32 w = [ucast (drop_bit 24 w), ucast (drop_bit 16 w), ucast (drop_bit 8 w), ucast w]"

definition buildRTPPacket :: "u16 \<Rightarrow> u32 \<Rightarrow> u8 list \<Rightarrow> u8 list" where
  "buildRTPPacket sequence timestamp payload =
     [0x80, audioRTPPayloadType] @ be16 sequence @ be32 timestamp @ be32 audioRTPSSRC @ payload"

text \<open>A receiver of the format (RFC 3550, fixed header, no extension), as the reference reader.\<close>

record rtp_header =
  rtp_version :: u8
  rtp_type :: u8
  rtp_sequence :: u16
  rtp_timestamp :: u32
  rtp_ssrc :: u32

definition read16 :: "u8 list \<Rightarrow> u16" where
  "read16 bs = (push_bit 8 (ucast (bs ! 0))) OR ucast (bs ! 1)"

definition read32 :: "u8 list \<Rightarrow> u32" where
  "read32 bs = push_bit 24 (ucast (bs ! 0)) OR push_bit 16 (ucast (bs ! 1))
     OR push_bit 8 (ucast (bs ! 2)) OR ucast (bs ! 3)"

definition parse_rtp :: "u8 list \<Rightarrow> (rtp_header \<times> u8 list) option" where
  "parse_rtp bs =
     (if length bs < 12 then None
      else Some (\<lparr>rtp_version = drop_bit 6 (bs ! 0), rtp_type = bs ! 1 AND 127,
                   rtp_sequence = read16 (drop 2 bs), rtp_timestamp = read32 (drop 4 bs),
                   rtp_ssrc = read32 (drop 8 bs)\<rparr>, drop 12 bs))"

lemma read16_be16: "read16 (be16 w @ r) = w"
  unfolding read16_def be16_def
  by (rule bit_word_eqI) (auto simp: bit_simps)

lemma read32_be32: "read32 (be32 w @ r) = w"
proof (rule bit_word_eqI)
  fix n
  assume "n < LENGTH(32)"
  then show "bit (read32 (be32 w @ r)) n = bit w n"
    by (cases "n < 8"; cases "n < 16"; cases "n < 24")
      (auto simp: read32_def be32_def bit_simps)
qed

lemma length_be [simp]: "length (be16 w) = 2" "length (be32 v) = 4"
  by (simp_all add: be16_def be32_def)

lemma length_buildRTPPacket [simp]: "length (buildRTPPacket s t p) = 12 + length p"
  by (simp add: buildRTPPacket_def)

section \<open>The frame clock\<close>

definition audioFramesDue :: "nanos \<Rightarrow> nanos \<Rightarrow> u64 \<Rightarrow> u64" where
  "audioFramesDue started now emitted =
     (if \<not> started < now then 0
      else let planned = word_of_int (go_div (time_sub now started) audioRTPFrameInterval)
           in if planned \<le> emitted then 0 else planned - emitted)"

text \<open>
  The loop variables of \<^verbatim>\<open>bridgeRecord.run\<close>: the RTP sequence and timestamp of the next
  packet and the number of frames emitted so far.
\<close>

record rtp_clock =
  clk_sequence :: u16
  clk_timestamp :: u32
  clk_emitted :: u64

definition clock_start :: rtp_clock where
  "clock_start = \<lparr>clk_sequence = 0, clk_timestamp = 0, clk_emitted = 0\<rparr>"

definition clock_step :: "rtp_clock \<Rightarrow> rtp_clock" where
  "clock_step c = \<lparr>clk_sequence = clk_sequence c + 1,
     clk_timestamp = clk_timestamp c + audioRTPClockStep, clk_emitted = clk_emitted c + 1\<rparr>"

definition frames_burst :: "nanos \<Rightarrow> nanos \<Rightarrow> rtp_clock \<Rightarrow> nat" where
  "frames_burst started now c = unat (min (audioFramesDue started now (clk_emitted c)) 8)"

definition clock_inv :: "rtp_clock \<Rightarrow> bool" where
  "clock_inv c \<longleftrightarrow> clk_sequence c = ucast (clk_emitted c) \<and> clk_timestamp c = 960 * ucast (clk_emitted c)"

lemma clock_inv_start: "clock_inv clock_start"
  by (simp add: clock_inv_def clock_start_def)

lemma ucast_Suc_narrow:
  "LENGTH('b::len) \<le> LENGTH('a::len) \<Longrightarrow> (ucast (w + 1 :: 'a word) :: 'b word) = ucast w + 1"
  by transfer (metis min.absorb1 take_bit_add take_bit_take_bit)

lemma clock_inv_step: "clock_inv c \<Longrightarrow> clock_inv (clock_step c)"
  by (simp add: clock_inv_def clock_step_def ucast_Suc_narrow distrib_left)

lemma clk_emitted_funpow: "clk_emitted ((clock_step ^^ n) c) = clk_emitted c + of_nat n"
  by (induction n) (auto simp: clock_step_def)

lemma clock_inv_funpow: "clock_inv c \<Longrightarrow> clock_inv ((clock_step ^^ n) c)"
  by (induction n) (auto intro: clock_inv_step)

text \<open>One timer tick emits the due frames, at most eight of them.\<close>

definition clock_tick :: "nanos \<Rightarrow> nanos \<Rightarrow> rtp_clock \<Rightarrow> rtp_clock" where
  "clock_tick started now c = (clock_step ^^ frames_burst started now c) c"

fun clock_run :: "nanos \<Rightarrow> nanos list \<Rightarrow> rtp_clock \<Rightarrow> rtp_clock" where
  "clock_run started [] c = c"
| "clock_run started (now # nows) c = clock_run started nows (clock_tick started now c)"

lemma clock_run_append:
  "clock_run started (xs @ ys) c = clock_run started ys (clock_run started xs c)"
  by (induction xs arbitrary: c) auto

lemma clock_inv_run: "clock_inv c \<Longrightarrow> clock_inv (clock_run started nows c)"
  by (induction nows arbitrary: c) (auto simp: clock_tick_def intro: clock_inv_funpow)

definition planned_frames :: "nanos \<Rightarrow> nanos \<Rightarrow> nat" where
  "planned_frames started now = nat ((now - started) div audioRTPFrameInterval)"

lemma planned_word:
  assumes "started < now" and "now - started < 2 ^ 63"
  shows "unat (word_of_int (go_div (time_sub now started) audioRTPFrameInterval) :: u64)
    = planned_frames started now"
proof -
  have "time_sub now started = now - started"
    using assms by (intro time_sub_small) auto
  moreover have "(now - started) div 20000000 < 2 ^ 63"
    using assms by (intro int_div_less) auto
  ultimately show ?thesis
    using assms
    by (simp add: planned_frames_def go_div_nonneg unsigned_of_int take_bit_int_eq_self
          pos_imp_zdiv_nonneg_iff nat_take_bit_eq)
qed

lemma unat_audioFramesDue:
  assumes "now - started < 2 ^ 63"
  shows "unat (audioFramesDue started now emitted)
    = (if started < now then planned_frames started now - unat emitted else 0)"
proof (cases "started < now")
  case True
  define p :: u64 where
    "p = word_of_int (go_div (time_sub now started) audioRTPFrameInterval)"
  have p: "unat p = planned_frames started now"
    unfolding p_def by (rule planned_word [OF True assms])
  have "audioFramesDue started now emitted = (if p \<le> emitted then 0 else p - emitted)"
    using True by (simp add: audioFramesDue_def p_def Let_def del: audioRTPFrameInterval_eq)
  with True p show ?thesis
    by (auto simp: word_le_nat_alt unat_sub)
next
  case False
  then show ?thesis by (simp add: audioFramesDue_def)
qed

lemma frames_burst_eq:
  assumes "now - started < 2 ^ 63"
  shows "frames_burst started now c
    = (if started < now then min (planned_frames started now - unat (clk_emitted c)) 8 else 0)"
  using unat_audioFramesDue [OF assms, of "clk_emitted c"]
  by (auto simp: frames_burst_def min_def word_le_nat_alt)

lemma planned_frames_bound:
  assumes "now - started < 2 ^ 63"
  shows "planned_frames started now < 2 ^ 63"
proof -
  have "(now - started) div 20000000 < 2 ^ 63"
    using assms by (intro int_div_less) auto
  then show ?thesis by (simp add: planned_frames_def)
qed

lemma planned_frames_mono:
  "now \<le> now' \<Longrightarrow> planned_frames started now \<le> planned_frames started now'"
  by (auto simp: planned_frames_def intro!: nat_mono zdiv_mono1)

lemma clock_tick_emitted:
  assumes "now - started < 2 ^ 63" and "unat (clk_emitted c) \<le> planned_frames started now"
  shows "unat (clk_emitted (clock_tick started now c))
    = (if started < now then min (planned_frames started now) (unat (clk_emitted c) + 8)
       else unat (clk_emitted c))"
proof -
  have "unat (clk_emitted c) + frames_burst started now c \<le> planned_frames started now"
    using assms by (auto simp: frames_burst_eq)
  moreover have "planned_frames started now < 2 ^ 64"
    using planned_frames_bound [OF assms(1)] by simp
  ultimately have "unat (clk_emitted c + of_nat (frames_burst started now c))
      = unat (clk_emitted c) + frames_burst started now c"
    by (simp add: unat_word_ariths unsigned_of_nat take_bit_nat_eq_self)
  with assms show ?thesis
    by (auto simp: clock_tick_def clk_emitted_funpow frames_burst_eq)
qed

lemma clock_run_paced:
  assumes "sorted (nows @ [now])" and "now - started < 2 ^ 63"
  shows "unat (clk_emitted (clock_run started nows clock_start)) \<le> planned_frames started now"
  using assms
proof (induction nows arbitrary: now rule: rev_induct)
  case Nil
  then show ?case by (simp add: clock_start_def)
next
  case (snoc x xs)
  from snoc.prems have x: "sorted (xs @ [x])" "x - started < 2 ^ 63" "x \<le> now"
    by (auto simp: sorted_append)
  let ?c = "clock_run started xs clock_start"
  from snoc.IH [OF x(1,2)] have IH: "unat (clk_emitted ?c) \<le> planned_frames started x" .
  from clock_tick_emitted [OF x(2) IH] IH planned_frames_mono [OF x(3), of started]
  show ?case by (auto simp: clock_run_append)
qed

section \<open>Properties\<close>

text \<open>
  The soft limiter keeps every sample inside the 16-bit range and never flips its
  sign; it is the identity up to 15/16 of full scale (and reports limiting exactly above
  it) and it is monotone, so louder input never comes out quieter.
\<close>

theorem soft_limiter_safe:
  assumes "\<bar>v\<bar> \<le> 2 ^ 52" and "\<bar>w\<bar> \<le> 2 ^ 52" and "v \<le> w"
  shows "\<bar>sint (fst (softLimitPCMSample v))\<bar> \<le> 32766
    \<and> (0 \<le> v \<longrightarrow> 0 \<le> sint (fst (softLimitPCMSample v)))
    \<and> (v \<le> 0 \<longrightarrow> sint (fst (softLimitPCMSample v)) \<le> 0)
    \<and> (snd (softLimitPCMSample v) \<longleftrightarrow> 30719 < \<bar>v\<bar>)
    \<and> (\<bar>v\<bar> \<le> 30719 \<longrightarrow> sint (fst (softLimitPCMSample v)) = v)
    \<and> sint (fst (softLimitPCMSample v)) \<le> sint (fst (softLimitPCMSample w))"
proof -
  have s: "sint (fst (softLimitPCMSample x)) = signed_limit x" if "\<bar>x\<bar> \<le> 2 ^ 52" for x
    using signed_limit_range [of x] that by (simp add: softLimitPCMSample_eq sint_int16_of)
  have "\<bar>v\<bar> \<le> 30719 \<Longrightarrow> signed_limit v = v"
    by (auto simp: signed_limit_def limit_curve_def)
  moreover have "0 \<le> v \<Longrightarrow> 0 \<le> signed_limit v" "v \<le> 0 \<Longrightarrow> signed_limit v \<le> 0"
    using signed_limit_mono [of 0 v] signed_limit_mono [of v 0]
    by (auto simp: signed_limit_def limit_curve_def)
  ultimately show ?thesis
    unfolding s [OF assms(1)] s [OF assms(2)]
    using signed_limit_range [of v] signed_limit_mono [OF assms(3)]
    by (auto simp: softLimitPCMSample_eq [OF assms(1)])
qed

theorem soft_limiter_safe_witness:
  "sint (fst (softLimitPCMSample (- 40000))) \<le> sint (fst (softLimitPCMSample 786432))
   \<and> \<bar>sint (fst (softLimitPCMSample (- 40000)))\<bar> \<le> 32766"
  using soft_limiter_safe [of "- 40000" 786432] by (auto simp: abs_le_iff)

lemma parse_buildRTPPacket:
  "parse_rtp (buildRTPPacket s t p) =
     Some (\<lparr>rtp_version = 2, rtp_type = 96, rtp_sequence = s, rtp_timestamp = t,
            rtp_ssrc = 0x41535452\<rparr>, p)"
proof -
  define r where "r = be32 audioRTPSSRC @ p"
  have b: "buildRTPPacket s t p = [0x80, 96] @ be16 s @ be32 t @ r"
    by (simp add: buildRTPPacket_def r_def)
  have "drop 2 (buildRTPPacket s t p) = be16 s @ be32 t @ r"
    "drop 4 (buildRTPPacket s t p) = be32 t @ r"
    "drop 8 (buildRTPPacket s t p) = be32 audioRTPSSRC @ p"
    "drop 12 (buildRTPPacket s t p) = p"
    unfolding b by (simp_all add: be16_def be32_def r_def)
  then have "read16 (drop 2 (buildRTPPacket s t p)) = s"
    "read32 (drop 4 (buildRTPPacket s t p)) = t"
    "read32 (drop 8 (buildRTPPacket s t p)) = audioRTPSSRC"
    "drop 12 (buildRTPPacket s t p) = p"
    by (simp_all only: read16_be16 read32_be32)
  moreover have "buildRTPPacket s t p ! 0 = 0x80" "buildRTPPacket s t p ! 1 = 96"
    by (simp_all add: b)
  ultimately show ?thesis
    by (simp add: parse_rtp_def)
qed

text \<open>
  Every packet the bridge sends is a well-formed RTP packet that a receiver reads back
  exactly: version 2, payload type 96, the fixed SSRC, the 16-bit sequence, the 32-bit
  timestamp and the payload, after a 12-byte header.
\<close>

theorem rtp_packet_roundtrip:
  "parse_rtp (buildRTPPacket s t p) =
     Some (\<lparr>rtp_version = 2, rtp_type = 96, rtp_sequence = s, rtp_timestamp = t,
            rtp_ssrc = 0x41535452\<rparr>, p)
   \<and> length (buildRTPPacket s t p) = 12 + length p"
  by (simp add: parse_buildRTPPacket)

text \<open>
  Over any run of timer ticks with times that do not go back, the RTP sequence and
  timestamp are the emitted frame count modulo \<open>2 ^ 16\<close> and 960 times it modulo
  \<open>2 ^ 32\<close>; the bridge is never ahead of real time; and each tick emits every frame that
  is due, up to eight.
\<close>

theorem rtp_clock_paced:
  assumes "sorted (nows @ [now])" and "now - started < 2 ^ 63"
  shows "let c = clock_run started nows clock_start; c' = clock_tick started now c in
    clk_sequence c' = ucast (clk_emitted c')
    \<and> clk_timestamp c' = 960 * ucast (clk_emitted c')
    \<and> unat (clk_emitted c') \<le> planned_frames started now
    \<and> unat (clk_emitted c')
        = (if started < now then min (planned_frames started now) (unat (clk_emitted c) + 8)
           else unat (clk_emitted c))"
proof -
  let ?c = "clock_run started nows clock_start"
  have le: "unat (clk_emitted ?c) \<le> planned_frames started now"
    by (rule clock_run_paced [OF assms])
  have "clock_inv (clock_tick started now ?c)"
    by (simp add: clock_tick_def clock_inv_funpow clock_inv_run clock_inv_start)
  with clock_tick_emitted [OF assms(2) le] le show ?thesis
    by (auto simp: Let_def clock_inv_def)
qed

theorem rtp_clock_paced_witness:
  "unat (clk_emitted (clock_tick 0 61000000 (clock_run 0 [20000000, 41000000] clock_start))) \<le> 3"
  using rtp_clock_paced [of "[20000000, 41000000]" 61000000 0]
  by (simp add: Let_def planned_frames_def)

end
