(* ===== verification/AudioSpeaker.thy ===== *)
theory AudioSpeaker
  imports AudioPcm "HOL-Library.Multiset" "HOL-Library.Sublist"
begin

text \<open>
  The per-speaker jitter queue, decoder and mixer of
  \<^verbatim>\<open>internal/audioingest/manager.go\<close>: \<^verbatim>\<open>queueSpeakerPacket\<close>,
  \<^verbatim>\<open>evictIdleSpeakers\<close>, \<^verbatim>\<open>popNextSpeakerPacket\<close>,
  \<^verbatim>\<open>appendPacketLossConcealment\<close>, \<^verbatim>\<open>nextSpeakerFrame\<close> and
  \<^verbatim>\<open>mixFrame\<close>.

  The Opus decoder is a third-party package: its constructor (the result of the
  \<open>n\<close>-th call) and its decode function (the decoder after the call, the samples per
  channel or an error, and the samples written into the output buffer) are the
  record \<open>opus_api\<close>, an argument of every operation that decodes. The float64
  arithmetic of the mixer (the scale of the frame and the scaled, rounded
  samples) is the record \<open>mixer_api\<close>; what is proved holds for every such
  function. The Go map of speakers is an association list with distinct keys. A read
  of the first byte of an empty Opus packet, which would panic in Go, sets the flag
  \<open>panicked\<close>; the invariant below shows that it is never set.
\<close>

section \<open>State\<close>

record queuedOpusPacket =
  q_ssrc :: u32
  q_sequence :: u16
  q_timestamp :: u32
  q_opus :: "u8 list"

record 'd opus_api =
  opus_new :: "nat \<Rightarrow> 'd option"
  opus_decode :: "'d \<Rightarrow> u8 list \<Rightarrow> 'd \<times> int option \<times> (nat \<Rightarrow> u16)"

record 's mixer_api =
  mix_unit :: 's
  mix_scale :: "'s \<Rightarrow> nat \<Rightarrow> int list \<Rightarrow> (nat \<Rightarrow> int) \<times> bool \<times> 's"

record 'd speakerDecoder =
  decoder :: 'd
  queue :: "queuedOpusPacket list"
  pcm :: "u16 list"
  lastSeen :: nanos
  expectedSequence :: u16
  hasSequence :: bool
  lastTOC :: u8
  hasLastTOC :: bool

text \<open>The atomic counters of \<^verbatim>\<open>bridgeRecord\<close>, and how often the decoder factory was called.\<close>

record bridge_counters =
  trackedSpeakers :: int
  mixedFramesTotal :: int
  decodeErrorsTotal :: int
  queueDropsTotal :: int
  speakerLimitDropsTotal :: int
  clippingPreventedTotal :: int
  sequenceGapEventsTotal :: int
  missingPacketsTotal :: int
  concealedFramesTotal :: int
  latePacketsDroppedTotal :: int
  decoderResetsTotal :: int
  factoryCalls :: nat
  panicked :: bool

definition zero_counters :: bridge_counters where
  "zero_counters = \<lparr>trackedSpeakers = 0, mixedFramesTotal = 0, decodeErrorsTotal = 0,
     queueDropsTotal = 0, speakerLimitDropsTotal = 0, clippingPreventedTotal = 0,
     sequenceGapEventsTotal = 0, missingPacketsTotal = 0, concealedFramesTotal = 0,
     latePacketsDroppedTotal = 0, decoderResetsTotal = 0, factoryCalls = 0, panicked = False\<rparr>"

type_synonym 'd speakers = "(u32 \<times> 'd speakerDecoder) list"

section \<open>Queueing and eviction\<close>

definition evictIdleSpeakers ::
  "'d speakers \<Rightarrow> nanos \<Rightarrow> bridge_counters \<Rightarrow> 'd speakers \<times> bridge_counters" where
  "evictIdleSpeakers speakers now r =
     (let speakers' = filter (\<lambda>(ssrc, speaker).
            \<not> (queue speaker = [] \<and> pcm speaker = []
               \<and> audioSpeakerIdleTimeout \<le> time_sub now (lastSeen speaker))) speakers
      in (speakers', r\<lparr>trackedSpeakers := int (length speakers')\<rparr>))"

definition new_speaker :: "'d \<Rightarrow> 'd speakerDecoder" where
  "new_speaker d = \<lparr>decoder = d, queue = [], pcm = [], lastSeen = 0, expectedSequence = 0,
     hasSequence = False, lastTOC = 0, hasLastTOC = False\<rparr>"

text \<open>The part of \<^verbatim>\<open>queueSpeakerPacket\<close> after the speaker was found or made.\<close>

definition push_packet ::
  "'d speakerDecoder \<Rightarrow> queuedOpusPacket \<Rightarrow> nanos \<Rightarrow> bridge_counters
    \<Rightarrow> 'd speakerDecoder \<times> bridge_counters" where
  "push_packet speaker packet now r =
     (let speaker = speaker\<lparr>lastSeen := now\<rparr>
      in if audioSpeakerQueueSize \<le> length (queue speaker)
         then let dropped = length (queue speaker) - audioSpeakerQueueSize + 1
              in (speaker\<lparr>queue := drop dropped (queue speaker) @ [packet]\<rparr>,
                  r\<lparr>queueDropsTotal := queueDropsTotal r + int dropped\<rparr>)
         else (speaker\<lparr>queue := queue speaker @ [packet]\<rparr>, r))"

definition queueSpeakerPacket ::
  "'d opus_api \<Rightarrow> 'd speakers \<Rightarrow> queuedOpusPacket \<Rightarrow> nanos \<Rightarrow> bridge_counters
    \<Rightarrow> 'd speakers \<times> bridge_counters" where
  "queueSpeakerPacket api speakers packet now r =
     (let (speakers, r) = evictIdleSpeakers speakers now r
      in case map_of speakers (q_ssrc packet) of
           Some speaker \<Rightarrow>
             let (speaker, r) = push_packet speaker packet now r
             in (AList.update (q_ssrc packet) speaker speakers, r)
         | None \<Rightarrow>
             if audioMaxTrackedSpeakers \<le> length speakers
             then (speakers, r\<lparr>speakerLimitDropsTotal := speakerLimitDropsTotal r + 1\<rparr>)
             else case opus_new api (factoryCalls r) of
                    None \<Rightarrow> (speakers, r\<lparr>decodeErrorsTotal := decodeErrorsTotal r + 1,
                                       factoryCalls := Suc (factoryCalls r)\<rparr>)
                  | Some d \<Rightarrow>
                      let r = r\<lparr>factoryCalls := Suc (factoryCalls r),
                               trackedSpeakers := int (Suc (length speakers))\<rparr>;
                          (speaker, r) = push_packet (new_speaker d) packet now r
                      in (AList.update (q_ssrc packet) speaker speakers, r))"

section \<open>Choosing the next packet\<close>

definition seq_distance :: "u16 \<Rightarrow> queuedOpusPacket \<Rightarrow> u16" where
  "seq_distance expected packet = q_sequence packet - expected"

definition is_late :: "u16 \<Rightarrow> queuedOpusPacket \<Rightarrow> bool" where
  "is_late expected packet \<longleftrightarrow> audioSequenceHalfRange \<le> seq_distance expected packet"

text \<open>The first loop of \<^verbatim>\<open>popNextSpeakerPacket\<close>: best index and distance, and the late packets.\<close>

fun scan_queue ::
  "u16 \<Rightarrow> nat \<Rightarrow> queuedOpusPacket list \<Rightarrow> (nat \<times> u16) option \<Rightarrow> nat \<Rightarrow> (nat \<times> u16) option \<times> nat" where
  "scan_queue e index [] best late = (best, late)"
| "scan_queue e index (packet # packets) best late =
     (if is_late e packet then scan_queue e (Suc index) packets best (Suc late)
      else case best of
             None \<Rightarrow> scan_queue e (Suc index) packets (Some (index, seq_distance e packet)) late
           | Some (bestIndex, bestDistance) \<Rightarrow>
               if seq_distance e packet < bestDistance
               then scan_queue e (Suc index) packets (Some (index, seq_distance e packet)) late
               else scan_queue e (Suc index) packets best late)"

text \<open>The second loop: compact the queue without the chosen and the late packets.\<close>

fun keep_queue :: "u16 \<Rightarrow> nat \<Rightarrow> nat \<Rightarrow> queuedOpusPacket list \<Rightarrow> queuedOpusPacket list" where
  "keep_queue e bestIndex index [] = []"
| "keep_queue e bestIndex index (queued # rest) =
     (if index = bestIndex \<or> is_late e queued then keep_queue e bestIndex (Suc index) rest
      else queued # keep_queue e bestIndex (Suc index) rest)"

definition popNextSpeakerPacket ::
  "'d speakerDecoder \<Rightarrow> bridge_counters
    \<Rightarrow> queuedOpusPacket option \<times> 'd speakerDecoder \<times> bridge_counters" where
  "popNextSpeakerPacket speaker r =
     (if queue speaker = [] then (None, speaker, r)
      else if \<not> hasSequence speaker
      then (Some (hd (queue speaker)), speaker\<lparr>queue := tl (queue speaker)\<rparr>, r)
      else
        let (best, latePackets) = scan_queue (expectedSequence speaker) 0 (queue speaker) None 0;
            r = (if 0 < latePackets
                 then r\<lparr>latePacketsDroppedTotal := latePacketsDroppedTotal r + int latePackets\<rparr>
                 else r)
        in case best of
             None \<Rightarrow> (None, speaker\<lparr>queue := []\<rparr>, r)
           | Some (bestIndex, _) \<Rightarrow>
               (Some (queue speaker ! bestIndex),
                speaker\<lparr>queue := keep_queue (expectedSequence speaker) bestIndex 0 (queue speaker)\<rparr>,
                r))"

lemma length_keep_queue: "length (keep_queue e b i q) \<le> length q"
  by (induction q arbitrary: i) (auto simp: le_SucI)

lemma length_keep_queue_less:
  "i \<le> b \<Longrightarrow> b < i + length q \<Longrightarrow> length (keep_queue e b i q) < length q"
proof (induction q arbitrary: i)
  case Nil
  then show ?case by simp
next
  case (Cons p q)
  show ?case
    using Cons.prems Cons.IH [of "Suc i"] length_keep_queue [of e b "Suc i" q]
    by (cases "i = b") auto
qed

lemma scan_queue_late:
  "snd (scan_queue e i q best late) = late + length (filter (is_late e) q)"
  by (induction q arbitrary: i best late) (auto split: option.splits prod.splits)

lemma scan_queue_index:
  "fst (scan_queue e i q best late) = Some (b, d) \<Longrightarrow>
     best = Some (b, d) \<or> (i \<le> b \<and> b < i + length q \<and> d = seq_distance e (q ! (b - i))
       \<and> \<not> is_late e (q ! (b - i)))"
proof (induction q arbitrary: i best late)
  case Nil
  then show ?case by simp
next
  case (Cons p q)
  have lift: "(Suc i \<le> b \<and> b < Suc i + length q \<and> d = seq_distance e (q ! (b - Suc i))
      \<and> \<not> is_late e (q ! (b - Suc i))) \<Longrightarrow>
    (i \<le> b \<and> b < i + length (p # q) \<and> d = seq_distance e ((p # q) ! (b - i))
      \<and> \<not> is_late e ((p # q) ! (b - i)))"
    by (auto simp: Suc_le_eq nth_Cons' Suc_diff_Suc)
  show ?case
    using Cons.prems Cons.IH lift
    by (force split: if_splits option.splits prod.splits)
qed

lemma popNextSpeakerPacket_shorter:
  assumes "popNextSpeakerPacket speaker r = (Some p, speaker', r')"
  shows "length (queue speaker') < length (queue speaker)"
proof (cases "queue speaker = [] \<or> \<not> hasSequence speaker")
  case True
  with assms show ?thesis by (auto simp: popNextSpeakerPacket_def split: if_splits)
next
  case False
  obtain best late where s: "scan_queue (expectedSequence speaker) 0 (queue speaker) None 0 = (best, late)"
    by fastforce
  with False assms obtain b d where "best = Some (b, d)"
    and q: "queue speaker' = keep_queue (expectedSequence speaker) b 0 (queue speaker)"
    by (auto simp: popNextSpeakerPacket_def Let_def split: option.splits)
  with scan_queue_index [of "expectedSequence speaker" 0 "queue speaker" None 0 b d] s
  have "b < length (queue speaker)" by auto
  with q show ?thesis by (simp add: length_keep_queue_less)
qed

section \<open>Loss concealment and decoding\<close>

text \<open>What one concealment packet contributes: samples per channel, and the decoded samples if any.\<close>

definition plc_frame ::
  "'d opus_api \<Rightarrow> 'd speakerDecoder \<Rightarrow> bridge_counters
    \<Rightarrow> nat \<times> (nat \<Rightarrow> u16) \<times> 'd speakerDecoder \<times> bridge_counters" where
  "plc_frame api speaker r =
     (if hasLastTOC speaker
      then let (d, res, out) = opus_decode api (decoder speaker) [lastTOC speaker AND NOT 3];
               speaker = speaker\<lparr>decoder := d\<rparr>
           in case res of
                Some n \<Rightarrow>
                  if 0 < n \<and> n * int audioChannels \<le> int audioMaxOpusFrameSamples
                  then (nat n, out, speaker, r)
                  else (audioSamplesPerFrame, \<lambda>_. 0, speaker,
                        r\<lparr>decodeErrorsTotal := decodeErrorsTotal r + 1\<rparr>)
              | None \<Rightarrow> (audioSamplesPerFrame, \<lambda>_. 0, speaker,
                         r\<lparr>decodeErrorsTotal := decodeErrorsTotal r + 1\<rparr>)
      else (audioSamplesPerFrame, \<lambda>_. 0, speaker, r))"

fun plc_loop ::
  "'d opus_api \<Rightarrow> nat \<Rightarrow> nat \<Rightarrow> nat \<Rightarrow> 'd speakerDecoder \<Rightarrow> bridge_counters
    \<Rightarrow> nat \<times> 'd speakerDecoder \<times> bridge_counters" where
  "plc_loop api 0 remaining concealed speaker r = (concealed, speaker, r)"
| "plc_loop api (Suc k) remaining concealed speaker r =
     (if remaining = 0 then (concealed, speaker, r)
      else let (n, out, speaker, r) = plc_frame api speaker r;
               samples = min n remaining;
               speaker = speaker\<lparr>pcm := pcm speaker @ map out [0 ..< samples * audioChannels]\<rparr>
           in plc_loop api k (remaining - samples) (concealed + samples) speaker r)"

definition appendPacketLossConcealment ::
  "'d opus_api \<Rightarrow> 'd speakerDecoder \<Rightarrow> nat \<Rightarrow> bridge_counters
    \<Rightarrow> 'd speakerDecoder \<times> bridge_counters" where
  "appendPacketLossConcealment api speaker missingPackets r =
     (let (concealed, speaker, r) =
            plc_loop api (min missingPackets audioMaxConcealmentPackets)
              (audioMaxConcealmentFrames * audioSamplesPerFrame) 0 speaker r;
          concealedFrames = (concealed + audioSamplesPerFrame - 1) div audioSamplesPerFrame
      in (speaker,
          if 0 < concealedFrames
          then r\<lparr>concealedFramesTotal := concealedFramesTotal r + int concealedFrames\<rparr> else r))"

definition note_gap ::
  "'d opus_api \<Rightarrow> queuedOpusPacket \<Rightarrow> 'd speakerDecoder \<Rightarrow> bridge_counters
    \<Rightarrow> 'd speakerDecoder \<times> bridge_counters" where
  "note_gap api packet speaker r =
     (if hasSequence speaker
      then let missing = unat (seq_distance (expectedSequence speaker) packet)
           in if 0 < missing
              then appendPacketLossConcealment api speaker missing
                     (r\<lparr>sequenceGapEventsTotal := sequenceGapEventsTotal r + 1,
                        missingPacketsTotal := missingPacketsTotal r + int missing\<rparr>)
              else (speaker, r)
      else (speaker, r))"

definition decode_failed ::
  "'d opus_api \<Rightarrow> 'd speakerDecoder \<Rightarrow> bridge_counters
    \<Rightarrow> 'd speakerDecoder \<times> bridge_counters" where
  "decode_failed api speaker r =
     (let r = r\<lparr>decodeErrorsTotal := decodeErrorsTotal r + 1\<rparr>;
          (speaker, r) =
            (case opus_new api (factoryCalls r) of
               Some d \<Rightarrow> (speaker\<lparr>decoder := d\<rparr>, r\<lparr>decoderResetsTotal := decoderResetsTotal r + 1\<rparr>)
             | None \<Rightarrow> (speaker, r\<lparr>decodeErrorsTotal := decodeErrorsTotal r + 1\<rparr>))
      in (speaker\<lparr>hasSequence := False, hasLastTOC := False\<rparr>,
          r\<lparr>factoryCalls := Suc (factoryCalls r)\<rparr>))"

definition decode_packet ::
  "'d opus_api \<Rightarrow> queuedOpusPacket \<Rightarrow> 'd speakerDecoder \<Rightarrow> bridge_counters
    \<Rightarrow> 'd speakerDecoder \<times> bridge_counters" where
  "decode_packet api packet speaker r =
     (let (d, res, out) = opus_decode api (decoder speaker) (q_opus packet);
          speaker = speaker\<lparr>decoder := d\<rparr>
      in case res of
           None \<Rightarrow> decode_failed api speaker r
         | Some n \<Rightarrow>
             if n \<le> 0 \<or> int audioMaxOpusFrameSamples < n * int audioChannels
             then decode_failed api speaker r
             else (speaker\<lparr>expectedSequence := q_sequence packet + 1, hasSequence := True,
                           lastTOC := (case q_opus packet of [] \<Rightarrow> 0 | toc # _ \<Rightarrow> toc),
                           hasLastTOC := True,
                           pcm := pcm speaker @ map out [0 ..< nat n * audioChannels]\<rparr>,
                   if q_opus packet = [] then r\<lparr>panicked := True\<rparr> else r))"

lemma queue_plc_frame [simp]:
  "plc_frame api speaker r = (n, out, speaker', r') \<Longrightarrow> queue speaker' = queue speaker"
  by (auto simp: plc_frame_def Let_def split: if_splits prod.splits option.splits)

lemma queue_plc_loop:
  "plc_loop api k rem c speaker r = (c', speaker', r') \<Longrightarrow> queue speaker' = queue speaker"
  by (induction k arbitrary: rem c speaker r) (auto simp: Let_def split: if_splits prod.splits)

lemma queue_append_plc:
  "queue (fst (appendPacketLossConcealment api speaker m r)) = queue speaker"
  by (auto simp: appendPacketLossConcealment_def Let_def dest: queue_plc_loop split: prod.splits)

lemma queue_note_gap [simp]: "queue (fst (note_gap api packet speaker r)) = queue speaker"
  by (simp add: note_gap_def queue_append_plc Let_def)

lemma queue_decode_failed [simp]: "queue (fst (decode_failed api speaker r)) = queue speaker"
  by (simp add: decode_failed_def Let_def split: option.splits)

lemma queue_decode_packet [simp]: "queue (fst (decode_packet api packet speaker r)) = queue speaker"
  by (simp add: decode_packet_def Let_def split: option.splits prod.splits)

text \<open>
  The body of the loop of \<^verbatim>\<open>nextSpeakerFrame\<close>: pop, conceal, decode. The flag is False
  for the \<^verbatim>\<open>break\<close>, when no packet was left to pop.
\<close>

definition decode_next ::
  "'d opus_api \<Rightarrow> 'd speakerDecoder \<Rightarrow> bridge_counters
    \<Rightarrow> bool \<times> 'd speakerDecoder \<times> bridge_counters" where
  "decode_next api speaker r =
     (case popNextSpeakerPacket speaker r of
        (None, speaker, r) \<Rightarrow> (False, speaker, r)
      | (Some packet, speaker, r) \<Rightarrow>
          let (speaker, r) = note_gap api packet speaker r;
              (speaker, r) = decode_packet api packet speaker r
          in (True, speaker, r))"

lemma decode_next_shorter:
  assumes "decode_next api speaker r = (True, speaker', r')"
  shows "length (queue speaker') < length (queue speaker)"
proof -
  from assms obtain packet s1 r1 where
    pop: "popNextSpeakerPacket speaker r = (Some packet, s1, r1)"
    and s': "speaker' = fst (decode_packet api packet (fst (note_gap api packet s1 r1))
                           (snd (note_gap api packet s1 r1)))"
    by (auto simp: decode_next_def Let_def split: prod.splits option.splits)
  have "queue speaker' = queue s1"
    unfolding s' by simp
  with popNextSpeakerPacket_shorter [OF pop] show ?thesis by simp
qed

text \<open>The loop: decode until a frame is buffered or the queue is used up.\<close>

function fill_pcm ::
  "'d opus_api \<Rightarrow> 'd speakerDecoder \<Rightarrow> bridge_counters \<Rightarrow> 'd speakerDecoder \<times> bridge_counters" where
  "fill_pcm api speaker r =
     (if length (pcm speaker) < audioPCMFrameSamples \<and> queue speaker \<noteq> []
      then let (continue, speaker, r) = decode_next api speaker r
           in if continue then fill_pcm api speaker r else (speaker, r)
      else (speaker, r))"
  by pat_completeness auto
termination
  by (relation "measure (\<lambda>(api, speaker, r). length (queue speaker))")
    (auto dest: decode_next_shorter [OF sym])

declare fill_pcm.simps [simp del]

definition nextSpeakerFrame ::
  "'d opus_api \<Rightarrow> 'd speakerDecoder \<Rightarrow> bridge_counters
    \<Rightarrow> u16 list option \<times> 'd speakerDecoder \<times> bridge_counters" where
  "nextSpeakerFrame api speaker r =
     (let (speaker, r) = fill_pcm api speaker r
      in if pcm speaker = [] then (None, speaker, r)
         else let count = min (length (pcm speaker)) audioPCMFrameSamples
              in (Some (take count (pcm speaker) @ replicate (audioPCMFrameSamples - count) 0),
                  speaker\<lparr>pcm := drop count (pcm speaker)\<rparr>, r))"

section \<open>Mixing\<close>

definition pcmSilenceFrame :: "u8 list" where
  "pcmSilenceFrame = replicate audioPCMFrameBytes 0"

text \<open>The loop of \<^verbatim>\<open>mixFrame\<close> over the speakers in the order of their SSRC.\<close>

fun mix_speakers ::
  "'d opus_api \<Rightarrow> u32 list \<Rightarrow> 'd speakers \<Rightarrow> int list \<Rightarrow> nat \<Rightarrow> bridge_counters
    \<Rightarrow> 'd speakers \<times> int list \<times> nat \<times> bridge_counters" where
  "mix_speakers api [] speakers mixed contributors r = (speakers, mixed, contributors, r)"
| "mix_speakers api (ssrc # ssrcs) speakers mixed contributors r =
     (case map_of speakers ssrc of
        None \<Rightarrow> mix_speakers api ssrcs speakers mixed contributors r
      | Some speaker \<Rightarrow>
          let (frame, speaker, r) = nextSpeakerFrame api speaker r;
              speakers = AList.update ssrc speaker speakers
          in case frame of
               None \<Rightarrow> mix_speakers api ssrcs speakers mixed contributors r
             | Some samples \<Rightarrow>
                 if \<not> pcmFrameHasSignal samples
                 then mix_speakers api ssrcs speakers mixed contributors r
                 else mix_speakers api ssrcs speakers (map2 (\<lambda>m s. m + sint s) mixed samples)
                        (Suc contributors) r)"

text \<open>
  \<^verbatim>\<open>mixFrame\<close>: \<open>scale\<close> is the pair of fields \<^verbatim>\<open>mixScale\<close> and
  \<^verbatim>\<open>mixScaleInitialized\<close>. The scaler gives the rounded scaled sample at each
  index, whether the peak made it lower the scale, and the new fields.
\<close>

definition mixFrame ::
  "'d opus_api \<Rightarrow> 's mixer_api \<Rightarrow> 'd speakers \<Rightarrow> nanos \<Rightarrow> 's \<Rightarrow> bridge_counters
    \<Rightarrow> u8 list \<times> 'd speakers \<times> 's \<times> bridge_counters" where
  "mixFrame api mixer speakers now scale r =
     (let (speakers, r) = evictIdleSpeakers speakers now r;
          (speakers, mixed, contributors, r) =
            mix_speakers api (sort (map fst speakers)) speakers
              (replicate audioPCMFrameSamples 0) 0 r
      in if contributors = 0 then (pcmSilenceFrame, speakers, mix_unit mixer, r)
         else let r = r\<lparr>mixedFramesTotal := mixedFramesTotal r + 1\<rparr>;
                  (value, peak_clipped, scale) = mix_scale mixer scale contributors mixed;
                  limited = map (\<lambda>i. softLimitPCMSample (value i)) [0 ..< length mixed];
                  payload = concat (map (\<lambda>p. be16 (fst p)) limited);
                  clippingPrevented = (peak_clipped \<or> (\<exists>p \<in> set limited. snd p))
              in (payload, speakers, scale,
                  if clippingPrevented
                  then r\<lparr>clippingPreventedTotal := clippingPreventedTotal r + 1\<rparr> else r))"

section \<open>The well-formedness of the speaker table\<close>

definition speaker_wf :: "'d speakerDecoder \<Rightarrow> bool" where
  "speaker_wf s \<longleftrightarrow> length (queue s) \<le> 100 \<and> (\<forall>p \<in> set (queue s). q_opus p \<noteq> [])
     \<and> length (pcm s) \<le> 21119"

definition speakers_wf :: "'d speakers \<Rightarrow> bool" where
  "speakers_wf sp \<longleftrightarrow> distinct (map fst sp) \<and> length sp \<le> 24 \<and> (\<forall>(k, s) \<in> set sp. speaker_wf s)"

lemma speakers_wf_lookup: "speakers_wf sp \<Longrightarrow> map_of sp k = Some s \<Longrightarrow> speaker_wf s"
  by (auto simp: speakers_wf_def dest: map_of_SomeD)

lemma speakers_wf_filter: "speakers_wf sp \<Longrightarrow> speakers_wf (filter P sp)"
  by (auto simp: speakers_wf_def distinct_filter_keys intro: le_trans [OF length_filter_le])

lemma speakers_wf_update_old:
  "speakers_wf sp \<Longrightarrow> map_of sp k = Some s \<Longrightarrow> speaker_wf s' \<Longrightarrow> speakers_wf (AList.update k s' sp)"
  using set_update_subset [of k s' sp]
  by (fastforce simp: speakers_wf_def length_update_old distinct_update)

lemma speakers_wf_update_new:
  "speakers_wf sp \<Longrightarrow> length sp < 24 \<Longrightarrow> speaker_wf s' \<Longrightarrow> speakers_wf (AList.update k s' sp)"
  using set_update_subset [of k s' sp] length_update_le [of k s' sp]
  by (fastforce simp: speakers_wf_def distinct_update)

lemma speakers_wf_evict: "speakers_wf sp \<Longrightarrow> speakers_wf (fst (evictIdleSpeakers sp now r))"
  by (simp add: evictIdleSpeakers_def speakers_wf_filter Let_def)

lemma push_packet_wf:
  "speaker_wf s \<Longrightarrow> q_opus p \<noteq> [] \<Longrightarrow> speaker_wf (fst (push_packet s p now r))"
  by (auto simp: push_packet_def speaker_wf_def Let_def dest: in_set_dropD)

lemma new_speaker_wf: "speaker_wf (new_speaker d)"
  by (simp add: new_speaker_def speaker_wf_def)

lemma queueSpeakerPacket_wf:
  assumes "speakers_wf sp" and "q_opus p \<noteq> []"
  shows "speakers_wf (fst (queueSpeakerPacket api sp p now r))"
proof -
  obtain sp1 r1 where e: "evictIdleSpeakers sp now r = (sp1, r1)" by fastforce
  with speakers_wf_evict [OF assms(1), of now r] have wf: "speakers_wf sp1" by simp
  show ?thesis
  proof (cases "map_of sp1 (q_ssrc p)")
    case None
    show ?thesis
      using None wf push_packet_wf [OF new_speaker_wf assms(2)]
      by (auto simp: queueSpeakerPacket_def e Let_def split_beta split: option.splits
            intro!: speakers_wf_update_new)
  next
    case (Some s)
    with speakers_wf_lookup [OF wf] have "speaker_wf (fst (push_packet s p now r1))"
      by (simp add: push_packet_wf assms(2))
    with Some wf show ?thesis
      by (simp add: queueSpeakerPacket_def e Let_def split_beta speakers_wf_update_old)
  qed
qed

lemma set_keep_queue: "set (keep_queue e b i q) \<subseteq> set q"
  by (induction q arbitrary: i) auto

definition count_late :: "'d speakerDecoder \<Rightarrow> bridge_counters \<Rightarrow> bridge_counters" where
  "count_late s r = r\<lparr>latePacketsDroppedTotal := latePacketsDroppedTotal r
     + int (length (filter (is_late (expectedSequence s)) (queue s)))\<rparr>"

lemma popNextSpeakerPacket_cases:
  assumes "popNextSpeakerPacket s r = (res, s', r')"
  obtains (empty) "queue s = []" "res = None" "s' = s" "r' = r"
    | (first) p rest where "queue s = p # rest" "\<not> hasSequence s" "res = Some p"
        "s' = s\<lparr>queue := rest\<rparr>" "r' = r"
    | (all_late) "hasSequence s" "fst (scan_queue (expectedSequence s) 0 (queue s) None 0) = None"
        "res = None" "s' = s\<lparr>queue := []\<rparr>" "r' = count_late s r"
    | (best) b d where "hasSequence s"
        "fst (scan_queue (expectedSequence s) 0 (queue s) None 0) = Some (b, d)"
        "b < length (queue s)" "\<not> is_late (expectedSequence s) (queue s ! b)"
        "res = Some (queue s ! b)"
        "s' = s\<lparr>queue := keep_queue (expectedSequence s) b 0 (queue s)\<rparr>" "r' = count_late s r"
proof (cases "queue s = [] \<or> \<not> hasSequence s")
  case True
  with assms show ?thesis
    by (cases "queue s") (auto simp: popNextSpeakerPacket_def intro: empty first)
next
  case False
  obtain best late where sc: "scan_queue (expectedSequence s) 0 (queue s) None 0 = (best, late)"
    by fastforce
  then have late: "late = length (filter (is_late (expectedSequence s)) (queue s))"
    using scan_queue_late [of "expectedSequence s" 0 "queue s" None 0] by simp
  have eq: "popNextSpeakerPacket s r =
     (case best of
        None \<Rightarrow> (None, s\<lparr>queue := []\<rparr>, count_late s r)
      | Some (b, _) \<Rightarrow> (Some (queue s ! b),
          s\<lparr>queue := keep_queue (expectedSequence s) b 0 (queue s)\<rparr>, count_late s r))"
    using False sc
    by (cases best) (simp_all add: popNextSpeakerPacket_def count_late_def late Let_def split_beta)
  show ?thesis
  proof (cases best)
    case None
    with False assms sc eq all_late show ?thesis by simp
  next
    case (Some bd)
    obtain b d where bd: "bd = (b, d)" by fastforce
    with Some sc scan_queue_index [of "expectedSequence s" 0 "queue s" None 0 b d]
    have i: "b < length (queue s)" "\<not> is_late (expectedSequence s) (queue s ! b)" by auto
    from best [of b d] False sc Some bd i assms eq show ?thesis by simp
  qed
qed

lemma pop_frame:
  assumes "popNextSpeakerPacket s r = (res, s', r')"
  shows "set (queue s') \<subseteq> set (queue s) \<and> length (queue s') \<le> length (queue s)
    \<and> pcm s' = pcm s \<and> panicked r' = panicked r \<and> set_option res \<subseteq> set (queue s)"
  using assms
  by (cases rule: popNextSpeakerPacket_cases)
    (auto simp: count_late_def length_keep_queue dest: set_keep_queue [THEN subsetD])

lemma plc_frame_frame:
  assumes "plc_frame api s r = (n, out, s', r')"
  shows "pcm s' = pcm s" and "panicked r' = panicked r"
  using assms by (auto simp: plc_frame_def Let_def split: if_splits prod.splits option.splits)

lemma plc_loop_bound:
  "plc_loop api k rem c s r = (c', s', r') \<Longrightarrow>
     c \<le> c' \<and> c' \<le> c + rem \<and> length (pcm s') = length (pcm s) + 2 * (c' - c)
     \<and> panicked r' = panicked r"
proof (induction k arbitrary: rem c s r)
  case 0
  then show ?case by simp
next
  case (Suc k)
  show ?case
  proof (cases "rem = 0")
    case True
    with Suc.prems show ?thesis by simp
  next
    case False
    obtain n out s1 r1 where f: "plc_frame api s r = (n, out, s1, r1)"
      by (metis prod_cases4)
    with False Suc.prems have
      "plc_loop api k (rem - min n rem) (c + min n rem)
         (s1\<lparr>pcm := pcm s1 @ map out [0 ..< min n rem * 2]\<rparr>) r1 = (c', s', r')"
      by (simp add: Let_def)
    from Suc.IH [OF this] plc_frame_frame [OF f] show ?thesis by auto
  qed
qed

lemma append_plc_bound:
  "length (pcm (fst (appendPacketLossConcealment api s m r))) \<le> length (pcm s) + 9600"
  "panicked (snd (appendPacketLossConcealment api s m r)) = panicked r"
  by (auto simp: appendPacketLossConcealment_def Let_def split: prod.splits dest!: plc_loop_bound)

lemma note_gap_bound:
  "length (pcm (fst (note_gap api p s r))) \<le> length (pcm s) + 9600"
  "panicked (snd (note_gap api p s r)) = panicked r"
  by (simp_all add: note_gap_def Let_def append_plc_bound)

lemma decode_packet_bound:
  "length (pcm (fst (decode_packet api p s r))) \<le> length (pcm s) + 11520"
  "q_opus p \<noteq> [] \<Longrightarrow> panicked (snd (decode_packet api p s r)) = panicked r"
  by (auto simp: decode_packet_def decode_failed_def Let_def split: option.splits prod.splits)

lemma decode_next_wf:
  assumes "decode_next api s r = (c, s', r')" and "\<forall>p \<in> set (queue s). q_opus p \<noteq> []"
    and "length (queue s) \<le> 100" and "length (pcm s) \<le> n"
  shows "(\<forall>p \<in> set (queue s'). q_opus p \<noteq> []) \<and> length (queue s') \<le> 100
    \<and> length (pcm s') \<le> n + 21120 \<and> panicked r' = panicked r"
proof -
  obtain res s1 r1 where pop: "popNextSpeakerPacket s r = (res, s1, r1)"
    by (metis prod_cases3)
  note frame = pop_frame [OF pop]
  show ?thesis
  proof (cases res)
    case None
    with assms pop frame show ?thesis by (auto simp: decode_next_def)
  next
    case (Some p)
    define s2 where "s2 = fst (note_gap api p s1 r1)"
    define r2 where "r2 = snd (note_gap api p s1 r1)"
    have step: "s' = fst (decode_packet api p s2 r2)" "r' = snd (decode_packet api p s2 r2)"
      using assms(1) pop Some by (auto simp: decode_next_def s2_def r2_def Let_def split_beta)
    have p: "q_opus p \<noteq> []"
      using Some frame assms(2) by auto
    have "length (pcm s') \<le> length (pcm s2) + 11520" "length (pcm s2) \<le> length (pcm s1) + 9600"
      by (simp_all add: step s2_def decode_packet_bound note_gap_bound)
    moreover have "queue s' = queue s1" "panicked r' = panicked r1"
      by (simp_all add: step s2_def r2_def decode_packet_bound(2) [OF p] note_gap_bound)
    ultimately show ?thesis
      using frame assms(2-4) by auto
  qed
qed

lemma fill_pcm_wf:
  assumes "\<forall>p \<in> set (queue s). q_opus p \<noteq> []" and "length (queue s) \<le> 100"
    and "length (pcm s) \<le> 23039"
  shows "(\<forall>p \<in> set (queue (fst (fill_pcm api s r))). q_opus p \<noteq> [])
    \<and> length (queue (fst (fill_pcm api s r))) \<le> 100
    \<and> length (pcm (fst (fill_pcm api s r))) \<le> 23039
    \<and> panicked (snd (fill_pcm api s r)) = panicked r"
  using assms
proof (induction api s r rule: fill_pcm.induct)
  case (1 api s r)
  show ?case
  proof (cases "length (pcm s) < audioPCMFrameSamples \<and> queue s \<noteq> []")
    case False
    with "1.prems" show ?thesis by (auto simp: fill_pcm.simps [of api s r])
  next
    case True
    obtain c s1 r1 where d: "decode_next api s r = (c, s1, r1)" by (metis prod_cases3)
    from True have "length (pcm s) \<le> 1919" by simp
    with decode_next_wf [OF d "1.prems"(1,2), of 1919] have wf:
      "\<forall>p \<in> set (queue s1). q_opus p \<noteq> []" "length (queue s1) \<le> 100"
      "length (pcm s1) \<le> 23039" "panicked r1 = panicked r"
      by auto
    show ?thesis
    proof (cases c)
      case True
      with \<open>length (pcm s) < audioPCMFrameSamples \<and> queue s \<noteq> []\<close> d
      have "fill_pcm api s r = fill_pcm api s1 r1"
        by (simp add: fill_pcm.simps [of api s r])
      with "1.IH" [OF \<open>length (pcm s) < audioPCMFrameSamples \<and> queue s \<noteq> []\<close> d [symmetric] refl refl True wf(1-3)]
      show ?thesis using wf(4) by simp
    next
      case False
      with True d have "fill_pcm api s r = (s1, r1)"
        by (simp add: fill_pcm.simps [of api s r])
      with wf show ?thesis by simp
    qed
  qed
qed

lemma nextSpeakerFrame_wf:
  assumes "speaker_wf s" and "nextSpeakerFrame api s r = (frame, s', r')"
  shows "speaker_wf s' \<and> panicked r' = panicked r \<and> (\<forall>f. frame = Some f \<longrightarrow> length f = 1920)"
proof -
  obtain s1 r1 where f: "fill_pcm api s r = (s1, r1)" by fastforce
  with assms(1) fill_pcm_wf [of s api r] have
    "\<forall>p \<in> set (queue s1). q_opus p \<noteq> []" "length (queue s1) \<le> 100"
    "length (pcm s1) \<le> 23039" "panicked r1 = panicked r"
    by (auto simp: speaker_wf_def)
  with assms(2) f show ?thesis
    by (auto simp: nextSpeakerFrame_def Let_def speaker_wf_def min_def split: if_splits)
qed

lemma mix_speakers_wf:
  assumes "mix_speakers api ks sp mixed n r = (sp', mixed', n', r')"
    and "speakers_wf sp" and "length mixed = 1920"
  shows "speakers_wf sp' \<and> length mixed' = 1920 \<and> n \<le> n' \<and> n' \<le> n + length ks
    \<and> panicked r' = panicked r"
  using assms
proof (induction ks arbitrary: sp mixed n r)
  case Nil
  then show ?case by simp
next
  case (Cons k ks)
  show ?case
  proof (cases "map_of sp k")
    case None
    with Cons.prems Cons.IH [of sp mixed n r] show ?thesis by auto
  next
    case (Some s)
    obtain frame s1 r1 where f: "nextSpeakerFrame api s r = (frame, s1, r1)"
      by (metis prod_cases3)
    have s1: "speaker_wf s1" "panicked r1 = panicked r" "frame = Some g \<Longrightarrow> length g = 1920" for g
      using nextSpeakerFrame_wf [OF speakers_wf_lookup [OF Cons.prems(2) Some] f] by auto
    have wf: "speakers_wf (AList.update k s1 sp)"
      by (rule speakers_wf_update_old [OF Cons.prems(2) Some s1(1)])
    show ?thesis
    proof (cases "\<exists>g. frame = Some g \<and> pcmFrameHasSignal g")
      case True
      then obtain g where g: "frame = Some g" "pcmFrameHasSignal g" by auto
      let ?m = "map2 (\<lambda>m s. m + sint s) mixed g"
      have "mix_speakers api ks (AList.update k s1 sp) ?m (Suc n) r1 = (sp', mixed', n', r')"
        using Cons.prems(1) Some f g by simp
      from Cons.IH [OF this wf] Cons.prems(3) s1(2) s1(3) [OF g(1)] show ?thesis by auto
    next
      case False
      have "mix_speakers api ks (AList.update k s1 sp) mixed n r1 = (sp', mixed', n', r')"
        using Cons.prems(1) Some f False by (auto simp: Let_def split: option.splits)
      from Cons.IH [OF this wf Cons.prems(3)] s1(2) show ?thesis by auto
    qed
  qed
qed

lemma length_payload: "length (concat (map ((\<lambda>p. be16 (fst p)) \<circ> f) l)) = 2 * length l"
  by (induction l) auto

lemma mixFrame_wf:
  assumes "speakers_wf sp" and "mixFrame api mixer sp now scale r = (payload, sp', scale', r')"
  shows "speakers_wf sp' \<and> length payload = 3840 \<and> panicked r' = panicked r"
proof -
  obtain sp1 r1 where e: "evictIdleSpeakers sp now r = (sp1, r1)" by fastforce
  with speakers_wf_evict [OF assms(1), of now r] have wf: "speakers_wf sp1" by simp
  have p1: "panicked r1 = panicked r"
    using e by (auto simp: evictIdleSpeakers_def Let_def)
  obtain sp2 mixed n r2 where m:
    "mix_speakers api (sort (map fst sp1)) sp1 (replicate audioPCMFrameSamples 0) 0 r1 = (sp2, mixed, n, r2)"
    by (metis prod_cases4)
  with mix_speakers_wf [OF m wf] p1 have w: "speakers_wf sp2" "length mixed = 1920" "panicked r2 = panicked r"
    by auto
  with assms(2) e m show ?thesis
    by (auto simp: mixFrame_def Let_def pcmSilenceFrame_def length_payload split: if_splits prod.splits)
qed

section \<open>Properties of the jitter queue\<close>

lemma scan_queue_min:
  "fst (scan_queue e i q best late) = Some (b, d) \<Longrightarrow>
     (\<forall>p \<in> set q. \<not> is_late e p \<longrightarrow> d \<le> seq_distance e p)
     \<and> (\<forall>bi bd. best = Some (bi, bd) \<longrightarrow> d \<le> bd)"
proof (induction q arbitrary: i best late)
  case Nil
  then show ?case by simp
next
  case (Cons p q)
  show ?case
  proof (cases "is_late e p")
    case True
    with Cons.prems Cons.IH show ?thesis by auto
  next
    case False
    with Cons.prems Cons.IH show ?thesis
      by (fastforce split: option.splits prod.splits if_splits intro: order_trans less_imp_le)
  qed
qed

lemma scan_queue_None:
  "fst (scan_queue e i q best late) = None \<Longrightarrow> best = None \<and> (\<forall>p \<in> set q. is_late e p)"
proof (induction q arbitrary: i best late)
  case Nil
  then show ?case by simp
next
  case (Cons p q)
  show ?case
  proof (cases "is_late e p")
    case True
    with Cons.prems Cons.IH [of "Suc i" best "Suc late"] show ?thesis by simp
  next
    case False
    obtain b where "fst (scan_queue e (Suc i) q (Some b) late) = None"
      using False Cons.prems by (cases best) (auto split: if_splits)
    with Cons.IH show ?thesis by blast
  qed
qed

lemma mset_keep_queue:
  "i \<le> b \<Longrightarrow> b < i + length q \<Longrightarrow> \<not> is_late e (q ! (b - i)) \<Longrightarrow>
   mset q = add_mset (q ! (b - i)) (mset (filter (is_late e) q) + mset (keep_queue e b i q))"
proof (induction q arbitrary: i)
  case Nil
  then show ?case by simp
next
  case (Cons p q)
  have past: "b < j \<Longrightarrow> mset q' = mset (filter (is_late e) q') + mset (keep_queue e b j q')" for j q'
    by (induction q' arbitrary: j) auto
  show ?case
  proof (cases "i = b")
    case True
    with Cons.prems past [of "Suc i" q] show ?thesis by simp
  next
    case False
    with Cons.prems have "Suc i \<le> b" "b < Suc i + length q" "(p # q) ! (b - i) = q ! (b - Suc i)"
      by (auto simp: nth_Cons' Suc_diff_Suc)
    with Cons.IH [of "Suc i"] Cons.prems False show ?thesis by auto
  qed
qed

lemma subseq_keep_queue: "subseq (keep_queue e b i q) q"
  by (induction q arbitrary: i) auto

text \<open>
  C39. Once a speaker is in sequence, the jitter queue hands out the queued packet that is
  nearest ahead of the expected sequence number (modulo \<open>2 ^ 16\<close>), never one from the past
  half-range; it drops exactly the late packets, counts them, and keeps all others in their
  order. It hands out nothing only when every queued packet is late.
\<close>

theorem jitter_queue_next_packet:
  assumes "hasSequence s" and "popNextSpeakerPacket s r = (res, s', r')"
  shows "(case res of
       Some p \<Rightarrow> \<not> is_late (expectedSequence s) p
         \<and> (\<forall>q \<in> set (queue s). \<not> is_late (expectedSequence s) q \<longrightarrow>
              seq_distance (expectedSequence s) p \<le> seq_distance (expectedSequence s) q)
         \<and> mset (queue s) = add_mset p
             (mset (filter (is_late (expectedSequence s)) (queue s)) + mset (queue s'))
     | None \<Rightarrow> (\<forall>q \<in> set (queue s). is_late (expectedSequence s) q) \<and> queue s' = [])
     \<and> subseq (queue s') (queue s)
     \<and> latePacketsDroppedTotal r' = latePacketsDroppedTotal r
         + int (length (filter (is_late (expectedSequence s)) (queue s)))"
  using assms(2)
proof (cases rule: popNextSpeakerPacket_cases)
  case (best b d)
  with scan_queue_min [of "expectedSequence s" 0 "queue s" None 0 b d]
    scan_queue_index [of "expectedSequence s" 0 "queue s" None 0 b d]
    mset_keep_queue [of 0 b "queue s" "expectedSequence s"]
  show ?thesis by (auto simp: count_late_def subseq_keep_queue)
qed (use assms scan_queue_None in \<open>auto simp: count_late_def\<close>)

definition sample_packet :: "u16 \<Rightarrow> queuedOpusPacket" where
  "sample_packet n = \<lparr>q_ssrc = 7, q_sequence = n, q_timestamp = 0, q_opus = [252]\<rparr>"

definition sample_speaker :: "u16 \<Rightarrow> u16 list \<Rightarrow> nat speakerDecoder" where
  "sample_speaker e ns = \<lparr>decoder = 0, queue = map sample_packet ns, pcm = [], lastSeen = 0,
     expectedSequence = e, hasSequence = True, lastTOC = 252, hasLastTOC = True\<rparr>"

theorem jitter_queue_next_packet_witness:
  "\<exists>s' r'. popNextSpeakerPacket (sample_speaker 65534 [3, 0, 65000, 65535]) zero_counters
      = (Some (sample_packet 65535), s', r')
    \<and> latePacketsDroppedTotal r' = 1 \<and> subseq (queue s') (map sample_packet [3, 0, 65000, 65535])"
proof -
  let ?s = "sample_speaker 65534 [3, 0, 65000, 65535]"
  have "fst (popNextSpeakerPacket ?s zero_counters) = Some (sample_packet 65535)"
    and late: "filter (is_late (expectedSequence ?s)) (queue ?s) = [sample_packet 65000]"
    by code_simp+
  then obtain s' r' where
    p: "popNextSpeakerPacket ?s zero_counters = (Some (sample_packet 65535), s', r')"
    by (metis fst_conv surj_pair)
  have "hasSequence ?s" by (simp add: sample_speaker_def)
  from jitter_queue_next_packet [OF this p] late p show ?thesis
    by (simp add: zero_counters_def) (simp add: sample_speaker_def)
qed

lemma plc_loop_silence:
  "\<not> hasLastTOC s \<Longrightarrow> rem = 960 * (k + j) \<Longrightarrow>
   plc_loop api k rem c s r = (c + 960 * k, s\<lparr>pcm := pcm s @ replicate (1920 * k) 0\<rparr>, r)"
proof (induction k arbitrary: rem c s)
  case 0
  then show ?case by simp
next
  case (Suc k)
  have "map (\<lambda>_. 0 :: u16) [0 ..< 1920] = replicate 1920 0"
    by (simp add: map_replicate_const)
  with Suc show ?case
    by (simp add: plc_frame_def Let_def replicate_add [symmetric] algebra_simps)
qed

lemma plc_frame_concealed:
  "plc_frame api s r = (n, out, s', r') \<Longrightarrow> concealedFramesTotal r' = concealedFramesTotal r"
  by (auto simp: plc_frame_def Let_def split: if_splits prod.splits option.splits)

lemma plc_loop_concealed:
  "plc_loop api k rem c s r = (c', s', r') \<Longrightarrow> concealedFramesTotal r' = concealedFramesTotal r"
  by (induction k arbitrary: rem c s r)
    (auto simp: Let_def dest: plc_frame_concealed split: if_splits prod.splits)

text \<open>
  Packet loss concealment is bounded whatever the gap: it adds at most 9600 samples
  (five stereo frames) to the speaker's buffer, it counts exactly the frames it added, and
  with no decoder history it adds one silent frame per missing packet, up to five.
\<close>

theorem concealment_bounded:
  "let (s', r') = appendPacketLossConcealment api s missing r;
       added = length (pcm s') - length (pcm s)
   in length (pcm s) \<le> length (pcm s') \<and> added \<le> 9600
     \<and> concealedFramesTotal r' = concealedFramesTotal r + int ((added div 2 + 959) div 960)
     \<and> (\<not> hasLastTOC s \<longrightarrow> pcm s' = pcm s @ replicate (1920 * min missing 5) 0)"
proof -
  obtain c s1 r1 where l: "plc_loop api (min missing 5) 4800 0 s r = (c, s1, r1)"
    by (metis prod_cases3)
  note b = plc_loop_bound [OF l] plc_loop_concealed [OF l]
  have "pcm s1 = pcm s @ replicate (1920 * min missing 5) 0" if "\<not> hasLastTOC s"
    using plc_loop_silence [OF that, of 4800 "min missing 5" "5 - min missing 5" api 0 r] l by auto
  with l b show ?thesis
    by (auto simp: appendPacketLossConcealment_def Let_def)
qed

theorem concealment_bounded_witness:
  "length (pcm (fst (appendPacketLossConcealment
     \<lparr>opus_new = (\<lambda>_. None), opus_decode = (\<lambda>d _. (d, None, \<lambda>_. 0))\<rparr>
     (sample_speaker 0 []) 40000 zero_counters))) \<le> 9600"
  using concealment_bounded
    [of "\<lparr>opus_new = (\<lambda>_. None), opus_decode = (\<lambda>d _. (d, None, \<lambda>_. 0))\<rparr>"
      "sample_speaker 0 []" 40000 zero_counters]
  by (auto simp: Let_def sample_speaker_def split: prod.splits)

end
