(* ===== verification/AudioBridge.thy ===== *)
theory AudioBridge
  imports AudioSpeaker
begin

text \<open>
  One audio bridge of \<^verbatim>\<open>internal/audioingest/manager.go\<close>: the bounded channel between
  the HTTP handler and the mixer (\<^verbatim>\<open>enqueue\<close>), \<^verbatim>\<open>drainPackets\<close>, and the
  goroutine \<^verbatim>\<open>bridgeRecord.run\<close> as a step relation. One step is one iteration of its
  \<^verbatim>\<open>select\<close> loop or one call of \<^verbatim>\<open>enqueue\<close> by the handler; the order of the
  steps is free. What \<^verbatim>\<open>WriteToUDP\<close> was given is the list \<open>sent\<close>.
\<close>

record ('d, 's) bridgeRecord =
  packets :: "queuedOpusPacket list"
  stopped :: bool
  speakers :: "'d speakers"
  clock :: rtp_clock
  mixScale :: 's
  counters :: bridge_counters
  sent :: "u8 list list"

definition new_bridge :: "'s mixer_api \<Rightarrow> ('d, 's) bridgeRecord" where
  "new_bridge mixer = \<lparr>packets = [], stopped = False, speakers = [], clock = clock_start,
     mixScale = mix_unit mixer, counters = zero_counters, sent = []\<rparr>"

section \<open>Operations\<close>

definition drop_count :: "('d, 's) bridgeRecord \<Rightarrow> ('d, 's) bridgeRecord" where
  "drop_count b = b\<lparr>counters := (counters b)\<lparr>queueDropsTotal := queueDropsTotal (counters b) + 1\<rparr>\<rparr>"

text \<open>The channel holds at most \<^const>\<open>audioRTPQueueSize\<close> packets; sending to a full one does not block.\<close>

definition enqueue :: "queuedOpusPacket \<Rightarrow> ('d, 's) bridgeRecord \<Rightarrow> bool \<times> ('d, 's) bridgeRecord" where
  "enqueue packet b =
     (if stopped b then (False, b)
      else if length (packets b) < audioRTPQueueSize
      then (True, b\<lparr>packets := packets b @ [packet]\<rparr>)
      else let b = (if packets b = [] then b else drop_count (b\<lparr>packets := tl (packets b)\<rparr>))
           in if length (packets b) < audioRTPQueueSize
              then (True, b\<lparr>packets := packets b @ [packet]\<rparr>)
              else (False, drop_count b))"

definition receive_packet ::
  "'d opus_api \<Rightarrow> queuedOpusPacket \<Rightarrow> nanos \<Rightarrow> ('d, 's) bridgeRecord \<Rightarrow> ('d, 's) bridgeRecord" where
  "receive_packet api packet now b =
     (let (sp, r) = queueSpeakerPacket api (speakers b) packet now (counters b)
      in b\<lparr>speakers := sp, counters := r\<rparr>)"

text \<open>\<^verbatim>\<open>drainPackets\<close> empties the channel; \<open>now\<close> is the time it reads.\<close>

fun drain_list ::
  "'d opus_api \<Rightarrow> queuedOpusPacket list \<Rightarrow> nanos \<Rightarrow> ('d, 's) bridgeRecord \<Rightarrow> ('d, 's) bridgeRecord" where
  "drain_list api [] now b = b"
| "drain_list api (p # ps) now b = drain_list api ps now (receive_packet api p now b)"

definition drainPackets ::
  "'d opus_api \<Rightarrow> nanos \<Rightarrow> ('d, 's) bridgeRecord \<Rightarrow> ('d, 's) bridgeRecord" where
  "drainPackets api now b = (drain_list api (packets b) now b)\<lparr>packets := []\<rparr>"

text \<open>One frame of the timer branch: drain, mix, send, advance the RTP clock.\<close>

definition emit_frame ::
  "'d opus_api \<Rightarrow> 's mixer_api \<Rightarrow> nanos \<Rightarrow> ('d, 's) bridgeRecord \<Rightarrow> ('d, 's) bridgeRecord" where
  "emit_frame api mixer now b =
     (let b = drainPackets api now b;
          (payload, sp, scale, r) = mixFrame api mixer (speakers b) now (mixScale b) (counters b)
      in b\<lparr>speakers := sp, mixScale := scale, counters := r,
           sent := sent b @ [buildRTPPacket (clk_sequence (clock b)) (clk_timestamp (clock b)) payload],
           clock := clock_step (clock b)\<rparr>)"

fun emit_frames ::
  "'d opus_api \<Rightarrow> 's mixer_api \<Rightarrow> nanos list \<Rightarrow> ('d, 's) bridgeRecord \<Rightarrow> ('d, 's) bridgeRecord" where
  "emit_frames api mixer [] b = b"
| "emit_frames api mixer (now # nows) b = emit_frames api mixer nows (emit_frame api mixer now b)"

text \<open>
  The goroutine and its environment. In a timer step the frames of the burst are emitted at
  the times \<open>nows\<close>; fewer than the due frames are emitted only when the bridge was stopped
  in the middle of the burst.
\<close>

inductive bridge_step ::
  "'d opus_api \<Rightarrow> 's mixer_api \<Rightarrow> nanos \<Rightarrow> ('d, 's) bridgeRecord \<Rightarrow> ('d, 's) bridgeRecord \<Rightarrow> bool"
  for api mixer started where
  step_enqueue: "q_opus p \<noteq> [] \<Longrightarrow> bridge_step api mixer started b (snd (enqueue p b))"
| step_receive: "packets b = p # ps \<Longrightarrow>
    bridge_step api mixer started b (receive_packet api p now (b\<lparr>packets := ps\<rparr>))"
| step_timer: "length nows \<le> frames_burst started now (clock b) \<Longrightarrow>
    length nows = frames_burst started now (clock b) \<or> stopped b \<Longrightarrow>
    bridge_step api mixer started b (emit_frames api mixer nows b)"
| step_stop: "bridge_step api mixer started b (b\<lparr>stopped := True\<rparr>)"

inductive bridge_reachable ::
  "'d opus_api \<Rightarrow> 's mixer_api \<Rightarrow> nanos \<Rightarrow> ('d, 's) bridgeRecord \<Rightarrow> bool"
  for api mixer started where
  reach_new: "bridge_reachable api mixer started (new_bridge mixer)"
| reach_step: "bridge_reachable api mixer started b \<Longrightarrow> bridge_step api mixer started b b' \<Longrightarrow>
    bridge_reachable api mixer started b'"

section \<open>The invariant\<close>

definition sent_ok :: "u8 list list \<Rightarrow> bool" where
  "sent_ok ps \<longleftrightarrow> (\<forall>i < length ps. \<exists>payload. length payload = 3840
     \<and> ps ! i = buildRTPPacket (of_nat i) (960 * of_nat i) payload)"

definition bridge_inv :: "('d, 's) bridgeRecord \<Rightarrow> bool" where
  "bridge_inv b \<longleftrightarrow> speakers_wf (speakers b) \<and> \<not> panicked (counters b)
     \<and> length (packets b) \<le> 2048 \<and> (\<forall>p \<in> set (packets b). q_opus p \<noteq> [])
     \<and> clk_sequence (clock b) = of_nat (length (sent b))
     \<and> clk_timestamp (clock b) = 960 * of_nat (length (sent b))
     \<and> clk_emitted (clock b) = of_nat (length (sent b))
     \<and> sent_ok (sent b)"

lemma panicked_queueSpeakerPacket:
  "panicked (snd (queueSpeakerPacket api sp p now r)) = panicked r"
  by (simp add: queueSpeakerPacket_def evictIdleSpeakers_def push_packet_def Let_def split_beta
      split: option.split)

lemma receive_packet_inv:
  assumes "bridge_inv b" and "q_opus p \<noteq> []"
  shows "bridge_inv (receive_packet api p now b)"
  using assms queueSpeakerPacket_wf [of "speakers b" p api now "counters b"]
    panicked_queueSpeakerPacket [of api "speakers b" p now "counters b"]
  by (auto simp: bridge_inv_def receive_packet_def Let_def split_beta)

lemma receive_packet_packets [simp]: "packets (receive_packet api p now b) = packets b"
  by (simp add: receive_packet_def Let_def split_beta)

lemma drain_list_inv:
  "bridge_inv b \<Longrightarrow> \<forall>p \<in> set ps. q_opus p \<noteq> [] \<Longrightarrow> bridge_inv (drain_list api ps now b)"
  by (induction ps arbitrary: b) (auto intro: receive_packet_inv)

lemma bridge_inv_drop_packets: "bridge_inv b \<Longrightarrow> bridge_inv (b\<lparr>packets := []\<rparr>)"
  by (simp add: bridge_inv_def)

lemma drainPackets_inv: "bridge_inv b \<Longrightarrow> bridge_inv (drainPackets api now b)"
  unfolding drainPackets_def
  by (intro bridge_inv_drop_packets drain_list_inv) (auto simp: bridge_inv_def)

lemma sent_ok_snoc:
  "sent_ok ps \<Longrightarrow> length payload = 3840 \<Longrightarrow>
   sent_ok (ps @ [buildRTPPacket (of_nat (length ps)) (960 * of_nat (length ps)) payload])"
  by (auto simp: sent_ok_def nth_append less_Suc_eq)

lemma emit_frame_inv:
  assumes "bridge_inv b"
  shows "bridge_inv (emit_frame api mixer now b)"
proof -
  let ?b = "drainPackets api now b"
  have inv: "bridge_inv ?b" by (rule drainPackets_inv [OF assms])
  obtain payload sp scale r where
    m: "mixFrame api mixer (speakers ?b) now (mixScale ?b) (counters ?b) = (payload, sp, scale, r)"
    by (metis prod_cases4)
  have "speakers_wf (speakers ?b)" using inv by (simp add: bridge_inv_def)
  from mixFrame_wf [OF this m] inv sent_ok_snoc [of "sent ?b" payload] show ?thesis
    by (simp add: bridge_inv_def emit_frame_def m Let_def clock_step_def distrib_left add.commute)
qed

lemma emit_frames_inv: "bridge_inv b \<Longrightarrow> bridge_inv (emit_frames api mixer nows b)"
  by (induction nows arbitrary: b) (auto intro: emit_frame_inv)

lemma enqueue_inv: "bridge_inv b \<Longrightarrow> q_opus p \<noteq> [] \<Longrightarrow> bridge_inv (snd (enqueue p b))"
  by (auto simp: enqueue_def bridge_inv_def drop_count_def Let_def dest: list.set_sel(2))

inductive_cases bridge_stepE: "bridge_step api mixer started b b'"

lemma bridge_step_inv:
  assumes "bridge_step api mixer started b b'" and "bridge_inv b"
  shows "bridge_inv b'"
  using assms(1)
proof (cases rule: bridge_stepE [consumes 1, case_names enqueue receive timer stop])
  case (receive p ps now)
  with assms(2) have "bridge_inv (b\<lparr>packets := ps\<rparr>)" "q_opus p \<noteq> []"
    by (auto simp: bridge_inv_def)
  with receive show ?thesis by (auto intro: receive_packet_inv)
next
  case stop
  with assms(2) show ?thesis by (simp add: bridge_inv_def)
qed (use assms(2) in \<open>auto intro: enqueue_inv emit_frames_inv\<close>)

lemma bridge_reachable_inv: "bridge_reachable api mixer started b \<Longrightarrow> bridge_inv b"
proof (induction rule: bridge_reachable.induct)
  case reach_new
  show ?case
    by (simp add: bridge_inv_def new_bridge_def speakers_wf_def zero_counters_def clock_start_def sent_ok_def)
next
  case (reach_step b b')
  then show ?case by (blast intro: bridge_step_inv)
qed

section \<open>Properties\<close>

text \<open>
  C38. In every reachable state of a bridge, however handler calls, received packets, timer
  bursts and stops interleave: at most 24 speakers are tracked, no speaker queue exceeds 100
  packets, no PCM buffer exceeds 21119 samples, the channel holds at most 2048 packets, and
  the mixer never indexes an empty Opus packet.
\<close>

theorem bridge_memory_bounded:
  assumes "bridge_reachable api mixer started b"
  shows "length (speakers b) \<le> 24 \<and> distinct (map fst (speakers b)) \<and> length (packets b) \<le> 2048
    \<and> (\<forall>(ssrc, s) \<in> set (speakers b). length (queue s) \<le> 100 \<and> length (pcm s) \<le> 21119)
    \<and> \<not> panicked (counters b)"
  using bridge_reachable_inv [OF assms]
  by (auto simp: bridge_inv_def speakers_wf_def speaker_wf_def)

definition sample_api :: "nat opus_api" where
  "sample_api = \<lparr>opus_new = (\<lambda>n. Some n), opus_decode = (\<lambda>d _. (d, Some 960, \<lambda>i. of_nat i))\<rparr>"

definition sample_mixer :: "int mixer_api" where
  "sample_mixer = \<lparr>mix_unit = 1, mix_scale = (\<lambda>s n m. (\<lambda>i. m ! i div 2, False, 1))\<rparr>"

definition sample_bridge :: "(nat, int) bridgeRecord" where
  "sample_bridge = emit_frames sample_api sample_mixer [20000000]
     (snd (enqueue (sample_packet 5) (new_bridge sample_mixer)))"

lemma sample_bridge_reachable: "bridge_reachable sample_api sample_mixer 0 sample_bridge"
proof -
  let ?b = "snd (enqueue (sample_packet 5) (new_bridge sample_mixer)) :: (nat, int) bridgeRecord"
  have e: "bridge_reachable sample_api sample_mixer 0 ?b"
    by (rule reach_step [OF reach_new step_enqueue]) (simp add: sample_packet_def)
  have "frames_burst 0 20000000 (clock ?b) = 1"
    by (subst frames_burst_eq)
      (simp_all add: planned_frames_def enqueue_def new_bridge_def clock_start_def)
  then show ?thesis
    unfolding sample_bridge_def
    by (intro reach_step [OF e step_timer [where now = 20000000]]) auto
qed

lemma sample_bridge_sent: "length (sent sample_bridge) = 1"
  by (simp add: sample_bridge_def emit_frame_def drainPackets_def receive_packet_def enqueue_def
      new_bridge_def Let_def split_beta)

theorem bridge_memory_bounded_witness:
  "length (speakers sample_bridge) \<le> 24 \<and> \<not> panicked (counters sample_bridge)"
  using bridge_memory_bounded [OF sample_bridge_reachable] by simp

text \<open>
  C37. The \<open>i\<close>-th RTP packet a bridge sends carries sequence \<open>i\<close> modulo \<open>2 ^ 16\<close>,
  timestamp \<open>960 * i\<close> modulo \<open>2 ^ 32\<close> and exactly one 20 ms stereo frame of 3840 bytes, so
  FFmpeg sees one gapless L16 stream whatever packets were lost, late or silent.
\<close>

theorem bridge_output_gapless:
  assumes "bridge_reachable api mixer started b" and "i < length (sent b)"
  shows "\<exists>h payload. parse_rtp (sent b ! i) = Some (h, payload) \<and> length payload = 3840
    \<and> rtp_sequence h = of_nat i \<and> rtp_timestamp h = 960 * of_nat i
    \<and> rtp_type h = 96 \<and> rtp_ssrc h = 0x41535452"
proof -
  from bridge_reachable_inv [OF assms(1)] assms(2) obtain payload where
    "length payload = 3840" "sent b ! i = buildRTPPacket (of_nat i) (960 * of_nat i) payload"
    by (auto simp: bridge_inv_def sent_ok_def)
  then show ?thesis
    by (simp add: parse_buildRTPPacket)
qed

theorem bridge_output_gapless_witness:
  "\<exists>h payload. parse_rtp (sent sample_bridge ! 0) = Some (h, payload) \<and> length payload = 3840
    \<and> rtp_sequence h = 0 \<and> rtp_timestamp h = 0"
  using bridge_output_gapless [OF sample_bridge_reachable, of 0] sample_bridge_sent by auto

text \<open>
  A bridge that was not stopped accepts every packet the handler offers without
  blocking: the packet becomes the newest of the channel, and when the channel is full it is
  the oldest packet that goes, and that loss is counted.
\<close>

theorem enqueue_keeps_newest:
  assumes "\<not> stopped b" and "length (packets b) \<le> 2048"
  shows "fst (enqueue p b)
    \<and> packets (snd (enqueue p b)) = drop (length (packets b) + 1 - 2048) (packets b) @ [p]
    \<and> queueDropsTotal (counters (snd (enqueue p b)))
        = queueDropsTotal (counters b) + int (length (packets b) + 1 - 2048)"
proof (cases "length (packets b) < 2048")
  case True
  with assms show ?thesis by (simp add: enqueue_def)
next
  case False
  with assms have l: "length (packets b) = 2048" by simp
  then obtain q qs where "packets b = q # qs" by (cases "packets b") auto
  with assms l show ?thesis by (simp add: enqueue_def drop_count_def)
qed

theorem enqueue_keeps_newest_witness:
  "fst (enqueue (sample_packet 9) ((new_bridge sample_mixer :: (nat, int) bridgeRecord)
      \<lparr>packets := replicate 2048 (sample_packet 1)\<rparr>))
   \<and> queueDropsTotal (counters (snd (enqueue (sample_packet 9) ((new_bridge sample_mixer
        :: (nat, int) bridgeRecord)\<lparr>packets := replicate 2048 (sample_packet 1)\<rparr>)))) = 1"
  using enqueue_keeps_newest [of "(new_bridge sample_mixer :: (nat, int) bridgeRecord)
      \<lparr>packets := replicate 2048 (sample_packet 1)\<rparr>" "sample_packet 9"]
  by (simp add: new_bridge_def zero_counters_def)

end
