(* ===== verification/FileSystem.thy ===== *)
theory FileSystem
  imports Prelude "HOL-Library.Sublist"
begin

text \<open>
  The part of Go's \<^verbatim>\<open>os\<close> and \<^verbatim>\<open>filepath\<close> packages that the archive code
  uses. A path is absolute and clean: the list of its components below \<open>/\<close>. A file system
  maps paths to nodes; \<^verbatim>\<open>os.Lstat\<close> reads the node itself, so a symbolic link is a node
  of its own. Calls the operating system may refuse (permissions, a full disk) are refused
  where the argument \<open>deny\<close> says so.
\<close>

datatype 'c node = Dir | Regular 'c | Symlink | Special

type_synonym path = "string list"
type_synonym 'c fs = "path \<Rightarrow> 'c node option"

datatype fs_error = ErrNotExist | ErrPermission | ErrSymlink | ErrNotDirectory
  | ErrNotRegular | ErrEscapesRoot | ErrUnsafeName | ErrInvalidRecord

section \<open>Clean and Join\<close>

text \<open>Splitting at a separator, as \<^verbatim>\<open>strings.Split\<close>.\<close>

fun split_at :: "char \<Rightarrow> string \<Rightarrow> string list" where
  "split_at c [] = [[]]"
| "split_at c (x # xs) =
     (if x = c then [] # split_at c xs
      else case split_at c xs of
             [] \<Rightarrow> [[x]]
           | w # ws \<Rightarrow> (x # w) # ws)"

lemma split_at_nonempty: "split_at c s \<noteq> []"
  by (induction s) (auto split: list.splits)

lemma split_at_no_sep: "c \<notin> set s \<Longrightarrow> split_at c s = [s]"
  by (induction s) auto

lemma split_at_parts: "w \<in> set (split_at c s) \<Longrightarrow> c \<notin> set w"
proof (induction s arbitrary: w)
  case Nil
  then show ?case by simp
next
  case (Cons x xs)
  then show ?case
    using split_at_nonempty [of c xs]
    by (cases "split_at c xs") (auto split: if_splits)
qed

definition clean_step :: "path \<Rightarrow> string \<Rightarrow> path" where
  "clean_step acc w =
     (if w = [] \<or> w = ''.'' then acc else if w = ''..'' then butlast acc else acc @ [w])"

text \<open>\<^verbatim>\<open>filepath.Join\<close> of an absolute clean path and further elements.\<close>

definition path_join :: "path \<Rightarrow> string list \<Rightarrow> path" where
  "path_join root parts = foldl clean_step root (concat (map (split_at CHR ''/'') parts))"

text \<open>A name that \<^verbatim>\<open>filepath.Clean\<close> keeps as one component.\<close>

definition plain_name :: "string \<Rightarrow> bool" where
  "plain_name w \<longleftrightarrow> w \<noteq> [] \<and> w \<noteq> ''.'' \<and> w \<noteq> ''..'' \<and> CHR ''/'' \<notin> set w"

lemma path_join_Nil [simp]: "path_join root [] = root"
  by (simp add: path_join_def)

lemma path_join_plain [simp]:
  "plain_name w \<Longrightarrow> path_join root (w # ws) = path_join (root @ [w]) ws"
  by (simp add: path_join_def plain_name_def split_at_no_sep clean_step_def)

lemma path_join_dot [simp]: "path_join root (''.'' # ws) = path_join root ws"
  by (simp add: path_join_def split_at_no_sep clean_step_def)

section \<open>Directories below a root\<close>

text \<open>\<^verbatim>\<open>filepath.Rel\<close>: the components below the root, or None when the result starts with \<open>..\<close>.\<close>

definition path_rel :: "path \<Rightarrow> path \<Rightarrow> string list option" where
  "path_rel root p = (if prefix root p then Some (drop (length root) p) else None)"

text \<open>
  \<^verbatim>\<open>os.MkdirAll\<close>: makes the missing directories of a path. A link on the way is followed by
  the system and taken to lead to a directory.
\<close>

fun mkdir_all :: "(path \<Rightarrow> bool) \<Rightarrow> 'c fs \<Rightarrow> path \<Rightarrow> string list \<Rightarrow> 'c fs \<times> fs_error option" where
  "mkdir_all deny fs cur [] = (fs, None)"
| "mkdir_all deny fs cur (w # ws) =
     (let p = cur @ [w]
      in case fs p of
           None \<Rightarrow> if deny p then (fs, Some ErrPermission) else mkdir_all deny (fs(p \<mapsto> Dir)) p ws
         | Some (Regular _) \<Rightarrow> (fs, Some ErrNotDirectory)
         | Some Special \<Rightarrow> (fs, Some ErrNotDirectory)
         | Some _ \<Rightarrow> mkdir_all deny fs p ws)"

text \<open>The loop of \<^verbatim>\<open>EnsureDirNoSymlinks\<close> over the components below the root.\<close>

fun ensure_parts ::
  "(path \<Rightarrow> bool) \<Rightarrow> 'c fs \<Rightarrow> path \<Rightarrow> string list \<Rightarrow> 'c fs \<times> fs_error option" where
  "ensure_parts deny fs cur [] = (fs, None)"
| "ensure_parts deny fs cur (w # ws) =
     (if w = [] \<or> w = ''.'' then ensure_parts deny fs cur ws
      else let p = cur @ [w]
           in case fs p of
                None \<Rightarrow>
                  if deny p then (fs, Some ErrPermission)
                  else ensure_parts deny (fs(p \<mapsto> Dir)) p ws
              | Some Symlink \<Rightarrow> (fs, Some ErrSymlink)
              | Some Dir \<Rightarrow> ensure_parts deny fs p ws
              | Some _ \<Rightarrow> (fs, Some ErrNotDirectory))"

definition ensureDirNoSymlinks ::
  "(path \<Rightarrow> bool) \<Rightarrow> 'c fs \<Rightarrow> path \<Rightarrow> path \<Rightarrow> 'c fs \<times> fs_error option" where
  "ensureDirNoSymlinks deny fs root dir =
     (case path_rel root dir of
        None \<Rightarrow> (fs, Some ErrEscapesRoot)
      | Some rel \<Rightarrow>
          case mkdir_all deny fs [] root of
            (fs, Some e) \<Rightarrow> (fs, Some e)
          | (fs, None) \<Rightarrow>
              if root = [] then ensure_parts deny fs root rel
              else case fs root of
                     None \<Rightarrow> (fs, Some ErrNotExist)
                   | Some Symlink \<Rightarrow> (fs, Some ErrSymlink)
                   | Some Dir \<Rightarrow> ensure_parts deny fs root rel
                   | Some _ \<Rightarrow> (fs, Some ErrNotDirectory))"

definition ensureRegularOutputFile :: "'c fs \<Rightarrow> path \<Rightarrow> fs_error option" where
  "ensureRegularOutputFile fs p =
     (case fs p of
        None \<Rightarrow> Some ErrNotExist
      | Some Symlink \<Rightarrow> Some ErrSymlink
      | Some (Regular _) \<Rightarrow> None
      | Some _ \<Rightarrow> Some ErrNotRegular)"

text \<open>
  \<^verbatim>\<open>ReserveOutputFileNoSymlink\<close>: the exclusive create makes an empty file (content
  \<open>c0\<close>) when the path is free; an existing node is only inspected.
\<close>

definition reserveOutputFileNoSymlink ::
  "(path \<Rightarrow> bool) \<Rightarrow> 'c \<Rightarrow> 'c fs \<Rightarrow> path \<Rightarrow> path \<Rightarrow> 'c fs \<times> fs_error option" where
  "reserveOutputFileNoSymlink deny c0 fs root p =
     (case path_rel root p of
        None \<Rightarrow> (fs, Some ErrEscapesRoot)
      | Some _ \<Rightarrow>
          case ensureDirNoSymlinks deny fs root (butlast p) of
            (fs, Some e) \<Rightarrow> (fs, Some e)
          | (fs, None) \<Rightarrow>
              case fs p of
                None \<Rightarrow>
                  if deny p then (fs, Some ErrPermission)
                  else let fs = fs(p \<mapsto> Regular c0) in (fs, ensureRegularOutputFile fs p)
              | Some _ \<Rightarrow> (fs, ensureRegularOutputFile fs p))"

section \<open>Lemmas\<close>

text \<open>All that happened between two file systems is that directories on the path \<open>p\<close> were added.\<close>

definition adds_dirs :: "'c fs \<Rightarrow> 'c fs \<Rightarrow> path \<Rightarrow> bool" where
  "adds_dirs fs fs' p \<longleftrightarrow> (\<forall>q. fs q \<noteq> None \<longrightarrow> fs' q = fs q)
     \<and> (\<forall>q. fs' q \<noteq> fs q \<longrightarrow> fs' q = Some Dir \<and> prefix q p)"

lemma adds_dirs_refl [simp]: "adds_dirs fs fs p"
  by (simp add: adds_dirs_def)

lemma adds_dirs_trans: "adds_dirs a b p \<Longrightarrow> adds_dirs b c p \<Longrightarrow> adds_dirs a c p"
  unfolding adds_dirs_def by metis

lemma adds_dirs_new: "fs q = None \<Longrightarrow> prefix q p \<Longrightarrow> adds_dirs fs (fs(q \<mapsto> Dir)) p"
  by (auto simp: adds_dirs_def)

lemma adds_dirs_mono: "adds_dirs fs fs' p \<Longrightarrow> prefix p p' \<Longrightarrow> adds_dirs fs fs' p'"
  by (auto simp: adds_dirs_def intro: prefix_order.trans)

lemma adds_dirs_Some: "adds_dirs fs fs' p \<Longrightarrow> fs q = Some n \<Longrightarrow> fs' q = Some n"
  by (simp add: adds_dirs_def)

lemma mkdir_all_frame:
  "mkdir_all deny fs cur ws = (fs', r) \<Longrightarrow> adds_dirs fs fs' (cur @ ws)"
proof (induction ws arbitrary: fs cur)
  case Nil
  then show ?case by simp
next
  case (Cons w ws)
  show ?case
  proof (cases "fs (cur @ [w])")
    case None
    show ?thesis
    proof (cases "deny (cur @ [w])")
      case True
      with None Cons.prems show ?thesis by (simp add: Let_def)
    next
      case False
      with None Cons.prems have
        "mkdir_all deny (fs(cur @ [w] \<mapsto> Dir)) (cur @ [w]) ws = (fs', r)" by (simp add: Let_def)
      from Cons.IH [OF this] have "adds_dirs (fs(cur @ [w] \<mapsto> Dir)) fs' (cur @ w # ws)"
        by (simp del: fun_upd_apply)
      moreover have "adds_dirs fs (fs(cur @ [w] \<mapsto> Dir)) (cur @ w # ws)"
        using None by (intro adds_dirs_new) simp_all
      ultimately show ?thesis by (blast intro: adds_dirs_trans)
    qed
  next
    case (Some n)
    with Cons.prems Cons.IH [of fs "cur @ [w]"] show ?thesis
      by (cases n) (auto simp: Let_def)
  qed
qed

lemma ensure_parts_frame:
  "ensure_parts deny fs cur ws = (fs', r) \<Longrightarrow> [] \<notin> set ws \<Longrightarrow> ''.'' \<notin> set ws \<Longrightarrow>
   adds_dirs fs fs' (cur @ ws)"
proof (induction ws arbitrary: fs cur)
  case Nil
  then show ?case by simp
next
  case (Cons w ws)
  show ?case
  proof (cases "fs (cur @ [w])")
    case None
    show ?thesis
    proof (cases "deny (cur @ [w])")
      case True
      with None Cons.prems show ?thesis by (auto simp: Let_def)
    next
      case False
      with None Cons.prems have
        "ensure_parts deny (fs(cur @ [w] \<mapsto> Dir)) (cur @ [w]) ws = (fs', r)" by (auto simp: Let_def)
      from Cons.IH [OF this] Cons.prems have
        "adds_dirs (fs(cur @ [w] \<mapsto> Dir)) fs' (cur @ w # ws)" by (simp del: fun_upd_apply)
      moreover have "adds_dirs fs (fs(cur @ [w] \<mapsto> Dir)) (cur @ w # ws)"
        using None by (intro adds_dirs_new) simp_all
      ultimately show ?thesis by (blast intro: adds_dirs_trans)
    qed
  next
    case (Some n)
    with Cons.prems Cons.IH [of fs "cur @ [w]"] show ?thesis
      by (cases n) (auto simp: Let_def)
  qed
qed

lemma ensure_parts_dirs:
  assumes "ensure_parts deny fs cur ws = (fs', None)" and "[] \<notin> set ws" and "''.'' \<notin> set ws"
    and "prefix cur q" and "prefix q (cur @ ws)" and "q \<noteq> cur"
  shows "fs' q = Some Dir"
  using assms
proof (induction ws arbitrary: fs cur)
  case Nil
  then show ?case by (auto dest: prefix_order.antisym)
next
  case (Cons w ws)
  let ?p = "cur @ [w]"
  have "\<exists>fs1. ensure_parts deny fs1 ?p ws = (fs', None) \<and> fs1 ?p = Some Dir"
  proof (cases "fs ?p")
    case None
    with Cons.prems(1-3) show ?thesis
      by (intro exI [of _ "fs(?p \<mapsto> Dir)"]) (auto simp: Let_def split: if_splits)
  next
    case (Some n)
    with Cons.prems(1-3) show ?thesis
      by (cases n) (auto simp: Let_def)
  qed
  then obtain fs1 where fs1: "ensure_parts deny fs1 ?p ws = (fs', None)" "fs1 ?p = Some Dir" by blast
  show ?case
  proof (cases "q = ?p")
    case True
    with fs1 ensure_parts_frame [OF fs1(1)] Cons.prems(2,3) show ?thesis
      by (auto intro: adds_dirs_Some)
  next
    case False
    have "prefix ?p q"
    proof -
      from Cons.prems(4) obtain zs where q: "q = cur @ zs" by (auto simp: prefix_def)
      with Cons.prems(5,6) show ?thesis by (cases zs) auto
    qed
    with Cons.IH [OF fs1(1)] Cons.prems False show ?thesis by simp
  qed
qed

lemma ensure_dir_frame:
  assumes "ensureDirNoSymlinks deny fs root dir = (fs', r)" and "root \<noteq> []"
    and "[] \<notin> set dir" and "''.'' \<notin> set dir"
  shows "adds_dirs fs fs' dir"
proof (cases "prefix root dir")
  case False
  with assms(1) show ?thesis by (auto simp: ensureDirNoSymlinks_def path_rel_def)
next
  case True
  then obtain ws where dir: "dir = root @ ws" by (auto simp: prefix_def)
  obtain fs1 r1 where m: "mkdir_all deny fs [] root = (fs1, r1)" by fastforce
  have fr1: "adds_dirs fs fs1 dir"
    using adds_dirs_mono [OF mkdir_all_frame [OF m], of dir] dir by simp
  show ?thesis
  proof (cases "r1 = None \<and> fs1 root = Some Dir")
    case False
    then have "fs' = fs1"
      using assms(1,2) m dir True
      by (auto simp: ensureDirNoSymlinks_def path_rel_def split: option.splits node.splits)
    with fr1 show ?thesis by simp
  next
    case ok: True
    then have e: "ensure_parts deny fs1 root ws = (fs', r)"
      using assms(1,2) m dir by (auto simp: ensureDirNoSymlinks_def path_rel_def)
    have "adds_dirs fs1 fs' dir"
      using ensure_parts_frame [OF e] assms(3,4) dir by simp
    with fr1 show ?thesis by (rule adds_dirs_trans)
  qed
qed

lemma ensure_dir_real:
  assumes "ensureDirNoSymlinks deny fs root dir = (fs', None)" and "root \<noteq> []"
    and "[] \<notin> set dir" and "''.'' \<notin> set dir" and "prefix root q" and "prefix q dir"
  shows "fs' q = Some Dir"
proof -
  from assms(5,6) obtain ws where dir: "dir = root @ ws"
    by (meson prefix_def prefix_order.trans)
  then obtain fs1 where root: "fs1 root = Some Dir" and e: "ensure_parts deny fs1 root ws = (fs', None)"
    using assms(1,2)
    by (auto simp: ensureDirNoSymlinks_def path_rel_def split: option.splits node.splits prod.splits)
  have "adds_dirs fs1 fs' dir" using ensure_parts_frame [OF e] assms(3,4) dir by simp
  with ensure_parts_dirs [OF e, of q] assms(3-6) root dir show ?thesis
    by (cases "q = root") (auto intro: adds_dirs_Some)
qed

section \<open>Properties\<close>

text \<open>
  C34. When \<^verbatim>\<open>EnsureDirNoSymlinks\<close> succeeds, the directory lies below the root and
  the root and every directory between them is a real directory, not a link; whatever it
  returns, no existing node was changed and only directories on the path were added. A
  directory outside the root is refused with nothing changed.
\<close>

theorem ensure_dir_no_symlinks:
  assumes "ensureDirNoSymlinks deny fs root dir = (fs', r)" and "root \<noteq> []"
    and "[] \<notin> set dir" and "''.'' \<notin> set dir"
  shows "(r = None \<longrightarrow> prefix root dir
           \<and> (\<forall>q. prefix root q \<longrightarrow> prefix q dir \<longrightarrow> fs' q = Some Dir))
    \<and> (\<forall>q. fs q \<noteq> None \<longrightarrow> fs' q = fs q)
    \<and> (\<forall>q. fs' q \<noteq> fs q \<longrightarrow> fs' q = Some Dir \<and> prefix q dir)
    \<and> (\<not> prefix root dir \<longrightarrow> r = Some ErrEscapesRoot \<and> fs' = fs)"
proof (cases "prefix root dir")
  case False
  with assms(1) show ?thesis by (auto simp: ensureDirNoSymlinks_def path_rel_def)
next
  case True
  with ensure_dir_frame [OF assms] ensure_dir_real [OF _ assms(2-4)] assms(1) show ?thesis
    by (auto simp: adds_dirs_def)
qed

definition sample_fs :: "nat fs" where
  "sample_fs p = (if p = [] \<or> p = [''data''] then Some Dir
     else if p = [''data'', ''tmp''] then Some Symlink else None)"

theorem ensure_dir_no_symlinks_witness:
  "\<exists>fs'. ensureDirNoSymlinks (\<lambda>_. False) sample_fs [''data''] [''data'', ''final'', ''a''] = (fs', None)
     \<and> fs' [''data'', ''final''] = Some Dir \<and> fs' [''data'', ''tmp''] = Some Symlink"
proof -
  obtain fs' where
    e: "ensureDirNoSymlinks (\<lambda>_. False) sample_fs [''data''] [''data'', ''final'', ''a''] = (fs', None)"
    by (simp add: ensureDirNoSymlinks_def path_rel_def sample_fs_def Let_def)
  from ensure_dir_no_symlinks [OF e] have
    "fs' [''data'', ''final''] = Some Dir" "fs' [''data'', ''tmp''] = sample_fs [''data'', ''tmp'']"
    by (auto simp: sample_fs_def)
  with e show ?thesis by (auto simp: sample_fs_def)
qed

end
