(* ===== verification/SidecarFiles.thy ===== *)
theory SidecarFiles
  imports FileSystem
begin

text \<open>
  How the files beside a recording are written: \<^verbatim>\<open>appendFile\<close>, \<^verbatim>\<open>openAppendNoSymlink\<close> and
  \<^verbatim>\<open>writeFileNoSymlink\<close>, which \<^verbatim>\<open>workerevents\<close> and \<^verbatim>\<open>audioingest\<close> each have, and
  \<^verbatim>\<open>archive.RootFromSidecarPath\<close>. A file is the list of what has been written to it. Nothing else
  changes the directories between the checks and the write, so the second look of
  \<^verbatim>\<open>verifyOpenRegularFile\<close> sees what the first one saw.
\<close>

definition rootFromSidecarPath :: "path \<Rightarrow> fs_error + path" where
  "rootFromSidecarPath p =
     (let root = butlast (butlast (butlast p)) in if root = [] then Inl ErrEscapesRoot else Inr root)"

text \<open>The part both share: the directory of the path is made, and the path looked at.\<close>

definition sidecar_dir :: "(path \<Rightarrow> bool) \<Rightarrow> 'c fs \<Rightarrow> path \<Rightarrow> 'c fs \<times> fs_error option" where
  "sidecar_dir deny fs p =
     (case rootFromSidecarPath p of
        Inl e \<Rightarrow> (fs, Some e)
      | Inr root \<Rightarrow> ensureDirNoSymlinks deny fs root (butlast p))"

definition appendFile :: "(path \<Rightarrow> bool) \<Rightarrow> 'c list fs \<Rightarrow> path \<Rightarrow> 'c list \<Rightarrow> 'c list fs \<times> fs_error option" where
  "appendFile deny fs p body =
     (case sidecar_dir deny fs p of
        (fs, Some e) \<Rightarrow> (fs, Some e)
      | (fs, None) \<Rightarrow>
          case fs p of
            None \<Rightarrow> if deny p then (fs, Some ErrPermission) else (fs(p \<mapsto> Regular body), None)
          | Some (Regular c) \<Rightarrow> if deny p then (fs, Some ErrPermission) else (fs(p \<mapsto> Regular (c @ body)), None)
          | Some _ \<Rightarrow> (fs, Some ErrNotRegular))"

definition writeFileNoSymlink :: "(path \<Rightarrow> bool) \<Rightarrow> 'c list fs \<Rightarrow> path \<Rightarrow> 'c list \<Rightarrow> 'c list fs \<times> fs_error option" where
  "writeFileNoSymlink deny fs p body =
     (case sidecar_dir deny fs p of
        (fs, Some e) \<Rightarrow> (fs, Some e)
      | (fs, None) \<Rightarrow>
          case fs p of
            None \<Rightarrow> if deny p then (fs, Some ErrPermission) else (fs(p \<mapsto> Regular body), None)
          | Some (Regular c) \<Rightarrow> if deny p then (fs, Some ErrPermission) else (fs(p \<mapsto> Regular body), None)
          | Some _ \<Rightarrow> (fs, Some ErrNotRegular))"

definition readFileNoSymlink :: "'c list fs \<Rightarrow> path \<Rightarrow> fs_error + 'c list" where
  "readFileNoSymlink fs p =
     (case fs p of
        None \<Rightarrow> Inl ErrNotExist
      | Some (Regular c) \<Rightarrow> Inr c
      | Some _ \<Rightarrow> Inl ErrNotRegular)"

text \<open>What is in a file; nothing when there is none.\<close>

definition file_content :: "'c list fs \<Rightarrow> path \<Rightarrow> 'c list" where
  "file_content fs p = (case fs p of Some (Regular c) \<Rightarrow> c | _ \<Rightarrow> [])"

section \<open>Lemmas\<close>

text \<open>What \<open>path_join\<close> makes of a clean root has no empty component and no dot.\<close>

definition clean_path :: "path \<Rightarrow> bool" where
  "clean_path p \<longleftrightarrow> [] \<notin> set p \<and> ''.'' \<notin> set p"

lemma clean_step_clean: "clean_path acc \<Longrightarrow> clean_path (clean_step acc w)"
  by (auto simp: clean_path_def clean_step_def dest: in_set_butlastD)

lemma path_join_clean: "clean_path p \<Longrightarrow> clean_path (path_join p ws)"
proof -
  have "clean_path acc \<Longrightarrow> clean_path (foldl clean_step acc us)" for acc us
    by (induction us arbitrary: acc) (simp_all add: clean_step_clean)
  then show "clean_path p \<Longrightarrow> clean_path (path_join p ws)" by (simp add: path_join_def)
qed

lemma sidecar_dir_frame:
  assumes "sidecar_dir deny fs p = (fs', r)" and "clean_path p"
  shows "adds_dirs fs fs' (butlast p)"
proof (cases "rootFromSidecarPath p")
  case (Inl e)
  with assms(1) show ?thesis by (simp add: sidecar_dir_def)
next
  case (Inr root)
  then have "root \<noteq> []" by (auto simp: rootFromSidecarPath_def Let_def split: if_splits)
  moreover have "[] \<notin> set (butlast p)" "''.'' \<notin> set (butlast p)" using assms(2) by (auto simp: clean_path_def dest: in_set_butlastD)
  ultimately show ?thesis using assms(1) Inr ensure_dir_frame by (fastforce simp: sidecar_dir_def)
qed

lemma file_content_upd: "file_content (fs(p \<mapsto> Regular c)) q = (if q = p then c else file_content fs q)"
  by (simp add: file_content_def)

lemma adds_dirs_content: "adds_dirs fs fs' q \<Longrightarrow> file_content fs' p = file_content fs p"
  unfolding adds_dirs_def file_content_def by (cases "fs' p = fs p") (auto split: option.splits node.splits)

text \<open>An append adds to its file when it succeeds, and changes no file at all when it does not.\<close>

lemma append_file_content:
  assumes "appendFile deny fs p body = (fs', r)" and "clean_path p"
  shows "file_content fs' q = (if q = p \<and> r = None then file_content fs p @ body else file_content fs q)"
proof -
  obtain fs1 r1 where d: "sidecar_dir deny fs p = (fs1, r1)" by fastforce
  have fp: "file_content fs1 p = file_content fs p" and fq: "file_content fs1 q = file_content fs q"
    by (rule adds_dirs_content [OF sidecar_dir_frame [OF d assms(2)]])+
  show ?thesis
  proof (cases r1)
    case (Some e)
    with assms(1) d fq show ?thesis by (auto simp: appendFile_def)
  next
    case None
    have "fs' = fs1 \<and> r \<noteq> None
        \<or> fs' = fs1(p \<mapsto> Regular (file_content fs1 p @ body)) \<and> r = None"
      using assms(1) d None
      by (auto simp: appendFile_def file_content_def split: option.splits node.splits if_splits)
    then show ?thesis
      by (auto simp: fq fp file_content_upd)
  qed
qed

lemma write_file_content:
  assumes "writeFileNoSymlink deny fs p body = (fs', r)" and "clean_path p"
  shows "file_content fs' q = (if q = p \<and> r = None then body else file_content fs q)"
proof -
  obtain fs1 r1 where d: "sidecar_dir deny fs p = (fs1, r1)" by fastforce
  have fp: "file_content fs1 p = file_content fs p" and fq: "file_content fs1 q = file_content fs q"
    by (rule adds_dirs_content [OF sidecar_dir_frame [OF d assms(2)]])+
  show ?thesis
  proof (cases r1)
    case (Some e)
    with assms(1) d fq show ?thesis by (auto simp: writeFileNoSymlink_def)
  next
    case None
    have "fs' = fs1 \<and> r \<noteq> None
        \<or> fs' = fs1(p \<mapsto> Regular (body)) \<and> r = None"
      using assms(1) d None
      by (auto simp: writeFileNoSymlink_def file_content_def split: option.splits node.splits if_splits)
    then show ?thesis
      by (auto simp: fq fp file_content_upd)
  qed
qed

end
