(* ===== verification/SeenCache.thy ===== *)
theory SeenCache
  imports Prelude "HOL-Library.AList" "HOL-Library.Multiset"
begin

text \<open>
  The tables of recently seen keys by which the ingest managers recognise what a client sends again:
  \<^verbatim>\<open>seen\<close> and \<^verbatim>\<open>trimSeenLocked\<close> of \<^verbatim>\<open>workerevents.Manager\<close> and \<^verbatim>\<open>audioingest.Manager\<close>. A Go map
  has no order and \<^verbatim>\<open>sort.Slice\<close> leaves that of equal times open, so the arrangement of
  the entries is an argument; \<open>arranges\<close> says what is known of it.
\<close>

type_synonym seen = "(string \<times> nanos) list"

definition arranges :: "(seen \<Rightarrow> seen) \<Rightarrow> bool" where
  "arranges arr \<longleftrightarrow> (\<forall>s. mset (arr s) = mset s \<and> sorted (map snd (arr s)))"

definition trim_seen :: "(seen \<Rightarrow> seen) \<Rightarrow> nat \<Rightarrow> int \<Rightarrow> seen \<Rightarrow> seen" where
  "trim_seen arr default_limit max_seen s =
     (let limit = (if max_seen \<le> 0 then default_limit else nat max_seen)
      in if length s \<le> limit then s
         else let entries = arr s
              in foldl (\<lambda>s (k, t). AList.delete k s) s (take (length entries - limit) entries))"

text \<open>Looking a key up and taking it in.\<close>

definition offer :: "string \<Rightarrow> nanos \<Rightarrow> seen \<Rightarrow> bool \<times> seen" where
  "offer k t s = (if map_of s k \<noteq> None then (False, s) else (True, AList.update k t s))"

section \<open>The contract\<close>

text \<open>A table of at most \<open>limit\<close> keys that drops the oldest ones.\<close>

locale seen_table =
  fixes limit :: nat and trim :: "seen \<Rightarrow> seen"
  assumes trim_keeps: "distinct (map fst s) \<Longrightarrow> map_of (trim s) k = Some t \<Longrightarrow> map_of s k = Some t"
    and trim_distinct: "distinct (map fst s) \<Longrightarrow> distinct (map fst (trim s))"
    and trim_small: "length s \<le> limit \<Longrightarrow> trim s = s"
    and trim_length: "distinct (map fst s) \<Longrightarrow> limit < length s \<Longrightarrow> length (trim s) = limit"
    and trim_oldest: "distinct (map fst s) \<Longrightarrow> map_of s k = Some t \<Longrightarrow> map_of (trim s) k = None \<Longrightarrow>
      map_of (trim s) k' = Some t' \<Longrightarrow> t \<le> t'"
begin

lemma trim_bound: "distinct (map fst s) \<Longrightarrow> length (trim s) \<le> limit"
  using trim_small [of s] trim_length [of s] by (cases "length s \<le> limit") auto

text \<open>The newest key survives: if no entry is as new as the new one, the key is still known afterwards.\<close>

lemma newest_known:
  assumes "distinct (map fst s)" and "map_of s k = None" and "0 < limit"
    and newest: "\<And>k' t'. map_of s k' = Some t' \<Longrightarrow> t' < t"
  shows "map_of (trim (AList.update k t s)) k = Some t"
proof (rule ccontr)
  let ?s = "AList.update k t s"
  assume n: "map_of (trim ?s) k \<noteq> Some t"
  have d: "distinct (map fst ?s)" using assms(1) by (rule distinct_update)
  have k: "map_of ?s k = Some t" by (simp add: update_conv')
  have none: "map_of (trim ?s) k = None"
    using trim_keeps [OF d, of k] k n by (cases "map_of (trim ?s) k") auto
  have "trim ?s \<noteq> ?s" using none k by auto
  then have "limit < length ?s" using trim_small [of ?s] by linarith
  then have "trim ?s \<noteq> []" using trim_length [OF d] assms(3) by auto
  then obtain k' t' where k': "map_of (trim ?s) k' = Some t'"
    using map_of_is_SomeI [OF trim_distinct [OF d]] by (metis last_in_set surj_pair)
  then have "k' \<noteq> k" using none by auto
  then have "map_of s k' = Some t'" using trim_keeps [OF d k'] by (simp add: update_conv')
  with newest have "t' < t" by blast
  with trim_oldest [OF d k none k'] show False by simp
qed

text \<open>While there is room, the table is exact.\<close>

lemma room_exact: "length s < limit \<Longrightarrow> trim (AList.update k t s) = AList.update k t s"
  by (rule trim_small) (use length_update_le [of k t s] in linarith)

end

section \<open>The code keeps it\<close>

lemma delete_all:
  "foldl (\<lambda>s (k, t). AList.delete k s) s ds = filter (\<lambda>(k, t). k \<notin> fst ` set ds) s"
proof (induction ds arbitrary: s)
  case Nil
  then show ?case by simp
next
  case (Cons d ds)
  then show ?case
    by (cases d) (auto simp: AList.delete_eq filter_filter intro!: filter_cong)
qed

lemma remaining: "A = G \<union> R \<Longrightarrow> fst ` G \<inter> fst ` R = {} \<Longrightarrow> {x \<in> A. fst x \<notin> fst ` G} = R"
  by blast

lemma trim_seen_props:
  assumes arr: "arranges arr" and d: "distinct (map fst s)"
    and lim: "limit = (if max_seen \<le> 0 then default_limit else nat max_seen)"
  defines "s' \<equiv> trim_seen arr default_limit max_seen s"
  shows "map_of s' k = Some t \<Longrightarrow> map_of s k = Some t" and "distinct (map fst s')"
    and "length s \<le> limit \<Longrightarrow> s' = s" and "limit < length s \<Longrightarrow> length s' = limit"
    and "map_of s k = Some t \<Longrightarrow> map_of s' k = None \<Longrightarrow> map_of s' k' = Some t' \<Longrightarrow> t \<le> t'"
proof -
  let ?gone = "take (length (arr s) - limit) (arr s)" and ?rest = "drop (length (arr s) - limit) (arr s)"
  have ms: "mset (arr s) = mset s" and so: "sorted (map snd (arr s))" using arr by (simp_all add: arranges_def)
  then have set: "set (arr s) = set s" and len: "length (arr s) = length s"
    by (metis set_mset_mset, metis size_mset)
  have da: "distinct (map fst (arr s))"
    using d ms by (metis mset_map mset_eq_imp_distinct_iff)
  have s': "s' = (if length s \<le> limit then s else filter (\<lambda>(k, t). k \<notin> fst ` set ?gone) s)"
    by (simp add: s'_def trim_seen_def lim delete_all Let_def)
  show small: "length s \<le> limit \<Longrightarrow> s' = s" by (simp add: s')
  show dist: "distinct (map fst s')" using d by (simp add: s' distinct_filter_keys)
  have sub: "set s' \<subseteq> set s" by (auto simp: s')
  then show "map_of s' k = Some t \<Longrightarrow> map_of s k = Some t"
    using d by (metis map_of_SomeD map_of_is_SomeI subsetD)
  have split: "set (arr s) = set ?gone \<union> set ?rest" "fst ` set ?gone \<inter> fst ` set ?rest = {}"
    using da by (metis append_take_drop_id set_append)
      (metis (no_types, lifting) append_take_drop_id da distinct_append image_set map_append)
  have kept: "set s' = set ?rest" if "limit < length s"
  proof -
    have "set s' = {x \<in> set (arr s). fst x \<notin> fst ` set ?gone}" using that set by (auto simp: s' case_prod_beta)
    also have "\<dots> = set ?rest" using remaining [OF split] .
    finally show ?thesis .
  qed
  show "length s' = limit" if l: "limit < length s"
  proof -
    have "distinct s'" "distinct ?rest" using dist da by (auto simp: distinct_map)
    with kept [OF l] have "length s' = length ?rest" by (metis distinct_card)
    with l len show ?thesis by simp
  qed
  show "t \<le> t'" if a: "map_of s k = Some t" "map_of s' k = None" "map_of s' k' = Some t'"
  proof -
    have l: "limit < length s" using a small by (metis linorder_not_le option.distinct(1))
    have "(k, t) \<in> set s" using a(1) by (rule map_of_SomeD)
    moreover have "(k, t) \<notin> set s'" using a(2) by (metis map_of_is_SomeI dist option.distinct(1))
    ultimately have "(k, t) \<in> set ?gone" using kept [OF l] split(1) set by auto
    moreover have "(k', t') \<in> set ?rest" using kept [OF l] map_of_SomeD [OF a(3)] by simp
    moreover have "sorted (map snd ?gone @ map snd ?rest)" using so by (metis append_take_drop_id map_append)
    ultimately show ?thesis by (force simp: sorted_append)
  qed
qed

lemma seen_table_trim:
  assumes "arranges arr"
  shows "seen_table (if max_seen \<le> 0 then default_limit else nat max_seen) (trim_seen arr default_limit max_seen)"
proof
  note p = trim_seen_props [OF assms _ refl, where max_seen = max_seen and default_limit = default_limit]
  show "map_of (trim_seen arr default_limit max_seen s) k = Some t \<Longrightarrow> map_of s k = Some t"
    if "distinct (map fst s)" for s k t by (rule p(1) [OF that])
  show "distinct (map fst (trim_seen arr default_limit max_seen s))" if "distinct (map fst s)" for s
    by (rule p(2) [OF that])
  show "length (trim_seen arr default_limit max_seen s) = (if max_seen \<le> 0 then default_limit else nat max_seen)"
    if "distinct (map fst s)" "(if max_seen \<le> 0 then default_limit else nat max_seen) < length s" for s
    by (rule p(4) [OF that])
  show "t \<le> t'" if "distinct (map fst s)" "map_of s k = Some t"
    "map_of (trim_seen arr default_limit max_seen s) k = None"
    "map_of (trim_seen arr default_limit max_seen s) k' = Some t'" for s k t k' t'
    by (rule p(5) [OF that])
qed (simp add: trim_seen_def Let_def)

end
