(* ===== verification/Base64.thy ===== *)
theory Base64
  imports Prelude
begin

text \<open>
  What the program uses of Go's \<^verbatim>\<open>encoding/base64\<close>: decoding with padding (\<^verbatim>\<open>StdEncoding\<close>),
  and both directions without (\<^verbatim>\<open>RawURLEncoding\<close>). Bytes are numbers below 256. The decoder skips
  line breaks and does not ask that unused bits are zero.
\<close>

definition alnum64 :: string where
  "alnum64 = ''ABCDEFGHIJKLMNOPQRSTUVWXYZabcdefghijklmnopqrstuvwxyz0123456789''"

definition std_alphabet :: string where
  "std_alphabet = alnum64 @ ''+/''"

definition url_alphabet :: string where
  "url_alphabet = alnum64 @ ''-_''"

fun index_of :: "'a \<Rightarrow> 'a list \<Rightarrow> nat option" where
  "index_of x [] = None"
| "index_of x (y # ys) = (if x = y then Some 0 else map_option Suc (index_of x ys))"

section \<open>Decoding\<close>

text \<open>The numbers of the digits, and the bytes of two, three and four of them.\<close>

definition digits :: "string \<Rightarrow> string \<Rightarrow> nat list option" where
  "digits alphabet cs = those (map (\<lambda>c. index_of c alphabet) cs)"

fun quantum :: "nat list \<Rightarrow> nat list" where
  "quantum [a, b] = [a * 4 + b div 16]"
| "quantum [a, b, c] = [a * 4 + b div 16, b mod 16 * 16 + c div 4]"
| "quantum [a, b, c, d] = [a * 4 + b div 16, b mod 16 * 16 + c div 4, c mod 4 * 64 + d]"
| "quantum _ = []"

fun quanta :: "string \<Rightarrow> bool \<Rightarrow> string \<Rightarrow> nat list option" where
  "quanta alphabet pad [] = Some []"
| "quanta alphabet pad (a # b # c # d # s) =
     (if pad \<and> d = CHR ''='' then
        if s \<noteq> [] then None
        else map_option quantum (digits alphabet (if c = CHR ''='' then [a, b] else [a, b, c]))
      else case digits alphabet [a, b, c, d] of
             None \<Rightarrow> None
           | Some ds \<Rightarrow> map_option (append (quantum ds)) (quanta alphabet pad s))"
| "quanta alphabet pad [a] = None"
| "quanta alphabet pad s = (if pad then None else map_option quantum (digits alphabet s))"

definition line_break :: "char \<Rightarrow> bool" where
  "line_break c \<longleftrightarrow> c = CHR 0x0A \<or> c = CHR 0x0D"

definition std_decode :: "string \<Rightarrow> nat list option" where
  "std_decode s = quanta std_alphabet True (filter (\<lambda>c. \<not> line_break c) s)"

definition raw_url_decode :: "string \<Rightarrow> nat list option" where
  "raw_url_decode s = quanta url_alphabet False (filter (\<lambda>c. \<not> line_break c) s)"

section \<open>Encoding\<close>

fun sextets :: "nat list \<Rightarrow> nat list" where
  "sextets [] = []"
| "sextets [a] = [a div 4, a mod 4 * 16]"
| "sextets [a, b] = [a div 4, a mod 4 * 16 + b div 16, b mod 16 * 4]"
| "sextets (a # b # c # s) = [a div 4, a mod 4 * 16 + b div 16, b mod 16 * 4 + c div 64, c mod 64] @ sextets s"

definition raw_url_encode :: "nat list \<Rightarrow> string" where
  "raw_url_encode bs = map (\<lambda>i. url_alphabet ! i) (sextets bs)"

section \<open>The round trip\<close>

lemma index_of_nth: "distinct xs \<Longrightarrow> i < length xs \<Longrightarrow> index_of (xs ! i) xs = Some i"
  by (induction xs arbitrary: i) (auto simp: nth_Cons split: nat.splits)

lemma url_alphabet_ok: "distinct url_alphabet" "length url_alphabet = 64"
  "list_all (\<lambda>c. \<not> line_break c \<and> c \<noteq> CHR ''.'') url_alphabet"
  by code_simp+

lemma url_digit: "i < 64 \<Longrightarrow> index_of (url_alphabet ! i) url_alphabet = Some i"
  using index_of_nth [OF url_alphabet_ok(1)] url_alphabet_ok(2) by simp

lemma digits_url: "list_all (\<lambda>i. i < 64) is \<Longrightarrow> digits url_alphabet (map (\<lambda>i. url_alphabet ! i) is) = Some is"
  by (induction "is") (auto simp: digits_def url_digit)

lemma sextets_small: "list_all (\<lambda>b. b < 256) bs \<Longrightarrow> list_all (\<lambda>i. i < 64) (sextets bs)"
  by (induction bs rule: sextets.induct) auto

lemma quantum_bytes:
  assumes "b < (256 :: nat)"
  shows "b div 16 div 16 = 0" "b div 64 div 4 = 0" "b div 16 mod 16 * 16 + b mod 16 = b"
    "b div 64 mod 4 * 64 + b mod 64 = b"
proof -
  show z: "b div 16 div 16 = 0" "b div 64 div 4 = 0" using assms by (simp_all add: div_mult2_eq [symmetric])
  have "b div 16 < 16" "b div 64 < 4" using assms by (simp_all add: less_mult_imp_div_less)
  then show "b div 16 mod 16 * 16 + b mod 16 = b" "b div 64 mod 4 * 64 + b mod 64 = b" by simp_all
qed

lemma quanta_sextets:
  "list_all (\<lambda>b. b < 256) bs \<Longrightarrow>
   quanta url_alphabet False (map (\<lambda>i. url_alphabet ! i) (sextets bs)) = Some bs"
proof (induction bs rule: sextets.induct)
  case (4 a b c s)
  then have s: "list_all (\<lambda>i. i < 64) [a div 4, a mod 4 * 16 + b div 16, b mod 16 * 4 + c div 64, c mod 64]" by auto
  from digits_url [OF this] 4 show ?case by (simp add: quantum_bytes)
next
  case (2 a)
  then have "list_all (\<lambda>i. i < 64) [a div 4, a mod 4 * 16]" by auto
  from digits_url [OF this] 2 show ?case by (simp add: quantum_bytes)
next
  case (3 a b)
  then have "list_all (\<lambda>i. i < 64) [a div 4, a mod 4 * 16 + b div 16, b mod 16 * 4]" by auto
  from digits_url [OF this] 3 show ?case by (simp add: quantum_bytes)
qed simp

lemma encode_chars:
  assumes "list_all (\<lambda>b. b < 256) bs" and "c \<in> set (raw_url_encode bs)"
  shows "\<not> line_break c \<and> c \<noteq> CHR ''.''"
proof -
  obtain i where "i \<in> set (sextets bs)" "c = url_alphabet ! i" using assms(2) by (auto simp: raw_url_encode_def)
  moreover have "i < length url_alphabet" using sextets_small [OF assms(1)] calculation url_alphabet_ok(2)
    by (auto simp: list_all_iff)
  ultimately have "c \<in> set url_alphabet" by simp
  with url_alphabet_ok(3) show ?thesis by (auto simp: list_all_iff)
qed

lemma raw_url_roundtrip: "list_all (\<lambda>b. b < 256) bs \<Longrightarrow> raw_url_decode (raw_url_encode bs) = Some bs"
proof -
  assume b: "list_all (\<lambda>b. b < 256) bs"
  have "filter (\<lambda>c. \<not> line_break c) (raw_url_encode bs) = raw_url_encode bs"
    using encode_chars [OF b] by (auto simp: filter_id_conv)
  then show ?thesis using quanta_sextets [OF b] by (simp add: raw_url_decode_def raw_url_encode_def)
qed

text \<open>What the decoder gives is bytes.\<close>

lemma index_of_less: "index_of x xs = Some i \<Longrightarrow> i < length xs"
  by (induction xs arbitrary: i) (auto split: if_splits)

end
