(* ===== verification/Utf8.thy ===== *)
theory Utf8
  imports Prelude
begin

text \<open>
  Go strings as runes: \<^verbatim>\<open>utf8.DecodeRuneInString\<close>, the runes of a \<^verbatim>\<open>range\<close> loop,
  \<^verbatim>\<open>utf8.ValidString\<close>, \<^verbatim>\<open>utf8.RuneCountInString\<close> and \<^verbatim>\<open>unicode.IsSpace\<close>. A byte that
  starts no encoding is the rune U+FFFD of width one.
\<close>

definition rune_error :: nat where
  "rune_error = 0xfffd"

text \<open>The number of continuation bytes a lead byte calls for, and the range of the first of them.\<close>

definition lead_byte :: "nat \<Rightarrow> (nat \<times> nat \<times> nat) option" where
  "lead_byte b =
     (if 0xc2 \<le> b \<and> b \<le> 0xdf then Some (1, 0x80, 0xbf)
      else if b = 0xe0 then Some (2, 0xa0, 0xbf)
      else if b = 0xed then Some (2, 0x80, 0x9f)
      else if 0xe1 \<le> b \<and> b \<le> 0xef then Some (2, 0x80, 0xbf)
      else if b = 0xf0 then Some (3, 0x90, 0xbf)
      else if b = 0xf4 then Some (3, 0x80, 0x8f)
      else if 0xf1 \<le> b \<and> b \<le> 0xf3 then Some (3, 0x80, 0xbf)
      else None)"

definition is_cont :: "nat \<Rightarrow> bool" where
  "is_cont b \<longleftrightarrow> 0x80 \<le> b \<and> b \<le> 0xbf"

definition lead_bits :: "nat \<Rightarrow> nat \<Rightarrow> nat" where
  "lead_bits n b = b mod (if n = 1 then 0x20 else if n = 2 then 0x10 else 8)"

text \<open>The rune at the front of a string that is not empty, its width, and whether it is encoded well.\<close>

definition decode_rune :: "string \<Rightarrow> nat \<times> nat \<times> bool" where
  "decode_rune s =
     (case map of_char s of
        [] \<Rightarrow> (rune_error, 0, False)
      | b # bs \<Rightarrow>
          if b < 0x80 then (b, 1, True)
          else case lead_byte b of
                 None \<Rightarrow> (rune_error, 1, False)
               | Some (n, lo, hi) \<Rightarrow>
                   if length (take n bs) = n \<and> lo \<le> hd bs \<and> hd bs \<le> hi \<and> list_all is_cont (take n bs)
                   then (foldl (\<lambda>r c. r * 64 + c mod 64) (lead_bits n b) (take n bs), Suc n, True)
                   else (rune_error, 1, False))"

lemma decode_rune_width: "s \<noteq> [] \<Longrightarrow> 0 < fst (snd (decode_rune s))"
  by (cases s) (auto simp: decode_rune_def split: option.splits)

lemma decode_rune_shorter: "(r, w, ok) = decode_rune s \<Longrightarrow> s \<noteq> [] \<Longrightarrow> length s - w < length s"
  using decode_rune_width [of s] by (metis diff_less fst_conv length_greater_0_conv snd_conv)

function runes :: "string \<Rightarrow> (nat \<times> bool) list" where
  "runes s =
     (if s = [] then []
      else let (r, w, ok) = decode_rune s in (r, ok) # runes (drop w s))"
  by pat_completeness auto
termination
  by (relation "measure length") (auto dest: decode_rune_shorter)

declare runes.simps [simp del]

definition utf8_valid :: "string \<Rightarrow> bool" where
  "utf8_valid s \<longleftrightarrow> list_all snd (runes s)"

definition range_runes :: "string \<Rightarrow> nat list" where
  "range_runes s = map fst (runes s)"

definition rune_is_space :: "nat \<Rightarrow> bool" where
  "rune_is_space r \<longleftrightarrow> r \<in> set [9, 10, 11, 12, 13, 32, 0x85, 0xa0, 0x1680, 0x2028, 0x2029, 0x202f, 0x205f, 0x3000]
     \<or> (0x2000 \<le> r \<and> r \<le> 0x200a)"

text \<open>On ASCII text the runes are the bytes.\<close>

lemma runes_Cons_ascii:
  "(of_char c :: nat) < 128 \<Longrightarrow> runes (c # s) = (of_char c, True) # runes s"
  by (subst runes.simps) (simp add: decode_rune_def)

lemma runes_Nil [simp]: "runes [] = []"
  by (subst runes.simps) simp

lemma runes_ascii:
  "list_all (\<lambda>c. (of_char c :: nat) < 128) s \<Longrightarrow> runes s = map (\<lambda>c. (of_char c, True)) s"
  by (induction s) (auto simp: runes_Cons_ascii)

lemma decode_rune_ascii_iff:
  assumes "s \<noteq> []" and "fst (decode_rune s) < 128"
  shows "(of_char (hd s) :: nat) = fst (decode_rune s) \<and> fst (snd (decode_rune s)) = 1"
proof (cases s)
  case Nil
  with assms show ?thesis by simp
next
  case (Cons c cs)
  show ?thesis
  proof (cases "(of_char c :: nat) < 128")
    case True
    with Cons show ?thesis by (simp add: decode_rune_def)
  next
    case False
    have "128 \<le> fst (decode_rune s)"
    proof (cases "lead_byte (of_char c)")
      case None
      with False Cons show ?thesis by (simp add: decode_rune_def rune_error_def)
    next
      case (Some t)
      obtain n lo hi where t: "t = (n, lo, hi)" using prod_cases3 by blast
      let ?b = "of_char c :: nat" and ?bs = "map of_char cs :: nat list"
      show ?thesis
      proof (cases "length (take n ?bs) = n \<and> lo \<le> hd ?bs \<and> hd ?bs \<le> hi \<and> list_all is_cont (take n ?bs)")
        case bad: False
        with False Cons Some t show ?thesis by (auto simp: decode_rune_def rune_error_def)
      next
        case ok: True
        let ?v = "foldl (\<lambda>r c. r * 64 + c mod 64) (lead_bits n ?b) (take n ?bs)"
        have e: "fst (decode_rune s) = ?v"
          using ok False Cons Some t by (auto simp: decode_rune_def)
        from Some t consider "n = 1" "0xc2 \<le> ?b" "?b \<le> 0xdf" | "n = 2" "?b = 0xe0" "lo = 0xa0"
          | "n = 2" "0xe1 \<le> ?b" "?b \<le> 0xef" | "n = 3" "?b = 0xf0" "lo = 0x90"
          | "n = 3" "0xf1 \<le> ?b" "?b \<le> 0xf4"
          by (auto simp: lead_byte_def split: if_splits)
        then have "128 \<le> ?v"
        proof cases
          case 1
          from 1(2,3) have "2 \<le> ?b mod 32" by presburger
          with 1(1) ok show ?thesis
            by (cases ?bs) (auto simp: lead_bits_def)
        next
          case 2
          from ok 2 obtain x y r where bs: "?bs = x # y # r" "0xa0 \<le> x" "x \<le> 0xbf"
            by (cases ?bs; cases "tl ?bs") (auto simp: is_cont_def)
          then have "32 \<le> x mod 64" by presburger
          with 2 bs show ?thesis by (simp add: lead_bits_def)
        next
          case 3
          from ok 3 obtain x y r where bs: "?bs = x # y # r"
            by (cases ?bs; cases "tl ?bs") auto
          from 3 have "1 \<le> ?b mod 16" by presburger
          with 3 bs show ?thesis by (simp add: lead_bits_def)
        next
          case 4
          from ok 4 obtain x y z r where bs: "?bs = x # y # z # r" "0x90 \<le> x" "x \<le> 0xbf"
            by (cases ?bs; cases "tl ?bs"; cases "tl (tl ?bs)") (auto simp: is_cont_def)
          then have "16 \<le> x mod 64" by presburger
          with 4 bs show ?thesis by (simp add: lead_bits_def)
        next
          case 5
          from ok 5 obtain x y z r where bs: "?bs = x # y # z # r"
            by (cases ?bs; cases "tl ?bs"; cases "tl (tl ?bs)") auto
          from 5 have "1 \<le> ?b mod 8" by presburger
          with 5 bs show ?thesis by (simp add: lead_bits_def)
        qed
        with e show ?thesis by simp
      qed
    qed
    with assms show ?thesis by simp
  qed
qed

text \<open>So an ASCII rune in a \<^verbatim>\<open>range\<close> loop is a byte of the string, and the other way round.\<close>

lemma runes_ascii_bytes: "r \<in> set (range_runes s) \<Longrightarrow> r < 128 \<Longrightarrow> \<exists>c \<in> set s. of_char c = r"
proof (induction s rule: runes.induct)
  case (1 s)
  show ?case
  proof (cases "s = []")
    case True
    with "1.prems" show ?thesis by (simp add: range_runes_def)
  next
    case False
    obtain x w ok where d: "decode_rune s = (x, w, ok)" using prod_cases3 by blast
    from False d have split: "range_runes s = x # range_runes (drop w s)"
      by (simp add: range_runes_def runes.simps [of s])
    show ?thesis
    proof (cases "r = x")
      case True
      with decode_rune_ascii_iff [OF False] d "1.prems"(2) False show ?thesis
        by (metis fst_conv hd_in_set)
    next
      case no: False
      with split "1.prems" "1.IH" [OF False d [symmetric] refl] have "\<exists>c \<in> set (drop w s). of_char c = r"
        by simp
      then show ?thesis by (auto dest: in_set_dropD)
    qed
  qed
qed

end
