(* ===== verification/ArchiveLayout.thy ===== *)
theory ArchiveLayout
  imports FileSystem Utf8
begin

text \<open>
  Where archives live: \<^verbatim>\<open>internal/archive/layout.go\<close> and \<^verbatim>\<open>preview.go\<close>, and the artifact
  routes of \<^verbatim>\<open>internal/httpapi/archive_routes.go\<close>. Which runes beyond ASCII are letters or
  digits (\<^verbatim>\<open>unicode.IsLetter\<close>, \<^verbatim>\<open>unicode.IsDigit\<close>) is the parameter \<open>uni\<close>. A
  directory listing (\<^verbatim>\<open>os.ReadDir\<close>) is the parameter \<open>listing\<close>.
\<close>

section \<open>Safe names\<close>

fun has_dotdot :: "string \<Rightarrow> bool" where
  "has_dotdot (a # b # s) \<longleftrightarrow> (a = CHR ''.'' \<and> b = CHR ''.'') \<or> has_dotdot (b # s)"
| "has_dotdot _ \<longleftrightarrow> False"

definition backslash :: char where
  "backslash = CHR 0x5C"

definition safe_rune :: "(nat \<Rightarrow> bool) \<Rightarrow> nat \<Rightarrow> bool" where
  "safe_rune uni r \<longleftrightarrow>
     (if r < 128 then is_alnum (char_of r) \<or> r = of_char CHR ''-'' \<or> r = of_char CHR ''_'' \<or> r = of_char CHR ''.''
      else uni r)"

definition isSafeID :: "(nat \<Rightarrow> bool) \<Rightarrow> string \<Rightarrow> bool" where
  "isSafeID uni ident \<longleftrightarrow> ident \<noteq> [] \<and> \<not> has_dotdot ident \<and> CHR ''/'' \<notin> set ident \<and> backslash \<notin> set ident
     \<and> list_all (safe_rune uni) (range_runes ident)"

definition run_id_char :: "char \<Rightarrow> bool" where
  "run_id_char c \<longleftrightarrow> is_alnum c \<or> c = CHR ''-'' \<or> c = CHR ''_'' \<or> c = CHR ''.''"

definition isSafeArchiveRunID :: "string \<Rightarrow> bool" where
  "isSafeArchiveRunID ident \<longleftrightarrow> length ident \<le> 128 \<and> \<not> has_dotdot ident \<and> ident \<noteq> [] \<and> is_alnum (hd ident)
     \<and> list_all run_id_char ident"

section \<open>Layouts\<close>

record layout =
  RootDir :: path
  StreamID :: string
  ArchiveRunID :: string

text \<open>The root of a deployment is absolute and clean, that is a \<^typ>\<open>path\<close>.\<close>

definition newLayout :: "(nat \<Rightarrow> bool) \<Rightarrow> path \<Rightarrow> string \<Rightarrow> layout option" where
  "newLayout uni root streamID =
     (if isSafeID uni streamID
      then Some \<lparr>RootDir = root, StreamID = streamID, ArchiveRunID = []\<rparr> else None)"

definition newRunLayout :: "(nat \<Rightarrow> bool) \<Rightarrow> path \<Rightarrow> string \<Rightarrow> string \<Rightarrow> layout option" where
  "newRunLayout uni root streamID runID =
     (case newLayout uni root streamID of
        None \<Rightarrow> None
      | Some l \<Rightarrow> if isSafeArchiveRunID runID then Some (l\<lparr>ArchiveRunID := runID\<rparr>) else None)"

definition tmpDir :: "layout \<Rightarrow> path" where
  "tmpDir l = path_join (RootDir l) [''tmp'', StreamID l]"

definition finalDir :: "layout \<Rightarrow> path" where
  "finalDir l =
     (if ArchiveRunID l \<noteq> [] then path_join (RootDir l) [''final'', StreamID l, ArchiveRunID l]
      else path_join (RootDir l) [''final'', StreamID l])"

definition previewDir :: "layout \<Rightarrow> path" where
  "previewDir l = path_join (tmpDir l) [''preview'']"

definition previewPlaylistName :: string where
  [simp]: "previewPlaylistName = ''index.m3u8''"

text \<open>The files of a stream: the recording, its side files and the packaged set.\<close>

definition finalMKV :: "layout \<Rightarrow> path" where "finalMKV l = path_join (tmpDir l) [''final.mkv'']"
definition previewPlaylist :: "layout \<Rightarrow> path" where
  "previewPlaylist l = path_join (previewDir l) [previewPlaylistName]"
definition previewSegmentPattern :: "layout \<Rightarrow> path" where
  "previewSegmentPattern l = path_join (previewDir l) [''segment-%06d.ts'']"
definition finalMP4 :: "layout \<Rightarrow> path" where "finalMP4 l = path_join (finalDir l) [''final.mp4'']"
definition tmpMetadata :: "layout \<Rightarrow> path" where "tmpMetadata l = path_join (tmpDir l) [''metadata.json'']"
definition finalMetadata :: "layout \<Rightarrow> path" where
  "finalMetadata l = path_join (finalDir l) [''metadata.json'']"
definition tmpLogs :: "layout \<Rightarrow> path" where "tmpLogs l = path_join (tmpDir l) [''logs.jsonl'']"
definition tmpFFmpegProgress :: "layout \<Rightarrow> path" where
  "tmpFFmpegProgress l = path_join (tmpDir l) [''ffmpeg-progress.txt'']"
definition tmpFFmpegAudioStats :: "layout \<Rightarrow> path" where
  "tmpFFmpegAudioStats l = path_join (tmpDir l) [''ffmpeg-audio-stats.txt'']"
definition tmpDiscordOpus :: "layout \<Rightarrow> path" where
  "tmpDiscordOpus l = path_join (tmpDir l) [''discord-opus.jsonl'']"
definition tmpDiscordOpusSDP :: "layout \<Rightarrow> path" where
  "tmpDiscordOpusSDP l = path_join (tmpDir l) [''discord-opus.sdp'']"
definition finalLogs :: "layout \<Rightarrow> path" where "finalLogs l = path_join (finalDir l) [''logs.jsonl'']"
definition tmpCaptions :: "layout \<Rightarrow> path" where "tmpCaptions l = path_join (tmpDir l) [''captions.vtt'']"
definition finalCaptions :: "layout \<Rightarrow> path" where
  "finalCaptions l = path_join (finalDir l) [''captions.vtt'']"
definition tmpTranscript :: "layout \<Rightarrow> path" where
  "tmpTranscript l = path_join (tmpDir l) [''transcript.json'']"
definition finalTranscript :: "layout \<Rightarrow> path" where
  "finalTranscript l = path_join (finalDir l) [''transcript.json'']"

lemmas layout_file_defs = finalMKV_def previewPlaylist_def previewSegmentPattern_def finalMP4_def
  tmpMetadata_def finalMetadata_def tmpLogs_def tmpFFmpegProgress_def tmpFFmpegAudioStats_def
  tmpDiscordOpus_def tmpDiscordOpusSDP_def finalLogs_def tmpCaptions_def finalCaptions_def
  tmpTranscript_def finalTranscript_def

definition tmp_files :: "layout \<Rightarrow> path list" where
  "tmp_files l = map (\<lambda>f. f l) [finalMKV, previewPlaylist, previewSegmentPattern, tmpMetadata, tmpLogs,
     tmpFFmpegProgress, tmpFFmpegAudioStats, tmpDiscordOpus, tmpDiscordOpusSDP, tmpCaptions, tmpTranscript]"

definition final_files :: "layout \<Rightarrow> path list" where
  "final_files l = map (\<lambda>f. f l) [finalMP4, finalMetadata, finalLogs, finalCaptions, finalTranscript]"

section \<open>Preview files\<close>

definition isPreviewFileName :: "string \<Rightarrow> bool" where
  "isPreviewFileName name \<longleftrightarrow> name = previewPlaylistName
     \<or> (length name = 17 \<and> has_prefix name ''segment-'' \<and> has_suffix name ''.ts''
        \<and> list_all is_digit (take 6 (drop 8 name)))"

text \<open>The walk of \<^verbatim>\<open>validateExistingDirsNoSymlinks\<close> over components that must exist.\<close>

fun validate_parts :: "'c fs \<Rightarrow> path \<Rightarrow> string list \<Rightarrow> fs_error option" where
  "validate_parts fs cur [] = None"
| "validate_parts fs cur (w # ws) =
     (if w = [] \<or> w = ''.'' then validate_parts fs cur ws
      else case fs (cur @ [w]) of
             None \<Rightarrow> Some ErrNotExist
           | Some Symlink \<Rightarrow> Some ErrSymlink
           | Some Dir \<Rightarrow> validate_parts fs (cur @ [w]) ws
           | Some _ \<Rightarrow> Some ErrNotDirectory)"

definition pathUnderRoot :: "path \<Rightarrow> path \<Rightarrow> string list option" where
  "pathUnderRoot root p = (case path_rel root p of Some [] \<Rightarrow> None | r \<Rightarrow> r)"

definition validateExistingDirsNoSymlinks :: "'c fs \<Rightarrow> path \<Rightarrow> path \<Rightarrow> fs_error option" where
  "validateExistingDirsNoSymlinks fs root dir =
     (case pathUnderRoot root dir of
        None \<Rightarrow> Some ErrEscapesRoot
      | Some rel \<Rightarrow>
          case fs root of
            None \<Rightarrow> Some ErrNotExist
          | Some Dir \<Rightarrow> validate_parts fs root rel
          | Some _ \<Rightarrow> Some ErrNotDirectory)"

text \<open>
  \<^verbatim>\<open>openRegularFileNoSymlinks\<close> gives the file's content. The repeated checks after the
  open, which compare the opened file with the path, see the same file system here.
\<close>

definition openRegularFileNoSymlinks :: "'c fs \<Rightarrow> path \<Rightarrow> path \<Rightarrow> fs_error + 'c" where
  "openRegularFileNoSymlinks fs root p =
     (case pathUnderRoot root p of
        None \<Rightarrow> Inl ErrEscapesRoot
      | Some _ \<Rightarrow>
          case validateExistingDirsNoSymlinks fs root (butlast p) of
            Some e \<Rightarrow> Inl e
          | None \<Rightarrow>
              case fs p of
                None \<Rightarrow> Inl ErrNotExist
              | Some (Regular c) \<Rightarrow> Inr c
              | Some _ \<Rightarrow> Inl ErrNotRegular)"

definition openPreviewFile :: "(nat \<Rightarrow> bool) \<Rightarrow> 'c fs \<Rightarrow> layout \<Rightarrow> string \<Rightarrow> fs_error + 'c" where
  "openPreviewFile uni fs l name =
     (case newLayout uni (RootDir l) (StreamID l) of
        None \<Rightarrow> Inl ErrUnsafeName
      | Some v \<Rightarrow>
          if \<not> isPreviewFileName name then Inl ErrUnsafeName
          else openRegularFileNoSymlinks fs (RootDir v) (path_join (previewDir v) [name]))"

definition stale_preview_name :: "string \<Rightarrow> bool" where
  "stale_preview_name name \<longleftrightarrow> isPreviewFileName name
     \<or> (has_suffix name ''.tmp'' \<and> isPreviewFileName (take (length name - 4) name))"

text \<open>The loop of \<^verbatim>\<open>PreparePreviewDir\<close> over the entries of the directory.\<close>

fun remove_previews :: "(path \<Rightarrow> bool) \<Rightarrow> 'c fs \<Rightarrow> path \<Rightarrow> string list \<Rightarrow> 'c fs \<times> fs_error option" where
  "remove_previews deny fs dir [] = (fs, None)"
| "remove_previews deny fs dir (name # names) =
     (if \<not> stale_preview_name name then (fs, Some ErrUnsafeName)
      else let p = path_join dir [name]
           in case fs p of
                None \<Rightarrow> (fs, Some ErrNotExist)
              | Some Symlink \<Rightarrow> (fs, Some ErrSymlink)
              | Some (Regular _) \<Rightarrow>
                  if deny p then (fs, Some ErrPermission)
                  else remove_previews deny (fs(p := None)) dir names
              | Some _ \<Rightarrow> (fs, Some ErrNotRegular))"

definition preparePreviewDir ::
  "(nat \<Rightarrow> bool) \<Rightarrow> (path \<Rightarrow> bool) \<Rightarrow> ('c fs \<Rightarrow> path \<Rightarrow> string list) \<Rightarrow> 'c fs \<Rightarrow> layout
    \<Rightarrow> 'c fs \<times> fs_error option" where
  "preparePreviewDir uni deny listing fs l =
     (case newLayout uni (RootDir l) (StreamID l) of
        None \<Rightarrow> (fs, Some ErrUnsafeName)
      | Some v \<Rightarrow>
          case ensureDirNoSymlinks deny fs (RootDir v) (previewDir v) of
            (fs, Some e) \<Rightarrow> (fs, Some e)
          | (fs, None) \<Rightarrow>
              case remove_previews deny fs (previewDir v) (listing fs (previewDir v)) of
                (fs, Some e) \<Rightarrow> (fs, Some e)
              | (fs, None) \<Rightarrow> (fs, validateExistingDirsNoSymlinks fs (RootDir v) (previewDir v)))"

section \<open>Artifact routes\<close>

text \<open>\<^verbatim>\<open>filepath.Ext\<close> of a name without a slash.\<close>

definition path_ext :: "string \<Rightarrow> string" where
  "path_ext name =
     (if CHR ''.'' \<in> set name
      then CHR ''.'' # rev (takeWhile (\<lambda>c. c \<noteq> CHR ''.'') (rev name)) else [])"

definition safeArchiveArtifactName :: "string \<Rightarrow> bool" where
  "safeArchiveArtifactName raw \<longleftrightarrow>
     (let name = trim_space raw
      in name \<noteq> [] \<and> length name \<le> 255 \<and> \<not> has_dotdot name \<and> CHR ''/'' \<notin> set name
         \<and> backslash \<notin> set name
         \<and> to_lower (path_ext name) \<in> {''.mp4'', ''.mkv'', ''.json'', ''.jsonl'', ''.vtt''}
         \<and> list_all (\<lambda>r. r < 128 \<and> run_id_char (char_of r)) (range_runes name))"

text \<open>
  \<^verbatim>\<open>safeArchiveArtifactPathForName\<close>: the path, and whether a regular file is there; it
  may make missing directories on the way.
\<close>

definition safeArchiveArtifactPathForName ::
  "(nat \<Rightarrow> bool) \<Rightarrow> (path \<Rightarrow> bool) \<Rightarrow> 'c fs \<Rightarrow> path \<Rightarrow> string \<Rightarrow> string \<Rightarrow> string \<Rightarrow> bool
    \<Rightarrow> 'c fs \<times> (fs_error + path)" where
  "safeArchiveArtifactPathForName uni deny fs root streamID runID raw requireExisting =
     (case newRunLayout uni root streamID runID of
        None \<Rightarrow> (fs, Inl ErrUnsafeName)
      | Some l \<Rightarrow>
          let name = trim_space raw
          in if \<not> safeArchiveArtifactName name then (fs, Inl ErrUnsafeName)
             else case ensureDirNoSymlinks deny fs (RootDir l) (finalDir l) of
                    (fs, Some e) \<Rightarrow> (fs, Inl e)
                  | (fs, None) \<Rightarrow>
                      let p = path_join (finalDir l) [name]
                      in case path_rel (RootDir l) p of
                           None \<Rightarrow> (fs, Inl ErrEscapesRoot)
                         | Some _ \<Rightarrow>
                             case fs p of
                               None \<Rightarrow> (fs, if requireExisting then Inl ErrNotExist else Inr p)
                             | Some (Regular _) \<Rightarrow> (fs, Inr p)
                             | Some _ \<Rightarrow> (fs, Inl ErrNotRegular))"

datatype artifact_status = ArtifactDeleted | ArtifactRenamed string | ArtifactNotFound | InvalidArtifact
  | ArtifactExists | ArtifactFailed

definition deleteArchiveArtifact ::
  "(nat \<Rightarrow> bool) \<Rightarrow> (path \<Rightarrow> bool) \<Rightarrow> 'c fs \<Rightarrow> path \<Rightarrow> string \<Rightarrow> string \<Rightarrow> string
    \<Rightarrow> 'c fs \<times> artifact_status" where
  "deleteArchiveArtifact uni deny fs root streamID runID name =
     (case safeArchiveArtifactPathForName uni deny fs root streamID runID name True of
        (fs, Inl ErrNotExist) \<Rightarrow> (fs, ArtifactNotFound)
      | (fs, Inl _) \<Rightarrow> (fs, InvalidArtifact)
      | (fs, Inr p) \<Rightarrow> if deny p then (fs, ArtifactFailed) else (fs(p := None), ArtifactDeleted))"

definition renameArchiveArtifact ::
  "(nat \<Rightarrow> bool) \<Rightarrow> (path \<Rightarrow> bool) \<Rightarrow> 'c fs \<Rightarrow> path \<Rightarrow> string \<Rightarrow> string \<Rightarrow> string \<Rightarrow> string
    \<Rightarrow> 'c fs \<times> artifact_status" where
  "renameArchiveArtifact uni deny fs root streamID runID name newName =
     (case safeArchiveArtifactPathForName uni deny fs root streamID runID name True of
        (fs, Inl ErrNotExist) \<Rightarrow> (fs, ArtifactNotFound)
      | (fs, Inl _) \<Rightarrow> (fs, InvalidArtifact)
      | (fs, Inr source) \<Rightarrow>
          case safeArchiveArtifactPathForName uni deny fs root streamID runID newName False of
            (fs, Inl _) \<Rightarrow> (fs, InvalidArtifact)
          | (fs, Inr target) \<Rightarrow>
              if fs target \<noteq> None then (fs, ArtifactExists)
              else if deny target then (fs, ArtifactFailed)
              else (fs(source := None, target := fs source), ArtifactRenamed (trim_space newName)))"

section \<open>Lemmas\<close>

lemma safe_id_plain: "isSafeID uni s \<Longrightarrow> s \<noteq> ''.'' \<Longrightarrow> plain_name s"
  by (auto simp: isSafeID_def plain_name_def)

lemma run_id_plain:
  assumes "isSafeArchiveRunID r"
  shows "plain_name r"
proof -
  have "\<not> run_id_char CHR ''/''" "\<not> is_alnum CHR ''.''"
    by (simp_all add: run_id_char_def is_alnum_def Let_def)
  with assms show ?thesis
    by (auto simp: isSafeArchiveRunID_def plain_name_def list_all_iff)
qed

lemma plain_names [simp]:
  "plain_name ''tmp''" "plain_name ''final''" "plain_name ''preview''" "plain_name ''final.mkv''"
  "plain_name ''index.m3u8''" "plain_name ''segment-%06d.ts''" "plain_name ''final.mp4''"
  "plain_name ''metadata.json''" "plain_name ''logs.jsonl''" "plain_name ''ffmpeg-progress.txt''"
  "plain_name ''ffmpeg-audio-stats.txt''" "plain_name ''discord-opus.jsonl''"
  "plain_name ''discord-opus.sdp''" "plain_name ''captions.vtt''" "plain_name ''transcript.json''"
  by (simp_all add: plain_name_def)

lemma newLayout_fields:
  "newLayout uni root s = Some l \<longleftrightarrow> isSafeID uni s \<and> l = \<lparr>RootDir = root, StreamID = s, ArchiveRunID = []\<rparr>"
  by (auto simp: newLayout_def)

lemma newRunLayout_fields:
  "newRunLayout uni root s r = Some l \<longleftrightarrow> isSafeID uni s \<and> isSafeArchiveRunID r
     \<and> l = \<lparr>RootDir = root, StreamID = s, ArchiveRunID = r\<rparr>"
  by (auto simp: newRunLayout_def newLayout_def)

lemma tmpDir_plain [simp]: "plain_name (StreamID l) \<Longrightarrow> tmpDir l = RootDir l @ [''tmp'', StreamID l]"
  by (simp add: tmpDir_def)

lemma finalDir_plain:
  "plain_name (StreamID l) \<Longrightarrow> ArchiveRunID l = [] \<or> plain_name (ArchiveRunID l) \<Longrightarrow>
     finalDir l = RootDir l @ [''final'', StreamID l] @ (if ArchiveRunID l = [] then [] else [ArchiveRunID l])"
  by (auto simp: finalDir_def)

lemma validate_parts_dirs:
  assumes "validate_parts fs cur ws = None" and "[] \<notin> set ws" and "''.'' \<notin> set ws"
    and "prefix cur q" and "prefix q (cur @ ws)" and "q \<noteq> cur"
  shows "fs q = Some Dir"
  using assms
proof (induction ws arbitrary: cur)
  case Nil
  then show ?case by (auto dest: prefix_order.antisym)
next
  case (Cons w ws)
  from Cons.prems(1-3) have d: "fs (cur @ [w]) = Some Dir" "validate_parts fs (cur @ [w]) ws = None"
    by (auto split: option.splits node.splits)
  show ?case
  proof (cases "q = cur @ [w]")
    case True
    with d show ?thesis by simp
  next
    case False
    from Cons.prems(4) obtain zs where q: "q = cur @ zs" by (auto simp: prefix_def)
    with Cons.prems(5,6) have "prefix (cur @ [w]) q" by (cases zs) auto
    with Cons.IH [OF d(2)] Cons.prems False show ?thesis by simp
  qed
qed

lemma validateExisting_dirs:
  assumes "validateExistingDirsNoSymlinks fs root dir = None" and "[] \<notin> set dir" and "''.'' \<notin> set dir"
  shows "prefix root dir \<and> (\<forall>q. prefix root q \<longrightarrow> prefix q dir \<longrightarrow> fs q = Some Dir)"
proof -
  from assms(1) obtain rel where rel: "path_rel root dir = Some rel" "fs root = Some Dir"
      "validate_parts fs root rel = None"
    by (auto simp: validateExistingDirsNoSymlinks_def pathUnderRoot_def split: option.splits list.splits node.splits)
  then have dir: "dir = root @ rel" by (auto simp: path_rel_def prefix_def split: if_splits)
  show ?thesis
  proof (intro conjI allI impI)
    show "prefix root dir" by (simp add: dir)
    fix q
    assume q: "prefix root q" "prefix q dir"
    show "fs q = Some Dir"
      using validate_parts_dirs [OF rel(3), of q] q rel(2) assms(2,3) dir by (cases "q = root") auto
  qed
qed

definition wf_root :: "path \<Rightarrow> bool" where
  "wf_root root \<longleftrightarrow> root \<noteq> [] \<and> [] \<notin> set root \<and> ''.'' \<notin> set root"

lemma preview_name_plain: "isPreviewFileName name \<Longrightarrow> plain_name name"
proof -
  assume a: "isPreviewFileName name"
  have "CHR ''/'' \<notin> set name" if l: "length name = 17" "has_prefix name ''segment-''" "has_suffix name ''.ts''"
      "list_all is_digit (take 6 (drop 8 name))"
  proof -
    have d: "drop 14 name = ''.ts''" using l(1,3) by (simp add: has_suffix_def)
    have "set name = set (take 8 name) \<union> set (drop 8 name)"
      by (metis append_take_drop_id set_append)
    also have "set (drop 8 name) = set (take 6 (drop 8 name)) \<union> set (drop 6 (drop 8 name))"
      by (metis append_take_drop_id set_append)
    finally have s: "set name = set (take 8 name) \<union> set (take 6 (drop 8 name)) \<union> set (drop 14 name)"
      by auto
    have "take 8 name = ''segment-''" using l(2) by (simp add: has_prefix_def numeral_eq_Suc)
    moreover have "CHR ''/'' \<notin> set (take 6 (drop 8 name))"
      using l(4) by (auto simp: list_all_iff is_digit_def)
    ultimately show ?thesis unfolding s d by simp
  qed
  with a show ?thesis by (auto simp: isPreviewFileName_def plain_name_def)
qed

lemma tmp_files_below: "plain_name (StreamID l) \<Longrightarrow> p \<in> set (tmp_files l) \<Longrightarrow> strict_prefix (tmpDir l) p"
  by (auto simp: tmp_files_def layout_file_defs previewDir_def strict_prefix_def)

lemma final_files_below: "p \<in> set (final_files l) \<Longrightarrow> strict_prefix (finalDir l) p"
  by (auto simp: final_files_def layout_file_defs strict_prefix_def)

lemma prefix_component:
  "prefix (root @ [a, s]) (root' @ [b, s'] @ ws) \<Longrightarrow> root = root' \<Longrightarrow> a = b \<and> s = s'"
  by simp

lemma has_suffix_split: "has_suffix w p \<Longrightarrow> w = take (length w - length p) w @ p"
  unfolding has_suffix_def by (metis append_take_drop_id)

lemma plain_append: "plain_name a \<Longrightarrow> CHR ''/'' \<notin> set b \<Longrightarrow> 2 < length b \<Longrightarrow> plain_name (a @ b)"
  by (cases b) (auto simp: plain_name_def append_eq_Cons_conv Cons_eq_append_conv)

lemma stale_name_plain:
  assumes "stale_preview_name w"
  shows "plain_name w"
proof (cases "isPreviewFileName w")
  case True
  then show ?thesis by (rule preview_name_plain)
next
  case False
  with assms have s: "has_suffix w ''.tmp''" "isPreviewFileName (take (length w - 4) w)"
    by (auto simp: stale_preview_name_def)
  have "plain_name (take (length w - 4) w @ ''.tmp'')"
    by (rule plain_append [OF preview_name_plain [OF s(2)]]) simp_all
  with has_suffix_split [OF s(1)] show ?thesis by (simp add: numeral_eq_Suc)
qed

lemma remove_previews_frame:
  "remove_previews deny fs dir names = (fs', r) \<Longrightarrow>
     (\<forall>q. fs' q \<noteq> fs q \<longrightarrow> (\<exists>w c. q = dir @ [w] \<and> stale_preview_name w \<and> fs q = Some (Regular c) \<and> fs' q = None))
     \<and> (r = None \<longrightarrow> (\<forall>w \<in> set names. fs' (dir @ [w]) = None))"
proof (induction names arbitrary: fs)
  case Nil
  then show ?case by simp
next
  case (Cons name names)
  let ?p = "dir @ [name]"
  show ?case
  proof (cases "stale_preview_name name \<and> (\<exists>c. fs ?p = Some (Regular c)) \<and> \<not> deny ?p")
    case False
    with Cons.prems have "fs' = fs \<and> r \<noteq> None"
      by (auto simp: Let_def stale_name_plain split: if_splits option.splits node.splits)
    then show ?thesis by auto
  next
    case True
    then obtain c where c: "fs ?p = Some (Regular c)" by blast
    with True Cons.prems have "remove_previews deny (fs(?p := None)) dir names = (fs', r)"
      by (simp add: Let_def stale_name_plain)
    note ih = Cons.IH [OF this]
    have gone: "fs' ?p = None"
    proof (rule ccontr)
      assume "fs' ?p \<noteq> None"
      then have "fs' ?p \<noteq> (fs(?p := None)) ?p" by simp
      with ih show False by fastforce
    qed
    show ?thesis
    proof (intro conjI allI impI)
      fix q
      assume q: "fs' q \<noteq> fs q"
      show "\<exists>w c. q = dir @ [w] \<and> stale_preview_name w \<and> fs q = Some (Regular c) \<and> fs' q = None"
      proof (cases "q = ?p")
        case True
        with c gone \<open>stale_preview_name name \<and> _\<close> show ?thesis by blast
      next
        case False
        with q have "fs' q \<noteq> (fs(?p := None)) q" by simp
        with ih False show ?thesis by fastforce
      qed
    next
      assume "r = None"
      with ih gone show "\<forall>w \<in> set (name # names). fs' (dir @ [w]) = None" by simp
    qed
  qed
qed
lemma artifact_name_plain: "safeArchiveArtifactName raw \<Longrightarrow> plain_name (trim_space raw)"
proof -
  have "to_lower (path_ext ''.'') = ''.''"
    by (simp add: path_ext_def ascii_lower_def byte_string_def Let_def)
  moreover assume "safeArchiveArtifactName raw"
  ultimately show ?thesis
    by (auto simp: safeArchiveArtifactName_def plain_name_def Let_def)
qed

lemma artifact_name_trim [simp]: "safeArchiveArtifactName (trim_space raw) = safeArchiveArtifactName raw"
  by (simp add: safeArchiveArtifactName_def)

lemma artifact_path:
  assumes "safeArchiveArtifactPathForName uni deny fs root s run raw req = (fs', res)"
    and "wf_root root" and "s \<noteq> ''.''"
  shows "adds_dirs fs fs' (root @ [''final'', s, run])
    \<and> (\<forall>p. res = Inr p \<longrightarrow> p = (root @ [''final'', s, run]) @ [trim_space raw]
        \<and> safeArchiveArtifactName raw
        \<and> (if fs' p = None then \<not> req else \<exists>c. fs' p = Some (Regular c)))"
proof (cases "isSafeID uni s \<and> isSafeArchiveRunID run \<and> safeArchiveArtifactName raw")
  case False
  with assms(1) have "fs' = fs \<and> (\<forall>p. res \<noteq> Inr p)"
    by (auto simp: safeArchiveArtifactPathForName_def newRunLayout_def newLayout_def Let_def split: if_splits)
  then show ?thesis by simp
next
  case True
  then have pl: "plain_name s" "plain_name run" "plain_name (trim_space raw)"
    using assms(3) by (auto simp: safe_id_plain run_id_plain artifact_name_plain)
  let ?l = "\<lparr>RootDir = root, StreamID = s, ArchiveRunID = run\<rparr>" and ?dir = "root @ [''final'', s, run]"
  have run: "run \<noteq> []" using pl(2) by (simp add: plain_name_def)
  have l: "newRunLayout uni root s run = Some ?l" using True by (simp add: newRunLayout_fields)
  have d: "finalDir ?l = ?dir" using pl run by (simp add: finalDir_plain)
  obtain fs1 e where en: "ensureDirNoSymlinks deny fs root ?dir = (fs1, e)" by fastforce
  have frame: "adds_dirs fs fs1 ?dir"
    using ensure_dir_frame [OF en] assms(2) pl by (auto simp: wf_root_def plain_name_def)
  have rel: "path_rel root (?dir @ [trim_space raw]) = Some [''final'', s, run, trim_space raw]"
    by (simp add: path_rel_def)
  show ?thesis
  proof (cases e)
    case (Some err)
    with assms(1) True l d en have "fs' = fs1 \<and> res = Inl err"
      by (simp add: safeArchiveArtifactPathForName_def)
    with frame show ?thesis by simp
  next
    case None
    with assms(1) True l d en pl rel have
      "fs' = fs1 \<and> res = (case fs1 (?dir @ [trim_space raw]) of
          None \<Rightarrow> if req then Inl ErrNotExist else Inr (?dir @ [trim_space raw])
        | Some (Regular _) \<Rightarrow> Inr (?dir @ [trim_space raw]) | Some _ \<Rightarrow> Inl ErrNotRegular)"
      by (auto simp: safeArchiveArtifactPathForName_def Let_def split: option.splits node.splits)
    with frame True show ?thesis
      by (auto split: option.splits node.splits if_splits)
  qed
qed

section \<open>Properties\<close>



text \<open>
  The identifier \<open>.\<close> is accepted and is not a directory of its own: its temporary directory
  is the parent of all others, and its preview directory is the one of the stream
  \<open>preview\<close>.
\<close>

theorem dot_stream_shares_directories:
  "isSafeID uni ''.''
   \<and> previewDir \<lparr>RootDir = root, StreamID = ''.'', ArchiveRunID = []\<rparr>
       = tmpDir \<lparr>RootDir = root, StreamID = ''preview'', ArchiveRunID = []\<rparr>
   \<and> finalDir \<lparr>RootDir = root, StreamID = ''.'', ArchiveRunID = ''run1''\<rparr>
       = finalDir \<lparr>RootDir = root, StreamID = ''run1'', ArchiveRunID = []\<rparr>"
proof -
  have "isSafeID uni ''.''"
    by (simp add: isSafeID_def range_runes_def runes_ascii safe_rune_def backslash_def)
  moreover have "plain_name ''run1''" by (simp add: plain_name_def)
  ultimately show ?thesis
    by (simp add: previewDir_def tmpDir_def finalDir_def)
qed

text \<open>
  A preview request can only read a regular file that is the playlist or a numbered
  segment directly in the stream's preview directory, with real directories and no symbolic
  link on the whole way from the archive root.
\<close>

theorem preview_open_confined:
  assumes "openPreviewFile uni fs l name = Inr c" and "wf_root (RootDir l)" and "StreamID l \<noteq> ''.''"
  shows "isPreviewFileName name
    \<and> fs (RootDir l @ [''tmp'', StreamID l, ''preview'', name]) = Some (Regular c)
    \<and> (\<forall>q. prefix (RootDir l) q \<longrightarrow> prefix q (RootDir l @ [''tmp'', StreamID l, ''preview'']) \<longrightarrow> fs q = Some Dir)"
proof -
  from assms(1) have safe: "isSafeID uni (StreamID l)" and name: "isPreviewFileName name"
    and op: "openRegularFileNoSymlinks fs (RootDir l)
      (path_join (previewDir \<lparr>RootDir = RootDir l, StreamID = StreamID l, ArchiveRunID = []\<rparr>) [name]) = Inr c"
    by (auto simp: openPreviewFile_def newLayout_def split: if_splits)
  have pl: "plain_name (StreamID l)" "plain_name name"
    using safe assms(3) name by (auto simp: safe_id_plain preview_name_plain)
  then have p: "path_join (previewDir \<lparr>RootDir = RootDir l, StreamID = StreamID l, ArchiveRunID = []\<rparr>) [name]
      = RootDir l @ [''tmp'', StreamID l, ''preview'', name]"
    by (simp add: previewDir_def)
  let ?dir = "RootDir l @ [''tmp'', StreamID l, ''preview'']"
  have bl: "butlast (RootDir l @ [''tmp'', StreamID l, ''preview'', name]) = ?dir" by (simp add: butlast_append)
  from op [unfolded p] have
    "validateExistingDirsNoSymlinks fs (RootDir l) ?dir = None"
    "fs (RootDir l @ [''tmp'', StreamID l, ''preview'', name]) = Some (Regular c)"
    by (auto simp: openRegularFileNoSymlinks_def bl split: option.splits node.splits)
  moreover have "[] \<notin> set ?dir" "''.'' \<notin> set ?dir"
    using assms(2) pl by (auto simp: wf_root_def plain_name_def)
  ultimately show ?thesis
    using validateExisting_dirs name by blast
qed

definition preview_fs :: "nat fs" where
  "preview_fs p = (if prefix p [''srv'', ''tmp'', ''s'', ''preview''] then Some Dir
     else if p = [''srv'', ''tmp'', ''s'', ''preview'', ''index.m3u8''] then Some (Regular 5) else None)"

theorem preview_open_confined_witness:
  "openPreviewFile (\<lambda>_. False) preview_fs \<lparr>RootDir = [''srv''], StreamID = ''s'', ArchiveRunID = []\<rparr> ''index.m3u8'' = Inr 5
   \<and> preview_fs [''srv'', ''tmp'', ''s''] = Some Dir"
proof -
  let ?l = "\<lparr>RootDir = [''srv''], StreamID = ''s'', ArchiveRunID = []\<rparr>"
  have s: "isSafeID (\<lambda>_. False) ''s''" "plain_name ''s''"
    by (simp_all add: isSafeID_def range_runes_def runes_ascii safe_rune_def is_alnum_def backslash_def
        Let_def plain_name_def)
  have o': "openPreviewFile (\<lambda>_. False) preview_fs ?l ''index.m3u8'' = Inr 5"
    using s by (simp add: openPreviewFile_def newLayout_def isPreviewFileName_def previewDir_def
        openRegularFileNoSymlinks_def pathUnderRoot_def path_rel_def validateExistingDirsNoSymlinks_def
        preview_fs_def)
  from preview_open_confined [OF o'] o' show ?thesis by (auto simp: wf_root_def)
qed

text \<open>
  When \<^verbatim>\<open>PreparePreviewDir\<close> succeeds on a complete listing the preview directory is
  empty. Whatever it returns, it removed nothing but regular files with the name of a preview
  file (or a temporary one) directly in it, and made nothing but directories on the way to it.
\<close>

theorem preview_dir_cleared:
  assumes "preparePreviewDir uni deny listing fs l = (fs', r)"
    and "wf_root (RootDir l)" and "StreamID l \<noteq> ''.''"
    and "dir = RootDir l @ [''tmp'', StreamID l, ''preview'']"
    and "fs1 = fst (ensureDirNoSymlinks deny fs (RootDir l) dir)"
    and "\<forall>w. fs1 (dir @ [w]) \<noteq> None \<longrightarrow> w \<in> set (listing fs1 dir)"
  shows "(r = None \<longrightarrow> (\<forall>w. fs' (dir @ [w]) = None))
    \<and> (\<forall>q. fs' q \<noteq> fs q \<longrightarrow> (fs q = None \<and> fs' q = Some Dir \<and> prefix q dir)
         \<or> (\<exists>w c. q = dir @ [w] \<and> stale_preview_name w \<and> fs q = Some (Regular c) \<and> fs' q = None))"
proof (cases "isSafeID uni (StreamID l)")
  case False
  with assms(1) show ?thesis by (auto simp: preparePreviewDir_def newLayout_def)
next
  case True
  then have pl: "plain_name (StreamID l)" using assms(3) by (simp add: safe_id_plain)
  let ?v = "\<lparr>RootDir = RootDir l, StreamID = StreamID l, ArchiveRunID = []\<rparr>"
  have v: "newLayout uni (RootDir l) (StreamID l) = Some ?v" using True by (simp add: newLayout_def)
  have d: "previewDir ?v = dir" using pl by (simp add: previewDir_def assms(4))
  obtain e where en: "ensureDirNoSymlinks deny fs (RootDir l) dir = (fs1, e)"
    using assms(5) by (metis prod.collapse)
  have frame: "adds_dirs fs fs1 dir"
    using ensure_dir_frame [OF en] assms(2,4) pl by (auto simp: wf_root_def plain_name_def)
  show ?thesis
  proof (cases e)
    case (Some err)
    with assms(1) v d en have "fs' = fs1 \<and> r \<noteq> None" by (auto simp: preparePreviewDir_def)
    with frame show ?thesis by (auto simp: adds_dirs_def)
  next
    case None
    obtain r2 where rm: "remove_previews deny fs1 dir (listing fs1 dir) = (fs', r2)"
      and r: "r = None \<longrightarrow> r2 = None"
      using assms(1) v d en None by (auto simp: preparePreviewDir_def split: prod.splits option.splits)
    note rem = remove_previews_frame [OF rm]
    have empty: "fs' (dir @ [w]) = None" if "r = None" for w
    proof (cases "fs1 (dir @ [w])")
      case None
      with rem show ?thesis by (metis option.distinct(1))
    next
      case (Some n)
      with assms(6) rem r that show ?thesis by auto
    qed
    have "(fs q = None \<and> fs' q = Some Dir \<and> prefix q dir)
         \<or> (\<exists>w c. q = dir @ [w] \<and> stale_preview_name w \<and> fs q = Some (Regular c) \<and> fs' q = None)"
      if ch: "fs' q \<noteq> fs q" for q
    proof (cases "fs' q = fs1 q")
      case True
      with ch frame show ?thesis by (auto simp: adds_dirs_def)
    next
      case False
      with rem obtain w c where "q = dir @ [w]" "stale_preview_name w" "fs1 q = Some (Regular c)" "fs' q = None"
        by blast
      moreover from this frame have "fs q = Some (Regular c)"
        by (metis adds_dirs_def node.distinct(1) option.inject)
      ultimately show ?thesis by blast
    qed
    with empty show ?thesis by blast
  qed
qed

theorem preview_dir_cleared_witness:
  "\<exists>fs'. preparePreviewDir (\<lambda>_. False) (\<lambda>_. False) (\<lambda>_ _. [''index.m3u8'']) preview_fs
      \<lparr>RootDir = [''srv''], StreamID = ''s'', ArchiveRunID = []\<rparr> = (fs', None)
    \<and> fs' [''srv'', ''tmp'', ''s'', ''preview'', ''index.m3u8''] = None \<and> fs' [''srv''] = Some Dir"
proof -
  let ?l = "\<lparr>RootDir = [''srv''], StreamID = ''s'', ArchiveRunID = []\<rparr>"
  let ?dir = "[''srv'', ''tmp'', ''s'', ''preview'']"
  have s: "isSafeID (\<lambda>_. False) ''s''" "plain_name ''s''"
    by (simp_all add: isSafeID_def range_runes_def runes_ascii safe_rune_def is_alnum_def backslash_def
        Let_def plain_name_def)
  have e: "ensureDirNoSymlinks (\<lambda>_. False) preview_fs [''srv''] ?dir = (preview_fs, None)"
    by (simp add: ensureDirNoSymlinks_def path_rel_def preview_fs_def Let_def)
  have ok: "preparePreviewDir (\<lambda>_. False) (\<lambda>_. False) (\<lambda>_ _. [''index.m3u8'']) preview_fs ?l
      = (preview_fs(?dir @ [''index.m3u8''] := None), None)"
    using s e
    by (simp add: preparePreviewDir_def newLayout_def previewDir_def stale_preview_name_def
        isPreviewFileName_def validateExistingDirsNoSymlinks_def pathUnderRoot_def path_rel_def Let_def)
      (simp add: preview_fs_def)
  have l: "preview_fs (?dir @ [w]) \<noteq> None \<longrightarrow> w \<in> set [''index.m3u8'']" for w
    by (auto simp: preview_fs_def prefix_def)
  have "\<forall>w. (preview_fs(?dir @ [''index.m3u8''] := None)) (?dir @ [w]) = None"
    using preview_dir_cleared [OF ok, of ?dir preview_fs] e l by (simp add: wf_root_def)
  with ok show ?thesis by (auto simp: preview_fs_def)
qed

text \<open>
  C36. The artifact routes stay inside one run's final directory: deleting or renaming
  removes at most one regular file with a safe name directly in it, renaming creates the new
  safe name only where nothing was, with the same content, and beyond that only missing
  directories on the way are made. No file is ever overwritten.
\<close>

theorem artifact_routes_confined:
  assumes "deleteArchiveArtifact uni deny fs root s run name = (fs', st) \<and> new = None
      \<or> renameArchiveArtifact uni deny fs root s run name name' = (fs', st) \<and> new = Some name'"
    and "wf_root root" and "s \<noteq> ''.''" and "dir = root @ [''final'', s, run]" and "fs' q \<noteq> fs q"
  shows "(fs q = None \<and> fs' q = Some Dir \<and> prefix q dir)
    \<or> (safeArchiveArtifactName name \<and> q = dir @ [trim_space name]
         \<and> (\<exists>c. fs q = Some (Regular c)) \<and> fs' q = None \<and> (st = ArtifactDeleted \<or> new \<noteq> None))
    \<or> (\<exists>n. new = Some n \<and> safeArchiveArtifactName n \<and> q = dir @ [trim_space n] \<and> fs q = None
         \<and> fs' q = fs (dir @ [trim_space name]) \<and> st = ArtifactRenamed (trim_space n))"
proof -
  obtain fs1 res where p1: "safeArchiveArtifactPathForName uni deny fs root s run name True = (fs1, res)"
    by fastforce
  note a1 = artifact_path [OF p1 assms(2,3), folded assms(4)]
  have dir_q: "fs q = None \<and> x q = Some Dir \<and> prefix q dir" if "adds_dirs fs x dir" "x q \<noteq> fs q" for x
    using that by (auto simp: adds_dirs_def)
  have before: "fs p = Some (Regular c)" if "adds_dirs fs x dir" "x p = Some (Regular c)" for x p c
    using that by (metis adds_dirs_def node.distinct(1) option.inject)
  from assms(1) show ?thesis
  proof
    assume del: "deleteArchiveArtifact uni deny fs root s run name = (fs', st) \<and> new = None"
    show ?thesis
    proof (cases "\<exists>p. res = Inr p \<and> \<not> deny p")
      case False
      with del p1 have "fs' = fs1"
        by (cases res) (auto simp: deleteArchiveArtifact_def split: fs_error.splits if_splits)
      with dir_q [of fs1] a1 assms(5) show ?thesis by simp
    next
      case True
      then obtain p where p: "res = Inr p" "\<not> deny p" by blast
      with del p1 have f: "fs' = fs1(p := None)" "st = ArtifactDeleted"
        by (auto simp: deleteArchiveArtifact_def)
      from a1 p obtain c where pp: "p = dir @ [trim_space name]" "safeArchiveArtifactName name"
          "fs1 p = Some (Regular c)"
        by (auto split: if_splits)
      show ?thesis
      proof (cases "q = p")
        case True
        with before [of fs1 p c] a1 pp f show ?thesis by auto
      next
        case False
        with f assms(5) dir_q [of fs1] a1 show ?thesis by simp
      qed
    qed
  next
    assume ren: "renameArchiveArtifact uni deny fs root s run name name' = (fs', st) \<and> new = Some name'"
    show ?thesis
    proof (cases res)
      case (Inl e)
      with ren p1 have "fs' = fs1"
        by (auto simp: renameArchiveArtifact_def split: fs_error.splits)
      with dir_q [of fs1] a1 assms(5) show ?thesis by simp
    next
      case (Inr source)
      obtain fs2 res2 where p2: "safeArchiveArtifactPathForName uni deny fs1 root s run name' False = (fs2, res2)"
        by fastforce
      note a2 = artifact_path [OF p2 assms(2,3), folded assms(4)]
      have both: "adds_dirs fs fs2 dir" using a1 a2 by (blast intro: adds_dirs_trans)
      from a1 Inr obtain c where src: "source = dir @ [trim_space name]" "safeArchiveArtifactName name"
          "fs1 source = Some (Regular c)"
        by (auto split: if_splits)
      have src2: "fs2 source = Some (Regular c)" "fs source = Some (Regular c)"
        using a2 src(3) before [of fs1] a1 by (auto intro: adds_dirs_Some)
      show ?thesis
      proof (cases "\<exists>target. res2 = Inr target \<and> fs2 target = None \<and> \<not> deny target")
        case False
        with ren p1 Inr p2 have "fs' = fs2"
          by (auto simp: renameArchiveArtifact_def split: sum.splits if_splits)
        with dir_q [of fs2] both assms(5) show ?thesis by simp
      next
        case True
        then obtain target where t: "res2 = Inr target" "fs2 target = None" "\<not> deny target" by blast
        with ren p1 Inr p2 have f: "fs' = fs2(source := None, target := fs2 source)"
            "st = ArtifactRenamed (trim_space name')"
          by (auto simp: renameArchiveArtifact_def)
        from a2 t have tt: "target = dir @ [trim_space name']" "safeArchiveArtifactName name'"
          by auto
        have "fs target = None" using both t(2) by (auto simp: adds_dirs_def)
        consider "q = target" | "q \<noteq> target" "q = source" | "q \<noteq> target" "q \<noteq> source" by blast
        then show ?thesis
        proof cases
          case 1
          with f src src2 tt ren \<open>fs target = None\<close> show ?thesis by auto
        next
          case 2
          with f src src2 ren show ?thesis by auto
        next
          case 3
          with f assms(5) dir_q [of fs2] both show ?thesis by simp
        qed
      qed
    qed
  qed
qed

definition artifact_fs :: "nat fs" where
  "artifact_fs p = (if prefix p [''srv'', ''final'', ''s'', ''r1''] then Some Dir
     else if p = [''srv'', ''final'', ''s'', ''r1'', ''final.mp4''] then Some (Regular 5) else None)"

theorem artifact_routes_confined_witness:
  "\<exists>fs'. deleteArchiveArtifact (\<lambda>_. False) (\<lambda>_. False) artifact_fs [''srv''] ''s'' ''r1'' ''final.mp4''
      = (fs', ArtifactDeleted)
    \<and> fs' [''srv'', ''final'', ''s'', ''r1'', ''final.mp4''] = None \<and> safeArchiveArtifactName ''final.mp4''"
proof -
  have s: "isSafeID (\<lambda>_. False) ''s''" "isSafeArchiveRunID ''r1''" "plain_name ''s''" "plain_name ''r1''"
    by (simp_all add: isSafeID_def range_runes_def runes_ascii safe_rune_def is_alnum_def backslash_def
        Let_def plain_name_def isSafeArchiveRunID_def run_id_char_def)
  have n: "trim_space ''final.mp4'' = ''final.mp4''" "safeArchiveArtifactName ''final.mp4''"
    by code_simp+
  have e: "ensureDirNoSymlinks (\<lambda>_. False) artifact_fs [''srv''] [''srv'', ''final'', ''s'', ''r1'']
      = (artifact_fs, None)"
    by (simp add: ensureDirNoSymlinks_def path_rel_def artifact_fs_def Let_def)
  have p: "plain_name ''final.mp4''" by (simp add: plain_name_def)
  have l: "newRunLayout (\<lambda>_. False) [''srv''] ''s'' ''r1''
      = Some \<lparr>RootDir = [''srv''], StreamID = ''s'', ArchiveRunID = ''r1''\<rparr>"
    using s by (simp add: newRunLayout_fields)
  have d: "deleteArchiveArtifact (\<lambda>_. False) (\<lambda>_. False) artifact_fs [''srv''] ''s'' ''r1'' ''final.mp4''
      = (artifact_fs([''srv'', ''final'', ''s'', ''r1'', ''final.mp4''] := None), ArtifactDeleted)"
    using s n e p l
    by (simp add: deleteArchiveArtifact_def safeArchiveArtifactPathForName_def
        finalDir_plain path_rel_def Let_def)
      (simp add: artifact_fs_def)
  from artifact_routes_confined [where new = None, OF _ _ _ refl,
      of "\<lambda>_. False" "\<lambda>_. False" artifact_fs "[''srv'']" "''s''" "''r1''" "''final.mp4''" _ ArtifactDeleted undefined
        "[''srv'', ''final'', ''s'', ''r1'', ''final.mp4'']"] d
  have "safeArchiveArtifactName ''final.mp4''"
    by (auto simp: wf_root_def artifact_fs_def)
  with d show ?thesis by auto
qed

end
