(* ===== verification/AudioIngest.thy ===== *)
theory AudioIngest
  imports OwnedBridges AudioBridge SidecarFiles SeenCache Base64 ArchiveLayout
begin

text \<open>
  The manager of the audio bridges, \<^verbatim>\<open>audioingest.Manager\<close> of
  \<^verbatim>\<open>internal/audioingest/manager.go\<close>: starting and stopping a bridge, and taking in the packets of an HTTP request.
  A bridge is a pointer into \<open>heap\<close>, for a stopped one and a new one of the same stream live
  side by side. Ages are in nanoseconds where the code divides them to seconds.
\<close>

record audio_packet =
  pk_ssrc :: u32
  pk_user :: string
  pk_sequence :: u16
  pk_timestamp :: u32
  pk_received :: "nanos option"
  pk_opus :: string

record ingest_request =
  rq_stream :: string
  rq_source :: string
  rq_packets :: "audio_packet list"

record ingest_result =
  ig_accepted :: bool
  ig_stream :: string
  ig_count :: nat
  ig_duplicates :: nat
  ig_forwarded :: nat
  ig_artifact :: string

text \<open>The lines of the packet log and of the stream log, and the text of a session description.\<close>

datatype audio_chunk =
    PacketLine string string audio_packet
  | IngestLine nanos string string nat nat nat
  | SdpText string

record audio_stats =
  st_stream :: string
  st_active :: bool
  st_started :: "nanos option"
  st_last :: "nanos option"
  st_packets :: int
  st_forwarded :: int
  st_age :: nanos
  st_tracked :: int
  st_mixed :: int
  st_decode_errors :: int
  st_queue_drops :: int
  st_speaker_drops :: int
  st_clipping :: int
  st_gaps :: int
  st_missing :: int
  st_concealed :: int
  st_late :: int
  st_resets :: int

definition no_stats :: audio_stats where
  "no_stats = \<lparr>st_stream = [], st_active = False, st_started = None, st_last = None, st_packets = 0, st_forwarded = 0,
     st_age = 0, st_tracked = 0, st_mixed = 0, st_decode_errors = 0, st_queue_drops = 0, st_speaker_drops = 0,
     st_clipping = 0, st_gaps = 0, st_missing = 0, st_concealed = 0, st_late = 0, st_resets = 0\<rparr>"

record ('d, 's) ingest_manager =
  maxPackets :: int
  maxOpusSize :: int
  bridges :: "(string \<times> nat) list"
  heap :: "nat \<Rightarrow> ('d, 's) bridgeRecord"
  next_bridge :: nat
  stats :: "(string \<times> audio_stats) list"
  seen_packets :: seen
  maxSeenPackets :: int

definition newIngestManager :: "('d, 's) bridgeRecord \<Rightarrow> ('d, 's) ingest_manager" where
  "newIngestManager unused = \<lparr>maxPackets = 100, maxOpusSize = 4096, bridges = [], heap = (\<lambda>_. unused),
     next_bridge = 0, stats = [], seen_packets = [], maxSeenPackets = 10000\<rparr>"

record bridge_handle =
  bh_stream :: string
  bh_port :: nat
  bh_sdp :: path
  bh_url :: string
  bh_owner :: "nat option"

datatype ingest_error = StreamRequired | SourceRequired | PacketCount | BadLayout | IngestFile fs_error
  | BridgeRunning | SocketError | OpusRequired | OpusInvalid | OpusSize

definition stats_of :: "('d, 's) ingest_manager \<Rightarrow> string \<Rightarrow> audio_stats" where
  "stats_of m s = (case map_of (stats m) s of None \<Rightarrow> no_stats | Some st \<Rightarrow> st)"

definition put_stats :: "string \<Rightarrow> audio_stats \<Rightarrow> ('d, 's) ingest_manager \<Rightarrow> ('d, 's) ingest_manager" where
  "put_stats s st m = m\<lparr>stats := AList.update s st (stats m)\<rparr>"

section \<open>Bridges\<close>

text \<open>A port in decimal, and \<^verbatim>\<open>sdpForPort\<close>.\<close>

definition sdpForPort :: "nat \<Rightarrow> string" where
  "sdpForPort port = concat (map (\<lambda>s. s @ [CHR 0x0A])
     [''v=0'', ''o=- 0 0 IN IP4 127.0.0.1'', ''s=AutoStream Discord Mixed PCM'', ''c=IN IP4 127.0.0.1'', ''t=0 0'',
      ''m=audio '' @ dec_nat port @ '' RTP/AVP 96'', ''a=rtpmap:96 L16/48000/2'', ''a=recvonly''])"

definition path_text :: "path \<Rightarrow> string" where
  "path_text p = concat (map (\<lambda>w. CHR ''/'' # w) p)"

text \<open>
  What the system answers is the argument: whether the sender socket can be opened, the free port, and
  whether the address resolves.
\<close>

definition startBridge ::
  "(path \<Rightarrow> bool) \<Rightarrow> (nat \<Rightarrow> bool) \<Rightarrow> 's mixer_api \<Rightarrow> path \<Rightarrow> bool \<times> nat option \<times> bool \<Rightarrow> nanos \<Rightarrow> string
    \<Rightarrow> audio_chunk list fs \<Rightarrow> ('d, 's) ingest_manager
    \<Rightarrow> audio_chunk list fs \<times> ('d, 's) ingest_manager \<times> (ingest_error + bridge_handle)" where
  "startBridge deny uni mixer archive_root sys now streamID fs m =
     (if trim_space streamID = [] then (fs, m, Inl StreamRequired)
      else case newLayout uni archive_root streamID of
        None \<Rightarrow> (fs, m, Inl BadLayout)
      | Some l \<Rightarrow>
          if map_of (bridges m) streamID \<noteq> None then (fs, m, Inl BridgeRunning)
          else case ensureDirNoSymlinks deny fs (RootDir l) (tmpDir l) of
            (fs, Some err) \<Rightarrow> (fs, m, Inl (IngestFile err))
          | (fs, None) \<Rightarrow>
              (case sys of
                 (True, Some port, resolves) \<Rightarrow>
                   (case writeFileNoSymlink deny fs (tmpDiscordOpusSDP l) [SdpText (sdpForPort port)] of
                      (fs, Some err) \<Rightarrow> (fs, m, Inl (IngestFile err))
                    | (fs, None) \<Rightarrow>
                        if \<not> resolves then (fs, m, Inl SocketError)
                        else
                          let new = next_bridge m;
                              st = (stats_of m streamID)\<lparr>st_stream := streamID, st_active := True, st_started := Some now\<rparr>;
                              m = m\<lparr>bridges := AList.update streamID new (bridges m), heap := (heap m)(new := new_bridge mixer),
                                    next_bridge := Suc new\<rparr>
                          in (fs, put_stats streamID st m,
                              Inr \<lparr>bh_stream = streamID, bh_port = port, bh_sdp = tmpDiscordOpusSDP l,
                                   bh_url = ''internal_discord_audio:'' @ path_text (tmpDiscordOpusSDP l),
                                   bh_owner = Some new\<rparr>))
               | _ \<Rightarrow> (fs, m, Inl SocketError)))"

text \<open>
  \<^verbatim>\<open>stopBridge\<close> has two sections under the lock. The first takes the bridge out of the table; the second, once
  the goroutine of the bridge has ended, adds its counters to those of the stream.
\<close>

definition stop_detach ::
  "string \<Rightarrow> nat option \<Rightarrow> ('d, 's) ingest_manager \<Rightarrow> ('d, 's) ingest_manager \<times> nat option" where
  "stop_detach s expected m =
     (let b = map_of (bridges m) s
      in if expected \<noteq> None \<and> b \<noteq> expected then (m, None)
         else let m' = m\<lparr>bridges := AList.delete s (bridges m)\<rparr>
              in (case map_of (stats m) s of None \<Rightarrow> m' | Some st \<Rightarrow> put_stats s (st\<lparr>st_active := False\<rparr>) m', b))"

definition add_counters :: "bridge_counters \<Rightarrow> audio_stats \<Rightarrow> audio_stats" where
  "add_counters c st = st\<lparr>st_mixed := st_mixed st + mixedFramesTotal c,
     st_decode_errors := st_decode_errors st + decodeErrorsTotal c, st_queue_drops := st_queue_drops st + queueDropsTotal c,
     st_speaker_drops := st_speaker_drops st + speakerLimitDropsTotal c,
     st_clipping := st_clipping st + clippingPreventedTotal c, st_gaps := st_gaps st + sequenceGapEventsTotal c,
     st_missing := st_missing st + missingPacketsTotal c, st_concealed := st_concealed st + concealedFramesTotal c,
     st_late := st_late st + latePacketsDroppedTotal c, st_resets := st_resets st + decoderResetsTotal c\<rparr>"

definition close_bridge :: "nat \<Rightarrow> ('d, 's) ingest_manager \<Rightarrow> ('d, 's) ingest_manager" where
  "close_bridge b m = m\<lparr>heap := (heap m)(b := (heap m b)\<lparr>stopped := True\<rparr>)\<rparr>"

definition stop_account :: "string \<Rightarrow> nat \<Rightarrow> ('d, 's) ingest_manager \<Rightarrow> ('d, 's) ingest_manager" where
  "stop_account s b m = put_stats s (add_counters (counters (heap m b)) ((stats_of m s)\<lparr>st_tracked := 0\<rparr>)) m"

definition stopBridge :: "string \<Rightarrow> nat option \<Rightarrow> ('d, 's) ingest_manager \<Rightarrow> ('d, 's) ingest_manager" where
  "stopBridge s expected m =
     (case stop_detach s expected m of
        (m, None) \<Rightarrow> m
      | (m, Some b) \<Rightarrow> stop_account s b (close_bridge b m))"

definition stopOwnedBridge :: "bridge_handle \<Rightarrow> ('d, 's) ingest_manager \<Rightarrow> ('d, 's) ingest_manager" where
  "stopOwnedBridge h m = (case bh_owner h of None \<Rightarrow> m | Some b \<Rightarrow> stopBridge (bh_stream h) (Some b) m)"

definition bridge_stats :: "string \<Rightarrow> nanos \<Rightarrow> ('d, 's) ingest_manager \<Rightarrow> audio_stats" where
  "bridge_stats s now m =
     (let st = (stats_of m s)\<lparr>st_stream := s\<rparr>;
          st = (case map_of (bridges m) s of
                  None \<Rightarrow> st\<lparr>st_active := False\<rparr>
                | Some b \<Rightarrow> add_counters (counters (heap m b))
                    (st\<lparr>st_active := True, st_tracked := trackedSpeakers (counters (heap m b))\<rparr>));
          started = (case st_started st of None \<Rightarrow> now | Some t \<Rightarrow> t);
          age = time_sub now (case st_last st of None \<Rightarrow> started | Some t \<Rightarrow> t)
      in st\<lparr>st_started := Some started, st_age := max 0 age\<rparr>)"

section \<open>Packets\<close>

text \<open>The checks of one packet: its bytes, and its time set.\<close>

definition decode_opus :: "nat \<Rightarrow> nanos \<Rightarrow> audio_packet \<Rightarrow> ingest_error + audio_packet \<times> u8 list" where
  "decode_opus max_size now p =
     (if trim_space (pk_opus p) = [] then Inl OpusRequired
      else case std_decode (pk_opus p) of
             None \<Rightarrow> Inl OpusInvalid
           | Some bs \<Rightarrow>
               if bs = [] \<or> max_size < length bs then Inl OpusSize
               else Inr (p\<lparr>pk_received := Some (case pk_received p of None \<Rightarrow> now | Some t \<Rightarrow> t)\<rparr>, map of_nat bs))"

fun decode_all :: "nat \<Rightarrow> nanos \<Rightarrow> audio_packet list \<Rightarrow> ingest_error + (audio_packet \<times> u8 list) list" where
  "decode_all max_size now [] = Inr []"
| "decode_all max_size now (p # ps) =
     (case decode_opus max_size now p of
        Inl e \<Rightarrow> Inl e
      | Inr d \<Rightarrow> (case decode_all max_size now ps of Inl e \<Rightarrow> Inl e | Inr ds \<Rightarrow> Inr (d # ds)))"

definition packetDedupeKey :: "string \<Rightarrow> audio_packet \<Rightarrow> string" where
  "packetDedupeKey s p = join_with (CHR 0x00)
     [s, dec_nat (unat (pk_ssrc p)), dec_nat (unat (pk_sequence p)), dec_nat (unat (pk_timestamp p))]"

text \<open>The packets that are new, the number of the others, and the table with the new ones in it.\<close>

fun admit :: "string \<Rightarrow> (audio_packet \<times> u8 list) list \<Rightarrow> seen \<Rightarrow> (audio_packet \<times> u8 list) list \<times> nat \<times> seen" where
  "admit s [] t = ([], 0, t)"
| "admit s (d # ds) t =
     (case offer (packetDedupeKey s (fst d)) (case pk_received (fst d) of None \<Rightarrow> 0 | Some r \<Rightarrow> r) t of
        (False, t) \<Rightarrow> (case admit s ds t of (new, dups, t) \<Rightarrow> (new, Suc dups, t))
      | (True, t) \<Rightarrow> (case admit s ds t of (new, dups, t) \<Rightarrow> (d # new, dups, t)))"

definition packets_trim :: "(seen \<Rightarrow> seen) \<Rightarrow> int \<Rightarrow> seen \<Rightarrow> seen" where
  "packets_trim arr max_seen = trim_seen arr 10000 max_seen"

fun append_lines ::
  "(path \<Rightarrow> bool) \<Rightarrow> path \<Rightarrow> audio_chunk list \<Rightarrow> audio_chunk list fs \<Rightarrow> audio_chunk list fs \<times> fs_error option" where
  "append_lines deny p [] fs = (fs, None)"
| "append_lines deny p (c # cs) fs =
     (case appendFile deny fs p [c] of
        (fs, Some e) \<Rightarrow> (fs, Some e)
      | (fs, None) \<Rightarrow> append_lines deny p cs fs)"

definition queued_packet :: "audio_packet \<times> u8 list \<Rightarrow> queuedOpusPacket" where
  "queued_packet d = \<lparr>q_ssrc = pk_ssrc (fst d), q_sequence = pk_sequence (fst d), q_timestamp = pk_timestamp (fst d),
     q_opus = snd d\<rparr>"

fun enqueue_all :: "queuedOpusPacket list \<Rightarrow> ('d, 's) bridgeRecord \<Rightarrow> nat \<times> ('d, 's) bridgeRecord" where
  "enqueue_all [] b = (0, b)"
| "enqueue_all (q # qs) b =
     (case enqueue q b of
        (ok, b) \<Rightarrow> (case enqueue_all qs b of (n, b) \<Rightarrow> ((if ok then Suc n else n), b)))"

text \<open>The statistics after an accepted batch.\<close>

definition batch_stats :: "string \<Rightarrow> bool \<Rightarrow> nanos \<Rightarrow> nat \<Rightarrow> nat \<Rightarrow> audio_stats \<Rightarrow> audio_stats" where
  "batch_stats s active now accepted forwarded st = st\<lparr>st_stream := s, st_active := active,
     st_started := (case st_started st of None \<Rightarrow> Some now | t \<Rightarrow> t), st_packets := st_packets st + int accepted,
     st_forwarded := st_forwarded st + int forwarded, st_last := Some now, st_age := 0\<rparr>"

text \<open>The section under the lock.\<close>

definition add_batch ::
  "(path \<Rightarrow> bool) \<Rightarrow> (seen \<Rightarrow> seen) \<Rightarrow> nanos \<Rightarrow> layout \<Rightarrow> ingest_request \<Rightarrow> (audio_packet \<times> u8 list) list
    \<Rightarrow> audio_chunk list fs \<Rightarrow> ('d, 's) ingest_manager
    \<Rightarrow> audio_chunk list fs \<times> ('d, 's) ingest_manager \<times> (ingest_error + ingest_result)" where
  "add_batch deny arr now l rq ds fs m =
     (let s = rq_stream rq
      in case admit s ds (seen_packets m) of
        (new, dups, seen) \<Rightarrow>
          let m = m\<lparr>seen_packets := packets_trim arr (maxSeenPackets m) seen\<rparr>;
              answer = (\<lambda>n k. \<lparr>ig_accepted = True, ig_stream = s, ig_count = n, ig_duplicates = dups,
                 ig_forwarded = k, ig_artifact = ''discord-opus.jsonl''\<rparr>)
          in if new = [] then (fs, m, Inr (answer 0 0))
             else case append_lines deny (tmpDiscordOpus l) (map (\<lambda>d. PacketLine s (rq_source rq) (fst d)) new) fs of
               (fs, Some err) \<Rightarrow> (fs, m, Inl (IngestFile err))
             | (fs, None) \<Rightarrow>
                 (case (case map_of (bridges m) s of
                          None \<Rightarrow> (0, heap m)
                        | Some b \<Rightarrow> (case enqueue_all (map queued_packet new) (heap m b) of
                                       (k, br) \<Rightarrow> (k, (heap m)(b := br)))) of
                    (k, h) \<Rightarrow>
                      let m = put_stats s (batch_stats s (map_of (bridges m) s \<noteq> None) now (length new) k (stats_of m s))
                                (m\<lparr>heap := h\<rparr>)
                      in case appendFile deny fs (tmpLogs l) [IngestLine now s (rq_source rq) (length new) dups k] of
                           (fs, Some err) \<Rightarrow> (fs, m, Inl (IngestFile err))
                         | (fs, None) \<Rightarrow> (fs, m, Inr (answer (length new) k))))"

definition addPackets ::
  "(path \<Rightarrow> bool) \<Rightarrow> (nat \<Rightarrow> bool) \<Rightarrow> (seen \<Rightarrow> seen) \<Rightarrow> path \<Rightarrow> nanos \<Rightarrow> ingest_request
    \<Rightarrow> audio_chunk list fs \<Rightarrow> ('d, 's) ingest_manager
    \<Rightarrow> audio_chunk list fs \<times> ('d, 's) ingest_manager \<times> (ingest_error + ingest_result)" where
  "addPackets deny uni arr archive_root now rq fs m =
     (if trim_space (rq_stream rq) = [] then (fs, m, Inl StreamRequired)
      else if trim_space (rq_source rq) = [] then (fs, m, Inl SourceRequired)
      else if rq_packets rq = [] \<or> (if maxPackets m \<le> 0 then 100 else maxPackets m) < int (length (rq_packets rq))
      then (fs, m, Inl PacketCount)
      else case newLayout uni archive_root (rq_stream rq) of
        None \<Rightarrow> (fs, m, Inl BadLayout)
      | Some l \<Rightarrow>
          case ensureDirNoSymlinks deny fs (RootDir l) (tmpDir l) of
            (fs, Some err) \<Rightarrow> (fs, m, Inl (IngestFile err))
          | (fs, None) \<Rightarrow>
              case decode_all (nat (if maxOpusSize m \<le> 0 then 4096 else maxOpusSize m)) now (rq_packets rq) of
                Inl err \<Rightarrow> (fs, m, Inl err)
              | Inr ds \<Rightarrow> add_batch deny arr now l rq ds fs m)"

section \<open>Interfaces\<close>

interpretation packets_seen: seen_table 10000 "packets_trim (sort_key snd) 10000"
  using seen_table_trim [of "sort_key snd" 10000 10000]
  by (simp add: arranges_def packets_trim_def [abs_def] Let_def)

section \<open>Lemmas\<close>

lemma offer_cases:
  "offer k t s = (if map_of s k \<noteq> None then (False, s) else (True, AList.update k t s))"
  by (rule offer_def)

definition packet_key :: "string \<Rightarrow> audio_packet \<times> u8 list \<Rightarrow> string" where
  "packet_key s d = packetDedupeKey s (fst d)"

text \<open>The packets whose keys are neither known nor those of an earlier packet of the batch.\<close>

definition first_new :: "string \<Rightarrow> (audio_packet \<times> u8 list) list \<Rightarrow> seen \<Rightarrow> (audio_packet \<times> u8 list) list" where
  "first_new s ds t = map (nth ds) (filter (\<lambda>i. map_of t (packet_key s (ds ! i)) = None
     \<and> packet_key s (ds ! i) \<notin> packet_key s ` set (take i ds)) [0..<length ds])"

lemma first_new_Cons:
  "first_new s (d # ds) t = (if map_of t (packet_key s d) = None then d # first_new s ds ((packet_key s d, r) # t)
     else first_new s ds t)"
proof -
  have u: "[0..<length (d # ds)] = 0 # map Suc [0..<length ds]" by (simp add: upt_conv_Cons map_Suc_upt del: upt_Suc)
  show ?thesis
  proof (cases "map_of t (packet_key s d)")
    case None
    have "(map_of t (packet_key s (ds ! i)) = None \<and> packet_key s (ds ! i) \<notin> insert (packet_key s d) A)
        = (map_of ((packet_key s d, r) # t) (packet_key s (ds ! i)) = None \<and> packet_key s (ds ! i) \<notin> A)" for i A
      by auto
    with None show ?thesis unfolding first_new_def u by (simp add: filter_map o_def)
  next
    case (Some x)
    then have "(map_of t (packet_key s (ds ! i)) = None \<and> packet_key s (ds ! i) \<notin> insert (packet_key s d) A)
        = (map_of t (packet_key s (ds ! i)) = None \<and> packet_key s (ds ! i) \<notin> A)" for i A
      by auto
    with Some show ?thesis unfolding first_new_def u by (simp add: filter_map o_def)
  qed
qed

lemma first_new_cong: "(\<And>k. map_of t k = None \<longleftrightarrow> map_of t' k = None) \<Longrightarrow> first_new s ds t = first_new s ds t'"
  by (simp add: first_new_def)

lemma admit_first_new:
  "admit s ds t = (new, dups, t') \<Longrightarrow> new = first_new s ds t \<and> length new + dups = length ds"
proof (induction ds arbitrary: t new dups t')
  case Nil
  then show ?case by (simp add: first_new_def)
next
  case (Cons d ds)
  define r where "r = (case pk_received (fst d) of None \<Rightarrow> 0 | Some r \<Rightarrow> r)"
  let ?t = "if map_of t (packet_key s d) = None then AList.update (packet_key s d) r t else t"
  obtain n0 d0 t0 where a: "admit s ds ?t = (n0, d0, t0)" by (metis prod_cases3)
  have fn: "first_new s ds (AList.update (packet_key s d) r t) = first_new s ds ((packet_key s d, r) # t)"
    by (rule first_new_cong) (simp add: update_conv')
  from Cons.IH [OF a] Cons.prems a show ?case
    by (auto simp: offer_def packet_key_def [symmetric] r_def [symmetric] first_new_Cons [of s d ds t r] fn split: if_splits)
qed

lemma decode_all_length: "decode_all n now ps = Inr ds \<Longrightarrow> length ds = length ps"
  by (induction ps arbitrary: ds) (auto split: sum.splits)

lemma append_lines_content:
  assumes "append_lines deny p cs fs = (fs', None)" and "clean_path p"
  shows "file_content fs' q = (if q = p then file_content fs p @ cs else file_content fs q)"
  using assms
proof (induction cs arbitrary: fs)
  case Nil
  then show ?case by simp
next
  case (Cons c cs)
  obtain fs1 r1 where a: "appendFile deny fs p [c] = (fs1, r1)" by fastforce
  with Cons.prems have r: "r1 = None" "append_lines deny p cs fs1 = (fs', None)" by (cases r1; simp)+
  from Cons.IH [OF r(2) Cons.prems(2)] append_file_content [OF a Cons.prems(2)] r(1)
  show ?case by simp
qed

text \<open>A channel with room takes a batch in order.\<close>

lemma enqueue_all_room:
  "\<not> stopped b \<Longrightarrow> length (packets b) + length qs \<le> audioRTPQueueSize \<Longrightarrow>
   enqueue_all qs b = (length qs, b\<lparr>packets := packets b @ qs\<rparr>)"
  by (induction qs arbitrary: b) (auto simp: enqueue_def)

section \<open>Properties\<close>

lemma tmp_dir_clean: "wf_root (RootDir l) \<Longrightarrow> clean_path (tmpDir l)"
  unfolding tmpDir_def by (rule path_join_clean) (simp add: wf_root_def clean_path_def)

lemma ensure_dir_content:
  assumes "ensureDirNoSymlinks deny fs (RootDir l) (tmpDir l) = (fs', r)" and "wf_root (RootDir l)"
  shows "file_content fs' q = file_content fs q"
  using adds_dirs_content [OF ensure_dir_frame [OF assms(1)]] tmp_dir_clean [OF assms(2)] assms(2)
  by (simp add: wf_root_def clean_path_def)


definition sample_audio :: "u16 \<Rightarrow> audio_packet" where
  "sample_audio n = \<lparr>pk_ssrc = 7, pk_user = ''u'', pk_sequence = n, pk_timestamp = 960, pk_received = Some 5, pk_opus = ''/A==''\<rparr>"

definition sample_ingest :: ingest_request where
  "sample_ingest = \<lparr>rq_stream = ''s1'', rq_source = ''discord'', rq_packets = [sample_audio 1, sample_audio 2, sample_audio 1]\<rparr>"

definition sample_manager :: "(nat, int) ingest_manager" where
  "sample_manager = (newIngestManager (new_bridge sample_mixer))\<lparr>bridges := [(''s1'', 0)], next_bridge := 1\<rparr>"

lemma sample_batch:
  "\<not> isl (snd (snd (addPackets (\<lambda>_. False) (\<lambda>_. False) (sort_key snd) [''a''] 9 sample_ingest Map.empty sample_manager)))"
  "case decode_all 4096 9 (rq_packets sample_ingest) of
     Inl e \<Rightarrow> False | Inr ds \<Rightarrow> map queued_packet (first_new ''s1'' ds []) = [sample_packet 1\<lparr>q_timestamp := 960\<rparr>,
       sample_packet 2\<lparr>q_timestamp := 960\<rparr>]"
  by code_simp+


section \<open>Stopping\<close>

definition stats_totals :: "audio_stats \<Rightarrow> int list" where
  "stats_totals st = [st_mixed st, st_decode_errors st, st_queue_drops st, st_speaker_drops st, st_clipping st,
     st_gaps st, st_missing st, st_concealed st, st_late st, st_resets st]"

lemma delete_None: "map_of (AList.delete s m) s' = (if s' = s then None else map_of m s')"
  by (simp add: AList.delete_conv')

definition audio_bridge_at :: "('d, 's) ingest_manager \<Rightarrow> string \<Rightarrow> nat option" where
  "audio_bridge_at m s = map_of (bridges m) s"

interpretation audio_owned: owned_bridges audio_bridge_at "\<lambda>s b. stopBridge s (Some b)"
  by unfold_locales
    (auto simp: audio_bridge_at_def stopBridge_def stop_detach_def close_bridge_def stop_account_def put_stats_def Let_def
      delete_None split: option.splits)

lemma stop_other:
  assumes "map_of (bridges m) s = Some new" and "owner \<noteq> new"
  shows "map_of (bridges (stopBridge s' (Some owner) m)) s = Some new
    \<and> heap (stopBridge s' (Some owner) m) new = heap m new"
proof -
  have "heap (stopBridge s' (Some owner) m) new = heap m new"
    using assms by (auto simp: stopBridge_def stop_detach_def close_bridge_def stop_account_def put_stats_def Let_def
        split: option.splits)
  with audio_owned.stop_fenced [of m s new owner s'] assms show ?thesis by (simp add: audio_bridge_at_def)
qed

lemma startBridge_new:
  assumes "startBridge deny uni mixer rt sys now s fs m = (fs', m', Inr h)"
  shows "map_of (bridges m') s = Some (next_bridge m) \<and> heap m' (next_bridge m) = new_bridge mixer
    \<and> bh_stream h = s \<and> bh_owner h = Some (next_bridge m) \<and> next_bridge m' = Suc (next_bridge m)"
  using assms
  by (auto simp: startBridge_def Let_def put_stats_def update_conv' split: if_splits option.splits prod.splits bool.splits)



end
