(* ===== verification/Strings.thy ===== *)
theory Strings
  imports FileSystem Utf8
begin

text \<open>
  What the code uses of Go's \<^verbatim>\<open>strings\<close>, \<^verbatim>\<open>path/filepath\<close> (on Unix) and \<^verbatim>\<open>net/url\<close>, on
  byte strings.
\<close>

definition str_contains :: "string \<Rightarrow> string \<Rightarrow> bool" where
  "str_contains s w \<longleftrightarrow> list_ex (\<lambda>i. has_prefix (drop i s) w) [0..<length s + 1]"

text \<open>\<^verbatim>\<open>strings.ContainsAny\<close> for ASCII characters.\<close>

definition contains_any :: "string \<Rightarrow> string \<Rightarrow> bool" where
  "contains_any s cs \<longleftrightarrow> list_ex (\<lambda>c. c \<in> set cs) s"

text \<open>\<^verbatim>\<open>strings.ReplaceAll\<close> of a text that is not empty.\<close>

function replace_all :: "string \<Rightarrow> string \<Rightarrow> string \<Rightarrow> string" where
  "replace_all old new s =
     (if old = [] \<or> s = [] then s
      else if has_prefix s old then new @ replace_all old new (drop (length old) s)
      else hd s # replace_all old new (tl s))"
  by pat_completeness auto
termination
  by (relation "measure (\<lambda>(old, new, s). length s)") auto

declare replace_all.simps [simp del]

definition trim_prefix :: "string \<Rightarrow> string \<Rightarrow> string" where
  "trim_prefix s p = (if has_prefix s p then drop (length p) s else s)"

definition trim_suffix :: "string \<Rightarrow> string \<Rightarrow> string" where
  "trim_suffix s p = (if has_suffix s p then take (length s - length p) s else s)"

text \<open>\<^verbatim>\<open>strings.TrimRight\<close> with one character.\<close>

definition trim_right_char :: "char \<Rightarrow> string \<Rightarrow> string" where
  "trim_right_char c s = rev (dropWhile (\<lambda>x. x = c) (rev s))"

section \<open>Numbers and hosts\<close>

text \<open>\<^verbatim>\<open>strings.Trim\<close> with a set of ASCII characters.\<close>

definition trim_chars :: "string \<Rightarrow> string \<Rightarrow> string" where
  "trim_chars cs s = rev (dropWhile (\<lambda>c. c \<in> set cs) (rev (dropWhile (\<lambda>c. c \<in> set cs) s)))"

text \<open>\<^verbatim>\<open>strconv.Atoi\<close> of a 64-bit \<^verbatim>\<open>int\<close>; a value that does not fit is an error.\<close>

definition go_atoi :: "string \<Rightarrow> int option" where
  "go_atoi s =
     (let neg = has_prefix s ''-''; ds = (if neg \<or> has_prefix s ''+'' then tl s else s);
          n = (if neg then - int (undec ds) else int (undec ds))
      in if ds = [] \<or> \<not> list_all is_digit ds \<or> n < - (2 ^ 63) \<or> 2 ^ 63 \<le> n then None else Some n)"

text \<open>\<^verbatim>\<open>net.JoinHostPort\<close> and \<^verbatim>\<open>net.SplitHostPort\<close>.\<close>

definition join_host_port :: "string \<Rightarrow> string \<Rightarrow> string" where
  "join_host_port host port = (if CHR '':'' \<in> set host then ''['' @ host @ '']:'' @ port else host @ '':'' @ port)"

definition split_host_port :: "string \<Rightarrow> (string \<times> string) option" where
  "split_host_port s =
     (if CHR '':'' \<notin> set s then None
      else let port = rev (takeWhile (\<lambda>c. c \<noteq> CHR '':'') (rev s));
               i = length s - length port - 1
      in if has_prefix s ''['' then
           let e = length (takeWhile (\<lambda>c. c \<noteq> CHR '']'') s)
           in if e = length s \<or> e + 1 \<noteq> i then None
              else if CHR ''['' \<in> set (tl s) \<or> CHR '']'' \<in> set (drop (e + 1) s) then None
              else Some (take (e - 1) (tl s), port)
         else let host = take i s
              in if CHR '':'' \<in> set host \<or> CHR ''['' \<in> set s \<or> CHR '']'' \<in> set s then None else Some (host, port))"

text \<open>A text that begins and ends with a letter or digit has nothing to trim.\<close>

lemma space_encoding_ends:
  assumes "e \<in> set space_encodings"
  shows "\<not> is_alnum (hd e) \<and> \<not> is_alnum (last e)"
proof -
  have "list_all (\<lambda>e. \<not> is_alnum (hd e) \<and> \<not> is_alnum (last e)) space_encodings" by code_simp
  with assms show ?thesis unfolding list_all_iff by blast
qed

lemma trim_space_fixed:
  assumes "s \<noteq> []" and "is_alnum (hd s)" and "is_alnum (last s)"
  shows "trim_space s = s"
proof -
  have "\<not> has_prefix s e" if "e \<in> set space_encodings" for e
    using space_encoding_ends [OF that] space_encoding_length [OF that] assms(2) by (auto simp: has_prefix_iff)
  then have "find (has_prefix s) space_encodings = None" by (simp add: find_None_iff)
  then have l: "trim_left s = s" by (subst trim_left.simps) simp
  have "\<not> has_suffix s e" if e: "e \<in> set space_encodings" for e
  proof
    assume "has_suffix s e"
    then have d: "drop (length s - length e) s = e" and n: "length e \<le> length s" by (auto simp: has_suffix_def)
    have "0 < length e" using e by (rule space_encoding_length)
    with d n have "last e = last s" by (metis diff_less last_drop length_greater_0_conv less_le_trans)
    with space_encoding_ends [OF e] assms(3) show False by simp
  qed
  then have "find (has_suffix s) space_encodings = None" by (simp add: find_None_iff)
  then have "trim_right s = s" by (subst trim_right.simps) simp
  with l show ?thesis by (simp add: trim_space_def)
qed

lemma digit_alnum: "is_digit c \<Longrightarrow> is_alnum c"
  by (simp add: is_digit_def is_alnum_def Let_def)

lemma trim_prefix_append [simp]: "trim_prefix (p @ s) p = s"
  by (simp add: trim_prefix_def has_prefix_iff)

section \<open>Paths as text\<close>

definition clean_part :: "bool \<Rightarrow> string list \<Rightarrow> string \<Rightarrow> string list" where
  "clean_part rooted acc w =
     (if w = [] \<or> w = ''.'' then acc
      else if w = ''..''
      then if acc \<noteq> [] \<and> last acc \<noteq> ''..'' then butlast acc else if rooted then acc else acc @ [w]
      else acc @ [w])"

definition filepath_clean :: "string \<Rightarrow> string" where
  "filepath_clean s =
     (let rooted = has_prefix s ''/'';
          parts = foldl (clean_part rooted) [] (split_at (CHR ''/'') s);
          body = join_with (CHR ''/'') parts
      in if rooted then CHR ''/'' # body else if parts = [] then ''.'' else body)"

definition filepath_dir :: "string \<Rightarrow> string" where
  "filepath_dir s = filepath_clean (take (length s - length (takeWhile (\<lambda>c. c \<noteq> CHR ''/'') (rev s))) s)"

definition filepath_join2 :: "string \<Rightarrow> string \<Rightarrow> string" where
  "filepath_join2 a b =
     (if a = [] then if b = [] then [] else filepath_clean b
      else filepath_clean (a @ ''/'' @ b))"

section \<open>Escaping\<close>

definition hex_upper :: "nat \<Rightarrow> char" where
  "hex_upper n = (if n < 10 then char_of (48 + n) else char_of (55 + n))"

text \<open>\<^verbatim>\<open>url.PathEscape\<close>.\<close>

definition path_escape :: "string \<Rightarrow> string" where
  "path_escape s = concat (map (\<lambda>c.
     if is_alnum c \<or> c \<in> set ''-_.~$&+=:@'' then [c]
     else let n = of_char c in [CHR ''%'', hex_upper (n div 16), hex_upper (n mod 16)]) s)"

end
