(* ===== verification/VideoCover.thy ===== *)
theory VideoCover
  imports Prelude
begin

text \<open>
  \<^verbatim>\<open>internal/videocover\<close>: the types of the video cover contract
  (\<^verbatim>\<open>types.go\<close>), and of \<^verbatim>\<open>asset.go\<close> the descriptor checks, the chunk scanners that
  refuse animated images, the frame cache and \<^verbatim>\<open>Loader.Load\<close>. The image codecs, the
  SHA-256 digest and the fetch over the network are parameters (record \<open>image_api\<close>).
\<close>

section \<open>Types\<close>

datatype readiness = ReadinessUnset | ReadinessReady | ReadinessNotReady | ReadinessUnknown

datatype error_code = ErrorMediaAssetUnauthorized | ErrorMediaAssetNotFound
  | ErrorMediaAssetHashMismatch | ErrorMediaAssetDimensionMismatch | ErrorMediaAssetTimeout
  | ErrorMediaAssetFormatUnsupported | ErrorMediaAssetTooLarge | ErrorMediaAssetDecodeFailed
  | ErrorMediaAssetAspectRatioInvalid | ErrorMediaAssetVariantProcessing
  | ErrorMediaAssetVariantFailed | ErrorStaleJobGeneration | ErrorStaleCoverGeneration
  | ErrorStaleCoverRevision | ErrorIdempotencyConflict | ErrorCoverApplyAmbiguous
  | ErrorCoverGraphUnavailable | ErrorRevisionPayloadConflict | ErrorCapabilityRequired
  | ErrorInvalidRequest

record mediaAssetDescriptor =
  a_asset_id :: string
  a_variant_id :: string
  a_usage :: string
  a_media_type :: string
  a_width :: int
  a_height :: int
  a_byte_size :: int
  a_pixel_count :: int
  a_animated :: bool
  a_aspect_error :: "int option"
  a_opaque :: "bool option"
  a_sha256 :: string
  a_revision :: u64
  a_readiness :: readiness
  a_error :: "error_code option"

record startSnapshot =
  s_job_generation :: u64
  s_revision :: u64
  s_active :: bool
  s_idempotency_key :: string
  s_cover_asset :: "mediaAssetDescriptor option"

record applyRequest =
  q_stream_id :: string
  q_job_generation :: u64
  q_expected_generation :: u64
  q_revision :: u64
  q_active :: bool
  q_idempotency_key :: string
  q_cover_asset :: "mediaAssetDescriptor option"
  q_hide_confirmed :: bool

record desiredState =
  d_active :: bool
  d_revision :: u64
  d_source :: string
  d_variant_id :: string

record appliedState =
  p_state :: string
  p_active :: "bool option"
  p_revision :: u64
  p_variant_id :: string

record layerState =
  l_enabled :: bool
  l_revision :: u64
  l_variant_id :: string

record pipelineInvariant =
  i_layers :: "string list"
  i_watermark_topmost :: bool
  i_cover_watermark_independent :: bool
  i_output_parity :: "string list"
  i_audio_continuity :: "int list"

definition fixedPipelineInvariant :: pipelineInvariant where
  "fixedPipelineInvariant = \<lparr>
     i_layers = [''base_or_worker_scene'', ''video_cover'', ''watermark'', ''video_encode'',
       ''tee_live_archive_preview''],
     i_watermark_topmost = True, i_cover_watermark_independent = True,
     i_output_parity = [''live'', ''archive'', ''preview''],
     i_audio_continuity = replicate 8 0\<rparr>"

record appliedWitness =
  w_graph_applied :: bool
  w_generation :: u64
  w_revision :: u64
  w_active :: bool
  w_cover :: layerState
  w_watermark :: layerState
  w_pipeline :: pipelineInvariant

record runtimeState =
  r_stream_id :: string
  r_job_generation :: u64
  r_generation :: u64
  r_capability :: string
  r_readiness :: readiness
  r_desired :: desiredState
  r_applied :: appliedState
  r_cover :: layerState
  r_cover_asset :: "mediaAssetDescriptor option"
  r_watermark :: layerState
  r_pipeline :: pipelineInvariant
  r_applied_witness :: "appliedWitness option"
  r_no_automatic_resend :: bool
  r_last_good_applied :: "appliedState option"
  r_error :: "error_code option"

datatype applyOutcome = OutcomeApplied | OutcomeRejected | OutcomeAmbiguous

record applyResponse =
  o_stream_id :: string
  o_job_generation :: u64
  o_requested_revision :: u64
  o_actual_generation :: u64
  o_accepted :: bool
  o_rejected :: bool
  o_applied :: bool
  o_outcome :: applyOutcome
  o_actual :: runtimeState
  o_error :: "error_code option"

text \<open>The zero values of Go.\<close>

definition zero_layer :: layerState where
  "zero_layer = \<lparr>l_enabled = False, l_revision = 0, l_variant_id = []\<rparr>"

definition unknown_applied :: appliedState where
  "unknown_applied = \<lparr>p_state = ''unknown'', p_active = None, p_revision = 0, p_variant_id = []\<rparr>"

definition zero_runtime :: runtimeState where
  "zero_runtime = \<lparr>r_stream_id = [], r_job_generation = 0, r_generation = 0, r_capability = [],
     r_readiness = ReadinessUnset,
     r_desired = \<lparr>d_active = False, d_revision = 0, d_source = [], d_variant_id = []\<rparr>,
     r_applied = \<lparr>p_state = [], p_active = None, p_revision = 0, p_variant_id = []\<rparr>,
     r_cover = zero_layer, r_cover_asset = None, r_watermark = zero_layer,
     r_pipeline = \<lparr>i_layers = [], i_watermark_topmost = False,
       i_cover_watermark_independent = False, i_output_parity = [],
       i_audio_continuity = replicate 8 0\<rparr>,
     r_applied_witness = None, r_no_automatic_resend = False, r_last_good_applied = None,
     r_error = None\<rparr>"

section \<open>Descriptor checks\<close>

definition maxAssetBytes :: int where
  [simp]: "maxAssetBytes = 20971520"

definition safe_id_char :: "char \<Rightarrow> bool" where
  "safe_id_char c \<longleftrightarrow> is_alnum c \<or> c \<in> {CHR ''.'', CHR ''_'', CHR '':'', CHR ''-''}"

definition safeAssetID :: "string \<Rightarrow> bool" where
  "safeAssetID s \<longleftrightarrow> s \<noteq> [] \<and> is_alnum (hd s) \<and> list_all safe_id_char (tl s) \<and> length s \<le> 128"

definition descriptorShapeError :: "mediaAssetDescriptor \<Rightarrow> error_code option" where
  "descriptorShapeError d =
     (if \<not> safeAssetID (a_asset_id d) \<or> \<not> safeAssetID (a_variant_id d) \<or> a_usage d \<noteq> ''video_cover''
         \<or> a_readiness d \<noteq> ReadinessReady \<or> a_error d \<noteq> None \<or> a_animated d \<or> a_revision d < 1
      then Some ErrorInvalidRequest
      else if a_media_type d \<notin> {''image/png'', ''image/jpeg'', ''image/webp''}
      then Some ErrorMediaAssetFormatUnsupported
      else if a_width d < 1 \<or> 8192 < a_width d \<or> a_height d < 1 \<or> 8192 < a_height d
         \<or> a_byte_size d < 1 \<or> maxAssetBytes < a_byte_size d
         \<or> a_pixel_count d \<noteq> a_width d * a_height d \<or> 40000000 < a_pixel_count d
      then Some ErrorMediaAssetDimensionMismatch
      else if (case a_aspect_error d of None \<Rightarrow> True | Some e \<Rightarrow> e < 0 \<or> 1000 < e)
         \<or> a_opaque d \<noteq> Some True
      then Some ErrorInvalidRequest
      else if length (a_sha256 d) \<noteq> 64 then Some ErrorMediaAssetHashMismatch
      else if \<not> list_all is_hex_digit (a_sha256 d) \<or> to_lower (a_sha256 d) \<noteq> a_sha256 d
      then Some ErrorMediaAssetHashMismatch
      else None)"

definition validateDescriptorShape :: "mediaAssetDescriptor \<Rightarrow> error_code option" where
  "validateDescriptorShape d =
     (case descriptorShapeError d of Some _ \<Rightarrow> Some ErrorInvalidRequest | None \<Rightarrow> None)"

definition validateDescriptor :: "mediaAssetDescriptor \<Rightarrow> int \<Rightarrow> int \<Rightarrow> error_code option" where
  "validateDescriptor d outputWidth outputHeight =
     (case descriptorShapeError d of
        Some e \<Rightarrow> Some e
      | None \<Rightarrow>
          if 0 < outputWidth \<and> 0 < outputHeight
          then let denominator = wrap64 (outputWidth * a_height d);
                   delta = wrap64 (wrap64 (a_width d * outputHeight) - denominator);
                   delta = (if delta < 0 then wrap64 (- delta) else delta)
               in if denominator \<le> 0 \<or> 1000 < go_div (wrap64 (delta * 1000000)) denominator
                  then Some ErrorMediaAssetAspectRatioInvalid else None
          else None)"

section \<open>Chunk scanners\<close>

definition be_value :: "u8 list \<Rightarrow> nat" where
  "be_value bs = foldl (\<lambda>n b. n * 256 + unat b) 0 bs"

definition le_value :: "u8 list \<Rightarrow> nat" where
  "le_value bs = be_value (rev bs)"

definition bytes_of :: "string \<Rightarrow> u8 list" where
  "bytes_of s = map (\<lambda>c. of_nat (of_char c)) s"

definition png_signature :: "u8 list" where
  "png_signature = [0x89, 0x50, 0x4e, 0x47, 0x0d, 0x0a, 0x1a, 0x0a]"

text \<open>The loop of \<^verbatim>\<open>pngHasChunk\<close> on the bytes from \<^verbatim>\<open>offset\<close> on.\<close>

function png_scan :: "u8 list \<Rightarrow> u8 list \<Rightarrow> bool" where
  "png_scan rest wanted =
     (if length rest < 12 then False
      else let end = 12 + be_value (take 4 rest)
           in if length rest < end then False
              else if take 4 (drop 4 rest) = wanted then True
              else png_scan (drop end rest) wanted)"
  by pat_completeness auto
termination
  by (relation "measure (length \<circ> fst)") auto

declare png_scan.simps [simp del]

definition pngHasChunk :: "u8 list \<Rightarrow> u8 list \<Rightarrow> bool" where
  "pngHasChunk body wanted =
     (if length wanted \<noteq> 4 \<or> length body < 8 \<or> take 8 body \<noteq> png_signature then False
      else png_scan (drop 8 body) wanted)"

function webp_scan :: "u8 list \<Rightarrow> u8 list \<Rightarrow> bool" where
  "webp_scan rest wanted =
     (if length rest < 8 then False
      else let len = le_value (take 4 (drop 4 rest));
               end = 8 + (len + len mod 2)
           in if length rest < end then False
              else if take 4 rest = wanted then True
              else webp_scan (drop end rest) wanted)"
  by pat_completeness auto
termination
  by (relation "measure (length \<circ> fst)") auto

declare webp_scan.simps [simp del]

definition webPHasChunk :: "u8 list \<Rightarrow> u8 list \<Rightarrow> bool" where
  "webPHasChunk body wanted =
     (if length wanted \<noteq> 4 \<or> length body < 12 \<or> take 4 body \<noteq> bytes_of ''RIFF''
         \<or> take 4 (drop 8 body) \<noteq> bytes_of ''WEBP'' then False
      else webp_scan (drop 12 body) wanted)"

section \<open>The frame cache\<close>

record cacheEntry =
  e_key :: string
  e_data :: "u8 list"
  e_size :: int

text \<open>
  The \<open>lru\<close> list from front to back; the map \<^verbatim>\<open>entries\<close> finds its elements by key, so it is
  the same list read by \<^const>\<open>e_key\<close>.
\<close>

record loader =
  ld_max_entries :: nat
  ld_max_bytes :: int
  ld_lru :: "cacheEntry list"
  ld_bytes :: int

definition newLoader :: "int \<Rightarrow> int \<Rightarrow> loader" where
  "newLoader maxEntries maxBytes = \<lparr>
     ld_max_entries = (if maxEntries < 1 then 16 else nat maxEntries),
     ld_max_bytes = (if maxBytes < 1 then 67108864 else maxBytes),
     ld_lru = [], ld_bytes = 0\<rparr>"

definition cache_find :: "loader \<Rightarrow> string \<Rightarrow> cacheEntry option" where
  "cache_find l key = find (\<lambda>e. e_key e = key) (ld_lru l)"

definition moveToFront :: "cacheEntry \<Rightarrow> loader \<Rightarrow> loader" where
  "moveToFront e l = l\<lparr>ld_lru := e # filter (\<lambda>e'. e_key e' \<noteq> e_key e) (ld_lru l)\<rparr>"

definition cached :: "loader \<Rightarrow> string \<Rightarrow> u8 list option \<times> loader" where
  "cached l key =
     (case cache_find l key of
        None \<Rightarrow> (None, l)
      | Some e \<Rightarrow> (Some (e_data e), moveToFront e l))"

text \<open>The loop that drops the entries at the back.\<close>

function evict_lru :: "loader \<Rightarrow> loader" where
  "evict_lru l =
     (if (ld_max_entries l < length (ld_lru l) \<or> ld_max_bytes l < ld_bytes l) \<and> ld_lru l \<noteq> []
      then evict_lru (l\<lparr>ld_lru := butlast (ld_lru l), ld_bytes := ld_bytes l - e_size (last (ld_lru l))\<rparr>)
      else l)"
  by pat_completeness auto
termination
  by (relation "measure (length \<circ> ld_lru)") auto

declare evict_lru.simps [simp del]

definition store_frame :: "loader \<Rightarrow> string \<Rightarrow> u8 list \<Rightarrow> loader" where
  "store_frame l key data =
     (if ld_max_bytes l < int (length data) then l
      else case cache_find l key of
             Some e \<Rightarrow> moveToFront e l
           | None \<Rightarrow>
               let e = \<lparr>e_key = key, e_data = data, e_size = int (length data)\<rparr>
               in evict_lru (l\<lparr>ld_lru := e # ld_lru l, ld_bytes := ld_bytes l + e_size e\<rparr>))"

section \<open>Loading a frame\<close>

record fetchMetadata =
  f_media_type :: string
  f_byte_size :: int
  f_asset_id :: string
  f_variant_id :: string
  f_width :: int
  f_height :: int
  f_sha256 :: string

record 'i image_api =
  api_fetch :: "string \<Rightarrow> string \<Rightarrow> string \<Rightarrow> int \<Rightarrow> error_code option + u8 list \<times> fetchMetadata"
  api_sha256_hex :: "u8 list \<Rightarrow> string"
  api_decode_config :: "u8 list \<Rightarrow> (int \<times> int \<times> string) option"
  api_decode :: "u8 list \<Rightarrow> ('i \<times> string) option"
  api_opaque :: "'i \<Rightarrow> bool"
  api_render :: "'i \<Rightarrow> int \<Rightarrow> int \<Rightarrow> u8 list option"

definition itoa :: "int \<Rightarrow> string" where
  "itoa n = (if n < 0 then CHR ''-'' # dec_nat (nat (- n)) else dec_nat (nat n))"

definition mediaTypeForFormat :: "string \<Rightarrow> string" where
  "mediaTypeForFormat format =
     (let f = to_lower format
      in if f = ''png'' then ''image/png'' else if f = ''jpeg'' then ''image/jpeg''
         else if f = ''webp'' then ''image/webp'' else [])"

definition canonicalMediaType :: "string \<Rightarrow> string" where
  "canonicalMediaType value = to_lower (trim_space (
     if CHR '';'' \<in> set (trim_space value) then takeWhile (\<lambda>c. c \<noteq> CHR '';'') (trim_space value) else value))"

definition frame_key :: "string \<Rightarrow> mediaAssetDescriptor \<Rightarrow> int \<Rightarrow> int \<Rightarrow> string" where
  "frame_key streamID d w h = join_with CHR 0x00
     [streamID, a_asset_id d, a_variant_id d, a_sha256 d, dec_nat (unat (a_revision d)), itoa w, itoa h]"

text \<open>The checks of \<^verbatim>\<open>Load\<close> on a fetched body, up to the frame it renders.\<close>

definition check_body ::
  "'i image_api \<Rightarrow> mediaAssetDescriptor \<Rightarrow> u8 list \<Rightarrow> fetchMetadata \<Rightarrow> int \<Rightarrow> int
    \<Rightarrow> error_code + u8 list" where
  "check_body api d body meta w h =
     (if maxAssetBytes < int (length body) \<or> maxAssetBytes < f_byte_size meta
      then Inl ErrorMediaAssetTooLarge
      else if int (length body) \<noteq> a_byte_size d \<or> f_byte_size meta \<noteq> a_byte_size d
      then Inl ErrorMediaAssetHashMismatch
      else if f_asset_id meta \<noteq> a_asset_id d \<or> f_variant_id meta \<noteq> a_variant_id d
      then Inl ErrorMediaAssetVariantFailed
      else if canonicalMediaType (f_media_type meta) \<noteq> a_media_type d
      then Inl ErrorMediaAssetFormatUnsupported
      else if api_sha256_hex api body \<noteq> a_sha256 d \<or> to_lower (f_sha256 meta) \<noteq> a_sha256 d
      then Inl ErrorMediaAssetHashMismatch
      else case api_decode_config api body of
             None \<Rightarrow> Inl ErrorMediaAssetDecodeFailed
           | Some (cw, ch, format) \<Rightarrow>
               if mediaTypeForFormat format \<noteq> a_media_type d then Inl ErrorMediaAssetDecodeFailed
               else if cw \<noteq> a_width d \<or> ch \<noteq> a_height d \<or> f_width meta \<noteq> a_width d \<or> f_height meta \<noteq> a_height d
               then Inl ErrorMediaAssetDimensionMismatch
               else if (a_media_type d = ''image/png'' \<and> pngHasChunk body (bytes_of ''acTL''))
                 \<or> (a_media_type d = ''image/webp''
                    \<and> (webPHasChunk body (bytes_of ''ANIM'') \<or> webPHasChunk body (bytes_of ''ANMF'')))
               then Inl ErrorMediaAssetFormatUnsupported
               else case api_decode api body of
                      None \<Rightarrow> Inl ErrorMediaAssetDecodeFailed
                    | Some (img, format) \<Rightarrow>
                        if mediaTypeForFormat format \<noteq> a_media_type d then Inl ErrorMediaAssetDecodeFailed
                        else if \<not> api_opaque api img then Inl ErrorMediaAssetVariantFailed
                        else if w < 1 \<or> h < 1 \<or> 40000000 < wrap64 (w * h)
                        then Inl ErrorMediaAssetDimensionMismatch
                        else case api_render api img w h of
                               None \<Rightarrow> Inl ErrorMediaAssetDecodeFailed
                             | Some data \<Rightarrow> Inr data)"

text \<open>
  \<^verbatim>\<open>Loader.Load\<close>. The fetcher of a loader is present; the call on a missing one is the
  caller's check. \<open>None\<close> as a fetch error is one without a cover error code.
\<close>

definition load ::
  "'i image_api \<Rightarrow> loader \<Rightarrow> string \<Rightarrow> mediaAssetDescriptor \<Rightarrow> int \<Rightarrow> int
    \<Rightarrow> (error_code + u8 list) \<times> loader" where
  "load api l streamID d w h =
     (case validateDescriptor d w h of
        Some e \<Rightarrow> (Inl e, l)
      | None \<Rightarrow>
          (case cached l (frame_key streamID d w h) of
             (Some data, l) \<Rightarrow> (Inr data, l)
           | (None, l) \<Rightarrow>
               (case api_fetch api streamID (a_asset_id d) (a_variant_id d) (a_byte_size d) of
                  Inl (Some code) \<Rightarrow> (Inl code, l)
                | Inl None \<Rightarrow> (Inl ErrorMediaAssetTimeout, l)
                | Inr (body, meta) \<Rightarrow>
                    (case check_body api d body meta w h of
                       Inl e \<Rightarrow> (Inl e, l)
                     | Inr data \<Rightarrow> (Inr data, store_frame l (frame_key streamID d w h) data)))))"

section \<open>Lemmas on the cache\<close>

definition sizes_ok :: "cacheEntry list \<Rightarrow> int \<Rightarrow> bool" where
  "sizes_ok es n \<longleftrightarrow> distinct (map e_key es) \<and> (\<forall>e \<in> set es. e_size e = int (length (e_data e)))
     \<and> n = sum_list (map e_size es)"

definition cache_ok :: "loader \<Rightarrow> bool" where
  "cache_ok l \<longleftrightarrow> sizes_ok (ld_lru l) (ld_bytes l) \<and> length (ld_lru l) \<le> ld_max_entries l
     \<and> ld_bytes l \<le> ld_max_bytes l \<and> 0 \<le> ld_max_bytes l"

lemma cache_ok_new: "cache_ok (newLoader n b)"
  by (auto simp: cache_ok_def sizes_ok_def newLoader_def)

lemma cache_find_Some: "cache_find l key = Some e \<Longrightarrow> e \<in> set (ld_lru l) \<and> e_key e = key"
  by (auto simp: cache_find_def find_Some_iff)

lemma cache_find_None: "cache_find l key = None \<Longrightarrow> key \<notin> e_key ` set (ld_lru l)"
  by (auto simp: cache_find_def find_None_iff)

lemma sum_list_remove_key:
  "distinct (map e_key es) \<Longrightarrow> e \<in> set es \<Longrightarrow>
     f e + sum_list (map f (filter (\<lambda>e'. e_key e' \<noteq> e_key e) es)) = (sum_list (map f es) :: int)"
proof (induction es)
  case Nil
  then show ?case by simp
next
  case (Cons a es)
  show ?case
  proof (cases "a = e")
    case True
    with Cons.prems have "filter (\<lambda>e'. e_key e' \<noteq> e_key e) es = es"
      by (auto simp: filter_id_conv image_iff)
    with True show ?thesis by simp
  next
    case False
    with Cons.prems have "e \<in> set es" "e_key a \<noteq> e_key e" by (auto simp: image_iff)
    with Cons.IH Cons.prems show ?thesis by simp
  qed
qed

lemma length_remove_key:
  "distinct (map e_key es) \<Longrightarrow> e \<in> set es \<Longrightarrow>
     Suc (length (filter (\<lambda>e'. e_key e' \<noteq> e_key e) es)) = length es"
  using sum_list_remove_key [of es e "\<lambda>_. 1"] by (simp add: sum_list_triv)

lemma moveToFront_ok:
  assumes "cache_ok l" and "e \<in> set (ld_lru l)"
  shows "cache_ok (moveToFront e l)" and "set (ld_lru (moveToFront e l)) = set (ld_lru l)"
proof -
  from assms have d: "distinct (map e_key (ld_lru l))" by (simp add: cache_ok_def sizes_ok_def)
  have "distinct (map e_key (filter (\<lambda>e'. e_key e' \<noteq> e_key e) (ld_lru l)))"
    using d by (simp add: distinct_map_filter)
  with assms sum_list_remove_key [OF d assms(2), of e_size] length_remove_key [OF d assms(2)]
  show "cache_ok (moveToFront e l)"
    by (auto simp: cache_ok_def sizes_ok_def moveToFront_def)
  show "set (ld_lru (moveToFront e l)) = set (ld_lru l)"
    using assms(2) d by (auto simp: moveToFront_def distinct_map dest: inj_onD)
qed

lemma evict_lru_ok:
  "sizes_ok (ld_lru l) (ld_bytes l) \<Longrightarrow> 0 \<le> ld_max_bytes l \<Longrightarrow>
     cache_ok (evict_lru l) \<and> set (ld_lru (evict_lru l)) \<subseteq> set (ld_lru l)"
proof (induction l rule: evict_lru.induct)
  case (1 l)
  show ?case
  proof (cases "(ld_max_entries l < length (ld_lru l) \<or> ld_max_bytes l < ld_bytes l) \<and> ld_lru l \<noteq> []")
    case True
    let ?l = "l\<lparr>ld_lru := butlast (ld_lru l), ld_bytes := ld_bytes l - e_size (last (ld_lru l))\<rparr>"
    have split: "ld_lru l = butlast (ld_lru l) @ [last (ld_lru l)]" using True by simp
    obtain es e where es: "ld_lru l = es @ [e]" using split by blast
    then have "sizes_ok (ld_lru ?l) (ld_bytes ?l)"
      using "1.prems"(1) by (simp add: sizes_ok_def)
    with "1.IH" [OF True] "1.prems" have
      "cache_ok (evict_lru ?l) \<and> set (ld_lru (evict_lru ?l)) \<subseteq> set (ld_lru ?l)" by simp
    moreover have "evict_lru l = evict_lru ?l" using True by (subst evict_lru.simps) simp
    ultimately show ?thesis using in_set_butlastD by fastforce
  next
    case False
    then have "evict_lru l = l" by (subst evict_lru.simps) auto
    with False "1.prems" show ?thesis by (auto simp: cache_ok_def sizes_ok_def)
  qed
qed

lemma max_bytes_evict [simp]: "ld_max_bytes (evict_lru l) = ld_max_bytes l"
  by (induction l rule: evict_lru.induct) (subst evict_lru.simps, simp)

lemma store_frame_ok:
  assumes "cache_ok l"
  shows "cache_ok (store_frame l key data)
    \<and> (\<forall>e \<in> set (ld_lru (store_frame l key data)). e \<in> set (ld_lru l) \<or> e_key e = key \<and> e_data e = data)"
proof (cases "ld_max_bytes l < int (length data)")
  case True
  with assms show ?thesis by (simp add: store_frame_def)
next
  case False
  show ?thesis
  proof (cases "cache_find l key")
    case None
    let ?e = "\<lparr>e_key = key, e_data = data, e_size = int (length data)\<rparr>"
    let ?l = "l\<lparr>ld_lru := ?e # ld_lru l, ld_bytes := ld_bytes l + e_size ?e\<rparr>"
    have "sizes_ok (ld_lru ?l) (ld_bytes ?l)" "0 \<le> ld_max_bytes ?l"
      using assms cache_find_None [OF None] by (auto simp: cache_ok_def sizes_ok_def)
    from evict_lru_ok [OF this] None False show ?thesis
      by (auto simp: store_frame_def Let_def)
  next
    case (Some e)
    with False moveToFront_ok [OF assms, of e] cache_find_Some [OF Some] show ?thesis
      by (auto simp: store_frame_def)
  qed
qed

lemma cached_ok:
  "cache_ok l \<Longrightarrow> cached l key = (r, l') \<Longrightarrow>
     cache_ok l' \<and> set (ld_lru l') = set (ld_lru l)
     \<and> (\<forall>data. r = Some data \<longrightarrow> (\<exists>e \<in> set (ld_lru l). e_key e = key \<and> e_data e = data))"
  by (cases "cache_find l key") (auto simp: cached_def moveToFront_ok dest: cache_find_Some)

text \<open>What a rendered frame of a checked body has gone through.\<close>

definition good_frame ::
  "'i image_api \<Rightarrow> string \<Rightarrow> int \<Rightarrow> int \<Rightarrow> u8 list \<Rightarrow> bool" where
  "good_frame api sha w h data \<longleftrightarrow>
     (\<exists>body img format. api_sha256_hex api body = sha \<and> int (length body) \<le> maxAssetBytes
        \<and> api_decode api body = Some (img, format) \<and> api_opaque api img
        \<and> api_render api img w h = Some data
        \<and> (mediaTypeForFormat format = ''image/png'' \<longrightarrow> \<not> pngHasChunk body (bytes_of ''acTL''))
        \<and> (mediaTypeForFormat format = ''image/webp'' \<longrightarrow>
             \<not> webPHasChunk body (bytes_of ''ANIM'') \<and> \<not> webPHasChunk body (bytes_of ''ANMF'')))"

lemma check_body_good: "check_body api d body meta w h = Inr data \<Longrightarrow> good_frame api (a_sha256 d) w h data"
  unfolding check_body_def good_frame_def
  by (auto split: if_splits option.splits prod.splits)

lemma itoa_inj: "itoa m = itoa n \<Longrightarrow> m = n"
proof -
  have minus: "dec_nat k \<noteq> CHR ''-'' # s" for k s
    using dec_nat_digits [of "CHR ''-''" k] by (auto simp: is_digit_def)
  assume "itoa m = itoa n"
  then show "m = n"
    using minus by (auto simp: itoa_def dec_nat_inj split: if_splits) (metis minus)+
qed

lemma nul_not_digits: "CHR 0x00 \<notin> set (dec_nat n)" "CHR 0x00 \<notin> set (itoa i)"
  using dec_nat_digits [of "CHR 0x00"] by (auto simp: is_digit_def itoa_def)

lemma nul_not_safe_char: "\<not> safe_id_char CHR 0x00"
  by (simp add: safe_id_char_def is_alnum_def Let_def)

lemma nul_not_safe: "safeAssetID s \<Longrightarrow> CHR 0x00 \<notin> set s"
  using nul_not_safe_char
  by (cases s) (auto simp: safeAssetID_def list_all_iff safe_id_char_def)

lemma nul_not_hex: "list_all is_hex_digit s \<Longrightarrow> CHR 0x00 \<notin> set s"
  by (auto simp: list_all_iff is_hex_digit_def Let_def)

lemma validateDescriptor_shape: "validateDescriptor d w h = None \<Longrightarrow> descriptorShapeError d = None"
  by (auto simp: validateDescriptor_def split: option.splits)

lemma frame_key_inj:
  assumes "frame_key s d w h = frame_key s' d' w' h'"
    and "descriptorShapeError d = None" and "descriptorShapeError d' = None"
    and "CHR 0x00 \<notin> set s" and "CHR 0x00 \<notin> set s'"
  shows "s = s' \<and> a_asset_id d = a_asset_id d' \<and> a_variant_id d = a_variant_id d'
    \<and> a_sha256 d = a_sha256 d' \<and> a_revision d = a_revision d' \<and> w = w' \<and> h = h'"
proof -
  have safe: "safeAssetID (a_asset_id x) \<and> safeAssetID (a_variant_id x) \<and> list_all is_hex_digit (a_sha256 x)"
    if "descriptorShapeError x = None" for x
    using that by (auto simp: descriptorShapeError_def split: if_splits)
  let ?p = "\<lambda>s d w h. [s, a_asset_id d, a_variant_id d, a_sha256 d, dec_nat (unat (a_revision d)), itoa w, itoa h]"
  have "?p s d w h = ?p s' d' w' h'"
    using assms safe [OF assms(2)] safe [OF assms(3)]
      join_with_inj [of "?p s d w h" "?p s' d' w' h'" "CHR 0x00"]
    by (auto simp: frame_key_def nul_not_digits nul_not_safe nul_not_hex)
  then show ?thesis by (auto simp: dec_nat_inj word_unat_eq_iff dest: itoa_inj)
qed

text \<open>Every entry of the cache is the frame of a body that passed the checks under the entry's key.\<close>

definition entries_good :: "'i image_api \<Rightarrow> loader \<Rightarrow> bool" where
  "entries_good api l \<longleftrightarrow> (\<forall>e \<in> set (ld_lru l). \<exists>s d w h. e_key e = frame_key s d w h
     \<and> CHR 0x00 \<notin> set s \<and> descriptorShapeError d = None \<and> good_frame api (a_sha256 d) w h (e_data e))"

lemma load_ok:
  assumes "load api l s d w h = (r, l')" and "cache_ok l" and "entries_good api l"
    and "CHR 0x00 \<notin> set s"
  shows "cache_ok l' \<and> entries_good api l'
    \<and> (\<forall>data. r = Inr data \<longrightarrow> descriptorShapeError d = None \<and> good_frame api (a_sha256 d) w h data)"
proof (cases "validateDescriptor d w h")
  case (Some e)
  with assms show ?thesis by (auto simp: load_def)
next
  case None
  note shape = validateDescriptor_shape [OF None]
  obtain c l1 where c: "cached l (frame_key s d w h) = (c, l1)" by fastforce
  note ok1 = cached_ok [OF assms(2) c]
  have good1: "entries_good api l1" using assms(3) ok1 by (simp add: entries_good_def)
  show ?thesis
  proof (cases c)
    case (Some data)
    with ok1 obtain e where e: "e \<in> set (ld_lru l)" "e_key e = frame_key s d w h" "e_data e = data"
      by blast
    from assms(3) e(1) obtain s' d' w' h' where
      "e_key e = frame_key s' d' w' h'" "CHR 0x00 \<notin> set s'"
        "descriptorShapeError d' = None" "good_frame api (a_sha256 d') w' h' (e_data e)"
      unfolding entries_good_def by blast
    with e have k: "frame_key s d w h = frame_key s' d' w' h'" "CHR 0x00 \<notin> set s'"
        "descriptorShapeError d' = None" "good_frame api (a_sha256 d') w' h' data" by simp_all
    from frame_key_inj [OF k(1) shape k(3) assms(4) k(2)] k(4) have
      "good_frame api (a_sha256 d) w h data" by simp
    with assms(1) None c Some ok1 good1 shape show ?thesis by (auto simp: load_def)
  next
    case miss: None
    show ?thesis
    proof (cases "\<exists>body meta data. api_fetch api s (a_asset_id d) (a_variant_id d) (a_byte_size d) = Inr (body, meta)
        \<and> check_body api d body meta w h = Inr data")
      case True
      then obtain body meta data where
        f: "api_fetch api s (a_asset_id d) (a_variant_id d) (a_byte_size d) = Inr (body, meta)"
          "check_body api d body meta w h = Inr data" by blast
      let ?l = "store_frame l1 (frame_key s d w h) data"
      have "r = Inr data" "l' = ?l" using assms(1) None c miss f by (auto simp: load_def)
      moreover have "entries_good api ?l"
        using store_frame_ok [of l1 "frame_key s d w h" data] ok1 good1 check_body_good [OF f(2)] shape assms(4)
        unfolding entries_good_def by blast
      ultimately show ?thesis
        using store_frame_ok [of l1 "frame_key s d w h" data] ok1 check_body_good [OF f(2)] shape by auto
    next
      case False
      with assms(1) None c miss have "l' = l1 \<and> (\<forall>data. r \<noteq> Inr data)"
        by (auto simp: load_def split: sum.splits option.splits)
      with ok1 good1 show ?thesis by auto
    qed
  qed
qed

text \<open>Any number of requests to one loader.\<close>

fun load_run :: "'i image_api \<Rightarrow> loader \<Rightarrow> (string \<times> mediaAssetDescriptor \<times> int \<times> int) list \<Rightarrow> loader" where
  "load_run api l [] = l"
| "load_run api l ((s, d, w, h) # reqs) = load_run api (snd (load api l s d w h)) reqs"

lemma load_run_ok:
  "cache_ok l \<Longrightarrow> entries_good api l \<Longrightarrow> \<forall>(s, d, w, h) \<in> set reqs. CHR 0x00 \<notin> set s \<Longrightarrow>
     cache_ok (load_run api l reqs) \<and> entries_good api (load_run api l reqs)"
proof (induction api l reqs rule: load_run.induct)
  case (1 api l)
  then show ?case by simp
next
  case (2 api l s d w h reqs)
  then show ?case
    using load_ok [of api l s d w h "fst (load api l s d w h)" "snd (load api l s d w h)"] by auto
qed

section \<open>Chunked image files\<close>

text \<open>A chunk of a PNG file: its length field, type, data and checksum.\<close>

definition png_chunk :: "u8 list \<times> u8 list \<times> u8 list \<times> u8 list \<Rightarrow> bool" where
  "png_chunk = (\<lambda>(len, ty, data, crc). length len = 4 \<and> length ty = 4 \<and> length crc = 4
     \<and> be_value len = length data)"

definition png_bytes :: "(u8 list \<times> u8 list \<times> u8 list \<times> u8 list) list \<Rightarrow> u8 list" where
  "png_bytes cs = concat (map (\<lambda>(len, ty, data, crc). len @ ty @ data @ crc) cs)"

text \<open>A chunk of a WebP file: its type, length field, data and the padding byte of odd data.\<close>

definition webp_chunk :: "u8 list \<times> u8 list \<times> u8 list \<times> u8 list \<Rightarrow> bool" where
  "webp_chunk = (\<lambda>(ty, len, data, pad). length len = 4 \<and> length ty = 4
     \<and> le_value len = length data \<and> length pad = length data mod 2)"

definition webp_bytes :: "(u8 list \<times> u8 list \<times> u8 list \<times> u8 list) list \<Rightarrow> u8 list" where
  "webp_bytes cs = concat (map (\<lambda>(ty, len, data, pad). ty @ len @ data @ pad) cs)"

lemma png_scan_chunks:
  "list_all png_chunk cs \<Longrightarrow>
     png_scan (png_bytes cs) wanted \<longleftrightarrow> wanted \<in> (\<lambda>(len, ty, data, crc). ty) ` set cs"
proof (induction cs)
  case Nil
  then show ?case by (subst png_scan.simps) (simp add: png_bytes_def)
next
  case (Cons c cs)
  obtain len ty data crc where c: "c = (len, ty, data, crc)" using prod_cases4 by blast
  with Cons.prems have l: "length len = 4" "length ty = 4" "length crc = 4" "be_value len = length data"
    by (auto simp: png_chunk_def)
  have b: "png_bytes (c # cs) = len @ ty @ data @ crc @ png_bytes cs"
    by (simp add: c png_bytes_def)
  have "png_scan (png_bytes (c # cs)) wanted \<longleftrightarrow> ty = wanted \<or> png_scan (png_bytes cs) wanted"
    unfolding b by (subst png_scan.simps) (auto simp: l Let_def)
  with Cons c show ?case by auto
qed

lemma webp_scan_chunks:
  "list_all webp_chunk cs \<Longrightarrow>
     webp_scan (webp_bytes cs) wanted \<longleftrightarrow> wanted \<in> (\<lambda>(ty, len, data, pad). ty) ` set cs"
proof (induction cs)
  case Nil
  then show ?case by (subst webp_scan.simps) (simp add: webp_bytes_def)
next
  case (Cons c cs)
  obtain ty len data pad where c: "c = (ty, len, data, pad)" using prod_cases4 by blast
  with Cons.prems have l: "length len = 4" "length ty = 4" "le_value len = length data"
      "length pad = length data mod 2"
    by (auto simp: webp_chunk_def)
  have b: "webp_bytes (c # cs) = ty @ len @ data @ pad @ webp_bytes cs"
    by (simp add: c webp_bytes_def)
  have "webp_scan (webp_bytes (c # cs)) wanted \<longleftrightarrow> ty = wanted \<or> webp_scan (webp_bytes cs) wanted"
    unfolding b by (subst webp_scan.simps) (auto simp: l Let_def)
  with Cons c show ?case by auto
qed

section \<open>Properties\<close>

text \<open>
  The scanners that keep animated images out find a chunk type in a well-formed PNG or
  WebP file exactly when the file has a chunk of that type, wherever it stands and whatever
  the other chunks hold (data that looks like the type is not taken for it).
\<close>

theorem chunk_scan_exact:
  assumes "list_all png_chunk cs" and "list_all webp_chunk ds" and "length wanted = 4"
    and "length riff_size = 4"
  shows "(pngHasChunk (png_signature @ png_bytes cs) wanted \<longleftrightarrow> (\<exists>len data crc. (len, wanted, data, crc) \<in> set cs))
    \<and> (webPHasChunk (bytes_of ''RIFF'' @ riff_size @ bytes_of ''WEBP'' @ webp_bytes ds) wanted
         \<longleftrightarrow> (\<exists>len data pad. (wanted, len, data, pad) \<in> set ds))"
proof -
  have "pngHasChunk (png_signature @ png_bytes cs) wanted \<longleftrightarrow> png_scan (png_bytes cs) wanted"
    using assms(3) by (simp add: pngHasChunk_def png_signature_def)
  moreover have "webPHasChunk (bytes_of ''RIFF'' @ riff_size @ bytes_of ''WEBP'' @ webp_bytes ds) wanted
      \<longleftrightarrow> webp_scan (webp_bytes ds) wanted"
    using assms(3,4) by (simp add: webPHasChunk_def bytes_of_def)
  ultimately show ?thesis
    using png_scan_chunks [OF assms(1), of wanted] webp_scan_chunks [OF assms(2), of wanted]
    by (force simp: image_iff)
qed

theorem chunk_scan_exact_witness:
  "pngHasChunk (png_signature @ png_bytes [([0, 0, 0, 4], [73, 72, 68, 82], [97, 99, 84, 76], [1, 2, 3, 4]),
      ([0, 0, 0, 0], [97, 99, 84, 76], [], [0, 0, 0, 0])]) (bytes_of ''acTL'')"
proof -
  let ?cs = "[([0, 0, 0, 4], [73, 72, 68, 82], [97, 99, 84, 76], [1, 2, 3, 4]),
      ([0, 0, 0, 0], [97, 99, 84, 76], [], [0, 0, 0, 0])] :: (u8 list \<times> u8 list \<times> u8 list \<times> u8 list) list"
  have w: "bytes_of ''acTL'' = [97, 99, 84, 76]" by (simp add: bytes_of_def)
  have "list_all png_chunk ?cs" by (simp add: png_chunk_def be_value_def)
  from chunk_scan_exact [OF this, of "[]" "bytes_of ''acTL''" "[0, 0, 0, 0]"] show ?thesis
    by (auto simp: w)
qed


definition sample_api :: "nat image_api" where
  "sample_api = \<lparr>api_fetch = (\<lambda>s a v n. Inr ([1, 2], \<lparr>f_media_type = ''image/png'', f_byte_size = 2,
       f_asset_id = a, f_variant_id = v, f_width = 2, f_height = 1, f_sha256 = replicate 64 CHR ''a''\<rparr>)),
     api_sha256_hex = (\<lambda>_. replicate 64 CHR ''a''), api_decode_config = (\<lambda>_. Some (2, 1, ''png'')),
     api_decode = (\<lambda>_. Some (7, ''png'')), api_opaque = (\<lambda>_. True),
     api_render = (\<lambda>i w h. Some [9])\<rparr>"

definition sample_asset :: mediaAssetDescriptor where
  "sample_asset = \<lparr>a_asset_id = ''a1'', a_variant_id = ''v1'', a_usage = ''video_cover'',
     a_media_type = ''image/png'', a_width = 2, a_height = 1, a_byte_size = 2, a_pixel_count = 2,
     a_animated = False, a_aspect_error = Some 0, a_opaque = Some True,
     a_sha256 = replicate 64 CHR ''a'', a_revision = 1, a_readiness = ReadinessReady, a_error = None\<rparr>"

lemma check_sample:
  "check_body sample_api sample_asset [1, 2] (snd (projr (api_fetch sample_api [] ''a1'' ''v1'' 2))) 4 2 = Inr [9]"
proof -
  have "mediaTypeForFormat ''png'' = ''image/png''" by code_simp
  moreover have "canonicalMediaType ''image/png'' = ''image/png''" by code_simp
  moreover have "to_lower (replicate 64 CHR ''a'') = replicate 64 CHR ''a''" by code_simp
  moreover have "wrap64 8 = 8" by code_simp
  moreover have "\<not> pngHasChunk [1, 2] (bytes_of ''acTL'')" by code_simp
  ultimately show ?thesis by (simp add: check_body_def sample_api_def sample_asset_def)
qed

lemma load_sample:
  "fst (load sample_api (load_run sample_api (newLoader 1 10) [(''s'', sample_asset, 4, 2)]) ''s'' sample_asset 4 2) = Inr [9]"
proof -
  have v: "validateDescriptor sample_asset 4 2 = None" by code_simp
  let ?k = "frame_key ''s'' sample_asset 4 2"
  have "snd (load sample_api (newLoader 1 10) ''s'' sample_asset 4 2) = store_frame (newLoader 1 10) ?k [9]"
    using v check_sample
    by (simp add: load_def cached_def cache_find_def newLoader_def sample_api_def sample_asset_def)
  also have "\<dots> = \<lparr>ld_max_entries = 1, ld_max_bytes = 10,
      ld_lru = [\<lparr>e_key = ?k, e_data = [9], e_size = 1\<rparr>], ld_bytes = 1\<rparr>"
    by (simp add: store_frame_def cache_find_def newLoader_def evict_lru.simps Let_def)
  finally show ?thesis
    using v by (simp add: load_def cached_def cache_find_def)
qed


lemma limits_kept [simp]:
  "ld_max_entries (moveToFront e l) = ld_max_entries l" "ld_max_bytes (moveToFront e l) = ld_max_bytes l"
  by (simp_all add: moveToFront_def)

lemma max_entries_evict [simp]: "ld_max_entries (evict_lru l) = ld_max_entries l"
  by (induction l rule: evict_lru.induct) (subst evict_lru.simps, simp)

lemma limits_load:
  "load api l s d w h = (r, l') \<Longrightarrow> ld_max_entries l' = ld_max_entries l \<and> ld_max_bytes l' = ld_max_bytes l"
  by (auto simp: load_def cached_def store_frame_def Let_def split: option.splits sum.splits if_splits)

lemma load_cache_ok:
  assumes "load api l s d w h = (r, l')" and "cache_ok l"
  shows "cache_ok l'"
proof -
  have c: "cache_ok (snd (cached l (frame_key s d w h)))"
    using cached_ok [OF assms(2), of "frame_key s d w h"] by (metis prod.collapse)
  from assms(1) have
    "l' = l \<or> l' = snd (cached l (frame_key s d w h))
     \<or> (\<exists>data. l' = store_frame (snd (cached l (frame_key s d w h))) (frame_key s d w h) data)"
    by (auto simp: load_def split: option.splits sum.splits prod.splits)
  with assms(2) c store_frame_ok [OF c] show ?thesis by metis
qed

lemma load_run_cache:
  "cache_ok l \<Longrightarrow> cache_ok (load_run api l reqs)
     \<and> ld_max_entries (load_run api l reqs) = ld_max_entries l
     \<and> ld_max_bytes (load_run api l reqs) = ld_max_bytes l"
proof (induction api l reqs rule: load_run.induct)
  case (1 api l)
  then show ?case by simp
next
  case (2 api l s d w h reqs)
  obtain r l' where e: "load api l s d w h = (r, l')" by fastforce
  from 2 load_cache_ok [OF e] limits_load [OF e] e show ?case by simp
qed

text \<open>
  The frame cache stays within its limits on entries and bytes (16 entries and 64 MiB
  when it was made with none) after any requests, has one entry per key, and its byte count
  is the sum of the sizes it holds.
\<close>

theorem cover_cache_bounded:
  "length (ld_lru (load_run api (newLoader n b) reqs)) \<le> (if n < 1 then 16 else nat n)
    \<and> ld_bytes (load_run api (newLoader n b) reqs) \<le> (if b < 1 then 67108864 else b)
    \<and> ld_bytes (load_run api (newLoader n b) reqs)
        = (\<Sum>e \<leftarrow> ld_lru (load_run api (newLoader n b) reqs). int (length (e_data e)))
    \<and> distinct (map e_key (ld_lru (load_run api (newLoader n b) reqs)))"
proof -
  let ?l = "load_run api (newLoader n b) reqs"
  note run = load_run_cache [OF cache_ok_new, of api n b reqs]
  then have "(\<Sum>e \<leftarrow> ld_lru ?l. int (length (e_data e))) = (\<Sum>e \<leftarrow> ld_lru ?l. e_size e)"
    by (intro arg_cong [where f = sum_list]) (auto simp: cache_ok_def sizes_ok_def)
  with run show ?thesis by (auto simp: cache_ok_def sizes_ok_def newLoader_def)
qed

end
