(* ===== verification/CoverRuntime.thy ===== *)
theory CoverRuntime
  imports VideoCover Utf8
begin

text \<open>
  The cover runtime of one stream process: \<^verbatim>\<open>internal/streamproc/cover_state.go\<close> and
  \<^verbatim>\<open>cover_apply.go\<close>. The record \<open>cover_track\<close> is the part of \<^verbatim>\<open>trackedProcess\<close> these
  functions read and write. The request digest (SHA-256 of the request's JSON) and the graph
  witness, which delivers the frame and watches FFmpeg's output, are parameters; the frames
  handed to the witness are logged in \<open>c_feed\<close>.
\<close>

datatype proc_error = ErrAlreadyRunning | ErrAlreadyStopped | ErrStarting | ErrNotRunning
  | ErrInvalidRuntimeSettings | ErrPreparationConflict | ErrPreparationUnknown
  | ErrCover error_code | ErrOther

type_synonym digest = "u8 list"

record coverReplay =
  y_fingerprint :: digest
  y_response :: applyResponse

definition maxCoverReplayEntries :: nat where
  [simp]: "maxCoverReplayEntries = 256"

record cover_track =
  c_source :: bool
  c_state :: runtimeState
  c_terminal :: "runtimeState option"
  c_replay :: "(string \<times> coverReplay) list"
  c_replay_order :: "string list"
  c_transparent :: "u8 list"
  c_watermark :: layerState
  c_feed :: "u8 list list"

section \<open>The runtime state\<close>

definition initialCoverRuntimeState ::
  "string \<Rightarrow> u64 \<Rightarrow> startSnapshot option \<Rightarrow> layerState \<Rightarrow> runtimeState" where
  "initialCoverRuntimeState streamID generation snapshot watermark =
     (let state = zero_runtime\<lparr>r_stream_id := streamID, r_generation := generation,
        r_capability := ''live_video_cover_v1'', r_readiness := ReadinessNotReady,
        r_applied := unknown_applied,
        r_cover := \<lparr>l_enabled = False, l_revision = 1, l_variant_id = []\<rparr>,
        r_watermark := watermark, r_pipeline := fixedPipelineInvariant,
        r_no_automatic_resend := True, r_error := Some ErrorCapabilityRequired\<rparr>
      in case snapshot of
           None \<Rightarrow> state
         | Some s \<Rightarrow>
             let desired = \<lparr>d_active = s_active s, d_revision = s_revision s, d_source = ''none'',
                            d_variant_id = []\<rparr>;
                 desired = (case (s_active s, s_cover_asset s) of
                              (True, Some asset) \<Rightarrow>
                                desired\<lparr>d_source := ''upload'', d_variant_id := a_variant_id asset\<rparr>
                            | _ \<Rightarrow> desired)
             in state\<lparr>r_job_generation := s_job_generation s, r_desired := desired,
                      r_error := Some ErrorCoverGraphUnavailable\<rparr>)"

definition markCoverApplied ::
  "runtimeState \<Rightarrow> u64 \<Rightarrow> bool \<Rightarrow> mediaAssetDescriptor option \<Rightarrow> layerState \<Rightarrow> runtimeState" where
  "markCoverApplied state revision active asset watermark =
     (let shown = (if active then asset else None);
          variantID = (case shown of Some a \<Rightarrow> a_variant_id a | None \<Rightarrow> []);
          cover = \<lparr>l_enabled = active, l_revision = revision, l_variant_id = variantID\<rparr>
      in state\<lparr>
           r_cover_asset := shown,
           r_desired := \<lparr>d_active = active, d_revision = revision,
             d_source = (if active then ''upload'' else ''none''), d_variant_id = variantID\<rparr>,
           r_applied := \<lparr>p_state = ''known'', p_active = Some active, p_revision = revision,
             p_variant_id = variantID\<rparr>,
           r_cover := cover, r_watermark := watermark, r_readiness := ReadinessReady,
           r_error := None, r_last_good_applied := None,
           r_applied_witness := Some \<lparr>w_graph_applied = True, w_generation = r_generation state,
             w_revision = revision, w_active = active, w_cover = cover, w_watermark = watermark,
             w_pipeline = fixedPipelineInvariant\<rparr>\<rparr>)"

definition desiredFromRequest :: "applyRequest \<Rightarrow> desiredState" where
  "desiredFromRequest request =
     (case (q_active request, q_cover_asset request) of
        (True, Some asset) \<Rightarrow> \<lparr>d_active = True, d_revision = q_revision request,
          d_source = ''upload'', d_variant_id = a_variant_id asset\<rparr>
      | _ \<Rightarrow> \<lparr>d_active = q_active request, d_revision = q_revision request,
          d_source = ''none'', d_variant_id = []\<rparr>)"

definition isCoverGraphOrAssetError :: "error_code \<Rightarrow> bool" where
  "isCoverGraphOrAssetError code \<longleftrightarrow> code \<in> {ErrorMediaAssetUnauthorized, ErrorMediaAssetNotFound,
     ErrorMediaAssetHashMismatch, ErrorMediaAssetDimensionMismatch, ErrorMediaAssetTimeout,
     ErrorMediaAssetFormatUnsupported, ErrorMediaAssetTooLarge, ErrorMediaAssetDecodeFailed,
     ErrorMediaAssetAspectRatioInvalid, ErrorMediaAssetVariantProcessing,
     ErrorMediaAssetVariantFailed, ErrorCoverGraphUnavailable, ErrorCapabilityRequired}"

definition rejectedCoverResponseFromState ::
  "runtimeState \<Rightarrow> applyRequest \<Rightarrow> error_code \<Rightarrow> applyResponse" where
  "rejectedCoverResponseFromState state request code =
     (let state = (if isCoverGraphOrAssetError code
                   then state\<lparr>r_readiness := ReadinessNotReady, r_error := Some code\<rparr> else state)
      in \<lparr>o_stream_id = r_stream_id state, o_job_generation = r_job_generation state,
          o_requested_revision = q_revision request, o_actual_generation = r_generation state,
          o_accepted = False, o_rejected = True, o_applied = False, o_outcome = OutcomeRejected,
          o_actual = state, o_error = Some code\<rparr>)"

definition coverStateSnapshot :: "cover_track \<Rightarrow> runtimeState" where
  "coverStateSnapshot t =
     (c_state t)\<lparr>r_watermark := c_watermark t,
        r_applied_witness := map_option (\<lambda>w. w\<lparr>w_watermark := c_watermark t\<rparr>)
          (r_applied_witness (c_state t))\<rparr>"

definition rejectedCoverResponse :: "cover_track \<Rightarrow> applyRequest \<Rightarrow> error_code \<Rightarrow> applyResponse" where
  "rejectedCoverResponse t request code =
     rejectedCoverResponseFromState (coverStateSnapshot t) request code"

definition state_negotiated :: "runtimeState \<Rightarrow> bool" where
  "state_negotiated s \<longleftrightarrow> r_stream_id s \<noteq> [] \<and> 0 < r_job_generation s \<and> 0 < r_generation s"

definition videoCoverRejectionStateLocked :: "cover_track \<Rightarrow> runtimeState option" where
  "videoCoverRejectionStateLocked t =
     (if state_negotiated (coverStateSnapshot t) then Some (coverStateSnapshot t)
      else case c_terminal t of
             None \<Rightarrow> None
           | Some s \<Rightarrow> if state_negotiated s then Some s else None)"

definition terminalVideoCoverState :: "runtimeState \<Rightarrow> runtimeState" where
  "terminalVideoCoverState state =
     state\<lparr>r_last_good_applied := (if p_state (r_applied state) = ''known''
             then Some (r_applied state) else r_last_good_applied state),
           r_readiness := ReadinessNotReady, r_applied := unknown_applied,
           r_applied_witness := None, r_error := Some ErrorCoverGraphUnavailable\<rparr>"

definition markWatermarkWitnessUnknownLocked :: "cover_track \<Rightarrow> cover_track" where
  "markWatermarkWitnessUnknownLocked t =
     (if r_job_generation (c_state t) = 0 then t
      else t\<lparr>c_state := (c_state t)\<lparr>
         r_last_good_applied := (if p_state (r_applied (c_state t)) = ''known''
           then Some (r_applied (c_state t)) else r_last_good_applied (c_state t)),
         r_readiness := ReadinessUnknown, r_applied := unknown_applied,
         r_applied_witness := None, r_error := Some ErrorCoverGraphUnavailable,
         r_watermark := c_watermark t\<rparr>\<rparr>)"

text \<open>The loop that forgets the oldest replies.\<close>

fun trim_replays ::
  "string list \<Rightarrow> (string \<times> coverReplay) list \<Rightarrow> string list \<times> (string \<times> coverReplay) list" where
  "trim_replays [] replays = ([], replays)"
| "trim_replays (oldest # order) replays =
     (if maxCoverReplayEntries < Suc (length order)
      then trim_replays order (AList.delete oldest replays)
      else (oldest # order, replays))"

definition storeCoverReplay :: "string \<Rightarrow> coverReplay \<Rightarrow> cover_track \<Rightarrow> cover_track" where
  "storeCoverReplay key replay t =
     (let order = (if map_of (c_replay t) key = None then c_replay_order t @ [key] else c_replay_order t);
          (order, replays) = trim_replays order (AList.update key replay (c_replay t))
      in t\<lparr>c_replay := replays, c_replay_order := order\<rparr>)"

section \<open>Requests\<close>

definition idempotencyEdgeSpace :: "nat \<Rightarrow> bool" where
  "idempotencyEdgeSpace r \<longleftrightarrow> rune_is_space r \<or> r = 0xfeff"

definition validIdempotencyKey :: "string \<Rightarrow> bool" where
  "validIdempotencyKey value \<longleftrightarrow> utf8_valid value
     \<and> 1 \<le> length (range_runes value) \<and> length (range_runes value) \<le> 128
     \<and> \<not> idempotencyEdgeSpace (hd (range_runes value))
     \<and> \<not> idempotencyEdgeSpace (last (range_runes value))
     \<and> list_all (\<lambda>r. 0x20 \<le> r \<and> r \<noteq> 0x7f) (range_runes value)"

definition validateCoverStart :: "startSnapshot \<Rightarrow> error_code option" where
  "validateCoverStart s =
     (if s_job_generation s < 1 \<or> s_revision s < 1 \<or> \<not> validIdempotencyKey (s_idempotency_key s)
      then Some ErrorInvalidRequest
      else if s_active s \<noteq> (s_cover_asset s \<noteq> None) then Some ErrorInvalidRequest
      else case s_cover_asset s of None \<Rightarrow> None | Some d \<Rightarrow> validateDescriptorShape d)"

definition validateCoverApply :: "string \<Rightarrow> applyRequest \<Rightarrow> error_code option" where
  "validateCoverApply streamID q =
     (if trim_space streamID = [] \<or> q_stream_id q \<noteq> streamID \<or> q_job_generation q < 1
         \<or> q_expected_generation q < 1 \<or> q_revision q < 1 \<or> \<not> validIdempotencyKey (q_idempotency_key q)
      then Some ErrorInvalidRequest
      else if q_active q
      then (case q_cover_asset q of
              None \<Rightarrow> Some ErrorInvalidRequest
            | Some d \<Rightarrow> if q_hide_confirmed q then Some ErrorInvalidRequest else validateDescriptorShape d)
      else if q_cover_asset q \<noteq> None \<or> \<not> q_hide_confirmed q then Some ErrorInvalidRequest
      else None)"

text \<open>A rejection that is stored for replays.\<close>

definition reject_and_store ::
  "digest \<Rightarrow> applyRequest \<Rightarrow> error_code \<Rightarrow> cover_track \<Rightarrow> (proc_error + applyResponse) \<times> cover_track" where
  "reject_and_store fingerprint request code t =
     (let response = rejectedCoverResponse t request code
      in (Inr response, storeCoverReplay (q_idempotency_key request)
            \<lparr>y_fingerprint = fingerprint, y_response = response\<rparr> t))"

text \<open>The answer of \<^verbatim>\<open>ApplyVideoCover\<close> when the process is not running.\<close>

definition apply_not_running :: "applyRequest \<Rightarrow> cover_track \<Rightarrow> proc_error + applyResponse" where
  "apply_not_running request t =
     (case videoCoverRejectionStateLocked t of
        None \<Rightarrow> Inl ErrNotRunning
      | Some state \<Rightarrow> Inr (
          if q_job_generation request \<noteq> r_job_generation state
          then rejectedCoverResponseFromState state request ErrorStaleJobGeneration
          else if q_expected_generation request \<noteq> r_generation state
          then rejectedCoverResponseFromState state request ErrorStaleCoverGeneration
          else if q_revision request < d_revision (r_desired state)
          then rejectedCoverResponseFromState state request ErrorStaleCoverRevision
          else if q_revision request = d_revision (r_desired state)
          then rejectedCoverResponseFromState state request ErrorRevisionPayloadConflict
          else rejectedCoverResponseFromState (terminalVideoCoverState state) request
                 ErrorCoverGraphUnavailable))"

text \<open>The frame to show: transparent, or the loaded asset. \<open>Inl None\<close> stands for a request error.\<close>

definition cover_frame ::
  "'i image_api \<Rightarrow> string \<Rightarrow> applyRequest \<Rightarrow> int \<times> int \<Rightarrow> loader option \<Rightarrow> cover_track
    \<Rightarrow> (error_code option + u8 list) \<times> loader option" where
  "cover_frame api streamID request dims assets t =
     (case (q_active request, q_cover_asset request) of
        (True, Some asset) \<Rightarrow>
          (case assets of
             None \<Rightarrow> (Inl (Some ErrorCapabilityRequired), None)
           | Some l \<Rightarrow>
               (case load api l streamID asset (fst dims) (snd dims) of
                  (Inl code, l) \<Rightarrow> (Inl (if code = ErrorInvalidRequest then None else Some code), Some l)
                | (Inr frame, l) \<Rightarrow> (Inr frame, Some l)))
      | _ \<Rightarrow> (Inr (c_transparent t), assets))"

text \<open>The mutation itself: desired state, graph witness, and the applied or ambiguous outcome.\<close>

definition apply_frame ::
  "digest \<Rightarrow> string \<Rightarrow> applyRequest \<Rightarrow> u8 list \<Rightarrow> bool \<Rightarrow> cover_track \<Rightarrow> applyResponse \<times> cover_track" where
  "apply_frame fingerprint streamID request frame witnessed t =
     (let st = c_state t;
          lastGood = (case r_last_good_applied st of Some g \<Rightarrow> g | None \<Rightarrow> r_applied st);
          st = st\<lparr>r_desired := desiredFromRequest request,
                  r_cover_asset := (if q_active request then q_cover_asset request else None)\<rparr>;
          t = t\<lparr>c_feed := c_feed t @ [frame]\<rparr>;
          st = (if witnessed
                then markCoverApplied st (q_revision request) (q_active request) (q_cover_asset request)
                       (c_watermark t)
                else st\<lparr>r_readiness := ReadinessUnknown, r_applied := unknown_applied,
                        r_applied_witness := None, r_last_good_applied := Some lastGood,
                        r_error := Some ErrorCoverApplyAmbiguous, r_watermark := c_watermark t\<rparr>);
          response = \<lparr>o_stream_id = streamID, o_job_generation = q_job_generation request,
            o_requested_revision = q_revision request, o_actual_generation = r_generation st,
            o_accepted = True, o_rejected = False, o_applied = witnessed,
            o_outcome = (if witnessed then OutcomeApplied else OutcomeAmbiguous),
            o_actual = st, o_error = (if witnessed then None else Some ErrorCoverApplyAmbiguous)\<rparr>
      in (response, storeCoverReplay (q_idempotency_key request)
            \<lparr>y_fingerprint = fingerprint, y_response = response\<rparr> (t\<lparr>c_state := st\<rparr>)))"

text \<open>
  \<^verbatim>\<open>ApplyVideoCover\<close> on the stream's tracked process: \<open>running\<close> says that its status is
  \<^verbatim>\<open>running\<close>, \<open>dims\<close> is the encoder profile's frame size, \<open>witness\<close> whether the graph
  witness of a frame succeeds.
\<close>

definition applyVideoCover ::
  "'i image_api \<Rightarrow> (applyRequest \<Rightarrow> digest) \<Rightarrow> (u8 list \<Rightarrow> bool) \<Rightarrow> bool \<Rightarrow> int \<times> int \<Rightarrow> string
    \<Rightarrow> applyRequest \<Rightarrow> loader option \<times> cover_track
    \<Rightarrow> (proc_error + applyResponse) \<times> loader option \<times> cover_track" where
  "applyVideoCover api fingerprint_of witness running dims streamID request = (\<lambda>(assets, t).
     (case validateCoverApply streamID request of
        Some e \<Rightarrow> (Inl (ErrCover e), assets, t)
      | None \<Rightarrow>
          if \<not> (running \<and> c_source t) then (apply_not_running request t, assets, t)
          else if r_job_generation (c_state t) = 0
          then (Inl (ErrCover ErrorCapabilityRequired), assets, t)
          else
            let fingerprint = fingerprint_of request;
                reject = (\<lambda>code. case reject_and_store fingerprint request code t of (r, t) \<Rightarrow> (r, assets, t))
            in case map_of (c_replay t) (q_idempotency_key request) of
                 Some replay \<Rightarrow>
                   if y_fingerprint replay \<noteq> fingerprint
                   then (Inr (rejectedCoverResponse t request ErrorIdempotencyConflict), assets, t)
                   else (Inr (y_response replay), assets, t)
               | None \<Rightarrow>
                   if q_job_generation request \<noteq> r_job_generation (c_state t)
                   then reject ErrorStaleJobGeneration
                   else if q_expected_generation request \<noteq> r_generation (c_state t)
                   then reject ErrorStaleCoverGeneration
                   else if q_revision request < d_revision (r_desired (c_state t))
                   then reject ErrorStaleCoverRevision
                   else if q_revision request = d_revision (r_desired (c_state t))
                   then reject ErrorRevisionPayloadConflict
                   else case cover_frame api streamID request dims assets t of
                          (Inl None, assets) \<Rightarrow> (Inl (ErrCover ErrorInvalidRequest), assets, t)
                        | (Inl (Some code), assets) \<Rightarrow>
                            (case reject_and_store fingerprint request code t of (r, t) \<Rightarrow> (r, assets, t))
                        | (Inr frame, assets) \<Rightarrow>
                            (case apply_frame fingerprint streamID request frame (witness frame) t of
                               (response, t) \<Rightarrow> (Inr response, assets, t))))"

text \<open>\<^verbatim>\<open>VideoCoverState\<close> and \<^verbatim>\<open>VideoCoverRejection\<close> only read the state.\<close>

definition videoCoverState :: "bool \<Rightarrow> cover_track \<Rightarrow> proc_error + runtimeState" where
  "videoCoverState running t =
     (if \<not> (running \<and> c_source t) then Inl ErrNotRunning
      else if r_job_generation (c_state t) = 0 then Inl (ErrCover ErrorCapabilityRequired)
      else Inr (coverStateSnapshot t))"

definition videoCoverRejection :: "applyRequest \<Rightarrow> error_code \<Rightarrow> cover_track \<Rightarrow> applyResponse option" where
  "videoCoverRejection request code t =
     map_option (\<lambda>s. rejectedCoverResponseFromState s request code) (videoCoverRejectionStateLocked t)"

text \<open>
  The watermark part of \<^verbatim>\<open>UpdateRuntimeSettings\<close>: the new layer revision is published only
  when its witness succeeded. \<open>enabled\<close> is \<^verbatim>\<open>watermarkEnabled\<close> of the new overlay.
\<close>

definition updateWatermark :: "bool \<Rightarrow> bool \<Rightarrow> string \<Rightarrow> cover_track \<Rightarrow> cover_track" where
  "updateWatermark witnessed enabled profileID t =
     (if \<not> witnessed then markWatermarkWitnessUnknownLocked t
      else
        let wm = \<lparr>l_enabled = enabled, l_revision = l_revision (c_watermark t) + 1,
                  l_variant_id = (if enabled then trim_space profileID else [])\<rparr>;
            t = t\<lparr>c_watermark := wm\<rparr>
        in if r_job_generation (c_state t) = 0 then t
           else t\<lparr>c_state := (c_state t)\<lparr>r_watermark := wm,
                    r_applied_witness := map_option (\<lambda>w. w\<lparr>w_watermark := wm\<rparr>)
                      (r_applied_witness (c_state t))\<rparr>\<rparr>)"

section \<open>Runs\<close>

text \<open>What the HTTP handlers may do to a running process, in any order.\<close>

datatype cover_op = OpApply bool string applyRequest | OpWatermark bool bool string

fun cover_step ::
  "'i image_api \<Rightarrow> (applyRequest \<Rightarrow> digest) \<Rightarrow> int \<times> int \<Rightarrow> cover_op
    \<Rightarrow> loader option \<times> cover_track \<Rightarrow> loader option \<times> cover_track" where
  "cover_step api fp dims (OpApply witnessed streamID request) s =
     snd (applyVideoCover api fp (\<lambda>_. witnessed) True dims streamID request s)"
| "cover_step api fp dims (OpWatermark witnessed enabled profileID) s =
     (fst s, updateWatermark witnessed enabled profileID (snd s))"

fun cover_run ::
  "'i image_api \<Rightarrow> (applyRequest \<Rightarrow> digest) \<Rightarrow> int \<times> int \<Rightarrow> cover_op list
    \<Rightarrow> loader option \<times> cover_track \<Rightarrow> loader option \<times> cover_track" where
  "cover_run api fp dims [] s = s"
| "cover_run api fp dims (op # ops) s = cover_run api fp dims ops (cover_step api fp dims op s)"

text \<open>The cover part of a process that starts with a cover snapshot, and after the start's witness.\<close>

definition started_cover ::
  "string \<Rightarrow> u64 \<Rightarrow> startSnapshot \<Rightarrow> layerState \<Rightarrow> u8 list \<Rightarrow> cover_track" where
  "started_cover streamID generation snapshot watermark transparent =
     \<lparr>c_source = True,
      c_state = markCoverApplied
        (initialCoverRuntimeState streamID generation (Some snapshot) watermark)
        (s_revision snapshot) (s_active snapshot) (s_cover_asset snapshot) watermark,
      c_terminal = None, c_replay = [], c_replay_order = [], c_transparent = transparent,
      c_watermark = watermark, c_feed = []\<rparr>"

section \<open>Lemmas\<close>

lemma trim_replays_suffix:
  "trim_replays order replays = (order', replays') \<Longrightarrow>
     order' = drop (length order - 256) order
     \<and> (\<forall>k \<in> set order'. distinct order \<longrightarrow> map_of replays' k = map_of replays k)"
proof (induction order replays rule: trim_replays.induct)
  case (1 replays)
  then show ?case by simp
next
  case (2 oldest order replays)
  show ?case
  proof (cases "256 < Suc (length order)")
    case True
    with 2 have ih: "order' = drop (length order - 256) order"
      "\<forall>k \<in> set order'. distinct order \<longrightarrow> map_of replays' k = map_of (AList.delete oldest replays) k"
      by auto
    have "Suc (length order) - 256 = Suc (length order - 256)" using True by simp
    moreover have "map_of (AList.delete oldest replays) k = map_of replays k"
      if "k \<in> set order'" "distinct (oldest # order)" for k
      using that ih(1) by (auto simp: delete_conv dest: in_set_dropD)
    ultimately show ?thesis using ih by auto
  next
    case False
    with 2 show ?thesis by auto
  qed
qed

lemma trim_replays_keys:
  "set (map fst replays) = set order \<Longrightarrow> distinct order \<Longrightarrow> distinct (map fst replays) \<Longrightarrow>
   trim_replays order replays = (order', replays') \<Longrightarrow>
     set (map fst replays') = set order' \<and> distinct order' \<and> distinct (map fst replays')
     \<and> length order' \<le> 256"
proof (induction order replays rule: trim_replays.induct)
  case (1 replays)
  then show ?case by simp
next
  case (2 oldest order replays)
  show ?case
  proof (cases "256 < Suc (length order)")
    case True
    have "set (map fst (AList.delete oldest replays)) = set order"
      using 2(2,3) unfolding delete_keys by auto
    moreover have "distinct (map fst (AList.delete oldest replays))"
      using 2(4) by (rule distinct_delete)
    ultimately show ?thesis
      using 2(1) 2(3,5) True by simp
  next
    case False
    with 2 show ?thesis by auto
  qed
qed

text \<open>The replay table: its keys are those of the order, which holds at most 256.\<close>

definition replay_ok :: "cover_track \<Rightarrow> bool" where
  "replay_ok t \<longleftrightarrow> set (map fst (c_replay t)) = set (c_replay_order t) \<and> distinct (c_replay_order t)
     \<and> distinct (map fst (c_replay t)) \<and> length (c_replay_order t) \<le> 256"

lemma replay_find: "replay_ok t \<Longrightarrow> map_of (c_replay t) key = None \<longleftrightarrow> key \<notin> set (c_replay_order t)"
  by (auto simp: replay_ok_def map_of_eq_None_iff)

lemma storeCoverReplay_new:
  assumes "replay_ok t" and "map_of (c_replay t) key = None"
  shows "replay_ok (storeCoverReplay key replay t)
    \<and> c_replay_order (storeCoverReplay key replay t)
        = drop (Suc (length (c_replay_order t)) - 256) (c_replay_order t @ [key])
    \<and> (\<forall>k \<in> set (c_replay_order (storeCoverReplay key replay t)).
         map_of (c_replay (storeCoverReplay key replay t)) k
           = (if k = key then Some replay else map_of (c_replay t) k))"
proof -
  let ?order = "c_replay_order t @ [key]" and ?replays = "AList.update key replay (c_replay t)"
  obtain order' replays' where e: "trim_replays ?order ?replays = (order', replays')" by fastforce
  have s: "storeCoverReplay key replay t = t\<lparr>c_replay := replays', c_replay_order := order'\<rparr>"
    using assms(2) e by (simp add: storeCoverReplay_def Let_def)
  have "set (map fst ?replays) = set ?order"
    using assms(1) by (auto simp: replay_ok_def update_keys)
  moreover have "distinct ?order" using assms replay_find [OF assms(1)] by (simp add: replay_ok_def)
  moreover have "distinct (map fst ?replays)" using assms(1) by (simp add: replay_ok_def distinct_update)
  ultimately show ?thesis
    using trim_replays_keys [OF _ _ _ e] trim_replays_suffix [OF e]
    by (auto simp: s replay_ok_def update_conv')
qed

text \<open>What one call of \<^verbatim>\<open>ApplyVideoCover\<close> on a running process can do.\<close>

definition fence_passed :: "applyRequest \<Rightarrow> runtimeState \<Rightarrow> bool" where
  "fence_passed q s \<longleftrightarrow> q_job_generation q = r_job_generation s \<and> q_expected_generation q = r_generation s
     \<and> d_revision (r_desired s) < q_revision q"

lemma apply_cases:
  assumes "applyVideoCover api fp witness True dims streamID q (assets, t) = (res, assets', t')"
    and "c_source t"
  obtains (refused) e where "res = Inl e" "t' = t"
  | (known) replay where "map_of (c_replay t) (q_idempotency_key q) = Some replay" "t' = t" "assets' = assets"
      "res = Inr (if y_fingerprint replay = fp q then y_response replay
                  else rejectedCoverResponse t q ErrorIdempotencyConflict)"
  | (rejected) code where "map_of (c_replay t) (q_idempotency_key q) = None"
      "res = Inr (rejectedCoverResponse t q code)"
      "t' = storeCoverReplay (q_idempotency_key q)
              \<lparr>y_fingerprint = fp q, y_response = rejectedCoverResponse t q code\<rparr> t"
  | (delivered) frame response where "map_of (c_replay t) (q_idempotency_key q) = None"
      "fence_passed q (c_state t)" "res = Inr response"
      "apply_frame (fp q) streamID q frame (witness frame) t = (response, t')"
proof (cases "validateCoverApply streamID q = None \<and> r_job_generation (c_state t) \<noteq> 0")
  case False
  then have "t' = t \<and> (\<exists>e. res = Inl e)"
    using assms by (auto simp: applyVideoCover_def split: option.splits if_splits)
  then show ?thesis using that(1) by blast
next
  case ok: True
  note unfold = assms(1) [unfolded applyVideoCover_def] ok [THEN conjunct1] ok [THEN conjunct2] assms(2)
  show ?thesis
  proof (cases "map_of (c_replay t) (q_idempotency_key q)")
    case (Some replay)
    then show ?thesis using unfold that(2) [OF Some] by (auto simp: Let_def split: if_splits)
  next
    case None
    show ?thesis
    proof (cases "fence_passed q (c_state t)")
      case False
      then obtain code where "reject_and_store (fp q) q code t = (res, t')"
        using unfold None that(1)
        by (auto simp: Let_def fence_passed_def not_less le_less split: if_splits prod.splits)
      then show ?thesis using that(3) [OF None, of code] by (auto simp: reject_and_store_def Let_def)
    next
      case True
      then have fence: "q_job_generation q = r_job_generation (c_state t)"
        "q_expected_generation q = r_generation (c_state t)"
        "\<not> q_revision q < d_revision (r_desired (c_state t))"
        "q_revision q \<noteq> d_revision (r_desired (c_state t))"
        by (auto simp: fence_passed_def)
      obtain c a where c: "cover_frame api streamID q dims assets t = (c, a)" by fastforce
      show ?thesis
      proof (cases c)
        case (Inl e)
        show ?thesis
        proof (cases e)
          case None': None
          then show ?thesis using unfold None fence c Inl that(1) by (auto simp: Let_def)
        next
          case (Some code)
          then have "reject_and_store (fp q) q code t = (res, t')"
            using unfold None fence c Inl by (simp add: Let_def split: prod.splits)
          then show ?thesis using that(3) [OF None, of code] by (auto simp: reject_and_store_def Let_def)
        qed
      next
        case (Inr frame)
        then obtain response where "res = Inr response"
          "apply_frame (fp q) streamID q frame (witness frame) t = (response, t')"
          using unfold None fence c by (auto simp: Let_def split: prod.splits)
        then show ?thesis using that(4) [OF None True] by blast
      qed
    qed
  qed
qed

lemma store_frame_fields [simp]:
  "c_source (storeCoverReplay k y t) = c_source t" "c_state (storeCoverReplay k y t) = c_state t"
  "c_feed (storeCoverReplay k y t) = c_feed t" "c_watermark (storeCoverReplay k y t) = c_watermark t"
  by (simp_all add: storeCoverReplay_def Let_def split: prod.splits)

lemma apply_frame_shape:
  assumes "apply_frame d streamID q frame w t = (response, t')"
  shows "\<exists>u. t' = storeCoverReplay (q_idempotency_key q) \<lparr>y_fingerprint = d, y_response = response\<rparr> u
    \<and> c_replay u = c_replay t \<and> c_replay_order u = c_replay_order t"
    and "c_source t' = c_source t" and "c_feed t' = c_feed t @ [frame]" and "c_watermark t' = c_watermark t"
    and "o_accepted response" and "o_actual response = c_state t'"
  using assms by (auto simp: apply_frame_def Let_def)

lemma updateWatermark_fields [simp]:
  "c_source (updateWatermark w e p t) = c_source t"
  "c_replay (updateWatermark w e p t) = c_replay t"
  "c_replay_order (updateWatermark w e p t) = c_replay_order t"
  "c_feed (updateWatermark w e p t) = c_feed t"
  by (simp_all add: updateWatermark_def markWatermarkWitnessUnknownLocked_def Let_def)

text \<open>One operation keeps the table sound and forgets at most the oldest key.\<close>

lemma cover_step_replay:
  assumes "replay_ok t" and "c_source t" and "cover_step api fp dims op (assets, t) = (assets', t')"
  shows "replay_ok t' \<and> c_source t'
    \<and> (\<exists>new. length new \<le> 1 \<and> c_replay_order t' = drop (length (c_replay_order t @ new) - 256) (c_replay_order t @ new)
         \<and> (\<forall>k \<in> set (c_replay_order t') - set new. map_of (c_replay t') k = map_of (c_replay t) k))"
proof (cases op)
  case (OpWatermark w e p)
  with assms have "t' = updateWatermark w e p t" by simp
  with assms(1,2) show ?thesis
    by (intro conjI exI [of _ "[]"]) (auto simp: replay_ok_def)
next
  case (OpApply w sid q)
  with assms(3) obtain res where
    a: "applyVideoCover api fp (\<lambda>_. w) True dims sid q (assets, t) = (res, assets', t')"
    by (metis cover_step.simps(1) prod.collapse)
  from a assms(2) show ?thesis
  proof (cases rule: apply_cases)
    case (refused e)
    with assms(1,2) show ?thesis
      by (intro conjI exI [of _ "[]"]) (auto simp: replay_ok_def)
  next
    case (known replay)
    with assms(1,2) show ?thesis
      by (intro conjI exI [of _ "[]"]) (auto simp: replay_ok_def)
  next
    case (rejected code)
    with assms(2) storeCoverReplay_new [OF assms(1) rejected(1)] show ?thesis
      by (intro conjI exI [of _ "[q_idempotency_key q]"]) auto
  next
    case (delivered frame response)
    from apply_frame_shape [OF delivered(4)] obtain u where
      u: "t' = storeCoverReplay (q_idempotency_key q) \<lparr>y_fingerprint = fp q, y_response = response\<rparr> u"
      "c_replay u = c_replay t" "c_replay_order u = c_replay_order t" "c_source t' = c_source t" by blast
    with assms(1) delivered(1) have "replay_ok u" "map_of (c_replay u) (q_idempotency_key q) = None"
      by (auto simp: replay_ok_def)
    from storeCoverReplay_new [OF this, of "\<lparr>y_fingerprint = fp q, y_response = response\<rparr>"] u assms(2) show ?thesis
      by (intro conjI exI [of _ "[q_idempotency_key q]"]) auto
  qed
qed

text \<open>So a key with at most \<open>n\<close> newer ones survives as long as fewer than 256 are newer.\<close>

definition remembered :: "nat \<Rightarrow> string \<Rightarrow> coverReplay \<Rightarrow> cover_track \<Rightarrow> bool" where
  "remembered n key replay t \<longleftrightarrow> (\<exists>a b. c_replay_order t = a @ key # b \<and> length b \<le> n)
     \<and> map_of (c_replay t) key = Some replay"

lemma cover_step_remembered:
  assumes "replay_ok t" and "c_source t" and "cover_step api fp dims op (assets, t) = (assets', t')"
    and "remembered n key replay t" and "n < 255"
  shows "remembered (Suc n) key replay t'"
proof -
  from assms(4) obtain a b where ab: "c_replay_order t = a @ key # b" "length b \<le> n"
    and m: "map_of (c_replay t) key = Some replay" by (auto simp: remembered_def)
  from cover_step_replay [OF assms(1-3)] obtain new where
    new: "length new \<le> 1" "c_replay_order t' = drop (length (c_replay_order t @ new) - 256) (c_replay_order t @ new)"
      "\<forall>k \<in> set (c_replay_order t') - set new. map_of (c_replay t') k = map_of (c_replay t) k"
    and ok: "replay_ok t'" by blast
  let ?d = "length (c_replay_order t @ new) - 256"
  have d: "?d \<le> length a" using ab new(1) assms(5) by simp
  have o': "c_replay_order t' = drop ?d a @ key # (b @ new)"
    unfolding new(2) ab(1) using d by (simp add: ab(1))
  then have "distinct (drop ?d a @ key # (b @ new))" using ok by (simp add: replay_ok_def)
  then have "key \<notin> set new" by auto
  with new(3) o' m have "map_of (c_replay t') key = Some replay" by auto
  with o' ab(2) new(1) show ?thesis unfolding remembered_def by force
qed

lemma cover_run_append: "cover_run api fp dims (xs @ ys) s = cover_run api fp dims ys (cover_run api fp dims xs s)"
  by (induction xs arbitrary: s) auto

lemma cover_run_replay:
  "replay_ok (snd s) \<Longrightarrow> c_source (snd s) \<Longrightarrow>
     replay_ok (snd (cover_run api fp dims ops s)) \<and> c_source (snd (cover_run api fp dims ops s))"
proof (induction ops arbitrary: s)
  case Nil
  then show ?case by simp
next
  case (Cons op ops)
  with cover_step_replay [of "snd s" api fp dims op "fst s"] show ?case
    by (metis cover_run.simps(2) prod.collapse)
qed

lemma cover_run_remembered:
  "replay_ok (snd s) \<Longrightarrow> c_source (snd s) \<Longrightarrow> remembered n key replay (snd s) \<Longrightarrow>
   n + length ops \<le> 255 \<Longrightarrow> remembered (n + length ops) key replay (snd (cover_run api fp dims ops s))"
proof (induction ops arbitrary: s n)
  case Nil
  then show ?case by simp
next
  case (Cons op ops)
  obtain s' where s': "cover_step api fp dims op s = s'" by simp
  from Cons.prems cover_step_replay [of "snd s" api fp dims op "fst s" "fst s'" "snd s'"]
    cover_step_remembered [of "snd s" api fp dims op "fst s" "fst s'" "snd s'" n key replay] s'
  have "replay_ok (snd s')" "c_source (snd s')" "remembered (Suc n) key replay (snd s')" by auto
  with Cons.IH [of s' "Suc n"] Cons.prems s' show ?case by simp
qed

text \<open>What the operations keep of the runtime state itself.\<close>

definition applied_known :: "runtimeState \<Rightarrow> bool" where
  "applied_known s \<longleftrightarrow> p_state (r_applied s) = ''known''"

definition state_truthful :: "layerState \<Rightarrow> runtimeState \<Rightarrow> bool" where
  "state_truthful wm s \<longleftrightarrow>
     r_watermark s = wm
     \<and> (applied_known s \<longleftrightarrow> r_readiness s = ReadinessReady)
     \<and> (r_readiness s = ReadinessReady \<longleftrightarrow> r_error s = None)
     \<and> (case r_applied_witness s of
          None \<Rightarrow> \<not> applied_known s
        | Some w \<Rightarrow> applied_known s \<and> w_graph_applied w \<and> w_generation w = r_generation s
            \<and> w_revision w = p_revision (r_applied s) \<and> p_revision (r_applied s) = d_revision (r_desired s)
            \<and> p_active (r_applied s) = Some (w_active w) \<and> d_active (r_desired s) = w_active w
            \<and> w_cover w = r_cover s \<and> w_watermark w = wm)"

lemma markCoverApplied_truthful: "state_truthful wm (markCoverApplied s revision act asset wm)"
  by (simp add: state_truthful_def markCoverApplied_def applied_known_def Let_def)

lemma apply_frame_state:
  assumes "apply_frame d streamID q frame w t = (response, t')"
  shows "c_state t' = (if w then markCoverApplied ((c_state t)\<lparr>r_desired := desiredFromRequest q,
              r_cover_asset := (if q_active q then q_cover_asset q else None)\<rparr>)
            (q_revision q) (q_active q) (q_cover_asset q) (c_watermark t)
          else (c_state t)\<lparr>r_desired := desiredFromRequest q,
              r_cover_asset := (if q_active q then q_cover_asset q else None),
              r_readiness := ReadinessUnknown, r_applied := unknown_applied, r_applied_witness := None,
              r_last_good_applied := Some (case r_last_good_applied (c_state t) of Some g \<Rightarrow> g
                                           | None \<Rightarrow> r_applied (c_state t)),
              r_error := Some ErrorCoverApplyAmbiguous, r_watermark := c_watermark t\<rparr>)"
  using assms by (auto simp: apply_frame_def Let_def split: option.splits)

lemma desiredFromRequest_revision [simp]: "d_revision (desiredFromRequest q) = q_revision q"
  by (simp add: desiredFromRequest_def split: bool.splits option.splits)

lemma apply_frame_truthful:
  assumes "apply_frame d streamID q frame w t = (response, t')"
  shows "state_truthful (c_watermark t') (c_state t')"
    and "r_job_generation (c_state t') = r_job_generation (c_state t)"
    and "r_generation (c_state t') = r_generation (c_state t)"
    and "d_revision (r_desired (c_state t')) = q_revision q"
  using apply_frame_shape(4) [OF assms]
  by (auto simp: apply_frame_state [OF assms] markCoverApplied_truthful)
    (auto simp: state_truthful_def applied_known_def unknown_applied_def markCoverApplied_def Let_def)

lemma updateWatermark_state:
  assumes "state_truthful (c_watermark t) (c_state t)" and "r_job_generation (c_state t) \<noteq> 0"
  shows "state_truthful (c_watermark (updateWatermark w e p t)) (c_state (updateWatermark w e p t))"
    and "r_job_generation (c_state (updateWatermark w e p t)) = r_job_generation (c_state t)"
    and "r_generation (c_state (updateWatermark w e p t)) = r_generation (c_state t)"
    and "r_desired (c_state (updateWatermark w e p t)) = r_desired (c_state t)"
  using assms
  by (auto simp: updateWatermark_def markWatermarkWitnessUnknownLocked_def Let_def state_truthful_def
      applied_known_def unknown_applied_def split: option.splits)

definition track_ok :: "cover_track \<Rightarrow> bool" where
  "track_ok t \<longleftrightarrow> replay_ok t \<and> c_source t \<and> r_job_generation (c_state t) \<noteq> 0
     \<and> state_truthful (c_watermark t) (c_state t)"

lemma cover_step_ok:
  assumes "track_ok t" and "cover_step api fp dims op (assets, t) = (assets', t')"
  shows "track_ok t' \<and> r_job_generation (c_state t') = r_job_generation (c_state t)
    \<and> r_generation (c_state t') = r_generation (c_state t)
    \<and> d_revision (r_desired (c_state t)) \<le> d_revision (r_desired (c_state t'))"
proof -
  from assms(1) have t: "replay_ok t" "c_source t" "r_job_generation (c_state t) \<noteq> 0"
    "state_truthful (c_watermark t) (c_state t)" by (auto simp: track_ok_def)
  note keep = cover_step_replay [OF t(1,2) assms(2)]
  show ?thesis
  proof (cases op)
    case (OpWatermark w e p)
    with assms(2) have "t' = updateWatermark w e p t" by simp
    with keep updateWatermark_state [OF t(4,3)] t(3) show ?thesis by (simp add: track_ok_def)
  next
    case (OpApply w sid q)
    with assms(2) obtain res where
      a: "applyVideoCover api fp (\<lambda>_. w) True dims sid q (assets, t) = (res, assets', t')"
      by (metis cover_step.simps(1) prod.collapse)
    from a t(2) show ?thesis
    proof (cases rule: apply_cases)
      case (refused e)
      with assms(1) show ?thesis by simp
    next
      case (known replay)
      with assms(1) show ?thesis by simp
    next
      case (rejected code)
      with keep t show ?thesis by (simp add: track_ok_def)
    next
      case (delivered frame response)
      from apply_frame_truthful [OF delivered(4)] keep t(3) delivered(2) show ?thesis
        by (simp add: track_ok_def fence_passed_def less_imp_le)
    qed
  qed
qed

lemma cover_run_ok:
  "track_ok (snd s) \<Longrightarrow>
     track_ok (snd (cover_run api fp dims ops s))
     \<and> r_job_generation (c_state (snd (cover_run api fp dims ops s))) = r_job_generation (c_state (snd s))
     \<and> r_generation (c_state (snd (cover_run api fp dims ops s))) = r_generation (c_state (snd s))
     \<and> d_revision (r_desired (c_state (snd s))) \<le> d_revision (r_desired (c_state (snd (cover_run api fp dims ops s))))"
proof (induction ops arbitrary: s)
  case Nil
  then show ?case by simp
next
  case (Cons op ops)
  obtain assets' t' where e: "cover_step api fp dims op s = (assets', t')" by fastforce
  from cover_step_ok [OF Cons.prems, of api fp dims op "fst s" assets' t'] e
    Cons.IH [of "(assets', t')"] show ?case by auto
qed

lemma started_cover_ok:
  assumes "0 < s_job_generation snapshot"
  shows "track_ok (started_cover sid g snapshot wm frame)"
proof -
  have "r_job_generation (c_state (started_cover sid g snapshot wm frame)) = s_job_generation snapshot"
    by (simp add: started_cover_def markCoverApplied_def initialCoverRuntimeState_def Let_def)
  with assms show ?thesis
    by (auto simp: track_ok_def started_cover_def replay_ok_def markCoverApplied_truthful)
qed

lemma apply_again:
  assumes "applyVideoCover api fp witness True dims sid q (assets, t) = (Inr response, s')"
    and "c_source t" and "c_source u" and "r_job_generation (c_state u) = r_job_generation (c_state t)"
    and "map_of (c_replay u) (q_idempotency_key q) = Some \<lparr>y_fingerprint = fp q, y_response = response\<rparr>"
  shows "applyVideoCover api fp witness' True dims sid q (assets', u) = (Inr response, assets', u)"
proof -
  have "validateCoverApply sid q = None \<and> r_job_generation (c_state t) \<noteq> 0"
    using assms(1,2) by (auto simp: applyVideoCover_def split: option.splits if_splits)
  with assms(3-5) show ?thesis by (simp add: applyVideoCover_def Let_def)
qed

lemma cover_history:
  assumes "0 < s_job_generation snapshot"
    and "s0 = cover_run api fp dims earlier (assets, started_cover sid g snapshot wm frame)"
  shows "track_ok (snd s0) \<and> r_generation (c_state (snd s0)) = g
    \<and> r_job_generation (c_state (snd s0)) = s_job_generation snapshot"
proof -
  have "r_generation (c_state (started_cover sid g snapshot wm frame)) = g"
    "r_job_generation (c_state (started_cover sid g snapshot wm frame)) = s_job_generation snapshot"
    by (simp_all add: started_cover_def markCoverApplied_def initialCoverRuntimeState_def Let_def)
  with cover_run_ok [of "(assets, started_cover sid g snapshot wm frame)" api fp dims earlier]
    started_cover_ok [OF assms(1), of sid g wm frame] assms(2) show ?thesis by simp
qed

section \<open>Properties\<close>

text \<open>
  C21. Exact replay: once a request with a fresh idempotency key was answered, sending it
  again, after up to 255 other cover and watermark operations whatever they did, gives
  the same answer and changes nothing: no fetch, no frame to the feed, no new state.
\<close>

theorem cover_replay_exact:
  assumes "0 < s_job_generation snapshot"
    and "s0 = cover_run api fp dims earlier (assets, started_cover sid g snapshot wm frame)"
    and "map_of (c_replay (snd s0)) (q_idempotency_key q) = None"
    and "applyVideoCover api fp witness True dims sid q s0 = (Inr response, s1)"
    and "length others \<le> 255" and "s2 = cover_run api fp dims others s1"
  shows "applyVideoCover api fp witness' True dims sid q s2 = (Inr response, s2)"
proof -
  obtain a0 t0 a1 t1 a2 t2 where s: "s0 = (a0, t0)" "s1 = (a1, t1)" "s2 = (a2, t2)" by fastforce
  have ok0: "track_ok t0" using cover_history [OF assms(1,2)] s(1) by simp
  then have t0: "replay_ok t0" "c_source t0" by (auto simp: track_ok_def)
  let ?key = "q_idempotency_key q" and ?y = "\<lparr>y_fingerprint = fp q, y_response = response\<rparr>"
  note app = assms(4) [unfolded s]
  have fresh: "map_of (c_replay t0) ?key = None" using assms(3) s by simp
  from app t0(2) have "\<exists>u. t1 = storeCoverReplay ?key ?y u \<and> replay_ok u \<and> map_of (c_replay u) ?key = None
      \<and> c_source t1 \<and> r_job_generation (c_state t1) = r_job_generation (c_state t0) \<and> track_ok t1"
  proof (cases rule: apply_cases)
    case (refused e)
    then show ?thesis by simp
  next
    case (known replay)
    with fresh show ?thesis by simp
  next
    case (rejected code)
    with t0 ok0 storeCoverReplay_new [OF t0(1) rejected(1)] show ?thesis
      by (intro exI [of _ t0]) (auto simp: track_ok_def)
  next
    case (delivered frame response')
    from apply_frame_shape [OF delivered(4)] obtain u where
      u: "t1 = storeCoverReplay ?key \<lparr>y_fingerprint = fp q, y_response = response'\<rparr> u"
      "c_replay u = c_replay t0" "c_replay_order u = c_replay_order t0" "c_source t1 = c_source t0" by blast
    with t0(1) fresh have uok: "replay_ok u" "map_of (c_replay u) ?key = None" by (auto simp: replay_ok_def)
    have "track_ok t1"
      using storeCoverReplay_new [OF uok] u apply_frame_truthful [OF delivered(4)] ok0
      by (simp add: track_ok_def)
    with u uok delivered(3) t0(2) apply_frame_truthful [OF delivered(4)] show ?thesis
      by (intro exI [of _ u]) auto
  qed
  then obtain u where u: "t1 = storeCoverReplay ?key ?y u" "replay_ok u" "map_of (c_replay u) ?key = None"
    "c_source t1" "r_job_generation (c_state t1) = r_job_generation (c_state t0)" "track_ok t1" by blast
  note new = storeCoverReplay_new [OF u(2,3), of ?y]
  have "length (c_replay_order u) \<le> 256" using u(2) by (simp add: replay_ok_def)
  then have "c_replay_order t1 = drop (Suc (length (c_replay_order u)) - 256) (c_replay_order u) @ ?key # []"
    using new u(1) by simp
  moreover from this have "map_of (c_replay t1) ?key = Some ?y" using new u(1) by auto
  ultimately have r1: "remembered 0 ?key ?y t1" by (force simp: remembered_def)
  have e2: "t2 = snd (cover_run api fp dims others (a1, t1))" using assms(6) s by (metis snd_conv)
  from u(6) have "replay_ok t1" by (simp add: track_ok_def)
  with r1 u(4) cover_run_remembered [of "(a1, t1)" 0 ?key ?y others api fp dims] assms(5) have
    r2: "remembered (length others) ?key ?y t2" by (simp add: e2)
  have "track_ok t2 \<and> r_job_generation (c_state t2) = r_job_generation (c_state t1)"
    using cover_run_ok [of "(a1, t1)" api fp dims others] u(6) by (simp add: e2)
  with r2 u(5) apply_again [OF app t0(2), of t2] s(3) show ?thesis
    by (simp add: remembered_def track_ok_def)
qed

definition sample_snapshot :: startSnapshot where
  "sample_snapshot = \<lparr>s_job_generation = 7, s_revision = 1, s_active = False,
     s_idempotency_key = ''start'', s_cover_asset = None\<rparr>"

definition sample_request :: "u64 \<Rightarrow> string \<Rightarrow> applyRequest" where
  "sample_request revision key = \<lparr>q_stream_id = ''s'', q_job_generation = 7, q_expected_generation = 3,
     q_revision = revision, q_active = False, q_idempotency_key = key, q_cover_asset = None,
     q_hide_confirmed = True\<rparr>"

definition sample_track :: cover_track where
  "sample_track = started_cover ''s'' 3 sample_snapshot zero_layer []"

definition sample_digest :: "applyRequest \<Rightarrow> digest" where
  "sample_digest q = [ucast (q_revision q)]"

lemma trim_samples: "trim_space ''w'' = ''w''" "trim_space ''s'' = ''s''"
  by code_simp+

lemma sample_key: "validIdempotencyKey ''k2''"
  by (simp add: validIdempotencyKey_def utf8_valid_def range_runes_def runes_ascii idempotencyEdgeSpace_def
      rune_is_space_def)

lemma sample_request_valid:
  "validateCoverApply ''s'' (sample_request 2 ''k2'') = None"
  by (simp add: validateCoverApply_def sample_request_def trim_samples sample_key)

lemma sample_apply:
  "\<exists>response t. applyVideoCover sample_api sample_digest (\<lambda>_. False) True (4, 2) ''s'' (sample_request 2 ''k2'')
      (None, sample_track) = (Inr response, None, t) \<and> o_outcome response = OutcomeAmbiguous
    \<and> d_revision (r_desired (c_state t)) = 2 \<and> c_feed t = [[]]"
proof -
  have q: "q_active (sample_request r k) = False" "q_idempotency_key (sample_request r k) = k"
    "q_job_generation (sample_request r k) = 7" "q_expected_generation (sample_request r k) = 3"
    "q_revision (sample_request r k) = r" for r k
    by (simp_all add: sample_request_def)
  have s: "c_source sample_track" "r_job_generation (c_state sample_track) = 7"
    "r_generation (c_state sample_track) = 3" "d_revision (r_desired (c_state sample_track)) = 1"
    "c_replay sample_track = []" "c_replay_order sample_track = []" "c_transparent sample_track = []"
    "c_feed sample_track = []"
    by (simp_all add: sample_track_def started_cover_def markCoverApplied_def sample_snapshot_def
        initialCoverRuntimeState_def Let_def)
  obtain response t where f: "apply_frame (sample_digest (sample_request 2 ''k2'')) ''s''
      (sample_request 2 ''k2'') [] False sample_track = (response, t)" by fastforce
  have "o_outcome response = OutcomeAmbiguous"
    using f by (auto simp: apply_frame_def Let_def)
  moreover have "applyVideoCover sample_api sample_digest (\<lambda>_. False) True (4, 2) ''s'' (sample_request 2 ''k2'')
      (None, sample_track) = (Inr response, None, t)"
    using f by (simp add: applyVideoCover_def sample_request_valid q s Let_def cover_frame_def)
  ultimately show ?thesis
    using apply_frame_truthful(4) [OF f] apply_frame_shape(3) [OF f] by (simp add: q s)
qed

theorem cover_replay_exact_witness:
  "\<exists>response s1. applyVideoCover sample_api sample_digest (\<lambda>_. False) True (4, 2) ''s'' (sample_request 2 ''k2'')
      (None, sample_track) = (Inr response, s1)
    \<and> applyVideoCover sample_api sample_digest (\<lambda>_. True) True (4, 2) ''s'' (sample_request 2 ''k2'')
      (cover_run sample_api sample_digest (4, 2) [OpWatermark True True ''w'', OpApply True ''s'' (sample_request 9 ''k9'')] s1)
      = (Inr response, cover_run sample_api sample_digest (4, 2)
           [OpWatermark True True ''w'', OpApply True ''s'' (sample_request 9 ''k9'')] s1)"
proof -
  obtain response t where a: "applyVideoCover sample_api sample_digest (\<lambda>_. False) True (4, 2) ''s''
      (sample_request 2 ''k2'') (None, sample_track) = (Inr response, None, t)"
    using sample_apply by blast
  have "applyVideoCover sample_api sample_digest (\<lambda>_. True) True (4, 2) ''s'' (sample_request 2 ''k2'')
      (cover_run sample_api sample_digest (4, 2) [OpWatermark True True ''w'', OpApply True ''s'' (sample_request 9 ''k9'')] (None, t))
      = (Inr response, cover_run sample_api sample_digest (4, 2)
           [OpWatermark True True ''w'', OpApply True ''s'' (sample_request 9 ''k9'')] (None, t))"
    by (rule cover_replay_exact [where earlier = "[]" and snapshot = sample_snapshot and assets = None
          and sid = "''s''" and g = 3 and wm = zero_layer and frame = "[]"
          and others = "[OpWatermark True True ''w'', OpApply True ''s'' (sample_request 9 ''k9'')]", OF _ _ _ a])
      (simp_all add: sample_snapshot_def sample_track_def started_cover_def)
  with a show ?thesis by blast
qed

text \<open>
  C23. Fencing: in any history of a process, a cover request takes effect only when it
  names the process's job generation and cover generation and a revision above the desired
  one; then exactly one frame goes to the feed and the desired revision becomes the
  request's. Every other answer leaves the runtime state and the feed as they were.
\<close>

theorem cover_apply_fenced:
  assumes "0 < s_job_generation snapshot"
    and "s0 = cover_run api fp dims earlier (assets, started_cover sid g snapshot wm frame)"
    and "applyVideoCover api fp witness True dims sid q s0 = (res, s1)"
  shows "(c_state (snd s1) = c_state (snd s0) \<and> c_feed (snd s1) = c_feed (snd s0))
    \<or> (fence_passed q (c_state (snd s0)) \<and> (\<exists>shown. c_feed (snd s1) = c_feed (snd s0) @ [shown])
        \<and> d_revision (r_desired (c_state (snd s1))) = q_revision q
        \<and> (\<exists>response. res = Inr response \<and> o_accepted response \<and> o_actual response = c_state (snd s1)))"
proof -
  obtain a0 t0 a1 t1 where s: "s0 = (a0, t0)" "s1 = (a1, t1)" by fastforce
  have "track_ok t0" using cover_history [OF assms(1,2)] s(1) by simp
  then have src: "c_source t0" by (simp add: track_ok_def)
  from assms(3) [unfolded s] src show ?thesis
  proof (cases rule: apply_cases)
    case (delivered shown response)
    with apply_frame_shape [OF delivered(4)] apply_frame_truthful [OF delivered(4)] s show ?thesis
      by auto
  qed (use s in auto)
qed

theorem cover_apply_fenced_witness:
  "\<exists>t. c_state t \<noteq> c_state sample_track \<and> fence_passed (sample_request 2 ''k2'') (c_state sample_track)
     \<and> snd (snd (applyVideoCover sample_api sample_digest (\<lambda>_. False) True (4, 2) ''s'' (sample_request 2 ''k2'')
         (None, sample_track))) = t"
proof -
  obtain response t where a: "applyVideoCover sample_api sample_digest (\<lambda>_. False) True (4, 2) ''s''
      (sample_request 2 ''k2'') (None, sample_track) = (Inr response, None, t)" "c_feed t = [[]]"
    using sample_apply by blast
  from cover_apply_fenced [where earlier = "[]" and snapshot = sample_snapshot and assets = None
      and sid = "''s''" and g = 3 and wm = zero_layer and frame = "[]", OF _ _ a(1)] a(2) have
    f: "fence_passed (sample_request 2 ''k2'') (c_state sample_track)"
      "d_revision (r_desired (c_state t)) = 2"
    by (auto simp: sample_snapshot_def sample_track_def started_cover_def sample_request_def)
  moreover have "d_revision (r_desired (c_state sample_track)) = 1"
    by (simp add: sample_track_def started_cover_def markCoverApplied_def sample_snapshot_def Let_def)
  ultimately have "c_state t \<noteq> c_state sample_track" by auto
  with a f show ?thesis by auto
qed

text \<open>
  C25. The published cover state is truthful after any history of cover and watermark
  operations: it is ready, without an error and with a known applied state, exactly when it
  carries a graph witness, and that witness agrees with the generation, the desired and
  applied revision and activity, the cover layer and the current watermark; the generations
  never change, the desired revision never goes back, and the replies kept for replay number
  at most 256.
\<close>

theorem cover_state_truthful:
  assumes "0 < s_job_generation snapshot"
    and "s0 = cover_run api fp dims earlier (assets, started_cover sid g snapshot wm frame)"
    and "s1 = cover_run api fp dims later s0"
  shows "state_truthful (c_watermark (snd s1)) (c_state (snd s1))
    \<and> r_generation (c_state (snd s1)) = g
    \<and> r_job_generation (c_state (snd s1)) = s_job_generation snapshot
    \<and> d_revision (r_desired (c_state (snd s0))) \<le> d_revision (r_desired (c_state (snd s1)))
    \<and> length (c_replay_order (snd s1)) \<le> 256"
  using cover_history [OF assms(1,2)] cover_run_ok [of s0 api fp dims later] assms(3)
  by (auto simp: track_ok_def replay_ok_def)

theorem cover_state_truthful_witness:
  "state_truthful \<lparr>l_enabled = True, l_revision = 1, l_variant_id = ''w''\<rparr>
     (c_state (updateWatermark True True ''w'' sample_track))"
proof -
  have w: "c_watermark (updateWatermark True True ''w'' sample_track)
      = \<lparr>l_enabled = True, l_revision = 1, l_variant_id = ''w''\<rparr>"
    using trim_samples by (simp add: updateWatermark_def sample_track_def started_cover_def zero_layer_def Let_def)
  from cover_state_truthful [where earlier = "[]" and snapshot = sample_snapshot
      and assets = None and sid = "''s''" and g = 3 and wm = zero_layer and frame = "[]"
      and later = "[OpWatermark True True ''w'']" and api = sample_api and fp = sample_digest and dims = "(4, 2)",
      OF _ refl refl] w show ?thesis
    by (simp add: sample_snapshot_def sample_track_def)
qed

end
