(* ===== verification/Jobs.thy ===== *)
theory Jobs
  imports CoverRuntime Complex_Main
begin

text \<open>
  The jobs that the parts of the node hand to each other: \<^verbatim>\<open>lifecycle.StreamJob\<close>,
  \<^verbatim>\<open>PackageJob\<close> and \<^verbatim>\<open>ArchiveConfig\<close> (\<^verbatim>\<open>internal/lifecycle/manager.go\<close>) and the
  encoder profile (\<^verbatim>\<open>internal/ffmpeg/command.go\<close>), with what is erased from a job
  when its process ends. A decoded JSON value is a \<open>json\<close>; a \<^verbatim>\<open>float64\<close> is a rational.
\<close>

datatype json = JNull | JBool bool | JNum rat | JStr string | JArr "json list" | JObj "(string \<times> json) list"

record encoder_profile =
  Width :: int
  Height :: int
  FPS :: int
  VideoBitrate :: string
  AudioBitrate :: string
  SampleRate :: int
  KeyframeSec :: int

definition defaultProfile :: encoder_profile where
  "defaultProfile = \<lparr>Width = 1920, Height = 1080, FPS = 60, VideoBitrate = ''8000k'',
     AudioBitrate = ''160k'', SampleRate = 48000, KeyframeSec = 2\<rparr>"

definition zeroProfile :: encoder_profile where
  "zeroProfile = \<lparr>Width = 0, Height = 0, FPS = 0, VideoBitrate = [], AudioBitrate = [],
     SampleRate = 0, KeyframeSec = 0\<rparr>"

record archive_config =
  DriveDestinationID :: string
  ArchiveProfileID :: string
  AuthMode :: string
  OAuthAccountID :: string
  OAuthProviderID :: string
  FolderID :: string
  FolderIDSecretName :: string
  ServiceAccountJSON :: string
  ServiceAccountSecretName :: string
  ServiceAccountCredentialsSecretName :: string
  SharedDrive :: bool
  SharedDriveID :: string
  ArchiveFileName :: string
  ClientID :: string
  ClientSecret :: string
  ClientSecretSecretName :: string
  RefreshToken :: string
  RefreshTokenSecretName :: string
  RetentionDays :: int

definition zeroArchiveConfig :: archive_config where
  "zeroArchiveConfig = \<lparr>DriveDestinationID = [], ArchiveProfileID = [], AuthMode = [],
     OAuthAccountID = [], OAuthProviderID = [], FolderID = [], FolderIDSecretName = [],
     ServiceAccountJSON = [], ServiceAccountSecretName = [],
     ServiceAccountCredentialsSecretName = [], SharedDrive = False, SharedDriveID = [],
     ArchiveFileName = [], ClientID = [], ClientSecret = [], ClientSecretSecretName = [],
     RefreshToken = [], RefreshTokenSecretName = [], RetentionDays = 0\<rparr>"

record stream_job =
  JobStreamID :: string
  JobRunID :: string
  JobName :: string
  InputURL :: string
  InputMode :: string
  AudioInputURL :: string
  RTMPURL :: string
  StreamKey :: string
  StreamKeySecretName :: string
  YouTubeOutputMode :: string
  OutputRelayBindingID :: string
  YouTubeOutputReady :: bool
  EncoderProfileID :: string
  EncoderProfile :: encoder_profile
  OverlayProfileID :: string
  OverlayConfig :: "(string \<times> json) list option"
  EncoderAudioGainDB :: rat
  WatermarkInputURL :: string
  CoverInputURL :: string
  VideoCoverStart :: "startSnapshot option"
  JobStartedAt :: "nanos option"
  JobDryRun :: bool
  ArchiveConfig :: archive_config

definition zeroJob :: stream_job where
  "zeroJob = \<lparr>JobStreamID = [], JobRunID = [], JobName = [], InputURL = [], InputMode = [],
     AudioInputURL = [], RTMPURL = [], StreamKey = [], StreamKeySecretName = [],
     YouTubeOutputMode = [], OutputRelayBindingID = [], YouTubeOutputReady = False,
     EncoderProfileID = [], EncoderProfile = zeroProfile, OverlayProfileID = [],
     OverlayConfig = None, EncoderAudioGainDB = 0, WatermarkInputURL = [], CoverInputURL = [],
     VideoCoverStart = None, JobStartedAt = None, JobDryRun = False,
     ArchiveConfig = zeroArchiveConfig\<rparr>"

record package_job =
  PkgStreamID :: string
  PkgRunID :: string
  PkgName :: string
  PkgStartedAt :: "nanos option"
  PkgDryRun :: bool
  PkgArchiveConfig :: archive_config

text \<open>The package job that \<^verbatim>\<open>wait\<close> makes of a job.\<close>

definition package_of :: "stream_job \<Rightarrow> package_job" where
  "package_of j = \<lparr>PkgStreamID = JobStreamID j, PkgRunID = JobRunID j, PkgName = JobName j,
     PkgStartedAt = JobStartedAt j, PkgDryRun = False,
     PkgArchiveConfig = ArchiveConfig j\<rparr>"

section \<open>Erasing secrets\<close>

text \<open>The job part of \<^verbatim>\<open>scrubTrackedProcessJob\<close>.\<close>

definition scrub_job :: "stream_job \<Rightarrow> stream_job" where
  "scrub_job j = j\<lparr>InputURL := [], AudioInputURL := [], CoverInputURL := [], WatermarkInputURL := [],
     VideoCoverStart := None, RTMPURL := [], StreamKey := [],
     ArchiveConfig := (ArchiveConfig j)\<lparr>FolderID := [], ServiceAccountJSON := [],
       ClientSecret := [], RefreshToken := []\<rparr>\<rparr>"

text \<open>Its cover part.\<close>

definition scrub_cover :: "cover_track \<Rightarrow> cover_track" where
  "scrub_cover c =
     (let c = (case videoCoverRejectionStateLocked c of
                 None \<Rightarrow> c
               | Some st \<Rightarrow> c\<lparr>c_terminal := Some (terminalVideoCoverState st)\<rparr>)
      in c\<lparr>c_transparent := [], c_replay := [], c_replay_order := [], c_state := zero_runtime\<rparr>)"

text \<open>A job that holds no address with a credential in it, no key and no token.\<close>

definition job_scrubbed :: "stream_job \<Rightarrow> bool" where
  "job_scrubbed j \<longleftrightarrow> InputURL j = [] \<and> AudioInputURL j = [] \<and> CoverInputURL j = []
     \<and> WatermarkInputURL j = [] \<and> RTMPURL j = [] \<and> StreamKey j = []
     \<and> FolderID (ArchiveConfig j) = [] \<and> ServiceAccountJSON (ArchiveConfig j) = []
     \<and> ClientSecret (ArchiveConfig j) = [] \<and> RefreshToken (ArchiveConfig j) = []"

lemma scrub_job_scrubbed [simp]: "job_scrubbed (scrub_job j)"
  by (simp add: scrub_job_def job_scrubbed_def)

lemma zeroJob_scrubbed [simp]: "job_scrubbed zeroJob"
  by (simp add: zeroJob_def zeroArchiveConfig_def job_scrubbed_def)

text \<open>\<^verbatim>\<open>clearUnusedYouTubeOutputTarget\<close> (\<^verbatim>\<open>streamproc/output_target.go\<close>).\<close>

definition clearUnusedYouTubeOutputTarget :: "stream_job \<Rightarrow> stream_job" where
  "clearUnusedYouTubeOutputTarget j = j\<lparr>RTMPURL := [], StreamKey := [], StreamKeySecretName := []\<rparr>"

end
