(* ===== verification/Targets.thy ===== *)
theory Targets
  imports Strings Jobs
begin

text \<open>
  Where media may come from and go to: \<^verbatim>\<open>internal/outputrelay/policy.go\<close>,
  \<^verbatim>\<open>internal/ffmpeg/validate.go\<close>, \<^verbatim>\<open>ResolveInputTarget\<close> of \<^verbatim>\<open>internal/videoingest/manager.go\<close> and
  \<^verbatim>\<open>internal/streamproc/output_target.go\<close>. Parsing of URLs and IP addresses and the lookup of host names are
  the arguments \<open>net\<close>; an address is its 4 or 16 bytes. The configuration read from the
  environment is an argument too.
\<close>

record parsed_url =
  u_scheme :: string
  u_user :: bool
  u_host :: string
  u_hostname :: string
  u_port :: string
  u_path :: string
  u_raw_query :: string
  u_query :: "(string \<times> string list) list"
  u_fragment :: string

type_synonym ip_bytes = "nat list"

record net_lib =
  parse_url :: "string \<Rightarrow> parsed_url option"
  parse_ip :: "string \<Rightarrow> ip_bytes option"
  resolve_host :: "string \<Rightarrow> ip_bytes list option"

section \<open>Addresses\<close>

definition ip_to4 :: "ip_bytes \<Rightarrow> ip_bytes option" where
  "ip_to4 ip = (if length ip = 4 then Some ip
     else if length ip = 16 \<and> take 12 ip = replicate 10 0 @ [255, 255] then Some (drop 12 ip) else None)"

definition ip_unspecified :: "ip_bytes \<Rightarrow> bool" where
  "ip_unspecified ip \<longleftrightarrow> ip_to4 ip = Some [0, 0, 0, 0] \<or> ip = replicate 16 0"

definition ip_loopback :: "ip_bytes \<Rightarrow> bool" where
  "ip_loopback ip \<longleftrightarrow> (case ip_to4 ip of Some b \<Rightarrow> b ! 0 = 127 | None \<Rightarrow> ip = replicate 15 0 @ [1])"

definition ip_private :: "ip_bytes \<Rightarrow> bool" where
  "ip_private ip \<longleftrightarrow> (case ip_to4 ip of
       Some b \<Rightarrow> b ! 0 = 10 \<or> b ! 0 = 172 \<and> b ! 1 div 16 = 1 \<or> b ! 0 = 192 \<and> b ! 1 = 168
     | None \<Rightarrow> length ip = 16 \<and> ip ! 0 div 2 = 126)"

definition ip_link_local :: "ip_bytes \<Rightarrow> bool" where
  "ip_link_local ip \<longleftrightarrow> (case ip_to4 ip of
       Some b \<Rightarrow> b ! 0 = 169 \<and> b ! 1 = 254
     | None \<Rightarrow> length ip = 16 \<and> ip ! 0 = 254 \<and> ip ! 1 div 64 = 2)"

definition ip_multicast :: "ip_bytes \<Rightarrow> bool" where
  "ip_multicast ip \<longleftrightarrow> (case ip_to4 ip of
       Some b \<Rightarrow> b ! 0 div 16 = 14
     | None \<Rightarrow> length ip = 16 \<and> ip ! 0 = 255)"

section \<open>The output relay\<close>

record relay_policy =
  rp_url :: string
  rp_mode :: string
  rp_binding :: string
  rp_require :: bool

datatype relay_error = InvalidConfiguration | RelayRequired | UnsafeRelayTarget | StaticBindingRequired
  | InvalidRelayBindingID | RequiresManagedRelay | RelayBindingMismatch | RelayStaticNotReady

text \<open>\<^verbatim>\<open>configuredMode\<close> and \<^verbatim>\<open>Mode\<close> are the same text.\<close>

definition newWithRequireRelay :: "string \<Rightarrow> string \<Rightarrow> string \<Rightarrow> bool \<Rightarrow> relay_policy" where
  "newWithRequireRelay raw_url raw_mode binding require =
     \<lparr>rp_url = trim_space raw_url, rp_mode = to_lower (trim_space raw_mode), rp_binding = binding, rp_require = require\<rparr>"

definition modeDirect :: string where
  "modeDirect = ''direct''"

definition modeManagedLiveAPI :: string where
  "modeManagedLiveAPI = ''live_api_relay_static''"

definition requireRelay :: "string \<Rightarrow> bool" where
  "requireRelay env = (let raw = to_lower (trim_space env)
     in raw \<noteq> [] \<and> raw \<in> set [''1'', ''true'', ''yes'', ''on''])"

definition lower_hex :: "char \<Rightarrow> bool" where
  "lower_hex c \<longleftrightarrow> c \<in> set ''0123456789abcdef''"

definition validRelayBindingID :: "string \<Rightarrow> bool" where
  "validRelayBindingID s =
     (case split_at (CHR ''-'') s of
        [p, a, b, c, d, e] \<Rightarrow> p = ''relay'' \<and> map length [a, b, c, d, e] = [8, 4, 4, 4, 12]
          \<and> list_all lower_hex (concat [a, b, c, d, e])
      | _ \<Rightarrow> False)"

definition composeRelay :: "string \<Rightarrow> parsed_url \<Rightarrow> bool" where
  "composeRelay env u \<longleftrightarrow> trim_space env = ''1'' \<and> u_scheme u = ''rtmp'' \<and> u_hostname u = ''output-relay'' \<and> u_port u = ''1935''"

definition validateRelayTarget :: "net_lib \<Rightarrow> string \<Rightarrow> string \<Rightarrow> bool" where
  "validateRelayTarget net env raw =
     (let target = trim_space raw
      in if target = [] \<or> contains_any target (''|[]'' @ [CHR 0x0D, CHR 0x0A]) then False
         else case parse_url net target of
           None \<Rightarrow> False
         | Some u \<Rightarrow>
             if u_scheme u \<noteq> ''rtmp'' \<and> u_scheme u \<noteq> ''rtmps'' then False
             else if u_host u = [] \<or> u_user u \<or> u_raw_query u \<noteq> [] \<or> u_fragment u \<noteq> [] then False
             else if trim_space (u_path u) = [] \<or> u_path u = ''/'' then False
             else if composeRelay env u then True
             else let host = to_lower (trim_space (u_hostname u))
                  in if host = ''localhost'' then True
                     else case parse_ip net host of None \<Rightarrow> False | Some ip \<Rightarrow> ip_loopback ip)"

definition validateRelayURLTemplate :: "net_lib \<Rightarrow> string \<Rightarrow> string \<Rightarrow> bool" where
  "validateRelayURLTemplate net env template =
     (let t = trim_space template
      in validateRelayTarget net env
           (if str_contains t ''{stream_id}'' then replace_all ''{stream_id}'' ''relay-policy-validation'' t
            else trim_right_char (CHR ''/'') t @ ''/relay-policy-validation''))"

definition validateConfiguration :: "net_lib \<Rightarrow> string \<Rightarrow> relay_policy \<Rightarrow> relay_error option" where
  "validateConfiguration net env p =
     (if rp_url p = [] then
        if rp_mode p \<noteq> modeDirect then Some InvalidConfiguration
        else if rp_require p then Some RelayRequired else None
      else if rp_mode p = modeManagedLiveAPI then
        if rp_binding p = [] then Some StaticBindingRequired
        else if \<not> validRelayBindingID (rp_binding p) then Some InvalidRelayBindingID
        else if \<not> validateRelayURLTemplate net env (rp_url p) then Some UnsafeRelayTarget else None
      else Some InvalidConfiguration)"

definition capabilityMode :: "net_lib \<Rightarrow> string \<Rightarrow> relay_policy \<Rightarrow> string option" where
  "capabilityMode net env p = (if validateConfiguration net env p = None then Some (rp_mode p) else None)"

definition usesLocalRelay :: "net_lib \<Rightarrow> string \<Rightarrow> relay_policy \<Rightarrow> bool" where
  "usesLocalRelay net env p \<longleftrightarrow> rp_url p \<noteq> [] \<and> validateConfiguration net env p = None"

definition authorizeYouTubeOutput ::
  "net_lib \<Rightarrow> string \<Rightarrow> relay_policy \<Rightarrow> string \<Rightarrow> bool \<Rightarrow> string \<Rightarrow> relay_error + bool" where
  "authorizeYouTubeOutput net env p youtube_mode ready binding =
     (case validateConfiguration net env p of
        Some e \<Rightarrow> Inl e
      | None \<Rightarrow>
          let mode = to_lower (trim_space youtube_mode)
          in if rp_mode p = modeDirect
             then if mode \<notin> set [''stream_key'', ''live_api'', ''live_api_dry_run''] then Inl InvalidConfiguration else Inr False
             else if rp_mode p = modeManagedLiveAPI
             then if mode \<noteq> ''live_api_relay_static'' then Inl RequiresManagedRelay
                  else if \<not> ready then Inl RelayStaticNotReady
                  else if \<not> validRelayBindingID binding \<or> rp_binding p \<noteq> binding then Inl RelayBindingMismatch
                  else Inr True
             else Inl InvalidConfiguration)"

section \<open>The output of a stream\<close>

datatype output_error = RelayConfig relay_error | OutputRelayRequired | UnsafeOutputTarget

definition relayOutputTarget :: "string \<Rightarrow> string \<Rightarrow> string" where
  "relayOutputTarget template streamID =
     (let t = trim_space template; s = path_escape (trim_space streamID)
      in if str_contains t ''{stream_id}'' then replace_all ''{stream_id}'' s t
         else trim_right_char (CHR ''/'') t @ ''/'' @ s)"

definition liveOutputTarget :: "net_lib \<Rightarrow> string \<Rightarrow> relay_policy \<Rightarrow> stream_job \<Rightarrow> output_error + string" where
  "liveOutputTarget net env p job =
     (case validateConfiguration net env p of
        Some e \<Rightarrow> Inl (RelayConfig e)
      | None \<Rightarrow>
          if \<not> usesLocalRelay net env p
          then if rp_require p then Inl OutputRelayRequired else Inr (RTMPURL job @ ''/'' @ StreamKey job)
          else let target = relayOutputTarget (rp_url p) (JobStreamID job)
               in if validateRelayTarget net env target then Inr target else Inl UnsafeOutputTarget)"

definition validateOutputTarget :: "net_lib \<Rightarrow> string \<Rightarrow> string \<Rightarrow> bool" where
  "validateOutputTarget net rtmp key =
     (let rtmp = trim_space rtmp; key = trim_space key; bad = ''|[]'' @ [CHR 0x0D, CHR 0x0A]
      in if rtmp = [] \<or> key = [] \<or> contains_any rtmp bad \<or> contains_any key bad then False
         else case parse_url net rtmp of
           None \<Rightarrow> False
         | Some u \<Rightarrow> u_scheme u = ''rtmps'' \<and> u_host u \<noteq> [] \<and> \<not> u_user u \<and> u_raw_query u = [] \<and> u_fragment u = []
             \<and> \<not> contains_any key (''/?# '' @ [CHR 0x5C]))"

section \<open>Inputs\<close>

definition worker_prefix :: string where
  "worker_prefix = ''internal_worker_video:''"

definition discord_prefix :: string where
  "discord_prefix = ''internal_discord_audio:''"

text \<open>\<^verbatim>\<open>videoingest.ResolveInputTarget\<close>.\<close>

definition videoInputTarget :: "net_lib \<Rightarrow> string \<Rightarrow> string option" where
  "videoInputTarget net raw =
     (let input = trim_space raw
      in if \<not> has_prefix input worker_prefix then None
         else let target = trim_prefix input worker_prefix
         in case parse_url net target of
              None \<Rightarrow> None
            | Some u \<Rightarrow>
                if u_scheme u \<noteq> ''tcp'' \<or> u_user u \<or> u_path u \<noteq> [] \<or> u_raw_query u \<noteq> [] \<or> u_fragment u \<noteq> [] \<or> u_port u = []
                then None
                else if u_hostname u \<noteq> ''127.0.0.1'' \<and> u_hostname u \<noteq> ''::1'' then None else Some target)"

definition resolveInputTarget :: "net_lib \<Rightarrow> string \<Rightarrow> string" where
  "resolveInputTarget net raw =
     (let input = trim_space raw
      in if has_prefix input discord_prefix then filepath_clean (trim_prefix input discord_prefix)
         else case videoInputTarget net input of Some t \<Rightarrow> t | None \<Rightarrow> input)"

definition normalizeHost :: "string \<Rightarrow> string" where
  "normalizeHost h = trim_suffix (to_lower (trim_space h)) ''.''"

definition normalizeHostPatterns :: "string list \<Rightarrow> string list" where
  "normalizeHostPatterns ps = filter (\<lambda>p. p \<noteq> []) (map normalizeHost ps)"

definition hostMatchesAllowedPatterns :: "string \<Rightarrow> string list \<Rightarrow> bool" where
  "hostMatchesAllowedPatterns h patterns =
     (let host = normalizeHost h
      in host \<noteq> [] \<and> list_ex (\<lambda>p. p = host
           \<or> has_prefix p ''*.'' \<and> (let suffix = trim_prefix p ''*''
               in has_suffix host suffix \<and> host \<noteq> trim_prefix suffix ''.'')) patterns)"

definition unsafeNetworkIP :: "string \<Rightarrow> ip_bytes \<Rightarrow> bool" where
  "unsafeNetworkIP scheme ip =
     (if ip_unspecified ip \<or> ip_loopback ip \<or> ip_private ip \<or> ip_link_local ip then True
      else if ip_multicast ip then scheme \<noteq> ''udp'' \<and> scheme \<noteq> ''rtp'' else False)"

definition unsafeNetworkHost :: "net_lib \<Rightarrow> string \<Rightarrow> string \<Rightarrow> bool" where
  "unsafeNetworkHost net scheme h =
     (let host = normalizeHost h
      in if host = [] then True
         else if host = ''localhost'' \<or> has_suffix host ''.localhost'' \<or> has_suffix host ''.local''
           \<or> host = ''metadata.google.internal'' then True
         else case parse_ip net host of Some ip \<Rightarrow> unsafeNetworkIP scheme ip | None \<Rightarrow> False)"

definition equal_fold :: "string \<Rightarrow> string \<Rightarrow> bool" where
  "equal_fold a b \<longleftrightarrow> to_lower a = to_lower b"

definition hasOnlyQueryKey :: "(string \<times> string list) list \<Rightarrow> string \<Rightarrow> bool" where
  "hasOnlyQueryKey q k = list_all (\<lambda>(c, _). equal_fold c k) q"

definition query_get :: "(string \<times> string list) list \<Rightarrow> string \<Rightarrow> string" where
  "query_get q k = (case map_of q k of Some (v # vs) \<Rightarrow> v | _ \<Rightarrow> [])"

definition validateInputTarget :: "net_lib \<Rightarrow> string \<Rightarrow> bool" where
  "validateInputTarget net raw =
     (let input = trim_space raw
      in if input = [] \<or> contains_any input [CHR 0x0D, CHR 0x0A] then False
         else if has_prefix input discord_prefix then
           (let path = trim_space (trim_prefix input discord_prefix)
            in path \<noteq> [] \<and> \<not> has_prefix path ''//'' \<and> \<not> contains_any path ''?#'' \<and> \<not> str_contains path ''://''
               \<and> has_suffix (to_lower path) ''.sdp'')
         else if videoInputTarget net input \<noteq> None then True
         else if has_prefix input worker_prefix then False
         else case parse_url net input of
           None \<Rightarrow> False
         | Some u \<Rightarrow>
             if u_scheme u \<in> set [''rtsp'', ''rtmp'', ''rtmps'', ''srt'', ''udp'', ''rtp''] then
               u_host u \<noteq> [] \<and> u_fragment u = [] \<and> \<not> unsafeNetworkHost net (u_scheme u) (u_hostname u)
             else if u_scheme u = ''http'' \<or> u_scheme u = ''https'' then
               u_host u \<noteq> [] \<and> \<not> u_user u \<and> u_fragment u = [] \<and> \<not> unsafeNetworkHost net (u_scheme u) (u_hostname u)
               \<and> (has_suffix (to_lower (u_path u)) ''.m3u8'' \<and> u_raw_query u = []
                  \<or> length (u_query u) = 1 \<and> equal_fold (query_get (u_query u) ''format'') ''m3u8''
                    \<and> hasOnlyQueryKey (u_query u) ''format'')
             else False)"

definition internal_input :: "string \<Rightarrow> bool" where
  "internal_input raw \<longleftrightarrow> has_prefix (trim_space raw) discord_prefix \<or> has_prefix (trim_space raw) worker_prefix"

definition validateInputTargetWithAllowedHosts :: "net_lib \<Rightarrow> string \<Rightarrow> string list \<Rightarrow> bool" where
  "validateInputTargetWithAllowedHosts net raw allowed =
     (if \<not> validateInputTarget net raw then False
      else let hosts = normalizeHostPatterns allowed
      in if hosts = [] \<or> internal_input raw then True
         else case parse_url net (trim_space raw) of
                None \<Rightarrow> False
              | Some u \<Rightarrow> hostMatchesAllowedPatterns (u_hostname u) hosts)"

record runtime_input_policy =
  AllowDirectHLS :: bool
  AllowHostnameInputs :: bool
  RequireAllowedHosts :: bool

definition validateInputTargetWithRuntimePolicy ::
  "net_lib \<Rightarrow> string \<Rightarrow> string list \<Rightarrow> runtime_input_policy \<Rightarrow> bool" where
  "validateInputTargetWithRuntimePolicy net raw allowed policy =
     (if \<not> validateInputTargetWithAllowedHosts net raw allowed then False
      else if internal_input raw then True
      else if RequireAllowedHosts policy \<and> normalizeHostPatterns allowed = [] then False
      else case parse_url net (trim_space raw) of
        None \<Rightarrow> False
      | Some u \<Rightarrow>
          if (u_scheme u = ''http'' \<or> u_scheme u = ''https'') \<and> \<not> AllowDirectHLS policy then False
          else let host = normalizeHost (u_hostname u)
          in if host = [] then False
             else if parse_ip net host \<noteq> None then True
             else if \<not> AllowHostnameInputs policy then False
             else case resolve_host net host of
                    None \<Rightarrow> False
                  | Some ips \<Rightarrow> ips \<noteq> [] \<and> list_all (\<lambda>ip. \<not> unsafeNetworkIP (u_scheme u) ip) ips)"

text \<open>\<^verbatim>\<open>validateInputForLayout\<close>: the internal inputs are those of the very stream; \<open>sdp\<close> is its session description.\<close>

definition validateInputForLayout :: "net_lib \<Rightarrow> stream_job \<Rightarrow> string \<Rightarrow> bool" where
  "validateInputForLayout net job sdp =
     (let input = trim_space (InputURL job); audio = trim_space (AudioInputURL job)
      in if InputMode job = ''worker_scene_frames_srt'' then
           has_prefix input worker_prefix \<and> has_prefix audio discord_prefix
           \<and> filepath_clean (resolveInputTarget net (AudioInputURL job)) = filepath_clean sdp
         else if InputMode job = ''discord_opus_rtp'' then
           has_prefix input discord_prefix
           \<and> filepath_clean (resolveInputTarget net (InputURL job)) = filepath_clean sdp
         else \<not> has_prefix input discord_prefix \<and> \<not> has_prefix input worker_prefix \<and> audio = [])"

section \<open>Properties\<close>

text \<open>
  The relay is used exactly when it is configured in full for it: YouTube output is authorized for the
  local relay only in the managed mode, with a relay URL that stays on the machine, for
  a ready stream that carries the identity the relay was given, and in no other case; without
  a relay URL only the direct modes pass, unless a relay is required.
\<close>

theorem relay_authorized_iff:
  "authorizeYouTubeOutput net env p youtube_mode ready binding = Inr local \<longleftrightarrow>
    (if local then rp_url p \<noteq> [] \<and> rp_mode p = modeManagedLiveAPI \<and> validateRelayURLTemplate net env (rp_url p)
         \<and> validRelayBindingID binding \<and> rp_binding p = binding \<and> ready
         \<and> to_lower (trim_space youtube_mode) = modeManagedLiveAPI
     else rp_url p = [] \<and> rp_mode p = modeDirect \<and> \<not> rp_require p
         \<and> to_lower (trim_space youtube_mode) \<in> {''stream_key'', ''live_api'', ''live_api_dry_run''})"
proof -
  have m: "modeDirect \<noteq> modeManagedLiveAPI" "\<not> validRelayBindingID []"
    by (simp_all add: modeDirect_def modeManagedLiveAPI_def validRelayBindingID_def)
  have mm: "''live_api_relay_static'' = modeManagedLiveAPI" by (simp add: modeManagedLiveAPI_def)
  show ?thesis
    using m unfolding authorizeYouTubeOutput_def validateConfiguration_def mm Let_def
    by (cases "rp_url p = []"; cases local; auto)
qed



section \<open>Witnesses\<close>

definition sample_url :: "string \<Rightarrow> string \<Rightarrow> string \<Rightarrow> parsed_url" where
  "sample_url scheme host path = \<lparr>u_scheme = scheme, u_user = False, u_host = host, u_hostname = host, u_port = [], u_path = path,
     u_raw_query = [], u_query = [], u_fragment = []\<rparr>"

definition sample_net :: net_lib where
  "sample_net = \<lparr>parse_url = (\<lambda>s.
       if s = ''srt://203.0.113.5'' then Some (sample_url ''srt'' ''203.0.113.5'' [])
       else if s = ''rtmp://127.0.0.1/live/s1'' then Some (sample_url ''rtmp'' ''127.0.0.1'' ''/live/s1'')
       else if s = ''rtmp://127.0.0.1/live/relay-policy-validation'' then Some (sample_url ''rtmp'' ''127.0.0.1'' ''/live/r'')
       else None),
     parse_ip = (\<lambda>s. if s = ''203.0.113.5'' then Some [203, 0, 113, 5] else if s = ''127.0.0.1'' then Some [127, 0, 0, 1] else None),
     resolve_host = (\<lambda>_. None)\<rparr>"

definition sample_policy :: relay_policy where
  "sample_policy = newWithRequireRelay '' rtmp://127.0.0.1/live/'' ''Live_API_Relay_Static''
     ''relay-01234567-89ab-cdef-0123-456789abcdef'' True"

definition sample_relay_job :: stream_job where
  "sample_relay_job = zeroJob\<lparr>JobStreamID := ''s1'', RTMPURL := ''rtmps://a.example/live2'', StreamKey := ''key''\<rparr>"

lemma sample_targets:
  "liveOutputTarget sample_net [] sample_policy sample_relay_job = Inr ''rtmp://127.0.0.1/live/s1''"
  "rp_url sample_policy \<noteq> []"
  "validateInputTargetWithRuntimePolicy sample_net ''srt://203.0.113.5'' [''203.0.113.5'']
     \<lparr>AllowDirectHLS = False, AllowHostnameInputs = False, RequireAllowedHosts = True\<rparr>"
  "\<not> internal_input ''srt://203.0.113.5''"
  by code_simp+



end
