(* ===== verification/VideoIngest.thy ===== *)
theory VideoIngest
  imports OwnedBridges Base64 Targets
begin

text \<open>
  The bridge from a scene worker to FFmpeg, \<^verbatim>\<open>internal/videoingest/manager.go\<close>: an SRT listener, a
  loopback listener, and the goroutine \<^verbatim>\<open>run\<close> that paces the newest frame from one to the other. A
  bridge is a pointer into a heap. What a goroutine does between two waits is one step; the events
  of the network and the clock are the arguments. Frames are the bytes of re-encoded JPEG
  images. The configuration, SHA-256 and the sockets are arguments of \<open>startVideoBridge\<close>.
\<close>

datatype accept_result = Waiting | Connected | Failed string

datatype vi_phase = Accepting | Pumping | Ended

text \<open>The phases in the order a bridge goes through them.\<close>

primrec phase_no :: "vi_phase \<Rightarrow> nat" where
  "phase_no Accepting = 0"
| "phase_no Pumping = 1"
| "phase_no Ended = 2"

instantiation vi_phase :: linorder
begin

definition less_eq_vi_phase :: "vi_phase \<Rightarrow> vi_phase \<Rightarrow> bool" where
  "p \<le> q \<longleftrightarrow> phase_no p \<le> phase_no q"

definition less_vi_phase :: "vi_phase \<Rightarrow> vi_phase \<Rightarrow> bool" where
  "p < q \<longleftrightarrow> phase_no p < phase_no q"

instance
proof
  show "p \<le> q \<Longrightarrow> q \<le> p \<Longrightarrow> p = q" for p q :: vi_phase
    by (cases p; cases q) (simp_all add: less_eq_vi_phase_def)
qed (auto simp: less_eq_vi_phase_def less_vi_phase_def)

end

lemma phase_bounds [simp]: "Accepting \<le> p" "p \<le> Ended"
  by (cases p; simp add: less_eq_vi_phase_def)+

text \<open>\<open>vb_sent\<close> is what was written to FFmpeg and \<open>vb_frames\<close> every frame that was read; both are only for the proofs.\<close>

record video_bridge =
  vb_stream :: string
  vb_passphrase :: string
  vb_srt :: accept_result
  vb_local :: accept_result
  vb_attached :: bool
  vb_closed :: bool
  vb_stopped :: bool
  vb_phase :: vi_phase
  vb_channel :: "string option"
  vb_latest :: string
  vb_read :: "string option"
  vb_rejections :: u64
  vb_received :: u64
  vb_forwarded :: u64
  vb_reports :: "(string \<times> string \<times> string) list"
  vb_sent :: "string list"
  vb_frames :: "string list"

record video_manager =
  vm_bridges :: "(string \<times> nat) list"
  vm_heap :: "nat \<Rightarrow> video_bridge"
  vm_next :: nat

definition upd_b :: "nat \<Rightarrow> (video_bridge \<Rightarrow> video_bridge) \<Rightarrow> video_manager \<Rightarrow> video_manager" where
  "upd_b b f m = m\<lparr>vm_heap := (vm_heap m)(b := f (vm_heap m b))\<rparr>"

section \<open>Configuration\<close>

record video_config =
  BindAddr :: string
  AdvertiseHost :: string

datatype config_error = NotConfigured | BindNotHostPort | BindHostNotLiteral | BindPortRange | AdvertiseNotHost | AdvertiseInvalid

definition normalizeAdvertiseHost :: "string \<Rightarrow> string" where
  "normalizeAdvertiseHost host = trim_chars ''[]'' (trim_space host)"

definition validateVideoConfig :: "net_lib \<Rightarrow> video_config \<Rightarrow> config_error option" where
  "validateVideoConfig net cf =
     (if trim_space (BindAddr cf) = [] \<or> trim_space (AdvertiseHost cf) = [] then Some NotConfigured
      else case split_host_port (BindAddr cf) of
        None \<Rightarrow> Some BindNotHostPort
      | Some (bind_host, port_text) \<Rightarrow>
          if bind_host \<noteq> [] \<and> parse_ip net (trim_chars ''[]'' bind_host) = None then Some BindHostNotLiteral
          else if (case go_atoi port_text of None \<Rightarrow> True | Some port \<Rightarrow> port < 0 \<or> 65535 < port) then Some BindPortRange
          else let host = normalizeAdvertiseHost (AdvertiseHost cf)
          in if host = [] \<or> contains_any host (''/?#@ '' @ [CHR 0x09, CHR 0x0D, CHR 0x0A, CHR 0x5C]) then Some AdvertiseNotHost
             else if CHR '':'' \<in> set host \<and> parse_ip net host = None then Some AdvertiseInvalid
             else case parse_url net (''srt://'' @ join_host_port host ''1'') of
                    None \<Rightarrow> Some AdvertiseInvalid
                  | Some u \<Rightarrow> if u_hostname u = [] then Some AdvertiseInvalid else None)"

text \<open>The three arguments are the variables of the environment.\<close>

definition configFromEnv :: "net_lib \<Rightarrow> string \<Rightarrow> string \<Rightarrow> string \<Rightarrow> video_config \<times> config_error option" where
  "configFromEnv net bind advertise environment =
     (let bind = trim_space bind; advertise = trim_space advertise;
          production = equal_fold (trim_space environment) ''production'';
          cf = \<lparr>BindAddr = (if bind = [] \<and> \<not> production then ''127.0.0.1:0'' else bind),
                AdvertiseHost = (if advertise = [] \<and> \<not> production then ''127.0.0.1'' else advertise)\<rparr>
      in (cf, validateVideoConfig net cf))"

section \<open>Starting and stopping\<close>

datatype video_error = VideoConfig config_error | InvalidStreamID | CredentialRequired | VideoRunning | ListenFailed

definition video_stream_ok :: "string \<Rightarrow> bool" where
  "video_stream_ok s \<longleftrightarrow> s \<noteq> [] \<and> length s \<le> 128
     \<and> list_all (\<lambda>c. is_alnum c \<or> c = CHR ''.'' \<or> c = CHR ''_'' \<or> c = CHR ''-'') s"

definition derivePassphrase :: "(string \<Rightarrow> nat list) \<Rightarrow> string \<Rightarrow> string option" where
  "derivePassphrase sha256 credential =
     (let c = trim_space credential
      in if c = [] then None
         else Some (raw_url_encode (sha256 (''autostream-worker-video-srt-v1'' @ [CHR 0x00] @ c))))"

definition new_video_bridge :: "string \<Rightarrow> string \<Rightarrow> video_bridge" where
  "new_video_bridge s pass = \<lparr>vb_stream = s, vb_passphrase = pass, vb_srt = Waiting, vb_local = Waiting, vb_attached = False,
     vb_closed = False, vb_stopped = False, vb_phase = Accepting, vb_channel = None, vb_latest = [], vb_read = None,
     vb_rejections = 0, vb_received = 0, vb_forwarded = 0, vb_reports = [], vb_sent = [], vb_frames = []\<rparr>"

record video_handle =
  vh_url :: string
  vh_passphrase :: string
  vh_pbkeylen :: nat
  vh_input_url :: string
  vh_owner :: "nat option"

definition startVideoBridge ::
  "net_lib \<Rightarrow> video_config \<Rightarrow> (string \<Rightarrow> nat list) \<Rightarrow> nat option \<Rightarrow> nat option \<Rightarrow> string \<Rightarrow> string \<Rightarrow> video_manager
    \<Rightarrow> video_manager \<times> (video_error + video_handle)" where
  "startVideoBridge net cf sha256 srt_port local_port streamID credential m =
     (case validateVideoConfig net cf of Some e \<Rightarrow> (m, Inl (VideoConfig e))
      | None \<Rightarrow> let s = trim_space streamID
      in if \<not> video_stream_ok s then (m, Inl InvalidStreamID)
         else case derivePassphrase sha256 credential of
           None \<Rightarrow> (m, Inl CredentialRequired)
         | Some pass \<Rightarrow>
             if vm_bridges m \<noteq> [] then (m, Inl VideoRunning)
             else (case (srt_port, local_port) of
                 (Some port, Some local) \<Rightarrow>
                   if port = 0 \<or> local = 0 then (m, Inl ListenFailed)
                   else (m\<lparr>vm_bridges := [(s, vm_next m)], vm_heap := (vm_heap m)(vm_next m := new_video_bridge s pass),
                           vm_next := Suc (vm_next m)\<rparr>,
                         Inr \<lparr>vh_url = ''srt://'' @ join_host_port (normalizeAdvertiseHost (AdvertiseHost cf)) (dec_nat port),
                             vh_passphrase = pass, vh_pbkeylen = 32,
                             vh_input_url = worker_prefix @ ''tcp://'' @ join_host_port ''127.0.0.1'' (dec_nat local), vh_owner = Some (vm_next m)\<rparr>)
               | _ \<Rightarrow> (m, Inl ListenFailed)))"

definition close_video :: "video_bridge \<Rightarrow> video_bridge" where
  "close_video v = v\<lparr>vb_closed := True\<rparr>"

definition stopVideoBridge :: "string \<Rightarrow> nat option \<Rightarrow> video_manager \<Rightarrow> video_manager" where
  "stopVideoBridge streamID expected m =
     (let s = trim_space streamID; r = map_of (vm_bridges m) s
      in if expected \<noteq> None \<and> r \<noteq> expected then m
         else case r of
                None \<Rightarrow> m
              | Some b \<Rightarrow> upd_b b (\<lambda>v. close_video (v\<lparr>vb_stopped := True\<rparr>))
                  (m\<lparr>vm_bridges := filter (\<lambda>(k, _). k \<noteq> s) (vm_bridges m)\<rparr>))"

definition stopOwnedVideoBridge :: "video_handle \<Rightarrow> video_manager \<Rightarrow> video_manager" where
  "stopOwnedVideoBridge h m =
     (case vh_owner h of None \<Rightarrow> m | Some b \<Rightarrow> stopVideoBridge (vb_stream (vm_heap m b)) (Some b) m)"

definition markStopRequested :: "string \<Rightarrow> video_manager \<Rightarrow> video_manager" where
  "markStopRequested streamID m =
     (case map_of (vm_bridges m) (trim_space streamID) of
        None \<Rightarrow> m
      | Some b \<Rightarrow> upd_b b (\<lambda>v. v\<lparr>vb_stopped := True\<rparr>) m)"

section \<open>The goroutines of a bridge\<close>

text \<open>\<^verbatim>\<open>finish\<close>, at most once for a bridge.\<close>

definition finish_status :: "video_bridge \<Rightarrow> string \<Rightarrow> string" where
  "finish_status v error_class =
     (if vb_stopped v then ''stopped'' else if error_class = ''srt_read_eof'' then ''closed'' else ''failed'')"

definition finish_bridge :: "nat \<Rightarrow> string \<Rightarrow> string \<Rightarrow> video_manager \<Rightarrow> video_manager" where
  "finish_bridge b reason error_class m =
     (if vb_reports (vm_heap m b) \<noteq> [] then m
      else let v = vm_heap m b;
               reason = (if vb_stopped v then ''bridge_stopped'' else reason);
               error_class = (if vb_stopped v then ''bridge_stopped'' else error_class);
               m = (if map_of (vm_bridges m) (vb_stream v) = Some b
                    then m\<lparr>vm_bridges := filter (\<lambda>(k, _). k \<noteq> vb_stream v) (vm_bridges m)\<rparr> else m)
           in upd_b b (\<lambda>v. (close_video v)\<lparr>vb_reports := [(finish_status v error_class, reason, error_class)]\<rparr>) m)"

text \<open>One publisher that asks for a connection.\<close>

record srt_request =
  sr_version :: nat
  sr_stream :: string
  sr_encrypted :: bool
  sr_passphrase_ok :: bool
  sr_accept_ok :: bool

definition accept_request :: "srt_request \<Rightarrow> video_bridge \<Rightarrow> video_bridge" where
  "accept_request q v =
     (if sr_version q \<noteq> 5 \<or> sr_stream q \<noteq> vb_stream v \<or> \<not> sr_encrypted q \<or> \<not> sr_passphrase_ok q \<or> \<not> sr_accept_ok q
      then v\<lparr>vb_rejections := vb_rejections v + 1\<rparr>
      else v\<lparr>vb_srt := Connected\<rparr>)"

text \<open>A frame the reader has decoded, with its size and its bytes after encoding, if that works.\<close>

definition maxSceneFrameDimension :: int where
  "maxSceneFrameDimension = 3840"

definition read_frame :: "int \<Rightarrow> int \<Rightarrow> string option \<Rightarrow> video_bridge \<Rightarrow> video_bridge" where
  "read_frame w h encoded v =
     (if w \<le> 0 \<or> h \<le> 0 \<or> maxSceneFrameDimension < w \<or> maxSceneFrameDimension < h
      then v\<lparr>vb_read := Some ''srt_frame_invalid''\<rparr>
      else case encoded of
             None \<Rightarrow> v\<lparr>vb_read := Some ''srt_frame_encode''\<rparr>
           | Some data \<Rightarrow> v\<lparr>vb_received := vb_received v + 1, vb_channel := Some data, vb_frames := vb_frames v @ [data]\<rparr>)"

text \<open>A read that fails.\<close>

datatype read_error = Eof | UnexpectedEof | BadImage

fun classifyFrameReadError :: "read_error \<Rightarrow> string" where
  "classifyFrameReadError Eof = ''srt_read_eof''"
| "classifyFrameReadError UnexpectedEof = ''srt_frame_truncated''"
| "classifyFrameReadError BadImage = ''srt_frame_decode''"

text \<open>The steps of \<^verbatim>\<open>run\<close>: both ends are there; the frame in the channel is taken; a tick; the reader has ended.\<close>

definition run_attach :: "nat \<Rightarrow> video_manager \<Rightarrow> video_manager option" where
  "run_attach b m =
     (let v = vm_heap m b
      in if vb_phase v \<noteq> Accepting \<or> vb_srt v = Waiting \<or> vb_local v = Waiting then None
         else case (vb_srt v, vb_local v) of
           (Failed e, _) \<Rightarrow> Some (finish_bridge b ''srt_accept_failed'' e (upd_b b (\<lambda>v. v\<lparr>vb_phase := Ended\<rparr>) m))
         | (_, Failed e) \<Rightarrow> Some (finish_bridge b ''local_accept_failed'' e (upd_b b (\<lambda>v. v\<lparr>vb_phase := Ended\<rparr>) m))
         | _ \<Rightarrow>
             if vb_closed v
             then Some (finish_bridge b ''bridge_attach_failed'' ''bridge_attach'' (upd_b b (\<lambda>v. v\<lparr>vb_phase := Ended\<rparr>) m))
             else Some (upd_b b (\<lambda>v. v\<lparr>vb_attached := True, vb_phase := Pumping\<rparr>) m))"

definition run_take :: "nat \<Rightarrow> video_manager \<Rightarrow> video_manager option" where
  "run_take b m =
     (case (vb_phase (vm_heap m b), vb_channel (vm_heap m b)) of
        (Pumping, Some f) \<Rightarrow> Some (upd_b b (\<lambda>v. v\<lparr>vb_latest := f, vb_channel := None\<rparr>) m)
      | _ \<Rightarrow> None)"

definition run_tick :: "bool \<Rightarrow> nat \<Rightarrow> video_manager \<Rightarrow> video_manager option" where
  "run_tick write_ok b m =
     (let v = vm_heap m b
      in if vb_phase v \<noteq> Pumping then None
         else if vb_latest v = [] then Some m
         else if write_ok
         then Some (upd_b b (\<lambda>v. v\<lparr>vb_forwarded := vb_forwarded v + 1, vb_sent := vb_sent v @ [vb_latest v]\<rparr>) m)
         else Some (finish_bridge b ''local_write_failed'' ''local_write'' (upd_b b (\<lambda>v. v\<lparr>vb_phase := Ended\<rparr>) m)))"

definition run_end :: "nat \<Rightarrow> video_manager \<Rightarrow> video_manager option" where
  "run_end b m =
     (case (vb_phase (vm_heap m b), vb_read (vm_heap m b)) of
        (Pumping, Some e) \<Rightarrow> Some (finish_bridge b ''srt_input_closed'' e (upd_b b (\<lambda>v. v\<lparr>vb_phase := Ended\<rparr>) m))
      | _ \<Rightarrow> None)"

section \<open>Steps\<close>

text \<open>The events: calls of the manager, the network, and the goroutines of the bridge \<open>b\<close>.\<close>

datatype video_event =
    VStart "nat option" "nat option" string string
  | VStop string
  | VStopOwned video_handle
  | VMark string
  | VRequest nat srt_request
  | VSrtFails nat
  | VLocal nat bool
  | VAttach nat
  | VFrame nat int int "string option"
  | VReadFails nat read_error
  | VTake nat
  | VTick nat bool
  | VEnd nat

fun video_exec :: "net_lib \<Rightarrow> video_config \<Rightarrow> (string \<Rightarrow> nat list) \<Rightarrow> video_event \<Rightarrow> video_manager \<Rightarrow> video_manager option" where
  "video_exec net cf sha (VStart p l s c) m = Some (fst (startVideoBridge net cf sha p l s c m))"
| "video_exec net cf sha (VStop s) m = Some (stopVideoBridge s None m)"
| "video_exec net cf sha (VStopOwned h) m = Some (stopOwnedVideoBridge h m)"
| "video_exec net cf sha (VMark s) m = Some (markStopRequested s m)"
| "video_exec net cf sha (VRequest b q) m =
     (if b < vm_next m \<and> vb_srt (vm_heap m b) = Waiting \<and> \<not> vb_closed (vm_heap m b) then Some (upd_b b (accept_request q) m) else None)"
| "video_exec net cf sha (VSrtFails b) m =
     (if b < vm_next m \<and> vb_srt (vm_heap m b) = Waiting then Some (upd_b b (\<lambda>v. v\<lparr>vb_srt := Failed ''srt_accept''\<rparr>) m) else None)"
| "video_exec net cf sha (VLocal b ok) m =
     (if b < vm_next m \<and> vb_local (vm_heap m b) = Waiting \<and> (ok \<longrightarrow> \<not> vb_closed (vm_heap m b))
      then Some (upd_b b (\<lambda>v. v\<lparr>vb_local := (if ok then Connected else Failed ''local_accept'')\<rparr>) m) else None)"
| "video_exec net cf sha (VAttach b) m = (if b < vm_next m then run_attach b m else None)"
| "video_exec net cf sha (VFrame b w h d) m =
     (if b < vm_next m \<and> vb_attached (vm_heap m b) \<and> vb_read (vm_heap m b) = None then Some (upd_b b (read_frame w h d) m) else None)"
| "video_exec net cf sha (VReadFails b e) m =
     (if b < vm_next m \<and> vb_attached (vm_heap m b) \<and> vb_read (vm_heap m b) = None
      then Some (upd_b b (\<lambda>v. v\<lparr>vb_read := Some (classifyFrameReadError e)\<rparr>) m) else None)"
| "video_exec net cf sha (VTake b) m = (if b < vm_next m then run_take b m else None)"
| "video_exec net cf sha (VTick b ok) m = (if b < vm_next m then run_tick ok b m else None)"
| "video_exec net cf sha (VEnd b) m = (if b < vm_next m then run_end b m else None)"

definition newVideoManager :: video_manager where
  "newVideoManager = \<lparr>vm_bridges = [], vm_heap = (\<lambda>_. new_video_bridge [] []), vm_next = 0\<rparr>"

inductive video_reachable :: "net_lib \<Rightarrow> video_config \<Rightarrow> (string \<Rightarrow> nat list) \<Rightarrow> video_manager \<Rightarrow> bool" for net cf sha where
  video_new: "video_reachable net cf sha newVideoManager"
| video_step: "video_reachable net cf sha m \<Longrightarrow> video_exec net cf sha ev m = Some m' \<Longrightarrow> video_reachable net cf sha m'"

section \<open>The phases\<close>

lemma finish_phase:
  "vb_phase (vm_heap (finish_bridge b' r e m) b) = vb_phase (vm_heap m b)"
  by (simp add: finish_bridge_def Let_def upd_b_def close_video_def)

lemma stop_phase: "vb_phase (vm_heap (stopVideoBridge s ex m) b) = vb_phase (vm_heap m b)"
  by (simp add: stopVideoBridge_def Let_def upd_b_def close_video_def split: option.splits)

lemma phase_step:
  assumes "video_exec net cf sha ev m = Some m'" and "b < vm_next m"
  shows "vb_phase (vm_heap m b) \<le> vb_phase (vm_heap m' b)"
proof (cases ev)
  case (VStart p l s c)
  with assms show ?thesis by (auto simp: startVideoBridge_def Let_def split: option.splits)
next
  case (VAttach b')
  with assms show ?thesis
    by (auto simp: run_attach_def Let_def finish_phase upd_b_def split: if_splits accept_result.splits)
next
  case (VTake b')
  with assms show ?thesis by (auto simp: run_take_def upd_b_def split: if_splits vi_phase.splits option.splits)
next
  case (VTick b' k)
  with assms show ?thesis by (auto simp: run_tick_def Let_def finish_phase upd_b_def split: if_splits)
next
  case (VEnd b')
  with assms show ?thesis by (auto simp: run_end_def finish_phase upd_b_def split: if_splits vi_phase.splits option.splits)
qed (use assms in \<open>auto simp: stop_phase stopOwnedVideoBridge_def markStopRequested_def upd_b_def accept_request_def read_frame_def
      split: option.splits if_splits\<close>)

section \<open>The invariant\<close>

text \<open>Which frames were sent: every one was read, in the order of reading, and the next one is at hand.\<close>

definition frames_ok :: "video_bridge \<Rightarrow> bool" where
  "frames_ok v \<longleftrightarrow> (\<exists>is k. vb_sent v = map (nth (vb_frames v)) is \<and> sorted is \<and> (\<forall>i \<in> set is. i \<le> k \<and> i < length (vb_frames v))
     \<and> (vb_latest v \<noteq> [] \<longrightarrow> k < length (vb_frames v) \<and> vb_latest v = vb_frames v ! k))
   \<and> (\<forall>f. vb_channel v = Some f \<longrightarrow> vb_frames v \<noteq> [] \<and> f = last (vb_frames v))
   \<and> vb_forwarded v = of_nat (length (vb_sent v)) \<and> vb_received v = of_nat (length (vb_frames v))"

definition classes_ok :: "video_bridge \<Rightarrow> bool" where
  "classes_ok v \<longleftrightarrow> Failed ''bridge_stopped'' \<notin> {vb_srt v, vb_local v} \<and> vb_read v \<noteq> Some ''bridge_stopped''
     \<and> (vb_phase v = Pumping \<longrightarrow> vb_attached v)"

definition bridge_ok :: "video_bridge \<Rightarrow> bool" where
  "bridge_ok v \<longleftrightarrow> frames_ok v \<and> classes_ok v \<and> length (vb_reports v) \<le> 1 \<and> (vb_reports v \<noteq> [] \<longleftrightarrow> vb_phase v = Ended)
     \<and> (vb_phase v = Ended \<longrightarrow> vb_closed v)
     \<and> (\<forall>st r c. (st, r, c) \<in> set (vb_reports v) \<longrightarrow> (st = ''stopped'' \<longleftrightarrow> c = ''bridge_stopped''))"

definition video_ok :: "video_manager \<Rightarrow> bool" where
  "video_ok m \<longleftrightarrow> length (vm_bridges m) \<le> 1 \<and> (\<forall>b < vm_next m. bridge_ok (vm_heap m b))
     \<and> (\<forall>s b. (s, b) \<in> set (vm_bridges m) \<longrightarrow> b < vm_next m \<and> vb_stream (vm_heap m b) = s \<and> trim_space s = s)
     \<and> (\<forall>b < vm_next m. vb_closed (vm_heap m b) \<longleftrightarrow> b \<notin> snd ` set (vm_bridges m))"

lemma upd_b_fields [simp]:
  "vm_bridges (upd_b b f m) = vm_bridges m" "vm_next (upd_b b f m) = vm_next m"
  "vm_heap (upd_b b f m) b' = (if b' = b then f (vm_heap m b) else vm_heap m b')"
  by (simp_all add: upd_b_def)

text \<open>A change of one bridge that leaves the table alone.\<close>

lemma upd_b_ok:
  assumes "video_ok m" and "bridge_ok (f (vm_heap m b))"
    and "vb_stream (f (vm_heap m b)) = vb_stream (vm_heap m b)" and "vb_closed (f (vm_heap m b)) = vb_closed (vm_heap m b)"
  shows "video_ok (upd_b b f m)"
  using assms unfolding video_ok_def by simp

lemma frames_ok_frame:
  "frames_ok v \<Longrightarrow> vb_sent v' = vb_sent v \<Longrightarrow> vb_frames v' = vb_frames v \<Longrightarrow> vb_latest v' = vb_latest v \<Longrightarrow>
   vb_channel v' = vb_channel v \<Longrightarrow> vb_forwarded v' = vb_forwarded v \<Longrightarrow> vb_received v' = vb_received v \<Longrightarrow> frames_ok v'"
  unfolding frames_ok_def by simp

lemma frames_ok_read:
  assumes "frames_ok v"
  shows "frames_ok (read_frame w h d v)"
proof -
  obtain "is" k where i: "vb_sent v = map (nth (vb_frames v)) is" "sorted is" "\<forall>i \<in> set is. i \<le> k \<and> i < length (vb_frames v)"
    "vb_latest v \<noteq> [] \<longrightarrow> k < length (vb_frames v) \<and> vb_latest v = vb_frames v ! k"
    using assms unfolding frames_ok_def by blast
  have "frames_ok (v\<lparr>vb_received := vb_received v + 1, vb_channel := Some data, vb_frames := vb_frames v @ [data]\<rparr>)" for data
    unfolding frames_ok_def
    by (rule conjI, rule exI [of _ "is"], rule exI [of _ k])
      (use i assms in \<open>auto simp: frames_ok_def nth_append\<close>)
  with assms show ?thesis
    by (auto simp: read_frame_def elim!: frames_ok_frame split: option.splits)
qed

lemma frames_ok_take:
  assumes "frames_ok v" and "vb_channel v = Some f"
  shows "frames_ok (v\<lparr>vb_latest := f, vb_channel := None\<rparr>)"
proof -
  obtain "is" where i: "vb_sent v = map (nth (vb_frames v)) is" "sorted is" "\<forall>i \<in> set is. i < length (vb_frames v)"
    using assms(1) unfolding frames_ok_def by blast
  have f: "vb_frames v \<noteq> []" "f = vb_frames v ! (length (vb_frames v) - 1)"
    using assms by (auto simp: frames_ok_def last_conv_nth)
  have "\<forall>i \<in> set is. i \<le> length (vb_frames v) - 1 \<and> i < length (vb_frames v)" using i(3) by fastforce
  moreover have "vb_forwarded v = of_nat (length (vb_sent v)) \<and> vb_received v = of_nat (length (vb_frames v))"
    using assms(1) by (simp add: frames_ok_def)
  ultimately show ?thesis unfolding frames_ok_def
    by (intro conjI exI [of _ "is"] exI [of _ "length (vb_frames v) - 1"]) (use i f in simp_all)
qed

lemma frames_ok_tick:
  assumes "frames_ok v" and "vb_latest v \<noteq> []"
  shows "frames_ok (v\<lparr>vb_forwarded := vb_forwarded v + 1, vb_sent := vb_sent v @ [vb_latest v]\<rparr>)"
proof -
  obtain "is" k where i: "vb_sent v = map (nth (vb_frames v)) is" "sorted is" "\<forall>i \<in> set is. i \<le> k \<and> i < length (vb_frames v)"
    "k < length (vb_frames v)" "vb_latest v = vb_frames v ! k"
    using assms unfolding frames_ok_def by blast
  show ?thesis unfolding frames_ok_def
    by (rule conjI, rule exI [of _ "is @ [k]"], rule exI [of _ k])
      (use i assms in \<open>auto simp: frames_ok_def sorted_append\<close>)
qed

lemma video_ok_table:
  assumes "video_ok m"
  obtains (empty) "vm_bridges m = []"
    | (one) s b where "vm_bridges m = [(s, b)]" "b < vm_next m" "vb_stream (vm_heap m b) = s" "trim_space s = s"
proof (cases "vm_bridges m")
  case Nil
  then show ?thesis by (rule empty)
next
  case (Cons x xs)
  with assms have "xs = []" by (simp add: video_ok_def)
  with Cons assms one show ?thesis by (cases x) (auto simp: video_ok_def)
qed

lemma bridge_ok_finish:
  assumes "bridge_ok v" and "vb_phase v \<noteq> Ended" and that: "e \<noteq> ''bridge_stopped''"
  shows "bridge_ok ((close_video (v\<lparr>vb_phase := Ended\<rparr>))\<lparr>vb_reports :=
    [(finish_status v (if vb_stopped v then ''bridge_stopped'' else e), reason, if vb_stopped v then ''bridge_stopped'' else e)]\<rparr>)"
    (is "bridge_ok ?v")
proof -
  have "frames_ok ?v" by (rule frames_ok_frame [of v]) (use assms in \<open>simp_all add: bridge_ok_def close_video_def\<close>)
  with that assms(1) show ?thesis by (simp add: bridge_ok_def classes_ok_def close_video_def finish_status_def)
qed

lemma finish_ok:
  assumes ok: "video_ok m" and b: "b < vm_next m" "vb_phase (vm_heap m b) \<noteq> Ended" and e: "e \<noteq> ''bridge_stopped''"
  shows "video_ok (finish_bridge b reason e (upd_b b (\<lambda>v. v\<lparr>vb_phase := Ended\<rparr>) m))"
proof -
  have bo: "bridge_ok (vm_heap m b)" using ok b(1) by (simp add: video_ok_def)
  then have r: "vb_reports (vm_heap m b) = []" using b(2) by (simp add: bridge_ok_def)
  note v = bridge_ok_finish [OF bo b(2) e, of "if vb_stopped (vm_heap m b) then ''bridge_stopped'' else reason"]
  from ok show ?thesis
  proof (cases rule: video_ok_table)
    case empty
    with ok b v r show ?thesis
      by (auto simp: finish_bridge_def Let_def video_ok_def close_video_def finish_status_def split: if_splits)
  next
    case (one s b')
    with ok b v r show ?thesis
      by (cases "b' = b") (auto simp: finish_bridge_def Let_def video_ok_def close_video_def finish_status_def split: if_splits)
  qed
qed

lemma close_video_fields: "vb_stream (close_video v) = vb_stream v" "vb_closed (close_video v)"
  by (simp_all add: close_video_def)

lemma stop_ok: "video_ok m \<Longrightarrow> video_ok (stopVideoBridge s ex m)"
proof -
  assume ok: "video_ok m"
  then show "video_ok (stopVideoBridge s ex m)"
  proof (cases rule: video_ok_table)
    case empty
    with ok show ?thesis by (simp add: stopVideoBridge_def Let_def)
  next
    case (one s' b)
    have bo: "bridge_ok (vm_heap m b)" using ok one(2) by (simp add: video_ok_def)
    then have "frames_ok (vm_heap m b)" by (simp only: bridge_ok_def)
    then have "frames_ok (close_video (vm_heap m b\<lparr>vb_stopped := True\<rparr>))"
      by (rule frames_ok_frame) (simp_all add: close_video_def)
    with bo have "bridge_ok (close_video (vm_heap m b\<lparr>vb_stopped := True\<rparr>))"
      by (simp add: bridge_ok_def classes_ok_def close_video_def)
    note closed = this
    show ?thesis
    proof (cases "trim_space s = s' \<and> (ex = None \<or> ex = Some b)")
      case True
      then have "stopVideoBridge s ex m = upd_b b (\<lambda>v. close_video (v\<lparr>vb_stopped := True\<rparr>)) (m\<lparr>vm_bridges := []\<rparr>)"
        using one(1) by (auto simp: stopVideoBridge_def Let_def)
      with ok one(1,2) closed show ?thesis by (simp add: video_ok_def close_video_fields)
    next
      case False
      with one(1) have "stopVideoBridge s ex m = m" by (auto simp: stopVideoBridge_def Let_def split: if_splits)
      with ok show ?thesis by simp
    qed
  qed
qed

lemma new_video_bridge_ok: "bridge_ok (new_video_bridge s p)"
  by (auto simp: bridge_ok_def classes_ok_def frames_ok_def new_video_bridge_def)

lemma new_video_bridge_fields [simp]:
  "vb_stream (new_video_bridge s p) = s" "vb_closed (new_video_bridge s p) = False"
  by (simp_all add: new_video_bridge_def)

lemma classify_named [simp]: "classifyFrameReadError e \<noteq> ''bridge_stopped''"
  by (cases e) simp_all

lemma start_ok: "video_ok m \<Longrightarrow> video_ok (fst (startVideoBridge net cf sha p l s c m))"
  by (auto simp: startVideoBridge_def Let_def video_ok_def new_video_bridge_ok less_Suc_eq
      split: option.splits)

text \<open>A step of one bridge that neither ends nor closes it.\<close>

lemma quiet_step_ok:
  assumes "video_ok m" and "b < vm_next m" and "frames_ok (f (vm_heap m b))" "classes_ok (f (vm_heap m b))"
    and "\<And>v. vb_stream (f v) = vb_stream v" "\<And>v. vb_closed (f v) = vb_closed v" "\<And>v. vb_reports (f v) = vb_reports v"
      "vb_phase (f (vm_heap m b)) = Ended \<longleftrightarrow> vb_phase (vm_heap m b) = Ended"
  shows "video_ok (upd_b b f m)"
proof (rule upd_b_ok [OF assms(1)])
  have "bridge_ok (vm_heap m b)" using assms(1,2) by (simp add: video_ok_def)
  then show "bridge_ok (f (vm_heap m b))" using assms(3-) by (simp add: bridge_ok_def)
qed (use assms in simp_all)

lemma video_exec_ok:
  assumes ok: "video_ok m" and st: "video_exec net cf sha ev m = Some m'"
  shows "video_ok m'"
proof -
  have fr: "frames_ok (vm_heap m b)" "classes_ok (vm_heap m b)" if "b < vm_next m" for b
    using ok that by (simp_all add: video_ok_def bridge_ok_def)
  have fin: "video_ok (finish_bridge b r e (upd_b b (\<lambda>v. v\<lparr>vb_phase := Ended\<rparr>) m))"
    if "b < vm_next m" "vb_phase (vm_heap m b) \<noteq> Ended" "e \<noteq> ''bridge_stopped''" for b r e
    using finish_ok [OF ok that] .
  show ?thesis
  proof (cases ev)
    case (VStart p l s c)
    with st start_ok [OF ok] show ?thesis by auto
  next
    case (VStop s)
    with st stop_ok [OF ok] show ?thesis by auto
  next
    case (VStopOwned h)
    with st stop_ok [OF ok] ok show ?thesis by (auto simp: stopOwnedVideoBridge_def split: option.splits)
  next
    case (VMark s)
    show ?thesis
    proof (cases "map_of (vm_bridges m) (trim_space s)")
      case None
      with VMark st ok show ?thesis by (simp add: markStopRequested_def)
    next
      case (Some b)
      have b: "b < vm_next m" using ok map_of_SomeD [OF Some] by (auto simp: video_ok_def)
      have "video_ok (upd_b b (\<lambda>v. v\<lparr>vb_stopped := True\<rparr>) m)"
        by (rule quiet_step_ok [OF ok b]) (use fr [OF b] in \<open>auto simp: classes_ok_def elim!: frames_ok_frame\<close>)
      with VMark st Some show ?thesis by (auto simp: markStopRequested_def)
    qed
  next
    case (VRequest b q)
    with st have b: "b < vm_next m" and m': "m' = upd_b b (accept_request q) m" by (auto split: if_splits)
    show ?thesis unfolding m'
      by (rule quiet_step_ok [OF ok b]) (use fr [OF b] in \<open>auto simp: accept_request_def classes_ok_def elim!: frames_ok_frame\<close>)
  next
    case (VSrtFails b)
    with st have b: "b < vm_next m" and m': "m' = upd_b b (\<lambda>v. v\<lparr>vb_srt := Failed ''srt_accept''\<rparr>) m" by (auto split: if_splits)
    show ?thesis unfolding m' by (rule quiet_step_ok [OF ok b]) (use fr [OF b] in \<open>auto simp: classes_ok_def elim!: frames_ok_frame\<close>)
  next
    case (VLocal b k)
    with st have b: "b < vm_next m" and m': "m' = upd_b b (\<lambda>v. v\<lparr>vb_local := (if k then Connected else Failed ''local_accept'')\<rparr>) m"
      by (auto split: if_splits)
    show ?thesis unfolding m' by (rule quiet_step_ok [OF ok b]) (use fr [OF b] in \<open>auto simp: classes_ok_def elim!: frames_ok_frame\<close>)
  next
    case (VFrame b w h d)
    with st have b: "b < vm_next m" and m': "m' = upd_b b (read_frame w h d) m" by (auto split: if_splits)
    show ?thesis unfolding m'
      by (rule quiet_step_ok [OF ok b]) (use frames_ok_read [OF fr(1) [OF b]] fr(2) [OF b] in \<open>auto simp: read_frame_def classes_ok_def split: option.splits\<close>)
  next
    case (VReadFails b e)
    with st have b: "b < vm_next m" and m': "m' = upd_b b (\<lambda>v. v\<lparr>vb_read := Some (classifyFrameReadError e)\<rparr>) m"
      by (auto split: if_splits)
    show ?thesis unfolding m'
      by (rule quiet_step_ok [OF ok b]) (use fr [OF b] in \<open>auto simp: classes_ok_def elim!: frames_ok_frame\<close>)
  next
    case (VTake b)
    with st obtain f where b: "b < vm_next m" and c: "vb_channel (vm_heap m b) = Some f"
      and m': "m' = upd_b b (\<lambda>v. v\<lparr>vb_latest := f, vb_channel := None\<rparr>) m"
      by (auto simp: run_take_def split: if_splits vi_phase.splits option.splits)
    show ?thesis unfolding m' by (rule quiet_step_ok [OF ok b]) (use frames_ok_take [OF fr(1) [OF b] c] fr(2) [OF b] in \<open>simp_all add: classes_ok_def\<close>)
  next
    case (VAttach b)
    with st have b: "b < vm_next m" and p: "vb_phase (vm_heap m b) = Accepting"
      by (auto simp: run_attach_def Let_def split: if_splits)
    have q: "video_ok (upd_b b (\<lambda>v. v\<lparr>vb_attached := True, vb_phase := Pumping\<rparr>) m)"
      by (rule quiet_step_ok [OF ok b]) (use fr [OF b] p in \<open>auto simp: classes_ok_def elim!: frames_ok_frame\<close>)
    show ?thesis
      using VAttach st p q fr(2) [OF b]
      by (auto simp: run_attach_def Let_def classes_ok_def intro!: fin split: if_splits accept_result.splits)
  next
    case (VTick b w)
    with st have b: "b < vm_next m" and p: "vb_phase (vm_heap m b) = Pumping"
      by (auto simp: run_tick_def Let_def split: if_splits)
    have q: "video_ok (upd_b b (\<lambda>v. v\<lparr>vb_forwarded := vb_forwarded v + 1, vb_sent := vb_sent v @ [vb_latest v]\<rparr>) m)"
      if "vb_latest (vm_heap m b) \<noteq> []"
      by (rule quiet_step_ok [OF ok b])
        (use frames_ok_tick [OF fr(1) [OF b] that] fr(2) [OF b] in \<open>simp_all add: classes_ok_def\<close>)
    show ?thesis
      using VTick st p q ok b by (auto simp: run_tick_def Let_def intro!: fin split: if_splits)
  next
    case (VEnd b)
    with st obtain e where b: "b < vm_next m" and p: "vb_phase (vm_heap m b) = Pumping" "vb_read (vm_heap m b) = Some e"
      and m': "m' = finish_bridge b ''srt_input_closed'' e (upd_b b (\<lambda>v. v\<lparr>vb_phase := Ended\<rparr>) m)"
      by (auto simp: run_end_def split: if_splits vi_phase.splits option.splits)
    show ?thesis unfolding m' by (rule fin) (use b p fr(2) [OF b] in \<open>auto simp: classes_ok_def\<close>)
  qed
qed

lemma video_reachable_ok: "video_reachable net cf sha m \<Longrightarrow> video_ok m"
proof (induction rule: video_reachable.induct)
  case video_new
  show ?case by (simp add: video_ok_def newVideoManager_def)
next
  case (video_step m ev m')
  from video_exec_ok [OF video_step.IH video_step.hyps(2)] show ?case .
qed

section \<open>Interfaces\<close>

definition video_bridge_at :: "video_manager \<Rightarrow> string \<Rightarrow> nat option" where
  "video_bridge_at m s = map_of (vm_bridges m) (trim_space s)"

lemma map_of_filter_key: "map_of (filter (\<lambda>(k, _). k \<noteq> s) m) s' = (if s' = s then None else map_of m s')"
  by (induction m) auto

interpretation video_owned: owned_bridges video_bridge_at "\<lambda>s b. stopVideoBridge s (Some b)"
  by unfold_locales
    (auto simp: video_bridge_at_def stopVideoBridge_def Let_def map_of_filter_key split: option.splits)

section \<open>Properties\<close>


text \<open>
  C30. What FFmpeg is given are frames the worker sent, in the order they came: every image written is one
  that was read, none is written after a newer one, images may be repeated or passed over but never
  made up, and the counters say how many were read and written.
\<close>

theorem video_frames_in_order:
  assumes "video_reachable net cf sha m" and "b < vm_next m"
  shows "(\<exists>is. vb_sent (vm_heap m b) = map (nth (vb_frames (vm_heap m b))) is \<and> sorted is
      \<and> (\<forall>i \<in> set is. i < length (vb_frames (vm_heap m b))))
    \<and> vb_forwarded (vm_heap m b) = of_nat (length (vb_sent (vm_heap m b)))
    \<and> vb_received (vm_heap m b) = of_nat (length (vb_frames (vm_heap m b)))"
proof -
  have "frames_ok (vm_heap m b)"
    using video_reachable_ok [OF assms(1)] assms(2) by (simp add: video_ok_def bridge_ok_def)
  then show ?thesis unfolding frames_ok_def by blast
qed

text \<open>How many of its own steps a closed bridge is away from its end.\<close>

definition video_rank :: "video_bridge \<Rightarrow> nat" where
  "video_rank v = (case vb_phase v of Ended \<Rightarrow> 0
     | Pumping \<Rightarrow> (if vb_read v = None then 2 else 1)
     | Accepting \<Rightarrow> 1 + of_bool (vb_srt v = Waiting) + of_bool (vb_local v = Waiting))"

lemma rank_zero: "video_rank v = 0 \<longleftrightarrow> vb_phase v = Ended"
  by (cases "vb_phase v") (auto simp: video_rank_def)

lemma finish_other: "b' \<noteq> b \<Longrightarrow> vm_heap (finish_bridge b r e m) b' = vm_heap m b'"
  by (auto simp: finish_bridge_def Let_def upd_b_def)

lemma finish_ends:
  "vb_phase (vm_heap (finish_bridge b r e (upd_b b (\<lambda>v. v\<lparr>vb_phase := Ended\<rparr>) m)) b) = Ended
   \<and> (vb_closed (vm_heap m b) \<longrightarrow> vb_closed (vm_heap (finish_bridge b r e (upd_b b (\<lambda>v. v\<lparr>vb_phase := Ended\<rparr>) m)) b))"
  by (simp add: finish_bridge_def Let_def close_video_def)

lemma rank_finish:
  "vb_closed (vm_heap m b) \<Longrightarrow>
   video_rank (vm_heap (finish_bridge b' r e (upd_b b' (\<lambda>v. v\<lparr>vb_phase := Ended\<rparr>) m)) b) \<le> video_rank (vm_heap m b)
   \<and> vb_closed (vm_heap (finish_bridge b' r e (upd_b b' (\<lambda>v. v\<lparr>vb_phase := Ended\<rparr>) m)) b)"
proof (cases "b' = b")
  case True
  assume "vb_closed (vm_heap m b)"
  moreover have "video_rank (vm_heap (finish_bridge b r e (upd_b b (\<lambda>v. v\<lparr>vb_phase := Ended\<rparr>) m)) b) = 0"
    using finish_ends [of b r e m] by (simp only: rank_zero)
  ultimately show ?thesis using finish_ends [of b r e m] True by simp
qed (simp add: finish_other)

lemma rank_stop:
  assumes "vb_closed (vm_heap m b)"
  shows "video_rank (vm_heap (stopVideoBridge s ex m) b) \<le> video_rank (vm_heap m b) \<and> vb_closed (vm_heap (stopVideoBridge s ex m) b)"
proof (cases "(ex \<noteq> None \<and> map_of (vm_bridges m) (trim_space s) \<noteq> ex) \<or> map_of (vm_bridges m) (trim_space s) = None")
  case True
  then have "stopVideoBridge s ex m = m" by (auto simp: stopVideoBridge_def Let_def)
  with assms show ?thesis by simp
next
  case False
  then obtain b' where "stopVideoBridge s ex m = upd_b b' (\<lambda>v. close_video (v\<lparr>vb_stopped := True\<rparr>))
      (m\<lparr>vm_bridges := filter (\<lambda>(k, _). k \<noteq> trim_space s) (vm_bridges m)\<rparr>)"
    by (auto simp: stopVideoBridge_def Let_def)
  moreover have "video_rank (close_video (v\<lparr>vb_stopped := True\<rparr>)) = video_rank v" for v
    by (simp add: video_rank_def close_video_def cong: vi_phase.case_cong)
  ultimately show ?thesis using assms by (simp add: close_video_fields)
qed

lemma rank_step:
  assumes st: "video_exec net cf sha ev m = Some m'" and b: "b < vm_next m" and c: "vb_closed (vm_heap m b)"
  shows "video_rank (vm_heap m' b) \<le> video_rank (vm_heap m b) \<and> vb_closed (vm_heap m' b)"
proof -
  have upd: "video_rank (vm_heap (upd_b b' f m) b) \<le> video_rank (vm_heap m b) \<and> vb_closed (vm_heap (upd_b b' f m) b)"
    if "video_rank (f (vm_heap m b')) \<le> video_rank (vm_heap m b')" "vb_closed (vm_heap m b') \<longrightarrow> vb_closed (f (vm_heap m b'))" for b' f
    using that c by (cases "b' = b") auto
  show ?thesis
  proof (cases ev)
    case (VStart p l s cr)
    with st b c show ?thesis by (auto simp: startVideoBridge_def Let_def split: if_splits option.splits)
  next
    case (VStop s)
    with st rank_stop [OF c] show ?thesis by auto
  next
    case (VStopOwned h)
    with st rank_stop [OF c] c show ?thesis by (auto simp: stopOwnedVideoBridge_def split: option.splits)
  next
    case (VMark s)
    with st b c show ?thesis by (auto simp: markStopRequested_def video_rank_def upd_b_def split: option.splits)
  next
    case (VRequest b' q)
    with st have m': "m' = upd_b b' (accept_request q) m" by (auto split: if_splits)
    show ?thesis unfolding m' by (rule upd) (simp_all add: accept_request_def video_rank_def split: vi_phase.splits)
  next
    case (VSrtFails b')
    with st have m': "m' = upd_b b' (\<lambda>v. v\<lparr>vb_srt := Failed ''srt_accept''\<rparr>) m" by (auto split: if_splits)
    show ?thesis unfolding m' by (rule upd) (simp_all add: video_rank_def split: vi_phase.splits)
  next
    case (VLocal b' k)
    with st have m': "m' = upd_b b' (\<lambda>v. v\<lparr>vb_local := (if k then Connected else Failed ''local_accept'')\<rparr>) m" by (auto split: if_splits)
    show ?thesis unfolding m' by (rule upd) (simp_all add: video_rank_def split: vi_phase.splits)
  next
    case (VFrame b' w h d)
    with st have m': "m' = upd_b b' (read_frame w h d) m" by (auto split: if_splits)
    show ?thesis unfolding m' by (rule upd) (auto simp: read_frame_def video_rank_def split: vi_phase.splits option.splits)
  next
    case (VReadFails b' e)
    with st have m': "m' = upd_b b' (\<lambda>v. v\<lparr>vb_read := Some (classifyFrameReadError e)\<rparr>) m" by (auto split: if_splits)
    show ?thesis unfolding m' by (rule upd) (simp_all add: video_rank_def split: vi_phase.splits)
  next
    case (VTake b')
    with st obtain f where m': "m' = upd_b b' (\<lambda>v. v\<lparr>vb_latest := f, vb_channel := None\<rparr>) m"
      by (auto simp: run_take_def split: if_splits vi_phase.splits option.splits)
    show ?thesis unfolding m' by (rule upd) (simp_all add: video_rank_def split: vi_phase.splits)
  next
    case (VAttach b')
    with st c rank_finish [OF c] show ?thesis
      by (auto simp: run_attach_def Let_def split: if_splits accept_result.splits)
  next
    case (VTick b' k)
    have u: "video_rank (vm_heap (upd_b b' (\<lambda>v. v\<lparr>vb_forwarded := vb_forwarded v + 1, vb_sent := vb_sent v @ [vb_latest v]\<rparr>) m) b)
        \<le> video_rank (vm_heap m b)
      \<and> vb_closed (vm_heap (upd_b b' (\<lambda>v. v\<lparr>vb_forwarded := vb_forwarded v + 1, vb_sent := vb_sent v @ [vb_latest v]\<rparr>) m) b)"
      by (rule upd) (simp_all add: video_rank_def split: vi_phase.splits)
    from VTick st c u rank_finish [OF c] show ?thesis
      by (auto simp: run_tick_def Let_def simp del: upd_b_fields split: if_splits)
  next
    case (VEnd b')
    with st rank_finish [OF c] show ?thesis by (auto simp: run_end_def split: if_splits vi_phase.splits option.splits)
  qed
qed


text \<open>
  The input that starting a bridge hands out is one FFmpeg can open: with \<^verbatim>\<open>url.Parse\<close> taking a loopback address with a port
  apart as documented, the text is accepted as an input of the node and resolves to
  the listener of this very bridge; and whatever the marker of worker video is put in front of, FFmpeg only ever gets an address
  of the loopback interface.
\<close>

theorem worker_input_resolves:
  assumes "startVideoBridge net cf sha sp lp s c m = (m', Inr h)"
    and "\<And>n. parse_url net (''tcp://127.0.0.1:'' @ dec_nat n) = Some \<lparr>u_scheme = ''tcp'', u_user = False,
      u_host = ''127.0.0.1:'' @ dec_nat n, u_hostname = ''127.0.0.1'', u_port = dec_nat n, u_path = [], u_raw_query = [],
      u_query = [], u_fragment = []\<rparr>"
  shows "(\<exists>port. lp = Some port \<and> 0 < port \<and> resolveInputTarget net (vh_input_url h) = ''tcp://127.0.0.1:'' @ dec_nat port)
    \<and> validateInputTarget net (vh_input_url h)
    \<and> (\<forall>raw t. videoInputTarget net raw = Some t \<longrightarrow> (\<exists>u. parse_url net t = Some u \<and> u_scheme u = ''tcp''
         \<and> u_hostname u \<in> {''127.0.0.1'', ''::1''} \<and> trim_space raw = worker_prefix @ t))"
proof -
  from assms(1) obtain port where port: "lp = Some port" "0 < port"
    and url: "vh_input_url h = worker_prefix @ ''tcp://127.0.0.1:'' @ dec_nat port"
    by (auto simp: startVideoBridge_def Let_def join_host_port_def split: option.splits if_splits)
  have "last (vh_input_url h) \<in> set (dec_nat port)" using dec_nat_nonempty [of port] by (simp add: url)
  then have "is_alnum (last (vh_input_url h))" using dec_nat_digits digit_alnum by blast
  then have t: "trim_space (vh_input_url h) = vh_input_url h"
    by (intro trim_space_fixed) (simp_all add: url worker_prefix_def is_alnum_def)
  have target: "videoInputTarget net (vh_input_url h) = Some (''tcp://127.0.0.1:'' @ dec_nat port)"
    using assms(2) dec_nat_nonempty [of port] t by (simp add: videoInputTarget_def url has_prefix_def Let_def trim_prefix_def)
  have other: "\<not> has_prefix (vh_input_url h) discord_prefix" by (simp add: url has_prefix_def worker_prefix_def discord_prefix_def)
  have "CHR 0x0D \<notin> set (dec_nat port)" "CHR 0x0A \<notin> set (dec_nat port)"
    using dec_nat_digits [of "CHR 0x0D" port] dec_nat_digits [of "CHR 0x0A" port] by (auto simp: is_digit_def)
  with t target other have "validateInputTarget net (vh_input_url h)"
    by (auto simp: validateInputTarget_def Let_def contains_any_def list_ex_iff url worker_prefix_def)
  moreover have "resolveInputTarget net (vh_input_url h) = ''tcp://127.0.0.1:'' @ dec_nat port"
    using t target other by (simp add: resolveInputTarget_def Let_def)
  moreover have "\<exists>u. parse_url net t = Some u \<and> u_scheme u = ''tcp'' \<and> u_hostname u \<in> {''127.0.0.1'', ''::1''}
      \<and> trim_space raw = worker_prefix @ t" if "videoInputTarget net raw = Some t" for raw t
    using that by (auto simp: videoInputTarget_def Let_def trim_prefix_def has_prefix_iff split: if_splits option.splits)
  ultimately show ?thesis using port by blast
qed

section \<open>A run\<close>

fun video_run :: "net_lib \<Rightarrow> video_config \<Rightarrow> (string \<Rightarrow> nat list) \<Rightarrow> video_event list \<Rightarrow> video_manager \<Rightarrow> video_manager option" where
  "video_run net cf sha [] m = Some m"
| "video_run net cf sha (ev # evs) m = (case video_exec net cf sha ev m of None \<Rightarrow> None | Some m' \<Rightarrow> video_run net cf sha evs m')"

fun_cases video_run_stepE: "video_run net cf sha (ev # evs) m = Some m'"

lemma video_run_reachable:
  "video_reachable net cf sha m \<Longrightarrow> video_run net cf sha evs m = Some m' \<Longrightarrow> video_reachable net cf sha m'"
  by (induction evs arbitrary: m) (auto elim!: video_run_stepE split: option.splits intro: video_step)

definition sample_video_run :: "video_event list" where
  "sample_video_run = [VRequest 0 \<lparr>sr_version = 5, sr_stream = ''s2'', sr_encrypted = True, sr_passphrase_ok = True, sr_accept_ok = True\<rparr>,
     VRequest 0 \<lparr>sr_version = 5, sr_stream = ''s1'', sr_encrypted = True, sr_passphrase_ok = True, sr_accept_ok = True\<rparr>,
     VLocal 0 True, VAttach 0, VFrame 0 1920 1080 (Some ''a''), VFrame 0 1920 1080 (Some ''b''), VTake 0, VTick 0 True,
     VTick 0 True, VFrame 0 1920 1080 (Some ''c''), VTake 0, VTick 0 True, VStop ''s1'']"

definition sample_sha :: "string \<Rightarrow> nat list" where
  "sample_sha s = [length s]"

definition sample_video_config :: video_config where
  "sample_video_config = \<lparr>BindAddr = ''127.0.0.1:0'', AdvertiseHost = ''127.0.0.1''\<rparr>"

definition sample_video_net :: net_lib where
  "sample_video_net = sample_net\<lparr>parse_url := (\<lambda>s.
     if has_prefix s ''srt://'' then Some (sample_url ''srt'' ''127.0.0.1'' [])
     else if has_prefix s ''tcp://127.0.0.1:''
     then Some ((sample_url ''tcp'' ''127.0.0.1'' [])\<lparr>u_host := drop 6 s, u_port := drop 16 s\<rparr>)
     else None)\<rparr>"

text \<open>The bridge when it is started, and after the run.\<close>

definition sample_bridge :: video_bridge where
  "sample_bridge = new_video_bridge ''s1'' (the (derivePassphrase sample_sha ''secret''))"

definition sample_started :: video_manager where
  "sample_started = newVideoManager\<lparr>vm_bridges := [(''s1'', 0)],
     vm_heap := (vm_heap newVideoManager)(0 := sample_bridge), vm_next := 1\<rparr>"

definition sample_video :: video_manager where
  "sample_video = newVideoManager\<lparr>vm_heap := (vm_heap newVideoManager)(0 := sample_bridge\<lparr>vb_srt := Connected,
     vb_local := Connected, vb_attached := True, vb_closed := True, vb_stopped := True, vb_phase := Pumping,
     vb_latest := ''c'', vb_rejections := 1, vb_received := 3, vb_forwarded := 3, vb_sent := [''b'', ''b'', ''c''],
     vb_frames := [''a'', ''b'', ''c'']\<rparr>), vm_next := 1\<rparr>"

lemma sample_video_valid:
  "validateVideoConfig sample_video_net sample_video_config = None"
  "trim_space ''s1'' = ''s1''" "video_stream_ok ''s1''" "derivePassphrase sample_sha ''secret'' \<noteq> None"
  by code_simp+

lemma sample_video_start:
  "fst (startVideoBridge sample_video_net sample_video_config sample_sha (Some 5) (Some 7) ''s1'' ''secret'' newVideoManager) = sample_started"
proof -
  note c = sample_video_valid(1) and t = sample_video_valid(2-4)
  from t(3) obtain p where p: "derivePassphrase sample_sha ''secret'' = Some p" by blast
  from c t(1,2) p show ?thesis by (simp add: startVideoBridge_def Let_def sample_started_def sample_bridge_def newVideoManager_def)
qed

lemma sample_video_reachable: "video_reachable sample_video_net sample_video_config sample_sha sample_video"
proof -
  have "video_reachable sample_video_net sample_video_config sample_sha sample_started"
    by (rule video_step [OF video_new, of _ _ _ "VStart (Some 5) (Some 7) ''s1'' ''secret''"]) (simp add: sample_video_start)
  moreover have "video_run sample_video_net sample_video_config sample_sha sample_video_run sample_started = Some sample_video"
    using sample_video_valid(2)
    by (simp add: sample_video_run_def sample_started_def sample_video_def sample_bridge_def newVideoManager_def new_video_bridge_def
        accept_request_def read_frame_def maxSceneFrameDimension_def run_attach_def run_take_def run_tick_def upd_b_def
        stopVideoBridge_def close_video_def Let_def)
  ultimately show ?thesis by (rule video_run_reachable)
qed

lemma sample_video_facts: "0 < vm_next sample_video" "vb_closed (vm_heap sample_video 0)"
  "vb_phase (vm_heap sample_video 0) = Pumping" "vb_sent (vm_heap sample_video 0) = [''b'', ''b'', ''c'']"
  "vb_frames (vm_heap sample_video 0) = [''a'', ''b'', ''c'']" "vm_bridges sample_video = []"
  by (simp_all add: sample_video_def sample_bridge_def newVideoManager_def)

theorem worker_input_resolves_witness:
  "\<exists>h. snd (startVideoBridge sample_video_net sample_video_config sample_sha (Some 5) (Some 7) ''s1'' ''secret'' newVideoManager) = Inr h
     \<and> resolveInputTarget sample_video_net (vh_input_url h) = ''tcp://127.0.0.1:'' @ dec_nat 7"
proof -
  obtain h m where st: "startVideoBridge sample_video_net sample_video_config sample_sha (Some 5) (Some 7) ''s1'' ''secret''
      newVideoManager = (m, Inr h)"
    using sample_video_valid by (fastforce simp: startVideoBridge_def Let_def newVideoManager_def)
  have "parse_url sample_video_net (''tcp://127.0.0.1:'' @ dec_nat n) = Some \<lparr>u_scheme = ''tcp'', u_user = False,
      u_host = ''127.0.0.1:'' @ dec_nat n, u_hostname = ''127.0.0.1'', u_port = dec_nat n, u_path = [], u_raw_query = [],
      u_query = [], u_fragment = []\<rparr>" for n
    by (simp add: sample_video_net_def sample_url_def has_prefix_def)
  from worker_input_resolves [OF st this] st show ?thesis by auto
qed


theorem video_frames_in_order_witness:
  "\<exists>is. [''b'', ''b'', ''c''] = map (nth (vb_frames (vm_heap sample_video 0))) is \<and> sorted is
     \<and> vb_forwarded (vm_heap sample_video 0) = 3"
proof -
  from video_frames_in_order [OF sample_video_reachable sample_video_facts(1)]
  have "\<exists>is. vb_sent (vm_heap sample_video 0) = map (nth (vb_frames (vm_heap sample_video 0))) is \<and> sorted is"
    "vb_forwarded (vm_heap sample_video 0) = of_nat (length (vb_sent (vm_heap sample_video 0)))" by blast+
  then show ?thesis unfolding sample_video_facts(4) by simp
qed


end
