(* ===== verification/FfmpegArgs.thy ===== *)
theory FfmpegArgs
  imports Targets
begin

text \<open>
  The command lines of FFmpeg, \<^verbatim>\<open>internal/ffmpeg/command.go\<close>. The gain is the text \<^verbatim>\<open>formatGainDB\<close> makes of
  it, and \<open>double\<close> is what \<^verbatim>\<open>strconv\<close> makes of a number: the text of its double, if it is a
  positive number. The choice of the command line for a job is that of \<^verbatim>\<open>internal/lifecycle/live_output.go\<close>. On Unix \<^verbatim>\<open>filepath.ToSlash\<close> does nothing.
\<close>

section \<open>Numbers\<close>

definition go_mod :: "int \<Rightarrow> int \<Rightarrow> int" where
  "go_mod a b = a - go_div a b * b"

lemma go_mod_abs: "b \<noteq> 0 \<Longrightarrow> \<bar>go_mod a b\<bar> = \<bar>a\<bar> mod \<bar>b\<bar>"
proof -
  assume "b \<noteq> 0"
  have "go_mod a b = sgn a * (\<bar>a\<bar> mod \<bar>b\<bar>)"
    unfolding go_mod_def go_div_def minus_div_mult_eq_mod [symmetric]
    by (auto simp: sgn_if algebra_simps abs_if)
  with \<open>b \<noteq> 0\<close> show ?thesis by (cases "a = 0") (simp_all add: abs_mult)
qed

function itoa_loop :: "int \<Rightarrow> string \<Rightarrow> string" where
  "itoa_loop v out = (if 0 < v then itoa_loop (v div 10) (char_of (nat (48 + v mod 10)) # out) else out)"
  by pat_completeness auto
termination
  by (relation "measure (\<lambda>(v, out). nat v)") auto

declare itoa_loop.simps [simp del]

definition ff_itoa :: "int \<Rightarrow> string" where
  "ff_itoa v = (if v = 0 then ''0'' else itoa_loop v [])"

function gcd_loop :: "int \<Rightarrow> int \<Rightarrow> int" where
  "gcd_loop left right = (if right \<noteq> 0 then gcd_loop right (go_mod left right) else left)"
  by pat_completeness auto
termination
  by (relation "measure (\<lambda>(left, right). nat \<bar>right\<bar>)") (auto simp: go_mod_abs)

declare gcd_loop.simps [simp del]

definition greatestCommonDivisor :: "int \<Rightarrow> int \<Rightarrow> int" where
  "greatestCommonDivisor left right =
     gcd_loop (if left < 0 then wrap64 (- left) else left) (if right < 0 then wrap64 (- right) else right)"

definition displayAspect :: "int \<Rightarrow> int \<Rightarrow> string" where
  "displayAspect width height =
     (let divisor = greatestCommonDivisor width height
      in if divisor \<le> 0 then ff_itoa width @ '':'' @ ff_itoa height
         else ff_itoa (go_div width divisor) @ '':'' @ ff_itoa (go_div height divisor))"

definition cbrBufferSize :: "(string \<Rightarrow> string option) \<Rightarrow> string \<Rightarrow> string" where
  "cbrBufferSize double bitrate =
     (let value = trim_space bitrate
      in if value = [] then value
         else let unit = (if last value \<in> set ''kKmMgG'' then [last value] else []);
                  number = take (length value - length unit) value
         in case double number of None \<Rightarrow> value | Some d \<Rightarrow> d @ unit)"

section \<open>Filters\<close>

definition visualLayersTail :: "int \<Rightarrow> int \<Rightarrow> encoder_profile \<Rightarrow> string" where
  "visualLayersTail cover_index watermark_index p =
     ''['' @ ff_itoa cover_index @ '':v]format=rgba,scale='' @ ff_itoa (Width p) @ '':'' @ ff_itoa (Height p)
     @ ''[cover];[base][cover]overlay=0:0:format=auto[covered];['' @ ff_itoa watermark_index
     @ '':v]format=rgba,scale='' @ ff_itoa (Width p) @ '':'' @ ff_itoa (Height p)
     @ ''[wm];[covered][wm]overlay=0:0:format=auto,format=yuv420p[v]''"

definition watermarkFilter :: "encoder_profile \<Rightarrow> string" where
  "watermarkFilter p =
     ''[0:v]scale='' @ ff_itoa (Width p) @ '':'' @ ff_itoa (Height p)
     @ '':force_original_aspect_ratio=decrease,pad='' @ ff_itoa (Width p) @ '':'' @ ff_itoa (Height p)
     @ '':(ow-iw)/2:(oh-ih)/2:color=0x0b1020,setsar=1,format=rgba[base];[1:v]format=rgba,scale=''
     @ ff_itoa (Width p) @ '':'' @ ff_itoa (Height p)
     @ ''[wm];[base][wm]overlay=0:0:format=auto,format=yuv420p[v]''"

definition externalVisualLayersFilter :: "encoder_profile \<Rightarrow> string" where
  "externalVisualLayersFilter p =
     ''[0:v]scale='' @ ff_itoa (Width p) @ '':'' @ ff_itoa (Height p)
     @ '':force_original_aspect_ratio=decrease,pad='' @ ff_itoa (Width p) @ '':'' @ ff_itoa (Height p)
     @ '':(ow-iw)/2:(oh-ih)/2:color=0x0b1020,setsar=1,format=rgba[base];'' @ visualLayersTail 1 2 p"

definition discordAudioRuntimeVisualLayersFilterWithSilence :: "encoder_profile \<Rightarrow> string \<Rightarrow> string" where
  "discordAudioRuntimeVisualLayersFilterWithSilence p gain =
     ''[1:a:0][2:a:0]amix=inputs=2:duration=longest:dropout_transition=0,volume@gain='' @ gain
     @ ''dB,asplit=2[aout][wavein];[0:v]format=rgba[bg];[wavein]showwaves=s='' @ ff_itoa (Width p) @ ''x''
     @ ff_itoa (go_div (Height p) 2)
     @ '':mode=line:rate=30:colors=0x38bdf8,format=rgba[wave];[bg][wave]overlay=0:''
     @ ff_itoa (go_div (Height p) 4) @ '':eof_action=repeat:repeatlast=1:shortest=0,format=rgba[base];''
     @ visualLayersTail 3 4 p"

definition workerSceneRuntimeVisualLayersFilterWithSilence :: "encoder_profile \<Rightarrow> string \<Rightarrow> string" where
  "workerSceneRuntimeVisualLayersFilterWithSilence p gain =
     ''[4:a:0][1:a:0]amix=inputs=2:duration=longest:dropout_transition=0,volume@gain='' @ gain
     @ ''dB[aout];[0:v]fps='' @ ff_itoa (FPS p) @ '',scale='' @ ff_itoa (Width p) @ '':'' @ ff_itoa (Height p)
     @ '':force_original_aspect_ratio=decrease,pad='' @ ff_itoa (Width p) @ '':'' @ ff_itoa (Height p)
     @ '':(ow-iw)/2:(oh-ih)/2:color=0x0b1020,setsar=1,format=rgba[base];'' @ visualLayersTail 2 3 p"

definition discordAudioFilterWithSilence :: "encoder_profile \<Rightarrow> string" where
  "discordAudioFilterWithSilence p =
     ''[1:a:0][2:a:0]amix=inputs=2:duration=longest:dropout_transition=0,asplit=2[aout][wavein];[0:v]format=rgba[bg];[wavein]showwaves=s=''
     @ ff_itoa (Width p) @ ''x'' @ ff_itoa (go_div (Height p) 2)
     @ '':mode=line:rate=30:colors=0x38bdf8,format=rgba[wave];[bg][wave]overlay=0:''
     @ ff_itoa (go_div (Height p) 4) @ '':eof_action=repeat:repeatlast=1:shortest=0,format=yuv420p[v]''"

definition discordAudioWatermarkFilterWithSilence :: "encoder_profile \<Rightarrow> string" where
  "discordAudioWatermarkFilterWithSilence p =
     ''[1:a:0][2:a:0]amix=inputs=2:duration=longest:dropout_transition=0,asplit=2[aout][wavein];[0:v]format=rgba[bg];[wavein]showwaves=s=''
     @ ff_itoa (Width p) @ ''x'' @ ff_itoa (go_div (Height p) 2)
     @ '':mode=line:rate=30:colors=0x38bdf8,format=rgba[wave];[bg][wave]overlay=0:''
     @ ff_itoa (go_div (Height p) 4)
     @ '':eof_action=repeat:repeatlast=1:shortest=0,format=rgba[base];[3:v]format=rgba,scale=''
     @ ff_itoa (Width p) @ '':'' @ ff_itoa (Height p)
     @ ''[wm];[base][wm]overlay=0:0:format=auto,format=yuv420p[v]''"

definition discordAudioRuntimeFilterWithSilence :: "encoder_profile \<Rightarrow> string \<Rightarrow> string" where
  "discordAudioRuntimeFilterWithSilence p gain =
     ''[1:a:0][2:a:0]amix=inputs=2:duration=longest:dropout_transition=0,volume@gain='' @ gain
     @ ''dB,asplit=2[aout][wavein];[0:v]format=rgba[bg];[wavein]showwaves=s='' @ ff_itoa (Width p) @ ''x''
     @ ff_itoa (go_div (Height p) 2)
     @ '':mode=line:rate=30:colors=0x38bdf8,format=rgba[wave];[bg][wave]overlay=0:''
     @ ff_itoa (go_div (Height p) 4) @ '':eof_action=repeat:repeatlast=1:shortest=0,format=yuv420p[v]''"

definition discordAudioRuntimeWatermarkFilterWithSilence :: "encoder_profile \<Rightarrow> string \<Rightarrow> string" where
  "discordAudioRuntimeWatermarkFilterWithSilence p gain =
     ''[1:a:0][2:a:0]amix=inputs=2:duration=longest:dropout_transition=0,volume@gain='' @ gain
     @ ''dB,asplit=2[aout][wavein];[0:v]format=rgba[bg];[wavein]showwaves=s='' @ ff_itoa (Width p) @ ''x''
     @ ff_itoa (go_div (Height p) 2)
     @ '':mode=line:rate=30:colors=0x38bdf8,format=rgba[wave];[bg][wave]overlay=0:''
     @ ff_itoa (go_div (Height p) 4)
     @ '':eof_action=repeat:repeatlast=1:shortest=0,format=rgba[base];[3:v]format=rgba,scale=''
     @ ff_itoa (Width p) @ '':'' @ ff_itoa (Height p)
     @ ''[wm];[base][wm]overlay=0:0:format=auto,format=yuv420p[v]''"

definition workerSceneFilter :: "encoder_profile \<Rightarrow> string" where
  "workerSceneFilter p =
     ''[0:v]scale='' @ ff_itoa (Width p) @ '':'' @ ff_itoa (Height p)
     @ '':force_original_aspect_ratio=decrease,pad='' @ ff_itoa (Width p) @ '':'' @ ff_itoa (Height p)
     @ '':(ow-iw)/2:(oh-ih)/2:color=0x0b1020,setsar=1,format=yuv420p[v]''"

definition workerSceneFilterWithSilence :: "string \<Rightarrow> string" where
  "workerSceneFilterWithSilence video_filter =
     ''[1:a:0][2:a:0]amix=inputs=2:duration=longest:dropout_transition=0[aout];'' @ video_filter"

definition workerSceneFilterWithSilenceAndWatermark :: "encoder_profile \<Rightarrow> string" where
  "workerSceneFilterWithSilenceAndWatermark p =
     ''[1:a:0][2:a:0]amix=inputs=2:duration=longest:dropout_transition=0[aout];[0:v]scale=''
     @ ff_itoa (Width p) @ '':'' @ ff_itoa (Height p) @ '':force_original_aspect_ratio=decrease,pad=''
     @ ff_itoa (Width p) @ '':'' @ ff_itoa (Height p)
     @ '':(ow-iw)/2:(oh-ih)/2:color=0x0b1020,setsar=1,format=rgba[base];[3:v]format=rgba,scale=''
     @ ff_itoa (Width p) @ '':'' @ ff_itoa (Height p)
     @ ''[wm];[base][wm]overlay=0:0:format=auto,format=yuv420p[v]''"

definition workerSceneRuntimeFilterWithSilence :: "string \<Rightarrow> string \<Rightarrow> string" where
  "workerSceneRuntimeFilterWithSilence video_filter gain =
     ''[1:a:0][2:a:0]amix=inputs=2:duration=longest:dropout_transition=0,volume@gain='' @ gain @ ''dB[aout];''
     @ video_filter"

definition workerSceneRuntimeFilterWithSilenceAndWatermark :: "encoder_profile \<Rightarrow> string \<Rightarrow> string" where
  "workerSceneRuntimeFilterWithSilenceAndWatermark p gain =
     ''[1:a:0][2:a:0]amix=inputs=2:duration=longest:dropout_transition=0,volume@gain='' @ gain
     @ ''dB[aout];[0:v]scale='' @ ff_itoa (Width p) @ '':'' @ ff_itoa (Height p)
     @ '':force_original_aspect_ratio=decrease,pad='' @ ff_itoa (Width p) @ '':'' @ ff_itoa (Height p)
     @ '':(ow-iw)/2:(oh-ih)/2:color=0x0b1020,setsar=1,format=rgba[base];[3:v]format=rgba,scale=''
     @ ff_itoa (Width p) @ '':'' @ ff_itoa (Height p)
     @ ''[wm];[base][wm]overlay=0:0:format=auto,format=yuv420p[v]''"


definition audioStatsFilter :: "string \<Rightarrow> string" where
  "audioStatsFilter path =
     ''astats=metadata=1:reset=1:measure_perchannel=none:measure_overall=RMS_level+Peak_level,ametadata=print:file=''
     @ filepath_clean path @ '':direct=1:enable='' @ [CHR 0x27] @ ''not(mod(n,50))'' @ [CHR 0x27]"

definition appendComplexAudioStats :: "string \<Rightarrow> string \<Rightarrow> string \<times> string" where
  "appendComplexAudioStats graph path = (graph @ '';[aout]'' @ audioStatsFilter path @ ''[aout_stats]'', ''[aout_stats]'')"

definition runtimeAudioFilter :: "string \<Rightarrow> string \<Rightarrow> string" where
  "runtimeAudioFilter gain statsPath = ''volume@gain='' @ gain @ ''dB''
     @ (if trim_space statsPath \<noteq> [] then '','' @ audioStatsFilter statsPath else [])"

section \<open>Outputs\<close>

text \<open>The runes of a text, each with the bytes \<^verbatim>\<open>WriteRune\<close> writes for it: a byte that is not part of a rune is replaced.\<close>

function rune_texts :: "string \<Rightarrow> (nat \<times> string) list" where
  "rune_texts s =
     (if s = [] then []
      else let (r, w, ok) = decode_rune s
           in (r, if ok then take w s else [CHR 0xEF, CHR 0xBF, CHR 0xBD]) # rune_texts (drop w s))"
  by pat_completeness auto
termination
  by (relation "measure length") (auto dest: decode_rune_shorter)

declare rune_texts.simps [simp del]

definition token_special :: "string \<Rightarrow> nat \<Rightarrow> bool" where
  "token_special terminators r \<longleftrightarrow> r = 0x5C \<or> r = 0x27 \<or> r \<in> of_char ` set terminators \<or> rune_is_space r"

definition escapeFFmpegToken :: "string \<Rightarrow> string \<Rightarrow> string" where
  "escapeFFmpegToken value terminators =
     concat (map (\<lambda>(r, b). if token_special terminators r then CHR 0x5C # b else b) (rune_texts value))"

definition escapeTeeOptionValue :: "string \<Rightarrow> string" where
  "escapeTeeOptionValue value = escapeFFmpegToken (escapeFFmpegToken value '':]'') ''|''"

definition escapeTeeSlaveURL :: "string \<Rightarrow> string" where
  "escapeTeeSlaveURL value = escapeFFmpegToken value ''|''"

definition hls_options :: "string \<Rightarrow> string list" where
  "hls_options previewPath =
     [''f=hls'', ''onfail=ignore'', ''use_fifo=1'',
      ''fifo_options='' @ escapeTeeOptionValue ''queue_size=1200:drop_pkts_on_overflow=1'',
      ''hls_time=2'', ''hls_list_size=0'', ''hls_flags=independent_segments+temp_file'',
      ''hls_segment_filename='' @ escapeTeeOptionValue (filepath_join2 (filepath_dir previewPath) ''segment-%06d.ts'')]"

definition buildLiveTeeOutput :: "string \<Rightarrow> string \<Rightarrow> string \<Rightarrow> string" where
  "buildLiveTeeOutput outputTarget archivePath previewPath =
     (let slaves = [''[f=flv:onfail=ignore]'' @ escapeTeeSlaveURL outputTarget,
                    ''[f=matroska:onfail=abort]'' @ escapeTeeSlaveURL (filepath_clean archivePath)]
      in if trim_space previewPath = [] then join_with (CHR ''|'') slaves
         else join_with (CHR ''|'') (slaves @ [''['' @ join_with (CHR '':'') (hls_options previewPath) @ '']''
                @ escapeTeeSlaveURL (filepath_clean previewPath)]))"

text \<open>\<^verbatim>\<open>RedactTeePath\<close> and \<^verbatim>\<open>RedactTeeValue\<close>: the spellings of a secret are taken out of a text.\<close>

definition redactTeeValue :: "string \<Rightarrow> string \<Rightarrow> string \<Rightarrow> string" where
  "redactTeeValue text sensitive replacement =
     foldl (\<lambda>t variant. if variant \<noteq> [] then replace_all variant replacement t else t) text
       [escapeTeeOptionValue sensitive, escapeTeeSlaveURL sensitive, sensitive]"

definition redactTeePath :: "string \<Rightarrow> string \<Rightarrow> string \<Rightarrow> string" where
  "redactTeePath text path replacement = replace_all path replacement (redactTeeValue text (filepath_clean path) replacement)"

section \<open>Command lines\<close>

definition liveVideoCodecArgsWithTune :: "(string \<Rightarrow> string option) \<Rightarrow> encoder_profile \<Rightarrow> string \<Rightarrow> string list" where
  "liveVideoCodecArgsWithTune double p tune =
     [''-s:v'', ff_itoa (Width p) @ ''x'' @ ff_itoa (Height p), ''-aspect'', displayAspect (Width p) (Height p),
      ''-c:v'', ''libx264'', ''-preset'', ''superfast'', ''-flags:v'', ''+global_header'']
     @ (if trim_space tune \<noteq> [] then [''-tune'', trim_space tune] else [])
     @ [''-pix_fmt'', ''yuv420p'', ''-b:v'', VideoBitrate p,
        ''-minrate:v'', VideoBitrate p, ''-maxrate:v'', VideoBitrate p, ''-bufsize:v'', cbrBufferSize double (VideoBitrate p),
        ''-r'', ff_itoa (FPS p), ''-g'', ff_itoa (wrap64 (FPS p * KeyframeSec p)),
        ''-keyint_min'', ff_itoa (wrap64 (FPS p * KeyframeSec p)), ''-sc_threshold'', ''0'',
        ''-x264-params'', ''repeat-headers=1:open-gop=0:nal-hrd=cbr'']"

definition liveVideoCodecArgs :: "(string \<Rightarrow> string option) \<Rightarrow> encoder_profile \<Rightarrow> string list" where
  "liveVideoCodecArgs double p = liveVideoCodecArgsWithTune double p ''zerolatency''"

definition workerSceneLiveVideoCodecArgs :: "(string \<Rightarrow> string option) \<Rightarrow> encoder_profile \<Rightarrow> string list" where
  "workerSceneLiveVideoCodecArgs double p = liveVideoCodecArgsWithTune double p []"

definition watermarkInputArgs :: "string \<Rightarrow> string list" where
  "watermarkInputArgs input =
     (let t = trim_space input
      in if has_prefix (to_lower t) ''tcp://''
         then [''-thread_queue_size'', ''8'', ''-f'', ''png_pipe'', ''-framerate'', ''2'', ''-threads:v'', ''1'', ''-probesize'', ''32'',
               ''-analyzeduration'', ''1'', ''-frame_size'', ''64'', ''-i'', t]
         else [''-loop'', ''1'', ''-i'', filepath_clean t])"

text \<open>The places of one stream, and what the environment gives.\<close>

record live_paths =
  lp_target :: string
  lp_archive :: string
  lp_preview :: string
  lp_progress :: string
  lp_stats :: string

definition audio_args :: "encoder_profile \<Rightarrow> string \<Rightarrow> string list" where
  "audio_args p progressPath = [''-c:a'', ''aac'', ''-b:a'', AudioBitrate p, ''-ar'', ff_itoa (SampleRate p)]
     @ (if progressPath \<noteq> [] then [''-nostats'', ''-progress'', filepath_clean progressPath] else [])"

definition tee_args :: "live_paths \<Rightarrow> string list" where
  "tee_args lp = [''-f'', ''tee'', buildLiveTeeOutput (lp_target lp) (filepath_clean (lp_archive lp)) (lp_preview lp)]"

text \<open>The graph and the name of its audio output, with the statistics when a path for them is given.\<close>

definition complex_audio :: "string \<Rightarrow> string \<Rightarrow> string \<times> string" where
  "complex_audio graph statsPath = (if trim_space statsPath \<noteq> [] then appendComplexAudioStats graph statsPath else (graph, ''[aout]''))"

definition complex_args :: "string \<times> string \<Rightarrow> string list" where
  "complex_args ga = [''-filter_complex'', fst ga, ''-map'', ''[v]'', ''-map'', snd ga]"

definition buildLiveArgsWithVisualLayers ::
  "net_lib \<Rightarrow> (string \<Rightarrow> string option) \<Rightarrow> string \<Rightarrow> live_paths \<Rightarrow> string \<Rightarrow> string \<Rightarrow> string \<Rightarrow> encoder_profile \<Rightarrow> string list" where
  "buildLiveArgsWithVisualLayers net double inputURL lp cover watermark gain p =
     [''-hide_banner'', ''-y'', ''-i'', resolveInputTarget net inputURL]
     @ watermarkInputArgs cover @ watermarkInputArgs watermark
     @ [''-filter_complex'', externalVisualLayersFilter p, ''-map'', ''[v]'', ''-map'', ''0:a:0?'']
     @ liveVideoCodecArgs double p @ audio_args p (lp_progress lp)
     @ [''-filter:a'', runtimeAudioFilter gain (lp_stats lp)] @ tee_args lp"

text \<open>\<open>gain\<close> is \<open>None\<close> without runtime audio settings.\<close>

definition buildLiveArgs ::
  "net_lib \<Rightarrow> (string \<Rightarrow> string option) \<Rightarrow> string \<Rightarrow> live_paths \<Rightarrow> string \<Rightarrow> string option \<Rightarrow> encoder_profile \<Rightarrow> string list" where
  "buildLiveArgs net double inputURL lp watermark gain p =
     [''-hide_banner'', ''-y'', ''-i'', resolveInputTarget net inputURL]
     @ (if trim_space watermark \<noteq> []
        then watermarkInputArgs watermark @ [''-filter_complex'', watermarkFilter p, ''-map'', ''[v]'', ''-map'', ''0:a:0?'']
        else [''-map'', ''0:v:0?'', ''-map'', ''0:a:0?''])
     @ liveVideoCodecArgs double p @ audio_args p (lp_progress lp)
     @ (case gain of
          Some g \<Rightarrow> [''-filter:a'', runtimeAudioFilter g (lp_stats lp)]
        | None \<Rightarrow> if lp_stats lp \<noteq> [] then [''-filter:a'', audioStatsFilter (lp_stats lp)] else [])
     @ tee_args lp"

definition discord_inputs :: "net_lib \<Rightarrow> string \<Rightarrow> encoder_profile \<Rightarrow> string list" where
  "discord_inputs net audioSDP p =
     [''-hide_banner'', ''-y'', ''-f'', ''lavfi'', ''-re'', ''-i'',
      ''color=c=0x0b1020:s='' @ ff_itoa (Width p) @ ''x'' @ ff_itoa (Height p) @ '':r='' @ ff_itoa (FPS p),
      ''-protocol_whitelist'', ''file,udp,rtp'', ''-i'', filepath_clean (resolveInputTarget net audioSDP),
      ''-re'', ''-f'', ''lavfi'', ''-i'', ''anullsrc=channel_layout=stereo:sample_rate='' @ ff_itoa (SampleRate p)]"

definition buildDiscordArgsWithVisualLayers ::
  "net_lib \<Rightarrow> (string \<Rightarrow> string option) \<Rightarrow> string \<Rightarrow> live_paths \<Rightarrow> string \<Rightarrow> string \<Rightarrow> string \<Rightarrow> encoder_profile \<Rightarrow> string list" where
  "buildDiscordArgsWithVisualLayers net double audioSDP lp cover watermark gain p =
     discord_inputs net audioSDP p @ watermarkInputArgs cover @ watermarkInputArgs watermark
     @ complex_args (complex_audio (discordAudioRuntimeVisualLayersFilterWithSilence p gain) (lp_stats lp))
     @ liveVideoCodecArgs double p @ audio_args p (lp_progress lp) @ tee_args lp"

definition buildDiscordArgs ::
  "net_lib \<Rightarrow> (string \<Rightarrow> string option) \<Rightarrow> string \<Rightarrow> live_paths \<Rightarrow> string \<Rightarrow> string option \<Rightarrow> encoder_profile \<Rightarrow> string list" where
  "buildDiscordArgs net double audioSDP lp watermark gain p =
     discord_inputs net audioSDP p
     @ (if trim_space watermark \<noteq> [] then watermarkInputArgs watermark else [])
     @ complex_args (complex_audio
         (if trim_space watermark \<noteq> []
          then case gain of Some g \<Rightarrow> discordAudioRuntimeWatermarkFilterWithSilence p g | None \<Rightarrow> discordAudioWatermarkFilterWithSilence p
          else case gain of Some g \<Rightarrow> discordAudioRuntimeFilterWithSilence p g | None \<Rightarrow> discordAudioFilterWithSilence p)
         (lp_stats lp))
     @ liveVideoCodecArgs double p @ audio_args p (lp_progress lp) @ tee_args lp"

definition mjpeg_input :: "net_lib \<Rightarrow> string \<Rightarrow> string list" where
  "mjpeg_input net videoInput =
     [''-hide_banner'', ''-y'', ''-thread_queue_size'', ''512'', ''-f'', ''mjpeg'', ''-framerate'', ''60'', ''-i'', resolveInputTarget net videoInput]"

definition silence_input :: "encoder_profile \<Rightarrow> string list" where
  "silence_input p = [''-re'', ''-f'', ''lavfi'', ''-i'', ''anullsrc=channel_layout=stereo:sample_rate='' @ ff_itoa (SampleRate p)]"

definition buildWorkerArgsWithVisualLayers ::
  "net_lib \<Rightarrow> (string \<Rightarrow> string option) \<Rightarrow> string \<Rightarrow> string \<Rightarrow> live_paths \<Rightarrow> string \<Rightarrow> string \<Rightarrow> string \<Rightarrow> encoder_profile \<Rightarrow> string list"
  where
  "buildWorkerArgsWithVisualLayers net double videoInput audioSDP lp cover watermark gain p =
     mjpeg_input net videoInput @ silence_input p @ watermarkInputArgs cover @ watermarkInputArgs watermark
     @ [''-thread_queue_size'', ''512'', ''-analyzeduration'', ''1'', ''-probesize'', ''32'',
        ''-protocol_whitelist'', ''file,udp,rtp'', ''-i'', filepath_clean (resolveInputTarget net audioSDP)]
     @ complex_args (complex_audio (workerSceneRuntimeVisualLayersFilterWithSilence p gain) (lp_stats lp))
     @ workerSceneLiveVideoCodecArgs double p @ audio_args p (lp_progress lp) @ tee_args lp"

definition buildWorkerArgs ::
  "net_lib \<Rightarrow> (string \<Rightarrow> string option) \<Rightarrow> string \<Rightarrow> string \<Rightarrow> live_paths \<Rightarrow> string \<Rightarrow> string option \<Rightarrow> encoder_profile \<Rightarrow> string list"
  where
  "buildWorkerArgs net double videoInput audioSDP lp watermark gain p =
     mjpeg_input net videoInput
     @ [''-thread_queue_size'', ''512'', ''-protocol_whitelist'', ''file,udp,rtp'', ''-i'', filepath_clean (resolveInputTarget net audioSDP)]
     @ silence_input p
     @ (if trim_space watermark \<noteq> [] then watermarkInputArgs watermark else [])
     @ complex_args (complex_audio
         (if trim_space watermark \<noteq> []
          then case gain of Some g \<Rightarrow> workerSceneRuntimeFilterWithSilenceAndWatermark p g | None \<Rightarrow> workerSceneFilterWithSilenceAndWatermark p
          else case gain of Some g \<Rightarrow> workerSceneRuntimeFilterWithSilence (workerSceneFilter p) g
             | None \<Rightarrow> workerSceneFilterWithSilence (workerSceneFilter p))
         (lp_stats lp))
     @ workerSceneLiveVideoCodecArgs double p @ audio_args p (lp_progress lp) @ tee_args lp"

definition buildRemuxArgs :: "string \<Rightarrow> string \<Rightarrow> string list" where
  "buildRemuxArgs inputMKV outputMP4 =
     [''-hide_banner'', ''-y'', ''-i'', filepath_clean inputMKV, ''-c'', ''copy'', ''-movflags'', ''+faststart'', filepath_clean outputMP4]"

text \<open>\<^verbatim>\<open>ProfileFromConfig\<close>: a number of a decoded configuration is a \<open>float64\<close>, cut to an integer that fits.\<close>

definition profileConfigInt :: "(string \<rightharpoonup> json) \<Rightarrow> string \<Rightarrow> int" where
  "profileConfigInt config key = (case config key of Some (JNum x) \<Rightarrow> (if x < 0 then - \<lfloor>- x\<rfloor> else \<lfloor>x\<rfloor>) | _ \<Rightarrow> 0)"

definition profileFromConfig :: "(string \<rightharpoonup> json) \<Rightarrow> encoder_profile" where
  "profileFromConfig config =
     (let n = profileConfigInt config; d = defaultProfile; pick = (\<lambda>k x. if 0 < n k then n k else x);
          rate = (\<lambda>k x. if 0 < n k then itoa (n k) @ ''k'' else x)
      in \<lparr>Width = pick ''width'' (Width d), Height = pick ''height'' (Height d), FPS = pick ''fps'' (FPS d),
          VideoBitrate = rate ''video_bitrate_kbps'' (VideoBitrate d), AudioBitrate = rate ''audio_bitrate_kbps'' (AudioBitrate d),
          SampleRate = pick ''audio_sample_rate_hz'' (SampleRate d), KeyframeSec = pick ''keyframe_interval_sec'' (KeyframeSec d)\<rparr>)"

text \<open>\<^verbatim>\<open>BuildLiveArgsToOutputTargetWithPreviewAndOverlay\<close>: the command line of a job; \<open>fmt\<close> is \<^verbatim>\<open>formatGainDB\<close>.\<close>

definition jobArgs ::
  "net_lib \<Rightarrow> (string \<Rightarrow> string option) \<Rightarrow> (rat \<Rightarrow> string) \<Rightarrow> stream_job \<Rightarrow> live_paths \<Rightarrow> string \<Rightarrow> encoder_profile \<Rightarrow> string list" where
  "jobArgs net double fmt job lp watermarkPath p =
     (let mark = (if trim_space (WatermarkInputURL job) \<noteq> [] then WatermarkInputURL job else watermarkPath);
          gain = fmt (EncoderAudioGainDB job); worker = ''worker_scene_frames_srt''; discord = ''discord_opus_rtp''
      in if trim_space (CoverInputURL job) \<noteq> [] then
           if InputMode job = worker
           then buildWorkerArgsWithVisualLayers net double (InputURL job) (AudioInputURL job) lp (CoverInputURL job) mark gain p
           else if InputMode job = discord
           then buildDiscordArgsWithVisualLayers net double (InputURL job) lp (CoverInputURL job) mark gain p
           else buildLiveArgsWithVisualLayers net double (InputURL job) lp (CoverInputURL job) mark gain p
         else if InputMode job = worker then buildWorkerArgs net double (InputURL job) (AudioInputURL job) lp mark (Some gain) p
         else if InputMode job = discord then buildDiscordArgs net double (InputURL job) lp mark (Some gain) p
         else buildLiveArgs net double (InputURL job) lp mark (Some gain) p)"

definition trim_left_char :: "char \<Rightarrow> string \<Rightarrow> string" where
  "trim_left_char c s = dropWhile (\<lambda>x. x = c) s"

definition validateExplicitOutputTarget :: "net_lib \<Rightarrow> string \<Rightarrow> stream_job \<Rightarrow> string \<Rightarrow> bool" where
  "validateExplicitOutputTarget net env job target =
     (let direct = trim_right_char (CHR ''/'') (trim_space (RTMPURL job)) @ ''/'' @ trim_left_char (CHR ''/'') (StreamKey job)
      in if trim_space (RTMPURL job) \<noteq> [] \<and> trim_space (StreamKey job) \<noteq> [] \<and> target = direct
         then validateOutputTarget net (RTMPURL job) (StreamKey job)
         else validateRelayTarget net env target)"

section \<open>Numbers: lemmas\<close>

lemma itoa_loop_dec: "0 < v \<Longrightarrow> itoa_loop v out = dec_nat (nat v) @ out"
proof (induction v out rule: itoa_loop.induct)
  case (1 v out)
  show ?case
  proof (cases "v < 10")
    case True
    with 1 show ?thesis
      by (simp add: itoa_loop.simps [of v] itoa_loop.simps [of 0] dec_nat.simps [of "nat v"] nat_add_distrib)
  next
    case False
    then have d: "0 < v div 10" by linarith
    have n: "nat (v div 10) = nat v div 10" "nat (48 + v mod 10) = 48 + nat v mod 10"
      using "1.prems" by (simp_all add: nat_div_distrib nat_mod_distrib nat_add_distrib)
    show ?thesis
      using 1 d False by (simp add: itoa_loop.simps [of v] n) (subst (2) dec_nat.simps, simp)
  qed
qed

lemma ff_itoa_dec: "0 \<le> v \<Longrightarrow> ff_itoa v = dec_nat (nat v)"
proof -
  have "dec_nat 0 = ''0''" by code_simp
  then show "0 \<le> v \<Longrightarrow> ff_itoa v = dec_nat (nat v)"
    by (cases "v = 0") (simp_all add: ff_itoa_def itoa_loop_dec)
qed

lemma gcd_loop_gcd: "0 \<le> left \<Longrightarrow> 0 \<le> right \<Longrightarrow> gcd_loop left right = gcd left right"
proof (induction left right rule: gcd_loop.induct)
  case (1 left right)
  show ?case
  proof (cases "right = 0")
    case True
    with 1 show ?thesis by (simp add: gcd_loop.simps)
  next
    case False
    have m: "go_mod left right = left mod right"
    proof -
      have "go_div left right = left div right" using 1 False by (cases "left = 0") (simp_all add: go_div_def)
      then show ?thesis by (simp add: go_mod_def minus_div_mult_eq_mod)
    qed
    with 1 False show ?thesis by (simp add: gcd_loop.simps [of left right] gcd_red_int [symmetric])
  qed
qed

section \<open>Quoting: lemmas\<close>

text \<open>A rune with its bytes in which no byte can be taken for something else.\<close>

definition good_rune :: "nat \<times> string \<Rightarrow> bool" where
  "good_rune rb \<longleftrightarrow> (\<forall>t. decode_rune (snd rb @ t) = (fst rb, length (snd rb), True)) \<and> snd rb \<noteq> []
     \<and> (if fst rb < 128 then snd rb = [char_of (fst rb)] else list_all (\<lambda>c. 128 \<le> (of_char c :: nat)) (snd rb))"

lemma good_ascii: "(of_char c :: nat) < 128 \<Longrightarrow> good_rune (of_char c, [c])"
  by (simp add: good_rune_def decode_rune_def)

lemma good_replacement: "good_rune (0xfffd, [CHR 0xEF, CHR 0xBF, CHR 0xBD])"
  by (simp add: good_rune_def decode_rune_def lead_byte_def is_cont_def lead_bits_def)

lemma good_decoded:
  assumes "decode_rune s = (r, w, True)" and "s \<noteq> []"
  shows "good_rune (r, take w s)"
proof -
  obtain c cs where s: "s = c # cs" using assms(2) by (cases s) auto
  show ?thesis
  proof (cases "(of_char c :: nat) < 128")
    case True
    with assms(1) s have "r = of_char c" "take w s = [c]" by (auto simp: decode_rune_def)
    with good_ascii [OF True] show ?thesis by simp
  next
    case False
    from assms(1) s False obtain n lo hi where lead: "lead_byte (of_char c) = Some (n, lo, hi)"
      and ok: "length (take n (map of_char cs :: nat list)) = n" "lo \<le> hd (map of_char cs :: nat list)" "hd (map of_char cs :: nat list) \<le> hi"
        "list_all is_cont (take n (map of_char cs))"
      and r: "r = foldl (\<lambda>r c. r * 64 + c mod 64) (lead_bits n (of_char c)) (take n (map of_char cs))" and w: "w = Suc n"
      by (auto simp: decode_rune_def split: option.splits prod.splits if_splits)
    have n: "0 < n" "n \<le> length cs" using lead ok(1) by (auto simp: lead_byte_def split: if_splits)
    then have h: "hd (take n (map of_char cs) @ t) = hd (map of_char cs :: nat list)" for t :: "nat list"
      by (cases cs) auto
    have "decode_rune (take w s @ t) = (r, length (take w s), True)" for t
      using False lead ok r n h by (simp add: s w decode_rune_def take_map)
    moreover have "list_all (\<lambda>c. 128 \<le> (of_char c :: nat)) (take w s)"
      using False ok(4) by (auto simp: s w list_all_iff is_cont_def take_map)
    moreover have "\<not> r < 128" using decode_rune_ascii_iff [OF assms(2)] assms(1) False s by auto
    ultimately show ?thesis using n by (simp add: good_rune_def s w)
  qed
qed

lemma rune_texts_good: "list_all good_rune (rune_texts s)"
proof (induction s rule: rune_texts.induct)
  case (1 s)
  show ?case
  proof (cases "s = []")
    case True
    then show ?thesis by (simp add: rune_texts.simps)
  next
    case False
    obtain r w ok where d: "decode_rune s = (r, w, ok)" using prod_cases3 by blast
    have "r = 0xfffd" if "\<not> ok"
      using d that by (auto simp: decode_rune_def rune_error_def split: list.splits if_splits option.splits prod.splits)
    then have "good_rune (r, if ok then take w s else [CHR 0xEF, CHR 0xBF, CHR 0xBD])"
      using good_decoded [of s r w] good_replacement d False by (cases ok) auto
    with 1 False d show ?thesis by (subst rune_texts.simps) simp
  qed
qed

lemma rune_texts_concat: "list_all good_rune rs \<Longrightarrow> rune_texts (concat (map snd rs)) = rs"
proof (induction rs)
  case Nil
  show ?case by (simp add: rune_texts.simps)
next
  case (Cons rb rs)
  obtain r b where rb: "rb = (r, b)" by (cases rb)
  with Cons have "decode_rune (b @ concat (map snd rs)) = (r, length b, True)" "b \<noteq> []" by (auto simp: good_rune_def)
  with Cons rb show ?case by (subst rune_texts.simps) simp
qed

text \<open>The text with its ill-formed bytes replaced; what is well-formed stays as it is.\<close>

definition recode :: "string \<Rightarrow> string" where
  "recode s = concat (map snd (rune_texts s))"

lemma recode_valid: "utf8_valid s \<Longrightarrow> recode s = s"
proof (induction s rule: rune_texts.induct)
  case (1 s)
  show ?case
  proof (cases "s = []")
    case True
    then show ?thesis by (simp add: recode_def rune_texts.simps)
  next
    case False
    obtain r w ok where d: "decode_rune s = (r, w, ok)" using prod_cases3 by blast
    with False "1.prems" have v: "ok" "utf8_valid (drop w s)"
      by (auto simp: utf8_valid_def runes.simps [of s])
    with 1 False d have "recode (drop w s) = drop w s" by simp
    with v(1) d False show ?thesis by (simp add: recode_def rune_texts.simps [of s])
  qed
qed

lemma recode_rune_texts: "rune_texts (recode s) = rune_texts s"
  unfolding recode_def by (rule rune_texts_concat [OF rune_texts_good])

definition quote_runes :: "string \<Rightarrow> (nat \<times> string) list \<Rightarrow> (nat \<times> string) list" where
  "quote_runes ts rs = concat (map (\<lambda>(r, b). if token_special ts r then [(0x5C, [CHR 0x5C]), (r, b)] else [(r, b)]) rs)"

lemma escape_quote: "escapeFFmpegToken s ts = concat (map snd (quote_runes ts (rune_texts s)))"
proof -
  have "concat (map (\<lambda>(r, b). if token_special ts r then CHR 0x5C # b else b) rs) = concat (map snd (quote_runes ts rs))" for rs
    by (induction rs) (auto simp: quote_runes_def)
  then show ?thesis by (simp add: escapeFFmpegToken_def)
qed

lemma quote_good: "list_all good_rune rs \<Longrightarrow> list_all good_rune (quote_runes ts rs)"
  using good_ascii [of "CHR 0x5C"] by (auto simp: quote_runes_def list_all_iff)

lemma recode_escape [simp]: "recode (escapeFFmpegToken s ts) = escapeFFmpegToken s ts"
proof -
  have "rune_texts (escapeFFmpegToken s ts) = quote_runes ts (rune_texts s)"
    unfolding escape_quote by (rule rune_texts_concat [OF quote_good [OF rune_texts_good]])
  then show ?thesis by (simp add: recode_def escape_quote)
qed

section \<open>Reading a quoted text back\<close>

text \<open>
  The rule of the quoting: a backslash stands for the character behind it; a separator ends a field; a
  quote or a space without a backslash means something else, so there must be none.
\<close>

fun read_field :: "string \<Rightarrow> string \<Rightarrow> (string \<times> string) option" where
  "read_field ts [] = Some ([], [])"
| "read_field ts (c # cs) =
     (if c = CHR 0x5C then (case cs of [] \<Rightarrow> None
        | d # ds \<Rightarrow> map_option (\<lambda>(f, r). (d # f, r)) (read_field ts ds))
      else if c \<in> set ts then Some ([], c # cs)
      else if c = CHR 0x27 \<or> c \<in> set [CHR 0x09, CHR 0x0A, CHR 0x0D, CHR 0x20] then None
      else map_option (\<lambda>(f, r). (c # f, r)) (read_field ts cs))"

lemma read_field_shorter: "read_field ts s = Some (f, r) \<Longrightarrow> length r \<le> length s"
  by (induction ts s arbitrary: f rule: read_field.induct) (fastforce split: list.splits if_splits)+

text \<open>The fields between the separators, and the rest from a terminator on.\<close>

function read_fields :: "char \<Rightarrow> string \<Rightarrow> string \<Rightarrow> (string list \<times> string) option" where
  "read_fields sep ends s =
     (case read_field (sep # ends) s of
        None \<Rightarrow> None
      | Some (f, r) \<Rightarrow>
          if r \<noteq> [] \<and> hd r = sep then map_option (\<lambda>(fs, r). (f # fs, r)) (read_fields sep ends (tl r))
          else Some ([f], r))"
  by pat_completeness auto
termination
  by (relation "measure (\<lambda>(sep, ends, s). length s)")
    (auto dest!: read_field_shorter simp: neq_Nil_conv)

declare read_fields.simps [simp del]

text \<open>A text is plain for some separators when reading it takes it as it is.\<close>

definition plain_char :: "string \<Rightarrow> char \<Rightarrow> bool" where
  "plain_char ts c \<longleftrightarrow> c \<noteq> CHR 0x5C \<and> c \<notin> set ts \<and> c \<notin> set [CHR 0x27, CHR 0x09, CHR 0x0A, CHR 0x0D, CHR 0x20]"

text \<open>A text put in front of what was read.\<close>

definition in_front :: "string \<Rightarrow> (string \<times> string) option \<Rightarrow> (string \<times> string) option" where
  "in_front p x = map_option (\<lambda>(f, r). (p @ f, r)) x"

lemma in_front_simps [simp]:
  "in_front [] x = x" "in_front p (in_front q x) = in_front (p @ q) x" "in_front p (Some (f, r)) = Some (p @ f, r)"
  "map_option (\<lambda>(f, r). (c # f, r)) x = in_front [c] x"
  by (cases x; auto simp: in_front_def)+

lemma read_plain: "list_all (plain_char ts) p \<Longrightarrow> read_field ts (p @ s) = in_front p (read_field ts s)"
  by (induction p) (auto simp: plain_char_def)

lemma high_plain: "list_all (\<lambda>c. (of_char c :: nat) < 128) ts \<Longrightarrow> 128 \<le> (of_char c :: nat) \<Longrightarrow> plain_char ts c"
  by (auto simp: plain_char_def list_all_iff)

lemma read_quoted_char [simp]: "read_field ts (CHR 0x5C # c # s) = in_front [c] (read_field ts s)"
  by simp

lemma plain_rune:
  assumes "\<not> token_special us r" and "r < 128" and "set ts \<subseteq> set us"
  shows "plain_char ts (char_of r)"
proof -
  have n: "(of_char (char_of r :: char) :: nat) = r" using assms(2) by simp
  have "(char_of r :: char) \<noteq> k" if "r \<noteq> of_char k" for k using n that by auto
  moreover have "r \<noteq> of_char k" if "k \<in> set ts" for k using assms(1,3) that by (auto simp: token_special_def)
  ultimately show ?thesis using assms(1) by (auto simp: plain_char_def token_special_def rune_is_space_def)
qed

lemma read_quoted:
  assumes "list_all good_rune rs" and ts: "list_all (\<lambda>c. (of_char c :: nat) < 128) ts" "set ts \<subseteq> set us"
  shows "read_field ts (concat (map snd (quote_runes us rs)) @ s) = in_front (concat (map snd rs)) (read_field ts s)"
  using assms(1)
proof (induction rs)
  case Nil
  show ?case by (simp add: quote_runes_def)
next
  case (Cons rb rs)
  obtain r b where rb: "rb = (r, b)" by (cases rb)
  let ?q = "concat (map snd (quote_runes us rs)) @ s"
  have q: "concat (map snd (quote_runes us (rb # rs))) @ s = (if token_special us r then [CHR 0x5C] else []) @ b @ ?q"
    by (simp add: quote_runes_def rb)
  have IH: "read_field ts ?q = in_front (concat (map snd rs)) (read_field ts s)" using Cons by simp
  have b: "b \<noteq> []" "128 \<le> r \<Longrightarrow> list_all (plain_char ts) b" "r < 128 \<Longrightarrow> b = [char_of r]"
    using Cons.prems rb high_plain [OF ts(1)] by (auto simp: good_rune_def list_all_iff)
  have tl: "list_all (plain_char ts) (tl b)"
    using b by (cases "r < 128"; cases b) auto
  have plain: "list_all (plain_char ts) b" if "\<not> token_special us r"
    using b plain_rune [OF that _ ts(2)] by (cases "r < 128") auto
  show ?case
  proof (cases "token_special us r")
    case True
    obtain c cs where cs: "b = c # cs" using b(1) by (cases b) auto
    with read_plain [OF tl, of ?q] IH have "read_field ts (CHR 0x5C # b @ ?q) = in_front (b @ concat (map snd rs)) (read_field ts s)"
      by simp
    with True show ?thesis unfolding q by (simp add: rb)
  next
    case False
    from read_plain [OF plain [OF False]] q False IH rb show ?thesis by simp
  qed
qed

lemma read_escaped:
  assumes "list_all (\<lambda>c. (of_char c :: nat) < 128) ts" and "set ts \<subseteq> set us"
  shows "read_field ts (escapeFFmpegToken v us @ s) = in_front (recode v) (read_field ts s)"
  using read_quoted [OF rune_texts_good assms] by (simp add: escape_quote recode_def)

lemma recode_ascii: "list_all (\<lambda>c. (of_char c :: nat) < 128) s \<Longrightarrow> recode s = s"
  by (rule recode_valid) (simp add: utf8_valid_def runes_ascii list_all_iff)

lemma read_fields_more:
  assumes "read_field (sep # ends) s = Some (f, sep # r)"
  shows "read_fields sep ends s = map_option (\<lambda>(fs, r). (f # fs, r)) (read_fields sep ends r)"
  using assms by (subst read_fields.simps) simp

lemma read_fields_last:
  assumes "read_field (sep # ends) s = Some (f, r)" and "r = [] \<or> hd r \<noteq> sep"
  shows "read_fields sep ends s = Some ([f], r)"
  using assms by (subst read_fields.simps) auto

text \<open>One output of the tee: plain options and a quoted place.\<close>

lemma read_slave:
  assumes "list_all (plain_char ''|'') p"
  shows "read_field ''|'' (p @ escapeTeeSlaveURL v @ CHR ''|'' # s) = Some (p @ recode v, CHR ''|'' # s)"
    "read_field ''|'' (p @ escapeTeeSlaveURL v) = Some (p @ recode v, [])"
proof -
  have "read_field ''|'' (p @ escapeTeeSlaveURL v @ t) = in_front (p @ recode v) (read_field ''|'' t)" for t
    using read_escaped [of "''|''" "''|''" v t] read_plain [OF assms, of "escapeTeeSlaveURL v @ t"]
    by (simp add: escapeTeeSlaveURL_def)
  from this [of "CHR ''|'' # s"] this [of "[]"]
  show "read_field ''|'' (p @ escapeTeeSlaveURL v @ CHR ''|'' # s) = Some (p @ recode v, CHR ''|'' # s)"
    "read_field ''|'' (p @ escapeTeeSlaveURL v) = Some (p @ recode v, [])" by simp_all
qed

text \<open>The third output as it reads after the first level of quoting.\<close>

definition hls_slave :: "string \<Rightarrow> string" where
  "hls_slave previewPath =
     ''[f=hls:onfail=ignore:use_fifo=1:fifo_options='' @ escapeFFmpegToken ''queue_size=1200:drop_pkts_on_overflow=1'' '':]''
     @ '':hls_time=2:hls_list_size=0:hls_flags=independent_segments+temp_file:hls_segment_filename=''
     @ escapeFFmpegToken (filepath_join2 (filepath_dir previewPath) ''segment-%06d.ts'') '':]''
     @ '']'' @ recode (filepath_clean previewPath)"

lemma read_hls_slave:
  "read_field ''|'' (''['' @ join_with (CHR '':'') (hls_options preview) @ '']'' @ escapeTeeSlaveURL (filepath_clean preview))
     = Some (hls_slave preview, [])"
proof -
  define a b c where "a = ''[f=hls:onfail=ignore:use_fifo=1:fifo_options=''"
    and "b = '':hls_time=2:hls_list_size=0:hls_flags=independent_segments+temp_file:hls_segment_filename=''" and "c = '']''"
  have p: "list_all (plain_char ''|'') a" "list_all (plain_char ''|'') b" "list_all (plain_char ''|'') c"
    unfolding a_def b_def c_def by code_simp+
  let ?x = "''queue_size=1200:drop_pkts_on_overflow=1''" and ?y = "filepath_join2 (filepath_dir preview) ''segment-%06d.ts''"
  have e: "read_field ''|'' (escapeTeeOptionValue v @ t) = in_front (escapeFFmpegToken v '':]'') (read_field ''|'' t)" for v t
    using read_escaped [of "''|''" "''|''" "escapeFFmpegToken v '':]''" t] by (simp add: escapeTeeOptionValue_def)
  have "''['' @ join_with (CHR '':'') (hls_options preview) @ '']'' @ escapeTeeSlaveURL (filepath_clean preview)
    = a @ escapeTeeOptionValue ?x @ b @ escapeTeeOptionValue ?y @ c @ escapeTeeSlaveURL (filepath_clean preview)"
    by (simp add: hls_options_def a_def b_def c_def)
  moreover have "read_field ''|'' (a @ escapeTeeOptionValue ?x @ b @ escapeTeeOptionValue ?y @ c @ escapeTeeSlaveURL (filepath_clean preview))
    = Some (a @ escapeFFmpegToken ?x '':]'' @ b @ escapeFFmpegToken ?y '':]'' @ c @ recode (filepath_clean preview), [])"
    by (simp only: read_plain [OF p(1)] read_plain [OF p(2)] read_slave(2) [OF p(3)] e in_front_simps append_assoc)
  ultimately show ?thesis by (simp add: hls_slave_def a_def b_def c_def)
qed

lemma read_option:
  assumes "list_all (plain_char '':]'') p"
  shows "read_fields (CHR '':'') '']'' (p @ CHR '':'' # s) = map_option (\<lambda>(fs, r). (p # fs, r)) (read_fields (CHR '':'') '']'' s)"
    "read_fields (CHR '':'') '']'' (p @ escapeFFmpegToken v '':]'' @ CHR '':'' # s)
      = map_option (\<lambda>(fs, r). ((p @ recode v) # fs, r)) (read_fields (CHR '':'') '']'' s)"
    "read_fields (CHR '':'') '']'' (p @ escapeFFmpegToken v '':]'' @ CHR '']'' # s) = Some ([p @ recode v], CHR '']'' # s)"
proof -
  have e: "read_field '':]'' (p @ escapeFFmpegToken v '':]'' @ t) = in_front (p @ recode v) (read_field '':]'' t)" for t
    using read_escaped [of "'':]''" "'':]''" v t] read_plain [OF assms, of "escapeFFmpegToken v '':]'' @ t"] by simp
  have "read_field '':]'' (p @ CHR '':'' # s) = Some (p, CHR '':'' # s)"
    using read_plain [OF assms, of "CHR '':'' # s"] by simp
  then show "read_fields (CHR '':'') '']'' (p @ CHR '':'' # s) = map_option (\<lambda>(fs, r). (p # fs, r)) (read_fields (CHR '':'') '']'' s)"
    by (rule read_fields_more)
  show "read_fields (CHR '':'') '']'' (p @ escapeFFmpegToken v '':]'' @ CHR '':'' # s)
      = map_option (\<lambda>(fs, r). ((p @ recode v) # fs, r)) (read_fields (CHR '':'') '']'' s)"
    by (rule read_fields_more) (simp add: e)
  show "read_fields (CHR '':'') '']'' (p @ escapeFFmpegToken v '':]'' @ CHR '']'' # s) = Some ([p @ recode v], CHR '']'' # s)"
    by (rule read_fields_last) (simp_all add: e)
qed

section \<open>Properties\<close>

text \<open>
  C13. No target and no path can break out of its place on FFmpeg's command line: read by the rule of the
  quoting, the output has exactly the two or three entries that were meant, each with its own target
  whatever characters that has; inside the third one the options are the eight that were meant, with the
  path of the segments in its place. Only bytes that are not UTF-8 are replaced.
\<close>

theorem tee_output_read_back:
  assumes "utf8_valid target"
  shows "read_fields (CHR ''|'') [] (buildLiveTeeOutput target archive preview)
      = Some ([''[f=flv:onfail=ignore]'' @ target, ''[f=matroska:onfail=abort]'' @ recode (filepath_clean archive)]
          @ (if trim_space preview = [] then [] else [hls_slave preview]), [])
    \<and> read_fields (CHR '':'') '']'' (tl (hls_slave preview))
      = Some ([''f=hls'', ''onfail=ignore'', ''use_fifo=1'', ''fifo_options=queue_size=1200:drop_pkts_on_overflow=1'',
          ''hls_time=2'', ''hls_list_size=0'', ''hls_flags=independent_segments+temp_file'',
          ''hls_segment_filename='' @ recode (filepath_join2 (filepath_dir preview) ''segment-%06d.ts'')],
         CHR '']'' # recode (filepath_clean preview))"
proof
  have p: "list_all (plain_char ''|'') ''[f=flv:onfail=ignore]''" "list_all (plain_char ''|'') ''[f=matroska:onfail=abort]''"
    by code_simp+
  show "read_fields (CHR ''|'') [] (buildLiveTeeOutput target archive preview)
      = Some ([''[f=flv:onfail=ignore]'' @ target, ''[f=matroska:onfail=abort]'' @ recode (filepath_clean archive)]
          @ (if trim_space preview = [] then [] else [hls_slave preview]), [])"
    using read_fields_more [OF read_slave(1) [OF p(1)]] read_fields_more [OF read_slave(1) [OF p(2)]]
      read_fields_last [OF read_slave(2) [OF p(2)]] read_fields_last [OF read_hls_slave] recode_valid [OF assms]
    by (simp add: buildLiveTeeOutput_def Let_def)
next
  have q: "list_all (plain_char '':]'') ''f=hls''" "list_all (plain_char '':]'') ''onfail=ignore''"
    "list_all (plain_char '':]'') ''use_fifo=1''" "list_all (plain_char '':]'') ''fifo_options=''"
    "list_all (plain_char '':]'') ''hls_time=2''" "list_all (plain_char '':]'') ''hls_list_size=0''"
    "list_all (plain_char '':]'') ''hls_flags=independent_segments+temp_file''"
    "list_all (plain_char '':]'') ''hls_segment_filename=''" by code_simp+
  have r: "recode ''queue_size=1200:drop_pkts_on_overflow=1'' = ''queue_size=1200:drop_pkts_on_overflow=1''"
    by (rule recode_ascii) code_simp
  show "read_fields (CHR '':'') '']'' (tl (hls_slave preview))
      = Some ([''f=hls'', ''onfail=ignore'', ''use_fifo=1'', ''fifo_options=queue_size=1200:drop_pkts_on_overflow=1'',
          ''hls_time=2'', ''hls_list_size=0'', ''hls_flags=independent_segments+temp_file'',
          ''hls_segment_filename='' @ recode (filepath_join2 (filepath_dir preview) ''segment-%06d.ts'')],
         CHR '']'' # recode (filepath_clean preview))"
    using read_option(1) [OF q(1)] read_option(1) [OF q(2)] read_option(1) [OF q(3)] read_option(2) [OF q(4)] read_option(1) [OF q(5)]
      read_option(1) [OF q(6)] read_option(1) [OF q(7)] read_option(3) [OF q(8)] r
    by (simp add: hls_slave_def)
qed

text \<open>
  The shape of the picture FFmpeg is told is the true one: for every size the ratio is printed as two
  decimal numbers without a common divisor, in the proportion of width and height.
\<close>

lemma display_aspect_exact:
  assumes "0 < w" and "0 < h"
  shows "\<exists>a b. displayAspect w h = dec_nat a @ '':'' @ dec_nat b \<and> coprime a b \<and> int a * h = int b * w"
proof -
  have g: "greatestCommonDivisor w h = gcd w h" using assms by (simp add: greatestCommonDivisor_def gcd_loop_gcd)
  have pos: "0 < gcd w h" using assms by simp
  have d: "go_div w (gcd w h) = w div gcd w h" "go_div h (gcd w h) = h div gcd w h" using assms pos by (simp_all add: go_div_def)
  have nn: "0 \<le> w div gcd w h" "0 \<le> h div gcd w h" using assms pos by (simp_all add: pos_imp_zdiv_nonneg_iff)
  have c: "coprime (w div gcd w h) (h div gcd w h)" using assms by (intro div_gcd_coprime) auto
  then have "coprime (nat (w div gcd w h)) (nat (h div gcd w h))"
    using nn by (metis coprime_int_iff int_nat_eq)
  moreover have "displayAspect w h = dec_nat (nat (w div gcd w h)) @ '':'' @ dec_nat (nat (h div gcd w h))"
    using pos nn d unfolding displayAspect_def g Let_def by (simp only: ff_itoa_dec not_le [symmetric] if_False)
  moreover have "int (nat (w div gcd w h)) * h = int (nat (h div gcd w h)) * w"
  proof -
    have "w div gcd w h * h = h div gcd w h * w"
      by (metis dvd_div_mult gcd_dvd1 gcd_dvd2 mult.commute)
    with nn show ?thesis by simp
  qed
  ultimately show ?thesis by blast
qed

text \<open>
  The inputs of a command line, in order: \<open>-i\<close> and its value, where every option but the four flags takes
  the next argument.
\<close>

fun ff_inputs :: "string list \<Rightarrow> string list" where
  "ff_inputs (a # as) =
     (if a \<in> set [''-hide_banner'', ''-y'', ''-re'', ''-nostats''] then ff_inputs as
      else case as of [] \<Rightarrow> [] | v # vs \<Rightarrow> (if a = ''-i'' then [v] else []) @ ff_inputs vs)"
| "ff_inputs [] = []"

definition image_source :: "string \<Rightarrow> string" where
  "image_source input = (let t = trim_space input in if has_prefix (to_lower t) ''tcp://'' then t else filepath_clean t)"

lemma ff_inputs_image [simp]: "ff_inputs (watermarkInputArgs w @ as) = image_source w # ff_inputs as"
  by (simp add: watermarkInputArgs_def image_source_def Let_def)

lemma ff_inputs_codec [simp]:
  "ff_inputs (liveVideoCodecArgsWithTune double p tune @ as) = ff_inputs as"
  by (simp add: liveVideoCodecArgsWithTune_def)

lemma ff_inputs_audio [simp]: "ff_inputs (audio_args p pr @ as) = ff_inputs as"
  by (simp add: audio_args_def)

lemma ff_inputs_complex [simp]: "ff_inputs (complex_args ga @ as) = ff_inputs as"
  by (simp add: complex_args_def)

lemma ff_inputs_tee [simp]: "ff_inputs (tee_args lp) = []"
  by (simp add: tee_args_def)

definition silence_source :: "encoder_profile \<Rightarrow> string" where
  "silence_source p = ''anullsrc=channel_layout=stereo:sample_rate='' @ ff_itoa (SampleRate p)"

text \<open>
  The graph with cover and watermark takes every picture and sound from the input it means. FFmpeg
  numbers the inputs as they come on the command line; in each of the three modes the cover is the input the
  graph lays over the base, the watermark the one it lays over that, speech and silence the two it
  mixes, and none is missing.
\<close>

theorem visual_layer_inputs:
  "let live = ff_inputs (buildLiveArgsWithVisualLayers net double input lp cover mark gain p);
       discord = ff_inputs (buildDiscordArgsWithVisualLayers net double sdp lp cover mark gain p);
       worker = ff_inputs (buildWorkerArgsWithVisualLayers net double input sdp lp cover mark gain p);
       speech = filepath_clean (resolveInputTarget net sdp)
   in live = [resolveInputTarget net input, image_source cover, image_source mark]
    \<and> has_suffix (externalVisualLayersFilter p) (visualLayersTail 1 2 p)
    \<and> length discord = 5 \<and> tl discord = [speech, silence_source p, image_source cover, image_source mark]
    \<and> has_prefix (discordAudioRuntimeVisualLayersFilterWithSilence p gain) ''[1:a:0][2:a:0]amix=inputs=2''
    \<and> has_suffix (discordAudioRuntimeVisualLayersFilterWithSilence p gain) (visualLayersTail 3 4 p)
    \<and> worker = [resolveInputTarget net input, silence_source p, image_source cover, image_source mark, speech]
    \<and> has_prefix (workerSceneRuntimeVisualLayersFilterWithSilence p gain) ''[4:a:0][1:a:0]amix=inputs=2''
    \<and> has_suffix (workerSceneRuntimeVisualLayersFilterWithSilence p gain) (visualLayersTail 2 3 p)"
proof -
  have l: "ff_inputs (buildLiveArgsWithVisualLayers net double input lp cover mark gain p)
      = [resolveInputTarget net input, image_source cover, image_source mark]"
    by (simp add: buildLiveArgsWithVisualLayers_def liveVideoCodecArgs_def)
  have d: "length (ff_inputs (buildDiscordArgsWithVisualLayers net double sdp lp cover mark gain p)) = 5
    \<and> tl (ff_inputs (buildDiscordArgsWithVisualLayers net double sdp lp cover mark gain p))
      = [filepath_clean (resolveInputTarget net sdp), silence_source p, image_source cover, image_source mark]"
    by (simp add: buildDiscordArgsWithVisualLayers_def discord_inputs_def silence_source_def liveVideoCodecArgs_def)
  have w: "ff_inputs (buildWorkerArgsWithVisualLayers net double input sdp lp cover mark gain p)
      = [resolveInputTarget net input, silence_source p, image_source cover, image_source mark, filepath_clean (resolveInputTarget net sdp)]"
    by (simp add: buildWorkerArgsWithVisualLayers_def mjpeg_input_def silence_input_def silence_source_def workerSceneLiveVideoCodecArgs_def)
  have suffix: "has_suffix (x @ y) z" if "has_suffix y z" for x y z :: string
    using that by (auto simp: has_suffix_def)
  have "has_suffix (externalVisualLayersFilter p) (visualLayersTail 1 2 p)"
    "has_suffix (discordAudioRuntimeVisualLayersFilterWithSilence p gain) (visualLayersTail 3 4 p)"
    "has_suffix (workerSceneRuntimeVisualLayersFilterWithSilence p gain) (visualLayersTail 2 3 p)"
    unfolding externalVisualLayersFilter_def discordAudioRuntimeVisualLayersFilterWithSilence_def
      workerSceneRuntimeVisualLayersFilterWithSilence_def
    by (intro suffix; simp add: has_suffix_def)+
  moreover have "has_prefix (discordAudioRuntimeVisualLayersFilterWithSilence p gain) ''[1:a:0][2:a:0]amix=inputs=2''"
    "has_prefix (workerSceneRuntimeVisualLayersFilterWithSilence p gain) ''[4:a:0][1:a:0]amix=inputs=2''"
    by (simp_all add: discordAudioRuntimeVisualLayersFilterWithSilence_def workerSceneRuntimeVisualLayersFilterWithSilence_def has_prefix_def)
  ultimately show ?thesis using l d w unfolding Let_def by blast
qed

theorem tee_output_read_back_witness:
  "read_fields (CHR ''|'') [] (buildLiveTeeOutput ''rtmp://a/b|[f=flv] c'' ''/out/x.mkv'' [])
    = Some ([''[f=flv:onfail=ignore]rtmp://a/b|[f=flv] c'', ''[f=matroska:onfail=abort]/out/x.mkv''], [])"
proof -
  have v: "utf8_valid ''rtmp://a/b|[f=flv] c''" by (simp add: utf8_valid_def runes_ascii)
  have c: "recode (filepath_clean ''/out/x.mkv'') = ''/out/x.mkv''" "trim_space [] = []" by code_simp+
  from tee_output_read_back [OF v, of "''/out/x.mkv''" "[]"] c show ?thesis by simp
qed

end
