(* ===== verification/Payloads.thy ===== *)
theory Payloads
  imports Jobs Strings
begin

text \<open>
  Redaction of the payloads of worker events before they are stored
  (\<^verbatim>\<open>internal/workerevents/manager.go\<close>, \<^verbatim>\<open>safePayload\<close> to \<^verbatim>\<open>secretPayloadValue\<close>), with the
  part of Go's \<^verbatim>\<open>regexp\<close> its patterns use: \<^verbatim>\<open>MatchString\<close> asks for a match anywhere, so an expression is the
  list of ways it can consume the runes of the text.
\<close>

section \<open>Regular expressions\<close>

text \<open>
  The classes of runes. Under \<^verbatim>\<open>(?i)\<close> a letter stands for its case folding orbit; \<open>k\<close> and
  \<open>s\<close> have a third member (the Kelvin sign and the long s).
\<close>

datatype rx_class = AlnumOr "nat list" | NotUrlEnd | Space

definition fold_rune :: "nat \<Rightarrow> nat" where
  "fold_rune r = (if 65 \<le> r \<and> r \<le> 90 then r + 32 else if r = 8490 then 107 else if r = 383 then 115 else r)"

definition in_class :: "rx_class \<Rightarrow> nat \<Rightarrow> bool" where
  "in_class C r = (case C of
       AlnumOr extra \<Rightarrow> 48 \<le> r \<and> r \<le> 57 \<or> 97 \<le> fold_rune r \<and> fold_rune r \<le> 122 \<or> r \<in> set extra
     | NotUrlEnd \<Rightarrow> r \<notin> {32, 9, 13, 10, 60, 62, 34, 39}
     | Space \<Rightarrow> r \<in> {9, 10, 12, 13, 32})"

datatype rx =
    RxLit bool "nat list"
  | RxRun nat rx_class
  | RxExactly nat rx_class
  | RxSeq rx rx
  | RxAlt rx rx
  | RxBoundary

text \<open>A place in the text: the rune before it, if any, and the runes after it.\<close>

type_synonym rx_pos = "nat option \<times> nat list"

text \<open>A literal, with case folding or without.\<close>

fun rx_lit :: "bool \<Rightarrow> nat list \<Rightarrow> nat option \<Rightarrow> nat list \<Rightarrow> rx_pos list" where
  "rx_lit ci [] p cs = [(p, cs)]"
| "rx_lit ci (l # ls) p [] = []"
| "rx_lit ci (l # ls) p (c # cs) =
     (if c = l \<or> ci \<and> fold_rune c = fold_rune l then rx_lit ci ls (Some c) cs else [])"

text \<open>\<open>n\<close> or more runes of a class, and exactly \<open>n\<close>.\<close>

fun rx_run :: "rx_class \<Rightarrow> nat \<Rightarrow> nat option \<Rightarrow> nat list \<Rightarrow> rx_pos list" where
  "rx_run C n p [] = (if n = 0 then [(p, [])] else [])"
| "rx_run C n p (c # cs) =
     (if n = 0 then [(p, c # cs)] else []) @ (if in_class C c then rx_run C (n - 1) (Some c) cs else [])"

fun rx_exactly :: "rx_class \<Rightarrow> nat \<Rightarrow> nat option \<Rightarrow> nat list \<Rightarrow> rx_pos list" where
  "rx_exactly C n p [] = (if n = 0 then [(p, [])] else [])"
| "rx_exactly C n p (c # cs) =
     (if n = 0 then [(p, c # cs)] else if in_class C c then rx_exactly C (n - 1) (Some c) cs else [])"

definition word_rune :: "nat \<Rightarrow> bool" where
  "word_rune r \<longleftrightarrow> 48 \<le> r \<and> r \<le> 57 \<or> 65 \<le> r \<and> r \<le> 90 \<or> 97 \<le> r \<and> r \<le> 122 \<or> r = 95"

definition at_boundary :: "rx_pos \<Rightarrow> bool" where
  "at_boundary x \<longleftrightarrow>
     (case fst x of None \<Rightarrow> False | Some r \<Rightarrow> word_rune r) \<noteq> (case snd x of [] \<Rightarrow> False | r # rs \<Rightarrow> word_rune r)"

fun rx_ends :: "rx \<Rightarrow> rx_pos \<Rightarrow> rx_pos list" where
  "rx_ends (RxLit ci ls) x = rx_lit ci ls (fst x) (snd x)"
| "rx_ends (RxRun n C) x = rx_run C n (fst x) (snd x)"
| "rx_ends (RxExactly n C) x = rx_exactly C n (fst x) (snd x)"
| "rx_ends (RxSeq a b) x = concat (map (rx_ends b) (rx_ends a x))"
| "rx_ends (RxAlt a b) x = rx_ends a x @ rx_ends b x"
| "rx_ends RxBoundary x = (if at_boundary x then [x] else [])"

fun rx_search :: "rx \<Rightarrow> nat option \<Rightarrow> nat list \<Rightarrow> bool" where
  "rx_search r p [] = (rx_ends r (p, []) \<noteq> [])"
| "rx_search r p (c # cs) = (rx_ends r (p, c # cs) \<noteq> [] \<or> rx_search r (Some c) cs)"

text \<open>\<^verbatim>\<open>MatchString\<close>.\<close>

definition rx_match :: "rx \<Rightarrow> string \<Rightarrow> bool" where
  "rx_match r s \<longleftrightarrow> rx_search r None (range_runes s)"

definition lit :: "string \<Rightarrow> rx" where
  "lit s = RxLit True (map of_char s)"

definition exact_lit :: "string \<Rightarrow> rx" where
  "exact_lit s = RxLit False (map of_char s)"

definition alnum_or :: "string \<Rightarrow> rx_class" where
  "alnum_or extra = AlnumOr (map of_char extra)"

definition rx_all :: "rx list \<Rightarrow> rx" where
  "rx_all rs = foldr RxSeq (butlast rs) (last rs)"

definition rx_any :: "rx list \<Rightarrow> rx" where
  "rx_any rs = foldr RxAlt (butlast rs) (last rs)"

definition secretPayloadPatterns :: "rx list" where
  "secretPayloadPatterns =
    [rx_all [lit ''https://discord.com/api/webhooks/'', RxRun 1 (alnum_or ''_-''), lit ''/'', RxRun 1 (alnum_or ''_-'')],
     rx_all [lit ''https://hooks.slack.com/services/'', RxRun 1 (alnum_or ''/_-'')],
     rx_all [RxBoundary, lit ''ast_svc_'', RxRun 16 (alnum_or ''_-''), RxBoundary],
     rx_all [RxBoundary, lit ''ast_ingest_v1.'', RxRun 1 (alnum_or ''_-''), lit ''.'', RxRun 1 (alnum_or ''_-''), RxBoundary],
     rx_all [RxBoundary, lit ''AIza'', RxExactly 35 (alnum_or ''_-''), RxBoundary],
     rx_all [RxBoundary, lit ''1//'', RxRun 20 (alnum_or ''_-''), RxBoundary],
     rx_all [RxBoundary, lit ''bearer'', RxRun 1 Space, RxRun 12 (alnum_or ''._~+/-''), RxBoundary],
     rx_all [rx_any [lit ''rtmp'', lit ''rtmps'', lit ''rtsp'', lit ''srt'', lit ''http'', lit ''https''],
       lit ''://'', RxRun 1 NotUrlEnd, lit '':'', RxRun 1 NotUrlEnd, lit ''@'', RxRun 1 NotUrlEnd],
     rx_all [exact_lit ''-----BEGIN '', rx_any [exact_lit ''RSA '', exact_lit ''EC '', exact_lit ''OPENSSH '', exact_lit []],
       exact_lit ''PRIVATE KEY-----'']]"

section \<open>Secrets\<close>

definition secretPayloadKey :: "string \<Rightarrow> bool" where
  "secretPayloadKey k \<longleftrightarrow> list_ex (str_contains (to_lower (trim_space k)))
     [''token'', ''secret'', ''password'', ''passwd'', ''private_key'', ''credential'', ''authorization'',
      ''stream_key'', ''refresh_token'', ''access_token'', ''client_secret'', ''api_key'', ''apikey'', ''webhook_url'']"

definition secretPayloadValue :: "string \<Rightarrow> bool" where
  "secretPayloadValue v \<longleftrightarrow> (let lower = to_lower (trim_space v) in
     lower \<noteq> [] \<and>
      (list_ex (str_contains lower) [''token='', ''access_token='', ''refresh_token='', ''client_secret='',
          ''private_key'', ''password='', ''passwd='', ''stream_key='']
       \<or> list_ex (\<lambda>r. rx_match r v) secretPayloadPatterns))"

definition redacted :: string where
  "redacted = ''<redacted>''"

text \<open>A Go map is its pairs in the order of the iteration; a later pair with the same key wins.\<close>

definition go_map :: "(string \<times> 'a) list \<Rightarrow> (string \<times> 'a) list" where
  "go_map = foldl (\<lambda>m (k, v). AList.update k v m) []"

definition safe_string :: "string \<Rightarrow> string" where
  "safe_string s = (if secretPayloadValue s then redacted else if 500 < length s then take 500 s @ ''...'' else s)"

fun safePayloadValue :: "json \<Rightarrow> json" and safe_list :: "json list \<Rightarrow> json list"
  and safe_pairs :: "(string \<times> json) list \<Rightarrow> (string \<times> json) list" where
  "safePayloadValue JNull = JNull"
| "safePayloadValue (JBool b) = JBool b"
| "safePayloadValue (JNum q) = JNum q"
| "safePayloadValue (JStr s) = JStr (safe_string s)"
| "safePayloadValue (JArr vs) = JArr (safe_list vs)"
| "safePayloadValue (JObj ps) = JObj (go_map (safe_pairs ps))"
| "safe_list [] = []"
| "safe_list (v # vs) = safePayloadValue v # safe_list vs"
| "safe_pairs [] = []"
| "safe_pairs ((k, v) # ps) =
     (let k = trim_space k in
      if k = [] then safe_pairs ps
      else (k, if secretPayloadKey k then JStr redacted else safePayloadValue v) # safe_pairs ps)"

definition safePayload :: "(string \<times> json) list \<Rightarrow> (string \<times> json) list" where
  "safePayload ps = go_map (safe_pairs ps)"

section \<open>What is left of a payload\<close>

definition clean_string :: "string \<Rightarrow> bool" where
  "clean_string s \<longleftrightarrow> s = redacted \<or> \<not> secretPayloadValue s \<and> length s \<le> 500
     \<or> length s = 503 \<and> has_suffix s ''...''"

definition kept_string :: "string \<Rightarrow> bool" where
  "kept_string s \<longleftrightarrow> s = redacted
     \<or> \<not> secretPayloadValue s \<and> (length s \<le> 500 \<or> length s = 503 \<and> has_suffix s ''...'')"

text \<open>
  The keys are distinct, trimmed and not empty, secret ones have the marker, and every other text
  satisfies \<open>P\<close>.
\<close>

fun value_ok :: "(string \<Rightarrow> bool) \<Rightarrow> json \<Rightarrow> bool" and pairs_ok :: "(string \<Rightarrow> bool) \<Rightarrow> (string \<times> json) list \<Rightarrow> bool" where
  "value_ok P (JStr s) \<longleftrightarrow> P s"
| "value_ok P (JArr vs) \<longleftrightarrow> list_all (value_ok P) vs"
| "value_ok P (JObj ps) \<longleftrightarrow> distinct (map fst ps) \<and> pairs_ok P ps"
| "value_ok P _ \<longleftrightarrow> True"
| "pairs_ok P [] \<longleftrightarrow> True"
| "pairs_ok P ((k, v) # ps) \<longleftrightarrow> k \<noteq> [] \<and> trim_space k = k
     \<and> (if secretPayloadKey k then v = JStr redacted else value_ok P v) \<and> pairs_ok P ps"

lemma go_map_snoc: "go_map (ps @ [(k, v)]) = AList.update k v (go_map ps)"
  by (simp add: go_map_def)

lemma go_map_distinct: "distinct (map fst (go_map ps))"
  by (induction ps rule: rev_induct) (auto simp: go_map_snoc distinct_update, simp add: go_map_def)

lemma go_map_set: "set (go_map ps) \<subseteq> set ps"
proof (induction ps rule: rev_induct)
  case Nil
  then show ?case by (simp add: go_map_def)
next
  case (snoc p ps)
  then show ?case using set_update_subset [of "fst p" "snd p" "go_map ps"]
    by (cases p) (auto simp: go_map_snoc)
qed

lemma update_fresh: "k \<notin> fst ` set m \<Longrightarrow> AList.update k v m = m @ [(k, v)]"
  by (induction m) auto

lemma go_map_id: "distinct (map fst ps) \<Longrightarrow> go_map ps = ps"
proof (induction ps rule: rev_induct)
  case Nil
  then show ?case by (simp add: go_map_def)
next
  case (snoc p ps)
  then show ?case by (cases p) (auto simp: go_map_snoc update_fresh)
qed

lemma go_map_length: "length (go_map ps) \<le> length ps"
proof (induction ps rule: rev_induct)
  case Nil
  then show ?case by (simp add: go_map_def)
next
  case (snoc p ps)
  then show ?case using length_update_le [of "fst p" "snd p" "go_map ps"]
    by (cases p) (simp add: go_map_snoc)
qed

lemma go_map_keys: "fst ` set (go_map ps) = fst ` set ps"
proof (induction ps rule: rev_induct)
  case Nil
  then show ?case by (simp add: go_map_def)
next
  case (snoc p ps)
  then show ?case by (cases p) (simp add: go_map_snoc dom_update)
qed

text \<open>A map keeps as many entries as it is given only when the keys differ.\<close>

lemma go_map_full: "length ps \<le> length (go_map ps) \<Longrightarrow> go_map ps = ps"
proof (rule go_map_id)
  assume "length ps \<le> length (go_map ps)"
  moreover have "length (go_map ps) = card (fst ` set ps)"
    using distinct_card [OF go_map_distinct [of ps]] by (simp add: go_map_keys)
  ultimately have "length (map fst ps) \<le> card (set (map fst ps))" by simp
  then have "card (set (map fst ps)) = length (map fst ps)"
    using card_length [of "map fst ps"] by linarith
  then show "distinct (map fst ps)" by (rule card_distinct)
qed

lemma safe_string_clean: "clean_string (safe_string s)"
  by (auto simp: clean_string_def safe_string_def has_suffix_def)

lemma safe_string_kept: "safe_string s = s \<longleftrightarrow> kept_string s"
proof
  assume e: "safe_string s = s"
  show "kept_string s"
  proof (cases "secretPayloadValue s \<or> length s \<le> 500")
    case True
    with e show ?thesis by (auto simp: safe_string_def kept_string_def split: if_splits)
  next
    case False
    with e have "s = take 500 s @ ''...''" by (simp add: safe_string_def)
    moreover have "length (take 500 s) = 500" using False by simp
    ultimately obtain t where "s = t @ ''...''" "length t = 500" by blast
    with False show ?thesis by (simp add: kept_string_def)
  qed
next
  assume k: "kept_string s"
  show "safe_string s = s"
  proof (cases "length s = 503 \<and> has_suffix s ''...''")
    case True
    then have "drop 500 s = ''...''" by (auto simp: has_suffix_def eval_nat_numeral)
    then have "take 500 s @ ''...'' = s" using append_take_drop_id [of 500 s] by simp
    with True k show ?thesis by (auto simp: safe_string_def kept_string_def)
  next
    case False
    with k show ?thesis by (auto simp: safe_string_def kept_string_def redacted_def)
  qed
qed

lemma pairs_ok_list: "pairs_ok P ps \<longleftrightarrow> list_all (\<lambda>(k, v). k \<noteq> [] \<and> trim_space k = k
     \<and> (if secretPayloadKey k then v = JStr redacted else value_ok P v)) ps"
  by (induction ps) (auto split del: if_split)

lemma safe_value_clean:
  "value_ok clean_string (safePayloadValue v)" "list_all (value_ok clean_string) (safe_list vs)"
  "pairs_ok clean_string (safe_pairs ps)"
proof (induction v and vs and ps rule: safePayloadValue_safe_list_safe_pairs.induct)
  case (6 ps)
  then show ?case using go_map_set [of "safe_pairs ps"]
    by (auto simp: pairs_ok_list go_map_distinct list_all_iff split del: if_split)
qed (auto simp: safe_string_clean Let_def)

lemma safe_pairs_length: "length (safe_pairs ps) \<le> length ps"
  by (induction ps) (auto simp: Let_def)

lemma safe_value_kept:
  "safePayloadValue v = v \<longleftrightarrow> value_ok kept_string v" "safe_list vs = vs \<longleftrightarrow> list_all (value_ok kept_string) vs"
  "safe_pairs ps = ps \<longleftrightarrow> pairs_ok kept_string ps"
proof (induction v and vs and ps rule: safePayloadValue_safe_list_safe_pairs.induct)
  case (6 ps)
  have "go_map (safe_pairs ps) = ps \<longleftrightarrow> distinct (map fst ps) \<and> safe_pairs ps = ps"
  proof
    assume e: "go_map (safe_pairs ps) = ps"
    then have "length (safe_pairs ps) \<le> length (go_map (safe_pairs ps))" using safe_pairs_length by metis
    then have "go_map (safe_pairs ps) = safe_pairs ps" by (rule go_map_full)
    with e show "distinct (map fst ps) \<and> safe_pairs ps = ps" using go_map_distinct by metis
  qed (simp add: go_map_id)
  with 6 show ?case by simp
next
  case (10 k v ps)
  have l: "length (safe_pairs ps) \<le> length ps" by (rule safe_pairs_length)
  have "safe_pairs ps \<noteq> (k, v) # ps"
  proof
    assume "safe_pairs ps = (k, v) # ps"
    with l show False by simp
  qed
  with 10 show ?case by (auto simp: Let_def)
qed (auto simp: safe_string_kept)


end
