(* ===== verification/WorkerEvents.thy ===== *)
theory WorkerEvents
  imports Payloads SidecarFiles SeenCache ArchiveLayout
begin

text \<open>
  The events of the overlay and caption workers, \<^verbatim>\<open>internal/workerevents/manager.go\<close>: \<^verbatim>\<open>Add\<close>
  checks an event, recognises what it has seen, writes it to the logs, the captions and the
  transcript beside the recording, and remembers it. A file holds chunks: text, the record
  of a JSON line, or the transcript entries of a JSON document.
\<close>

record worker_event =
  ev_id :: string
  ev_stream :: string
  ev_service :: string
  ev_generation :: u64
  ev_attempt :: u32
  ev_type :: string
  ev_payload :: "(string \<times> json) list option"
  ev_timestamp :: "nanos option"

record transcript_entry =
  tr_event_id :: string
  tr_utterance_id :: string
  tr_revision :: int
  tr_timestamp :: nanos
  tr_started_at :: nanos
  tr_updated_at :: nanos
  tr_ended_at :: nanos
  tr_text :: string
  tr_speaker_user_id :: string
  tr_speaker_display_name :: string
  tr_confidence :: rat
  tr_finalization_reason :: string
  tr_source :: string
  tr_final :: bool

text \<open>The line of the log.\<close>

record event_line =
  el_timestamp :: nanos
  el_stream :: string
  el_id :: string
  el_attempt :: u32
  el_type :: string
  el_payload :: "(string \<times> json) list"

datatype sidecar_chunk = Chunk string | Line event_line | Entries "transcript_entry list"

record events_manager =
  recent :: "(string \<times> worker_event list) list"
  seen_events :: seen
  latestGeneration :: "(string \<times> u64) list"
  maxRecent :: int
  maxSeen :: int

definition newEventsManager :: events_manager where
  "newEventsManager = \<lparr>recent = [], seen_events = [], latestGeneration = [], maxRecent = 200, maxSeen = 2000\<rparr>"

record event_result =
  er_accepted :: bool
  er_duplicate :: bool
  er_stream :: string
  er_id :: string
  er_type :: string
  er_logs :: string
  er_captions :: string
  er_transcript :: string

datatype event_error = StreamIDRequired | EventTypeRequired | EventIDRequired | EventTypePrefix | EventLayout
  | EventFile fs_error | StaleGeneration | CaptionTextRequired | TranscriptDecode

text \<open>
  What is outside the program: which files may not be written, RFC 3339 times, and the JSON decoder on
  transcripts of foreign text.
\<close>

record event_env =
  denies :: "path \<Rightarrow> bool"
  rfc3339 :: "string \<Rightarrow> nanos option"
  decodes :: "string \<Rightarrow> transcript_entry list option"

section \<open>Payload values\<close>

definition payload_string :: "(string \<times> json) list \<Rightarrow> string \<Rightarrow> string option" where
  "payload_string p k = (case map_of p k of Some (JStr s) \<Rightarrow> Some s | _ \<Rightarrow> None)"

fun firstPayloadString :: "(string \<times> json) list \<Rightarrow> string list \<Rightarrow> string" where
  "firstPayloadString p [] = []"
| "firstPayloadString p (k # ks) =
     (case payload_string p k of
        Some s \<Rightarrow> if trim_space s \<noteq> [] then trim_space s else firstPayloadString p ks
      | None \<Rightarrow> firstPayloadString p ks)"

text \<open>
  A number of a decoded payload is a \<^verbatim>\<open>float64\<close>; its conversion to \<^verbatim>\<open>int\<close> drops the
  fraction. Beyond 64 bits Go leaves the result open.
\<close>

definition payloadInt :: "(string \<times> json) list \<Rightarrow> string \<Rightarrow> int" where
  "payloadInt p k = (case map_of p k of
     Some (JNum q) \<Rightarrow> if 0 \<le> q then \<lfloor>q\<rfloor> else \<lceil>q\<rceil>
   | _ \<Rightarrow> 0)"

definition payloadFloat :: "(string \<times> json) list \<Rightarrow> string \<Rightarrow> rat" where
  "payloadFloat p k = (case map_of p k of Some (JNum q) \<Rightarrow> q | _ \<Rightarrow> 0)"

definition payload_time :: "(string \<Rightarrow> nanos option) \<Rightarrow> (string \<times> json) list \<Rightarrow> string \<Rightarrow> nanos option" where
  "payload_time parse p k = (case payload_string p k of None \<Rightarrow> None | Some s \<Rightarrow> parse (trim_space s))"

definition payloadTime :: "(string \<Rightarrow> nanos option) \<Rightarrow> (string \<times> json) list \<Rightarrow> string \<Rightarrow> nanos \<Rightarrow> nanos" where
  "payloadTime parse p k fallback = (case payload_time parse p k of None \<Rightarrow> fallback | Some t \<Rightarrow> t)"

section \<open>Captions\<close>

definition minute :: nanos where
  "minute = 60 * second"

definition hour :: nanos where
  "hour = 60 * minute"

text \<open>Decimals with leading zeros, \<^verbatim>\<open>%02d\<close> and \<^verbatim>\<open>%03d\<close>.\<close>

definition pad_dec :: "nat \<Rightarrow> nat \<Rightarrow> string" where
  "pad_dec w n = (let d = dec_nat n in replicate (w - length d) CHR ''0'' @ d)"

text \<open>\<^verbatim>\<open>formatVTTTime\<close>: the time of the day, in UTC.\<close>

definition formatVTTTime :: "nanos \<Rightarrow> string" where
  "formatVTTTime t =
     (let d = t mod (24 * hour)
      in pad_dec 2 (nat (d div hour)) @ '':'' @ pad_dec 2 (nat (d div minute mod 60)) @ '':''
         @ pad_dec 2 (nat (d div second mod 60)) @ ''.'' @ pad_dec 3 (nat (d mod second div millisecond)))"

definition sanitizeCaptionText :: "string \<Rightarrow> string" where
  "sanitizeCaptionText s =
     join_with (CHR 0x0A) (map trim_space (split_at (CHR 0x0A) (filter (\<lambda>c. c \<noteq> CHR 0x0D) s)))"

text \<open>The start and end of a cue.\<close>

definition caption_times :: "(string \<Rightarrow> nanos option) \<Rightarrow> (string \<times> json) list \<Rightarrow> nanos \<Rightarrow> nanos \<times> nanos" where
  "caption_times parse p t =
     (let start = (case payload_time parse p ''started_at'' of None \<Rightarrow> t | Some s \<Rightarrow> s);
          end0 = (case payload_time parse p ''ended_at'' of None \<Rightarrow> t + 4 * second | Some e \<Rightarrow> e);
          end1 = (if start < end0 then end0 else start + 4 * second);
          end2 = (if 10 * minute < time_sub end1 start then start + 10 * minute else end1)
      in (start, end2))"

definition newline :: string where
  "newline = [CHR 0x0A]"

definition caption_cue :: "nanos \<Rightarrow> nanos \<Rightarrow> string \<Rightarrow> string" where
  "caption_cue start end_time text =
     newline @ formatVTTTime start @ '' --> '' @ formatVTTTime end_time @ newline @ sanitizeCaptionText text @ newline"

definition ensureVTT ::
  "(path \<Rightarrow> bool) \<Rightarrow> sidecar_chunk list fs \<Rightarrow> path \<Rightarrow> sidecar_chunk list fs \<times> fs_error option" where
  "ensureVTT deny fs p =
     (case fs p of
        None \<Rightarrow> writeFileNoSymlink deny fs p [Chunk (''WEBVTT'' @ newline)]
      | Some (Regular c) \<Rightarrow> (fs, None)
      | Some _ \<Rightarrow> (fs, Some ErrNotRegular))"

text \<open>
  The transcript a file holds; None when it cannot be decoded. What the JSON decoder makes of text that is not
  the program's own is the argument \<open>decode\<close>.
\<close>

fun chunk_text :: "sidecar_chunk list \<Rightarrow> string option" where
  "chunk_text [] = Some []"
| "chunk_text (Chunk s # cs) = map_option (append s) (chunk_text cs)"
| "chunk_text _ = None"

definition transcript_of ::
  "(string \<Rightarrow> transcript_entry list option) \<Rightarrow> sidecar_chunk list \<Rightarrow> transcript_entry list option" where
  "transcript_of decode c =
     (case chunk_text c of
        Some s \<Rightarrow> if trim_space s = [] then Some [] else decode s
      | None \<Rightarrow> (case c of [Entries es] \<Rightarrow> Some es | _ \<Rightarrow> None))"

definition appendTranscript ::
  "(path \<Rightarrow> bool) \<Rightarrow> (string \<Rightarrow> transcript_entry list option) \<Rightarrow> sidecar_chunk list fs \<Rightarrow> path \<Rightarrow> transcript_entry
    \<Rightarrow> sidecar_chunk list fs \<times> event_error option" where
  "appendTranscript deny decode fs p e =
     (let write = (\<lambda>es. case writeFileNoSymlink deny fs p [Entries (es @ [e])] of
                          (fs, r) \<Rightarrow> (fs, map_option EventFile r))
      in case readFileNoSymlink fs p of
           Inl ErrNotExist \<Rightarrow> write []
         | Inl err \<Rightarrow> (fs, Some (EventFile err))
         | Inr c \<Rightarrow> (case transcript_of decode c of None \<Rightarrow> (fs, Some TranscriptDecode) | Some es \<Rightarrow> write es))"

text \<open>The event given to them has its time and payload set.\<close>

definition event_payload :: "worker_event \<Rightarrow> (string \<times> json) list" where
  "event_payload e = (case ev_payload e of None \<Rightarrow> [] | Some p \<Rightarrow> p)"

definition event_time :: "worker_event \<Rightarrow> nanos" where
  "event_time e = (case ev_timestamp e of None \<Rightarrow> 0 | Some t \<Rightarrow> t)"

definition caption_speaker :: "worker_event \<Rightarrow> string" where
  "caption_speaker e = firstPayloadString (event_payload e) [''speaker_display_name'', ''display_name'']"

definition caption_text :: "worker_event \<Rightarrow> string" where
  "caption_text e = trim_space (case payload_string (event_payload e) ''text'' of None \<Rightarrow> [] | Some s \<Rightarrow> s)"

definition event_cue :: "(string \<Rightarrow> nanos option) \<Rightarrow> worker_event \<Rightarrow> string" where
  "event_cue parse e =
     (case caption_times parse (event_payload e) (event_time e) of
        (start, end_time) \<Rightarrow> caption_cue start end_time
          (if caption_speaker e \<noteq> [] then caption_speaker e @ '': '' @ caption_text e else caption_text e))"

definition event_transcript :: "(string \<Rightarrow> nanos option) \<Rightarrow> worker_event \<Rightarrow> transcript_entry" where
  "event_transcript parse e =
     (let p = event_payload e; t = event_time e
      in case caption_times parse p t of
           (start, end_time) \<Rightarrow>
             \<lparr>tr_event_id = ev_id e, tr_utterance_id = firstPayloadString p [''utterance_id''],
               tr_revision = payloadInt p ''revision'', tr_timestamp = t, tr_started_at = start,
               tr_updated_at = payloadTime parse p ''updated_at'' t, tr_ended_at = end_time,
               tr_text = caption_text e, tr_speaker_user_id = firstPayloadString p [''speaker_user_id''],
               tr_speaker_display_name = caption_speaker e, tr_confidence = payloadFloat p ''confidence'',
               tr_finalization_reason = firstPayloadString p [''finalization_reason''],
               tr_source = firstPayloadString p [''source''], tr_final = True\<rparr>)"

definition appendCaption ::
  "event_env \<Rightarrow> sidecar_chunk list fs \<Rightarrow> layout \<Rightarrow> worker_event \<Rightarrow> sidecar_chunk list fs \<times> event_error option" where
  "appendCaption env fs l e =
     (if caption_text e = [] then (fs, Some CaptionTextRequired)
      else case ensureVTT (denies env) fs (tmpCaptions l) of
             (fs, Some err) \<Rightarrow> (fs, Some (EventFile err))
           | (fs, None) \<Rightarrow>
               case appendFile (denies env) fs (tmpCaptions l) [Chunk (event_cue (rfc3339 env) e)] of
                 (fs, Some err) \<Rightarrow> (fs, Some (EventFile err))
               | (fs, None) \<Rightarrow>
                   appendTranscript (denies env) (decodes env) fs (tmpTranscript l) (event_transcript (rfc3339 env) e))"

section \<open>Events\<close>

definition eventDedupeKey :: "worker_event \<Rightarrow> string" where
  "eventDedupeKey e =
     (let p = event_payload e;
          utterance = (if ev_type e = ''caption.final'' then firstPayloadString p [''utterance_id''] else []);
          i = trim_space (ev_id e)
      in if utterance \<noteq> [] then ev_stream e @ [CHR 0x00] @ ''caption.final'' @ [CHR 0x00] @ utterance
         else if i = [] then [] else ev_stream e @ [CHR 0x00] @ i)"

definition events_trim :: "(seen \<Rightarrow> seen) \<Rightarrow> int \<Rightarrow> seen \<Rightarrow> seen" where
  "events_trim arr max_seen = trim_seen arr 2000 max_seen"

definition remember_event :: "worker_event \<Rightarrow> events_manager \<Rightarrow> events_manager" where
  "remember_event e m =
     (let es = (case map_of (recent m) (ev_stream e) of None \<Rightarrow> [] | Some es \<Rightarrow> es) @ [e];
          es = (if maxRecent m < int (length es) then drop (length es - nat (maxRecent m)) es else es)
      in m\<lparr>recent := AList.update (ev_stream e) es (recent m)\<rparr>)"

text \<open>The checks and defaults of \<^verbatim>\<open>Add\<close> before the lock.\<close>

definition event_checked :: "worker_event \<Rightarrow> event_error option" where
  "event_checked e =
     (if trim_space (ev_stream e) = [] then Some StreamIDRequired
      else if trim_space (ev_type e) = [] then Some EventTypeRequired
      else if trim_space (ev_id e) = [] then Some EventIDRequired
      else if \<not> has_prefix (ev_type e) ''overlay.'' \<and> \<not> has_prefix (ev_type e) ''caption.'' then Some EventTypePrefix
      else None)"

definition event_filled :: "nanos \<Rightarrow> worker_event \<Rightarrow> worker_event" where
  "event_filled now e = e\<lparr>ev_timestamp := Some (case ev_timestamp e of None \<Rightarrow> now | Some t \<Rightarrow> t),
     ev_payload := Some (safePayload (event_payload e))\<rparr>"

text \<open>The section under the lock.\<close>

definition generation_step :: "worker_event \<Rightarrow> events_manager \<Rightarrow> events_manager option" where
  "generation_step e m =
     (let latest = (case map_of (latestGeneration m) (ev_stream e) of None \<Rightarrow> 0 | Some g \<Rightarrow> g)
      in if ev_generation e = 0 then Some m
         else if 0 < latest \<and> ev_generation e < latest then None
         else if latest < ev_generation e
              then Some (m\<lparr>latestGeneration := AList.update (ev_stream e) (ev_generation e) (latestGeneration m)\<rparr>)
              else Some m)"

definition event_line_of :: "worker_event \<Rightarrow> event_line" where
  "event_line_of e = \<lparr>el_timestamp = event_time e, el_stream = ev_stream e,
     el_id = ev_id e, el_attempt = ev_attempt e, el_type = ev_type e,
     el_payload = event_payload e\<rparr>"

definition event_accepted :: "worker_event \<Rightarrow> event_result" where
  "event_accepted e = \<lparr>er_accepted = True, er_duplicate = False, er_stream = ev_stream e, er_id = ev_id e,
     er_type = ev_type e, er_logs = ''logs.jsonl'', er_captions = [], er_transcript = []\<rparr>"

definition event_duplicate :: "worker_event \<Rightarrow> event_result" where
  "event_duplicate e = \<lparr>er_accepted = True, er_duplicate = True, er_stream = ev_stream e, er_id = ev_id e,
     er_type = ev_type e, er_logs = [], er_captions = [], er_transcript = []\<rparr>"

definition store_event ::
  "event_env \<Rightarrow> layout \<Rightarrow> worker_event \<Rightarrow> sidecar_chunk list fs \<Rightarrow> events_manager
    \<Rightarrow> sidecar_chunk list fs \<times> events_manager \<times> (event_error + event_result)" where
  "store_event env l e fs m =
     (case appendFile (denies env) fs (tmpLogs l) [Line (event_line_of e)] of
        (fs, Some err) \<Rightarrow> (fs, m, Inl (EventFile err))
      | (fs, None) \<Rightarrow>
          if ev_type e = ''caption.final''
          then case appendCaption env fs l e of
                 (fs, Some err) \<Rightarrow> (fs, m, Inl err)
               | (fs, None) \<Rightarrow> (fs, remember_event e m, Inr ((event_accepted e)\<lparr>er_captions := ''captions.vtt'', er_transcript := ''transcript.json''\<rparr>))
          else (fs, remember_event e m, Inr (event_accepted e)))"

definition add_locked ::
  "event_env \<Rightarrow> (seen \<Rightarrow> seen) \<Rightarrow> layout \<Rightarrow> worker_event \<Rightarrow> sidecar_chunk list fs
    \<Rightarrow> events_manager \<Rightarrow> sidecar_chunk list fs \<times> events_manager \<times> (event_error + event_result)" where
  "add_locked env arr l e fs m =
     (case generation_step e m of
        None \<Rightarrow> (fs, m, Inl StaleGeneration)
      | Some m \<Rightarrow>
          let key = eventDedupeKey e
          in if key = [] then store_event env l e fs m
             else case offer key (event_time e) (seen_events m) of
                    (False, s) \<Rightarrow> (fs, m, Inr (event_duplicate e))
                  | (True, s) \<Rightarrow> store_event env l e fs (m\<lparr>seen_events := events_trim arr (maxSeen m) s\<rparr>))"

definition addEvent ::
  "event_env \<Rightarrow> (seen \<Rightarrow> seen) \<Rightarrow> (nat \<Rightarrow> bool) \<Rightarrow> path \<Rightarrow> nanos \<Rightarrow> worker_event
    \<Rightarrow> sidecar_chunk list fs \<Rightarrow> events_manager \<Rightarrow> sidecar_chunk list fs \<times> events_manager \<times> (event_error + event_result)" where
  "addEvent env arr uni archive_root now e fs m =
     (case event_checked e of
        Some err \<Rightarrow> (fs, m, Inl err)
      | None \<Rightarrow>
          case newLayout uni archive_root (ev_stream e) of
            None \<Rightarrow> (fs, m, Inl EventLayout)
          | Some l \<Rightarrow>
              case ensureDirNoSymlinks (denies env) fs (RootDir l) (tmpDir l) of
                (fs, Some err) \<Rightarrow> (fs, m, Inl (EventFile err))
              | (fs, None) \<Rightarrow> add_locked env arr l (event_filled now e) fs m)"

definition recentEvents :: "(nat \<Rightarrow> bool) \<Rightarrow> path \<Rightarrow> string \<Rightarrow> events_manager \<Rightarrow> event_error + worker_event list" where
  "recentEvents uni archive_root streamID m =
     (if trim_space streamID = [] then Inl StreamIDRequired
      else case newLayout uni archive_root streamID of
             None \<Rightarrow> Inl EventLayout
           | Some l \<Rightarrow> Inr (case map_of (recent m) streamID of None \<Rightarrow> [] | Some es \<Rightarrow> es))"

section \<open>What an event does to the files\<close>

definition line_key :: "event_line \<Rightarrow> string" where
  "line_key x = eventDedupeKey \<lparr>ev_id = el_id x, ev_stream = el_stream x, ev_service = [],
     ev_generation = 0, ev_attempt = el_attempt x, ev_type = el_type x, ev_payload = Some (el_payload x),
     ev_timestamp = None\<rparr>"

fun log_keys :: "sidecar_chunk list \<Rightarrow> string list" where
  "log_keys [] = []"
| "log_keys (Line x # cs) = line_key x # log_keys cs"
| "log_keys (_ # cs) = log_keys cs"

lemma log_keys_append [simp]: "log_keys (a @ b) = log_keys a @ log_keys b"
  by (induction a rule: log_keys.induct) auto

lemma line_key_of [simp]: "line_key (event_line_of e) = eventDedupeKey e"
  by (simp add: line_key_def event_line_of_def eventDedupeKey_def event_payload_def Let_def)

lemma layout_files [simp]:
  "tmpLogs l = tmpDir l @ [''logs.jsonl'']" "tmpCaptions l = tmpDir l @ [''captions.vtt'']"
  "tmpTranscript l = tmpDir l @ [''transcript.json'']"
  by (simp_all add: layout_file_defs)

lemma clean_path_snoc [simp]: "clean_path (p @ [w]) \<longleftrightarrow> clean_path p \<and> w \<noteq> [] \<and> w \<noteq> ''.''"
  by (auto simp: clean_path_def)

lemma clean_tmpDir: "clean_path (RootDir l) \<Longrightarrow> clean_path (tmpDir l)"
  unfolding tmpDir_def by (rule path_join_clean)

text \<open>The files whose keys are kept; a transcript that is rewritten has none.\<close>

definition keeps_keys :: "sidecar_chunk list fs \<Rightarrow> sidecar_chunk list fs \<Rightarrow> bool" where
  "keeps_keys fs fs' \<longleftrightarrow> (\<forall>q. log_keys (file_content fs' q) = log_keys (file_content fs q)
     \<or> log_keys (file_content fs' q) = [])"

lemma keeps_keys_trans: "keeps_keys a b \<Longrightarrow> keeps_keys b c \<Longrightarrow> keeps_keys a c"
  unfolding keeps_keys_def by metis

lemma ensureVTT_files:
  assumes "ensureVTT deny fs p = (fs', r)" and "clean_path p"
  shows "keeps_keys fs fs'" and "q \<noteq> p \<Longrightarrow> file_content fs' q = file_content fs q"
proof -
  have f: "file_content fs' q = file_content fs q \<or> q = p \<and> file_content fs' q = [Chunk (''WEBVTT'' @ newline)]" for q
    using assms write_file_content [of deny fs p "[Chunk (''WEBVTT'' @ newline)]" fs' r q]
    by (auto simp: ensureVTT_def split: option.splits node.splits if_splits)
  then show "keeps_keys fs fs'" unfolding keeps_keys_def by (metis log_keys.simps(1,3))
  show "q \<noteq> p \<Longrightarrow> file_content fs' q = file_content fs q" using f by blast
qed

lemma appendTranscript_files:
  assumes "appendTranscript deny decode fs p e = (fs', r)" and "clean_path p"
  shows "keeps_keys fs fs'" and "q \<noteq> p \<Longrightarrow> file_content fs' q = file_content fs q"
proof -
  have f: "file_content fs' q = file_content fs q \<or> q = p \<and> (\<exists>es. file_content fs' q = [Entries es])" for q
    using assms(1) write_file_content [OF _ assms(2)]
    by (fastforce simp: appendTranscript_def Let_def
        split: sum.splits fs_error.splits option.splits prod.splits if_splits)
  then show "keeps_keys fs fs'" unfolding keeps_keys_def by (metis log_keys.simps(1,4))
  show "q \<noteq> p \<Longrightarrow> file_content fs' q = file_content fs q" using f by blast
qed

lemma append_chunk_files:
  assumes "appendFile deny fs p [Chunk s] = (fs', r)" and "clean_path p"
  shows "keeps_keys fs fs'" and "q \<noteq> p \<Longrightarrow> file_content fs' q = file_content fs q"
proof -
  have f: "file_content fs' q = file_content fs q \<or> q = p \<and> file_content fs' q = file_content fs q @ [Chunk s]" for q
    using append_file_content [OF assms] by auto
  then show "keeps_keys fs fs'" unfolding keeps_keys_def by (metis log_keys.simps(1,3) log_keys_append append_Nil2)
  show "q \<noteq> p \<Longrightarrow> file_content fs' q = file_content fs q" using f by blast
qed

lemma keeps_keys_refl [simp]: "keeps_keys fs fs"
  by (simp add: keeps_keys_def)

lemma appendCaption_files:
  assumes a: "appendCaption env fs l e = (fs', r)" and c: "clean_path (RootDir l)"
  shows "keeps_keys fs fs'" and "q \<notin> {tmpCaptions l, tmpTranscript l} \<Longrightarrow> file_content fs' q = file_content fs q"
proof -
  have cp: "clean_path (tmpCaptions l)" "clean_path (tmpTranscript l)" using clean_tmpDir [OF c] by simp_all
  let ?s = "event_cue (rfc3339 env) e" and ?x = "event_transcript (rfc3339 env) e"
  obtain fs1 r1 where v: "ensureVTT (denies env) fs (tmpCaptions l) = (fs1, r1)" by fastforce
  obtain fs2 r2 where w: "appendFile (denies env) fs1 (tmpCaptions l) [Chunk ?s] = (fs2, r2)" by fastforce
  obtain fs3 r3 where x: "appendTranscript (denies env) (decodes env) fs2 (tmpTranscript l) ?x = (fs3, r3)" by fastforce
  consider "fs' = fs" | "fs' = fs1" | "fs' = fs2" | "fs' = fs3"
    using a v w x by (auto simp: appendCaption_def simp del: layout_files split: if_splits option.splits)
  note cases = this
  note v = ensureVTT_files [OF v cp(1)] and w = append_chunk_files [OF w cp(1)]
    and x = appendTranscript_files [OF x cp(2)]
  show "keeps_keys fs fs'"
    by (cases rule: cases) (use v(1) w(1) x(1) in \<open>blast intro: keeps_keys_refl keeps_keys_trans\<close>)+
  show "file_content fs' q = file_content fs q" if "q \<notin> {tmpCaptions l, tmpTranscript l}"
    using that v(2) [of q] w(2) [of q] x(2) [of q] by (cases rule: cases) (simp_all del: layout_files)
qed

section \<open>One event\<close>

lemma store_event_files:
  assumes a: "store_event env l e fs m = (fs', m', r)" and c: "clean_path (RootDir l)"
  shows "keeps_keys fs fs' \<or> (\<forall>q. log_keys (file_content fs' q) = log_keys (file_content fs q)
      \<or> log_keys (file_content fs' q) = []
      \<or> q = tmpLogs l \<and> log_keys (file_content fs' q) = log_keys (file_content fs q) @ [eventDedupeKey e])"
    and "r = Inr er \<Longrightarrow> file_content fs' (tmpLogs l) = file_content fs (tmpLogs l) @ [Line (event_line_of e)]
      \<and> \<not> er_duplicate er \<and> m' = remember_event e m"
    and "r = Inl err \<Longrightarrow> m' = m"
proof -
  obtain fs1 r1 where l: "appendFile (denies env) fs (tmpLogs l) [Line (event_line_of e)] = (fs1, r1)" by fastforce
  obtain fs2 r2 where k: "appendCaption env fs1 l e = (fs2, r2)" by fastforce
  have cl: "clean_path (tmpLogs l)" using clean_tmpDir [OF c] by simp
  note l' = append_file_content [OF l cl] and k' = appendCaption_files [OF k c]
  have f: "fs' = fs1 \<or> fs' = fs2"
    using a l k by (auto simp: store_event_def simp del: layout_files split: if_splits option.splits)
  have ok: "(r1 = None \<or> r = Inl (EventFile (the r1)) \<and> m' = m)
      \<and> (r1 = None \<longrightarrow> r = Inr er \<longrightarrow> \<not> er_duplicate er \<and> m' = remember_event e m) \<and> (r = Inl err \<longrightarrow> m' = m)" for er err
    using a l k by (auto simp: store_event_def event_accepted_def simp del: layout_files split: if_splits option.splits)
  have keys: "log_keys (file_content fs1 q) = log_keys (file_content fs q)
      \<or> q = tmpLogs l \<and> log_keys (file_content fs1 q) = log_keys (file_content fs q) @ [eventDedupeKey e]" for q
    using l' [of q] by (simp del: layout_files)
  have "log_keys (file_content fs' q) = log_keys (file_content fs1 q) \<or> log_keys (file_content fs' q) = []" for q
    using f k'(1) unfolding keeps_keys_def by blast
  with keys show "keeps_keys fs fs' \<or> (\<forall>q. log_keys (file_content fs' q) = log_keys (file_content fs q)
      \<or> log_keys (file_content fs' q) = []
      \<or> q = tmpLogs l \<and> log_keys (file_content fs' q) = log_keys (file_content fs q) @ [eventDedupeKey e])"
    by metis
  have "file_content fs' (tmpLogs l) = file_content fs1 (tmpLogs l)" using f k'(2) [of "tmpLogs l"] by auto
  then show "r = Inr er \<Longrightarrow> file_content fs' (tmpLogs l) = file_content fs (tmpLogs l) @ [Line (event_line_of e)]
      \<and> \<not> er_duplicate er \<and> m' = remember_event e m"
    using ok l' [of "tmpLogs l"] by (cases r1) (auto simp del: layout_files)
  show "r = Inl err \<Longrightarrow> m' = m" using ok by blast
qed

lemma generation_step_fields:
  "generation_step e m = Some m' \<Longrightarrow> seen_events m' = seen_events m \<and> recent m' = recent m \<and> maxSeen m' = maxSeen m
     \<and> maxRecent m' = maxRecent m"
  by (auto simp: generation_step_def Let_def split: if_splits)

lemma remember_event_fields [simp]:
  "seen_events (remember_event e m) = seen_events m" "maxSeen (remember_event e m) = maxSeen m"
  "latestGeneration (remember_event e m) = latestGeneration m"
  by (simp_all add: remember_event_def Let_def)

lemma checked_key: "event_checked e = None \<Longrightarrow> eventDedupeKey (event_filled now e) \<noteq> []"
  by (auto simp: event_checked_def eventDedupeKey_def event_filled_def Let_def split: if_splits)

text \<open>How \<open>addEvent\<close> ends.\<close>

lemma addEvent_cases:
  assumes a: "addEvent env arr uni rt now e fs m = (fs', m', r)" and c: "wf_root rt"
  obtains (early) err where "m' = m" "r = Inl err" "\<forall>q. file_content fs' q = file_content fs q"
  | (dup) m1 t l where "newLayout uni rt (ev_stream e) = Some l" "generation_step (event_filled now e) m = Some m1"
      "map_of (seen_events m) (eventDedupeKey (event_filled now e)) = Some t" "m' = m1"
      "r = Inr (event_duplicate (event_filled now e))" "\<forall>q. file_content fs' q = file_content fs q"
  | (fresh) m1 l fs1 where "newLayout uni rt (ev_stream e) = Some l" "RootDir l = rt"
      "generation_step (event_filled now e) m = Some m1"
      "map_of (seen_events m) (eventDedupeKey (event_filled now e)) = None"
      "\<forall>q. file_content fs1 q = file_content fs q"
      "store_event env l (event_filled now e) fs1 (m1\<lparr>seen_events := events_trim arr (maxSeen m)
         (AList.update (eventDedupeKey (event_filled now e)) (event_time (event_filled now e)) (seen_events m))\<rparr>)
       = (fs', m', r)"
proof (cases "event_checked e")
  case (Some err)
  with a show ?thesis by (intro early [of err]) (auto simp: addEvent_def)
next
  case None
  note key = checked_key [OF None, of now]
  show ?thesis
  proof (cases "newLayout uni rt (ev_stream e)")
    case None
    with a \<open>event_checked e = None\<close> show ?thesis by (auto simp: addEvent_def intro: early)
  next
    case (Some l)
    then have rl: "RootDir l = rt" by (auto simp: newLayout_fields)
    obtain fs1 r1 where d: "ensureDirNoSymlinks (denies env) fs (RootDir l) (tmpDir l) = (fs1, r1)" by fastforce
    have cr: "RootDir l \<noteq> []" "clean_path (tmpDir l)" using c rl clean_tmpDir [of l] by (auto simp: wf_root_def clean_path_def)
    have "adds_dirs fs fs1 (tmpDir l)" using ensure_dir_frame [OF d cr(1)] cr(2) by (simp add: clean_path_def)
    then have f1: "\<forall>q. file_content fs1 q = file_content fs q" using adds_dirs_content by blast
    show ?thesis
    proof (cases "r1 = None \<and> generation_step (event_filled now e) m \<noteq> None")
      case False
      with a \<open>event_checked e = None\<close> Some d have "m' = m \<and> isl r \<and> fs' = fs1"
        by (auto simp: addEvent_def add_locked_def split: option.splits)
      with f1 show ?thesis by (intro early [of "projl r"]) auto
    next
      case True
      then obtain m1 where g: "generation_step (event_filled now e) m = Some m1" by blast
      note gf = generation_step_fields [OF g]
      show ?thesis
      proof (cases "map_of (seen_events m) (eventDedupeKey (event_filled now e))")
        case None
        with a \<open>event_checked e = None\<close> Some d True g gf key f1 rl fresh show ?thesis
          by (simp add: addEvent_def add_locked_def offer_def)
      next
        case (Some t)
        with a \<open>event_checked e = None\<close> \<open>newLayout uni rt (ev_stream e) = Some l\<close> d True g gf key f1 dup show ?thesis
          by (simp add: addEvent_def add_locked_def offer_def)
      qed
    qed
  qed
qed

section \<open>Runs\<close>

interpretation events_seen: seen_table 2000 "events_trim (sort_key snd) 2000"
  using seen_table_trim [of "sort_key snd" 2000 2000]
  by (simp add: arranges_def events_trim_def [abs_def] Let_def)

lemma events_table:
  "arranges arr \<Longrightarrow> seen_table (if max_seen \<le> 0 then 2000 else nat max_seen) (events_trim arr max_seen)"
  unfolding events_trim_def [abs_def] by (rule seen_table_trim)

text \<open>Events one after the other, each offered at its time.\<close>

definition event_run ::
  "event_env \<Rightarrow> (seen \<Rightarrow> seen) \<Rightarrow> (nat \<Rightarrow> bool) \<Rightarrow> path \<Rightarrow> (nanos \<times> worker_event) list
    \<Rightarrow> sidecar_chunk list fs \<times> events_manager \<Rightarrow> sidecar_chunk list fs \<times> events_manager" where
  "event_run env arr uni archive_root steps start = foldl (\<lambda>(fs, m) (now, e).
     case addEvent env arr uni archive_root now e fs m of (fs, m, r) \<Rightarrow> (fs, m)) start steps"

text \<open>Every logged key is known, and is in its file once.\<close>

definition log_ok :: "sidecar_chunk list fs \<Rightarrow> events_manager \<Rightarrow> bool" where
  "log_ok fs m \<longleftrightarrow> distinct (map fst (seen_events m))
     \<and> (\<forall>q. distinct (log_keys (file_content fs q))
         \<and> set (log_keys (file_content fs q)) \<subseteq> dom (map_of (seen_events m)))"

lemma addEvent_log_ok:
  assumes a: "addEvent env arr uni rt now e fs m = (fs', m', r)" and rt: "wf_root rt" and arr: "arranges arr"
    and ok: "log_ok fs m" and room: "int (length (seen_events m)) < maxSeen m"
  shows "log_ok fs' m' \<and> length (seen_events m') \<le> Suc (length (seen_events m)) \<and> maxSeen m' = maxSeen m"
  using a rt
proof (cases rule: addEvent_cases)
  case early
  with ok show ?thesis by (simp add: log_ok_def)
next
  case (dup m1 t l)
  with ok generation_step_fields [OF dup(2)] show ?thesis by (simp add: log_ok_def)
next
  case (fresh m1 l fs1)
  let ?k = "eventDedupeKey (event_filled now e)" and ?t = "event_time (event_filled now e)"
  let ?s = "AList.update ?k ?t (seen_events m)"
  note gf = generation_step_fields [OF fresh(3)]
  have same: "events_trim arr (maxSeen m) ?s = ?s"
    by (rule seen_table.room_exact [OF events_table [OF arr, of "maxSeen m"]]) (use room in auto)
  have len: "length ?s = Suc (length (seen_events m))" using fresh(4) by (rule length_update_new)
  note st = fresh(6) [unfolded same]
  have c: "clean_path (RootDir l)" using rt fresh(2) by (simp add: wf_root_def clean_path_def)
  have m': "seen_events m' = ?s \<and> maxSeen m' = maxSeen m"
    using store_event_files(2,3) [OF st c] gf by (cases r) fastforce+
  have known: "dom (map_of ?s) = insert ?k (dom (map_of (seen_events m)))" by (simp add: dom_update update_conv')
  have "distinct (log_keys (file_content fs' q)) \<and> set (log_keys (file_content fs' q)) \<subseteq> dom (map_of ?s)" for q
  proof -
    have o: "distinct (log_keys (file_content fs q))" "set (log_keys (file_content fs q)) \<subseteq> dom (map_of (seen_events m))"
      using ok by (simp_all add: log_ok_def)
    have new: "?k \<notin> set (log_keys (file_content fs q))" using o(2) fresh(4) by auto
    have f1: "log_keys (file_content fs1 q) = log_keys (file_content fs q)" using fresh(5) by simp
    have "log_keys (file_content fs' q) \<in> {log_keys (file_content fs q), [], log_keys (file_content fs q) @ [?k]}"
      using store_event_files(1) [OF st c] f1 unfolding keeps_keys_def by (metis insertI1 insertI2)
    with o new known show ?thesis by auto
  qed
  with m' len ok show ?thesis by (simp add: log_ok_def distinct_update)
qed

section \<open>Examples\<close>

definition sample_event :: "string \<Rightarrow> worker_event" where
  "sample_event i = \<lparr>ev_id = i, ev_stream = ''s1'', ev_service = [], ev_generation = 3, ev_attempt = 1,
     ev_type = ''overlay.updated'', ev_payload = Some [(''revision'', JNum 3)], ev_timestamp = Some 7\<rparr>"

definition sample_env :: event_env where
  "sample_env = \<lparr>denies = (\<lambda>_. False), rfc3339 = (\<lambda>_. None), decodes = (\<lambda>_. None)\<rparr>"

lemma sample_run:
  "log_keys (file_content (fst (event_run sample_env (sort_key snd) (\<lambda>_. False) [''a'']
     [(8, sample_event ''e''), (9, sample_event ''e''), (9, sample_event ''f'')] (Map.empty, newEventsManager)))
     [''a'', ''tmp'', ''s1'', ''logs.jsonl'']) = [''s1'' @ [CHR 0x00] @ ''e'', ''s1'' @ [CHR 0x00] @ ''f'']"
  by code_simp

lemma sample_args [simp]: "arranges (sort_key snd)" "wf_root [''a'']"
  by (simp_all add: arranges_def wf_root_def)

text \<open>
  C12. Among the first 2000 events offered to a new manager, whatever their order, their times, which are
  repeated, which fail and in which streams they are, no event and no caption utterance is in a log twice:
  the lines of any file have distinct keys.
\<close>

theorem worker_events_logged_once:
  assumes "arranges arr" and "wf_root archive_root" and "\<forall>q. log_keys (file_content fs q) = []"
    and "length steps \<le> 2000"
  shows "distinct (log_keys (file_content (fst (event_run env arr uni archive_root steps (fs, newEventsManager))) q))"
proof -
  have "log_ok (fst x) (snd x) \<and> length (seen_events (snd x)) \<le> length steps \<and> maxSeen (snd x) = 2000"
    if "x = event_run env arr uni archive_root steps (fs, newEventsManager)" "length steps \<le> 2000" for steps x
    using that
  proof (induction steps arbitrary: x rule: rev_induct)
    case Nil
    then show ?case using assms(3) by (simp add: event_run_def newEventsManager_def log_ok_def)
  next
    case (snoc step steps)
    obtain fs1 m1 where 1: "event_run env arr uni archive_root steps (fs, newEventsManager) = (fs1, m1)" by fastforce
    obtain now e where s: "step = (now, e)" by fastforce
    obtain fs2 m2 r where 2: "addEvent env arr uni archive_root now e fs1 m1 = (fs2, m2, r)" by (metis surj_pair)
    have x: "x = (fs2, m2)" using snoc.prems(1) 1 2 s by (simp add: event_run_def)
    have ih: "log_ok fs1 m1" "length (seen_events m1) \<le> length steps" "maxSeen m1 = 2000"
      using snoc.IH [OF 1 [symmetric]] snoc.prems(2) by simp_all
    have "int (length (seen_events m1)) < maxSeen m1" using ih snoc.prems(2) by simp
    from addEvent_log_ok [OF 2 assms(2,1) ih(1) this] ih x show ?case by simp
  qed
  from this [OF refl assms(4)] show ?thesis by (simp add: log_ok_def)
qed

theorem worker_events_logged_once_witness:
  "(let x = event_run sample_env (sort_key snd) (\<lambda>_. False) [''a'']
       [(8, sample_event ''e''), (9, sample_event ''e''), (9, sample_event ''f'')] (Map.empty, newEventsManager);
     keys = log_keys (file_content (fst x) [''a'', ''tmp'', ''s1'', ''logs.jsonl''])
   in length keys = 2 \<and> distinct keys)"
  using worker_events_logged_once [of "sort_key snd" "[''a'']" Map.empty
      "[(8, sample_event ''e''), (9, sample_event ''e''), (9, sample_event ''f'')]" sample_env "\<lambda>_. False"
      "[''a'', ''tmp'', ''s1'', ''logs.jsonl'']"] sample_run
  by (simp add: Let_def file_content_def)



text \<open>
  An event whose log line cannot be written is lost: its key is taken in before the write and stays, so when
  the worker sends the event again (with the same time, to a disk that works again) it is told that
  the event is a duplicate, and nothing is written or remembered.
\<close>

theorem worker_event_lost:
  assumes "arranges arr" and "wf_root archive_root" and "distinct (map fst (seen_events m))" and "0 < maxSeen m"
    and time: "ev_timestamp e = Some t" and "\<forall>k' t'. map_of (seen_events m) k' = Some t' \<longrightarrow> t' < t"
    and new: "map_of (seen_events m) (eventDedupeKey (event_filled now e)) = None"
    and failed: "addEvent env arr uni archive_root now e fs m = (fs', m', Inl err)"
    and late: "generation_step (event_filled now e) m \<noteq> None" "event_checked e = None"
      "newLayout uni archive_root (ev_stream e) = Some l"
      "ensureDirNoSymlinks (denies env) fs archive_root (tmpDir l) = (fs1, None)"
    and retry: "addEvent env' arr uni archive_root now' e fs2 m' = (fs3, m3, r)"
      "ensureDirNoSymlinks (denies env') fs2 archive_root (tmpDir l) = (fs4, None)"
  shows "r = Inr (event_duplicate e) \<and> recent m3 = recent m
    \<and> (\<forall>q. file_content fs3 q = file_content fs2 q)"
proof -
  have key: "event_filled now' e = event_filled now e" using time by (simp add: event_filled_def)
  have rl: "RootDir l = archive_root" using late(3) by (auto simp: newLayout_fields)
  obtain m1 where g: "generation_step (event_filled now e) m = Some m1" using late(1) by blast
  note gf = generation_step_fields [OF g]
  let ?k = "eventDedupeKey (event_filled now e)"
  let ?s = "events_trim arr (maxSeen m) (AList.update ?k t (seen_events m))"
  have st: "store_event env l (event_filled now e) fs1 (m1\<lparr>seen_events := ?s\<rparr>) = (fs', m', Inl err)"
    using failed late(2-4) rl g gf new checked_key [OF late(2), of now] time
    by (simp add: addEvent_def add_locked_def offer_def) (simp add: event_time_def event_filled_def)
  have c: "clean_path (RootDir l)" using assms(2) rl by (simp add: wf_root_def clean_path_def)
  have m': "m' = m1\<lparr>seen_events := ?s\<rparr>" by (rule store_event_files(3) [OF st c refl])
  have known: "map_of ?s ?k = Some t"
    by (rule seen_table.newest_known [OF events_table [OF assms(1)] assms(3) new]) (use assms(4,6) in auto)
  have g': "generation_step (event_filled now e) m' \<noteq> None"
    using g m' by (auto simp: generation_step_def Let_def update_conv' split: if_splits option.splits)
  show ?thesis
    using retry(1) assms(2)
  proof (cases rule: addEvent_cases)
    case (early err')
    then show ?thesis using retry late(2,3) rl g' known key checked_key [OF late(2), of now] m'
      by (auto simp: addEvent_def add_locked_def offer_def generation_step_fields split: option.splits)
  next
    case (dup m2 t2 l2)
    then show ?thesis using generation_step_fields [OF dup(2)] gf m'
      by (simp add: event_duplicate_def event_filled_def)
  next
    case (fresh m2 l2 fs5)
    then show ?thesis using known m' key by simp
  qed
qed

theorem worker_event_lost_witness:
  "case addEvent (sample_env\<lparr>denies := (\<lambda>p. last p = ''logs.jsonl'')\<rparr>) (sort_key snd) (\<lambda>_. False) [''a''] 8
     (sample_event ''e'') Map.empty newEventsManager of
     (fs', m', Inl err) \<Rightarrow>
       (case addEvent sample_env (sort_key snd) (\<lambda>_. False) [''a''] 9 (sample_event ''e'') fs' m' of
          (fs3, m3, r) \<Rightarrow> r = Inr (event_duplicate (sample_event ''e'')) \<and> (\<forall>q. file_content fs3 q = file_content fs' q))
   | _ \<Rightarrow> False"
proof -
  let ?env = "sample_env\<lparr>denies := (\<lambda>p. last p = ''logs.jsonl'')\<rparr>" and ?e = "sample_event ''e''"
    and ?l = "\<lparr>RootDir = [''a''], StreamID = ''s1'', ArchiveRunID = []\<rparr>"
  obtain fs' m' r where a: "addEvent ?env (sort_key snd) (\<lambda>_. False) [''a''] 8 ?e Map.empty newEventsManager = (fs', m', r)"
    by (metis surj_pair)
  have "isl (snd (snd (addEvent ?env (sort_key snd) (\<lambda>_. False) [''a''] 8 ?e Map.empty newEventsManager)))"
    by code_simp
  then obtain err where r: "r = Inl err" using a by (cases r) auto
  obtain fs3 m3 r3 where b: "addEvent sample_env (sort_key snd) (\<lambda>_. False) [''a''] 9 ?e fs' m' = (fs3, m3, r3)"
    by (metis surj_pair)
  obtain fs1 where e1: "ensureDirNoSymlinks (denies ?env) (Map.empty :: sidecar_chunk list fs) [''a''] (tmpDir ?l) = (fs1, None)"
  proof -
    have "snd (ensureDirNoSymlinks (denies ?env) (Map.empty :: sidecar_chunk list fs) [''a''] (tmpDir ?l)) = None" by code_simp
    then show ?thesis using that by (metis prod.collapse)
  qed
  obtain fs4 where e2: "ensureDirNoSymlinks (denies sample_env) fs' [''a''] (tmpDir ?l) = (fs4, None)"
  proof -
    have "snd (ensureDirNoSymlinks (denies sample_env)
        (fst (addEvent ?env (sort_key snd) (\<lambda>_. False) [''a''] 8 ?e Map.empty newEventsManager)) [''a''] (tmpDir ?l)) = None"
      by code_simp
    then show ?thesis using that a by (metis fst_conv prod.collapse)
  qed
  have "generation_step (event_filled 8 ?e) newEventsManager \<noteq> None" "event_checked ?e = None"
    "newLayout (\<lambda>_. False) [''a''] (ev_stream ?e) = Some ?l" by code_simp+
  then have "r3 = Inr (event_duplicate ?e) \<and> recent m3 = recent newEventsManager
      \<and> (\<forall>q. file_content fs3 q = file_content fs' q)"
    using a r b e1 e2 worker_event_lost [of "sort_key snd" "[''a'']" newEventsManager ?e 7 8 ?env "\<lambda>_. False" Map.empty fs' m' err
        ?l fs1 sample_env 9 fs' fs3 m3 r3 fs4]
    by (simp add: newEventsManager_def sample_event_def)
  then show ?thesis unfolding a r by (simp add: b)
qed

end
