(* ===== verification/Packaging.thy ===== *)
theory Packaging
  imports Strings SidecarFiles ArchiveLayout Jobs
begin

text \<open>
  Packaging a recording: \<^verbatim>\<open>internal/lifecycle/archive_files.go\<close>, \<^verbatim>\<open>archive_upload.go\<close>,
  \<^verbatim>\<open>archive_retention.go\<close> and \<^verbatim>\<open>archive_package.go\<close>, over the file system of \<open>FileSystem\<close> with texts as
  the contents of files. What the system refuses to change is \<open>deny\<close>; nothing else changes the files between a
  check and the use of what was checked. FFmpeg, the uploader, the coding of the metadata as JSON, the
  listing of directories and the times of files are arguments.
\<close>

type_synonym text_fs = "string fs"

section \<open>Files\<close>

definition file_size :: "string node \<Rightarrow> nat" where
  "file_size n = (case n of Regular c \<Rightarrow> length c | _ \<Rightarrow> 0)"

definition safeRegularFileInfo :: "text_fs \<Rightarrow> path \<Rightarrow> fs_error + string node" where
  "safeRegularFileInfo fs p =
     (case fs p of
        None \<Rightarrow> Inl ErrNotExist
      | Some Symlink \<Rightarrow> Inl ErrSymlink
      | Some Dir \<Rightarrow> Inl ErrNotRegular
      | Some n \<Rightarrow> Inr n)"

definition rejectExistingSymlink :: "text_fs \<Rightarrow> path \<Rightarrow> fs_error option" where
  "rejectExistingSymlink fs p = (if fs p = Some Symlink then Some ErrSymlink else None)"

definition rejectArchiveDirSymlinks :: "text_fs \<Rightarrow> path \<Rightarrow> path \<Rightarrow> fs_error option" where
  "rejectArchiveDirSymlinks fs base dir =
     (case path_rel base dir of
        None \<Rightarrow> Some ErrEscapesRoot
      | Some rel \<Rightarrow>
          case fs base of
            None \<Rightarrow> Some ErrNotExist
          | Some Symlink \<Rightarrow> Some ErrSymlink
          | Some Dir \<Rightarrow> validate_parts fs base rel
          | Some _ \<Rightarrow> Some ErrNotDirectory)"

definition read_file :: "text_fs \<Rightarrow> path \<Rightarrow> fs_error + string" where
  "read_file fs p =
     (case safeRegularFileInfo fs p of
        Inl e \<Rightarrow> Inl e
      | Inr (Regular c) \<Rightarrow> Inr c
      | Inr _ \<Rightarrow> Inl ErrNotRegular)"

definition write_file :: "(path \<Rightarrow> bool) \<Rightarrow> text_fs \<Rightarrow> path \<Rightarrow> string \<Rightarrow> text_fs \<times> fs_error option" where
  "write_file deny fs p body =
     (case mkdir_all deny fs [] (butlast p) of
        (fs, Some e) \<Rightarrow> (fs, Some e)
      | (fs, None) \<Rightarrow>
          case fs p of
            Some Symlink \<Rightarrow> (fs, Some ErrSymlink)
          | Some Dir \<Rightarrow> (fs, Some ErrNotRegular)
          | Some Special \<Rightarrow> (fs, Some ErrNotRegular)
          | _ \<Rightarrow> if deny p then (fs, Some ErrPermission) else (fs(p \<mapsto> Regular body), None))"

definition copyFile :: "(path \<Rightarrow> bool) \<Rightarrow> text_fs \<Rightarrow> path \<Rightarrow> path \<Rightarrow> text_fs \<times> fs_error option" where
  "copyFile deny fs src dst =
     (case mkdir_all deny fs [] (butlast dst) of
        (fs, Some e) \<Rightarrow> (fs, Some e)
      | (fs, None) \<Rightarrow> (case read_file fs src of Inl e \<Rightarrow> (fs, Some e) | Inr body \<Rightarrow> write_file deny fs dst body))"

definition copyIfExists :: "(path \<Rightarrow> bool) \<Rightarrow> text_fs \<Rightarrow> path \<Rightarrow> path \<Rightarrow> text_fs \<times> fs_error option" where
  "copyIfExists deny fs src dst =
     (case safeRegularFileInfo fs src of
        Inl ErrNotExist \<Rightarrow> (fs, None)
      | Inl e \<Rightarrow> (fs, Some e)
      | Inr _ \<Rightarrow> copyFile deny fs src dst)"

text \<open>The name \<^verbatim>\<open>os.CreateTemp\<close> has found is an argument.\<close>

definition createRemuxOutput ::
  "(path \<Rightarrow> bool) \<Rightarrow> string \<Rightarrow> text_fs \<Rightarrow> path \<Rightarrow> path \<Rightarrow> text_fs \<times> (fs_error + path)" where
  "createRemuxOutput deny temp fs base dir =
     (case mkdir_all deny fs [] dir of
        (fs, Some e) \<Rightarrow> (fs, Inl e)
      | (fs, None) \<Rightarrow>
          case rejectArchiveDirSymlinks fs base dir of
            Some e \<Rightarrow> (fs, Inl e)
          | None \<Rightarrow>
              let p = path_join dir [temp]
              in if fs p \<noteq> None \<or> deny p then (fs, Inl ErrPermission) else (fs(p \<mapsto> Regular []), Inr p))"

text \<open>\<^verbatim>\<open>os.Remove\<close>: a directory goes only when it is empty.\<close>

definition os_remove :: "(path \<Rightarrow> bool) \<Rightarrow> (text_fs \<Rightarrow> path \<Rightarrow> string list) \<Rightarrow> text_fs \<Rightarrow> path \<Rightarrow> text_fs \<times> fs_error option" where
  "os_remove deny listing fs p =
     (case fs p of
        None \<Rightarrow> (fs, Some ErrNotExist)
      | Some n \<Rightarrow> if deny p \<or> n = Dir \<and> listing fs p \<noteq> [] then (fs, Some ErrPermission) else (fs(p := None), None))"

definition replaceFileNoSymlink ::
  "(path \<Rightarrow> bool) \<Rightarrow> (text_fs \<Rightarrow> path \<Rightarrow> string list) \<Rightarrow> text_fs \<Rightarrow> path \<Rightarrow> path \<Rightarrow> text_fs \<times> fs_error option" where
  "replaceFileNoSymlink deny listing fs src dst =
     (case safeRegularFileInfo fs src of
        Inl e \<Rightarrow> (fs, Some e)
      | Inr _ \<Rightarrow>
          case rejectExistingSymlink fs dst of
            Some e \<Rightarrow> (fs, Some e)
          | None \<Rightarrow>
              case os_remove deny listing fs dst of
                (fs, r) \<Rightarrow>
                  if r \<noteq> None \<and> r \<noteq> Some ErrNotExist then (fs, r)
                  else if deny src \<or> deny dst then (fs, Some ErrPermission)
                  else let fs = fs(src := None, dst := fs src)
                       in (case safeRegularFileInfo fs dst of Inl e \<Rightarrow> (fs, Some e) | Inr _ \<Rightarrow> (fs, None)))"

section \<open>Uploads\<close>

record upload_file =
  uf_local :: path
  uf_drive :: string
  uf_size :: nat

record upload_result =
  ur_dry :: bool
  ur_folder :: string
  ur_ids :: "(string \<times> string) list"
  ur_attempts :: int

definition zeroUpload :: upload_result where
  "zeroUpload = \<lparr>ur_dry = False, ur_folder = [], ur_ids = [], ur_attempts = 0\<rparr>"

text \<open>An uploader has a state of its own; it sees the files as they are when it is called.\<close>

type_synonym 'u uploader = "text_fs \<Rightarrow> upload_file list \<Rightarrow> 'u \<Rightarrow> 'u \<times> upload_result option"

definition mergeUploadResults :: "upload_result \<Rightarrow> upload_result \<Rightarrow> upload_result" where
  "mergeUploadResults primary meta =
     primary\<lparr>ur_folder := (if ur_folder primary = [] then ur_folder meta else ur_folder primary),
       ur_dry := ur_dry primary \<or> ur_dry meta,
       ur_attempts := (if ur_attempts primary < ur_attempts meta then ur_attempts meta else ur_attempts primary),
       ur_ids := foldl (\<lambda>ids (k, v). AList.update k v ids) (ur_ids primary) (ur_ids meta)\<rparr>"

definition control_to_underscore :: "string \<Rightarrow> string" where
  "control_to_underscore s = map (\<lambda>c. if (of_char c :: nat) < 32 \<or> (of_char c :: nat) = 127 then CHR ''_'' else c) s"

text \<open>\<^verbatim>\<open>strings.Map\<close> goes over the runes, and what is not UTF-8 it replaces.\<close>

function valid_bytes :: "string \<Rightarrow> string" where
  "valid_bytes s =
     (if s = [] then []
      else let (r, w, ok) = decode_rune s in (if ok then take w s else [CHR 0xEF, CHR 0xBF, CHR 0xBD]) @ valid_bytes (drop w s))"
  by pat_completeness auto
termination
  by (relation "measure length") (auto dest: decode_rune_shorter)

declare valid_bytes.simps [simp del]

definition archiveUploadFileName :: "string \<Rightarrow> string \<Rightarrow> string" where
  "archiveUploadFileName configured fallback =
     (let value = trim_space configured;
          value = (if value = [] then fallback else value);
          value = map (\<lambda>c. if c = CHR ''/'' \<or> c = CHR 0x5C then CHR ''_'' else c) value;
          value = control_to_underscore (valid_bytes value);
          value = trim_chars '' .'' value;
          value = (if value = [] then fallback else value)
      in if has_suffix (to_lower value) ''.mp4'' then value else value @ ''.mp4'')"

text \<open>The loop of \<^verbatim>\<open>collectArchiveFiles\<close> over its candidates.\<close>

fun collect_files :: "text_fs \<Rightarrow> (path \<times> string \<times> bool) list \<Rightarrow> fs_error + upload_file list" where
  "collect_files fs [] = Inr []"
| "collect_files fs ((p, drive, required) # cs) =
     (case safeRegularFileInfo fs p of
        Inl e \<Rightarrow> if required then Inl e else collect_files fs cs
      | Inr n \<Rightarrow> (case collect_files fs cs of
            Inl e \<Rightarrow> Inl e
          | Inr files \<Rightarrow> Inr (\<lparr>uf_local = p, uf_drive = drive, uf_size = file_size n\<rparr> # files)))"

definition collectArchiveFiles :: "text_fs \<Rightarrow> layout \<Rightarrow> archive_config \<Rightarrow> fs_error + upload_file list" where
  "collectArchiveFiles fs l cfg = collect_files fs
     [(finalMP4 l, archiveUploadFileName (ArchiveFileName cfg) ''final.mp4'', True),
      (finalCaptions l, ''captions.vtt'', False), (finalTranscript l, ''transcript.json'', False),
      (finalMetadata l, ''metadata.json'', False), (finalLogs l, ''logs.jsonl'', False)]"

text \<open>The metadata of an archive; \<open>md_extra\<close> is the map of further values.\<close>

record archive_metadata =
  md_stream :: string
  md_name :: string
  md_started :: int
  md_archive :: "(string \<times> string) list"
  md_upload :: upload_result
  md_extra :: "(string \<times> json) list"

definition split_metadata :: "path \<Rightarrow> upload_file list \<Rightarrow> upload_file \<times> upload_file list" where
  "split_metadata metadataPath files =
     (let ms = filter (\<lambda>f. uf_drive f = ''metadata.json'') files
      in (if ms = [] then \<lparr>uf_local = metadataPath, uf_drive = ''metadata.json'', uf_size = 0\<rparr> else last ms,
          filter (\<lambda>f. uf_drive f \<noteq> ''metadata.json'') files))"

definition with_size :: "text_fs \<Rightarrow> upload_file \<Rightarrow> upload_file" where
  "with_size fs f = (case safeRegularFileInfo fs (uf_local f) of Inl _ \<Rightarrow> f | Inr n \<Rightarrow> f\<lparr>uf_size := file_size n\<rparr>)"

definition uploadArchiveFiles ::
  "(path \<Rightarrow> bool) \<Rightarrow> (archive_metadata \<Rightarrow> string) \<Rightarrow> 'u uploader \<Rightarrow> upload_file list \<Rightarrow> path \<Rightarrow> archive_metadata
    \<Rightarrow> text_fs \<Rightarrow> 'u \<Rightarrow> text_fs \<times> 'u \<times> (archive_metadata \<times> upload_result) option" where
  "uploadArchiveFiles deny enc up files metadataPath md fs u =
     (let (metadataFile, dataFiles) = split_metadata metadataPath files
      in case (if dataFiles = [] then (u, Some zeroUpload) else up fs dataFiles u) of
           (u, None) \<Rightarrow> (fs, u, None)
         | (u, Some upload) \<Rightarrow>
             case write_file deny fs metadataPath (enc (md\<lparr>md_upload := upload\<rparr>)) of
               (fs, Some _) \<Rightarrow> (fs, u, None)
             | (fs, None) \<Rightarrow>
                 case up fs [with_size fs metadataFile] u of
                   (u, None) \<Rightarrow> (fs, u, None)
                 | (u, Some meta_up) \<Rightarrow>
                     let merged = mergeUploadResults upload meta_up; md = md\<lparr>md_upload := merged\<rparr>
                     in case write_file deny fs metadataPath (enc md) of
                          (fs, Some _) \<Rightarrow> (fs, u, None)
                        | (fs, None) \<Rightarrow> (fs, u, Some (md, merged)))"

section \<open>Retention\<close>

text \<open>What is known of the files beside their contents: the entries of a directory and times of change.\<close>

record dir_info =
  di_list :: "text_fs \<Rightarrow> path \<Rightarrow> string list"
  di_walk :: "text_fs \<Rightarrow> path \<Rightarrow> path list"
  di_time :: "path \<Rightarrow> int"

text \<open>\<^verbatim>\<open>archiveFinalDirLastModified\<close>: the walk below a directory stops at the first link.\<close>

fun latest_time :: "dir_info \<Rightarrow> text_fs \<Rightarrow> path list \<Rightarrow> int \<Rightarrow> fs_error + int" where
  "latest_time di fs [] latest = Inr latest"
| "latest_time di fs (p # ps) latest =
     (case fs p of
        None \<Rightarrow> Inl ErrNotExist
      | Some Symlink \<Rightarrow> Inl ErrSymlink
      | Some _ \<Rightarrow> latest_time di fs ps (if latest < di_time di p then di_time di p else latest))"

definition archiveFinalDirLastModified :: "dir_info \<Rightarrow> text_fs \<Rightarrow> path \<Rightarrow> fs_error + int" where
  "archiveFinalDirLastModified di fs dir =
     (case fs dir of
        None \<Rightarrow> Inl ErrNotExist
      | Some Symlink \<Rightarrow> Inl ErrSymlink
      | Some Dir \<Rightarrow> latest_time di fs (di_walk di fs dir) (di_time di dir)
      | Some _ \<Rightarrow> Inl ErrNotDirectory)"

definition os_remove_all :: "text_fs \<Rightarrow> path \<Rightarrow> text_fs" where
  "os_remove_all fs dir = (\<lambda>q. if prefix dir q then None else fs q)"

text \<open>The loops over the runs of a stream and over the streams. \<open>deny dir\<close> also keeps \<^verbatim>\<open>os.RemoveAll\<close> out, before it starts.\<close>

fun retain_runs ::
  "(nat \<Rightarrow> bool) \<Rightarrow> (path \<Rightarrow> bool) \<Rightarrow> dir_info \<Rightarrow> layout \<Rightarrow> string \<Rightarrow> string \<Rightarrow> int \<Rightarrow> string list \<Rightarrow> text_fs
    \<Rightarrow> text_fs \<times> fs_error option" where
  "retain_runs uni deny di l curStream curRun cutoff [] fs = (fs, None)"
| "retain_runs uni deny di l curStream curRun cutoff (run # runs) fs =
     (let next = retain_runs uni deny di l curStream curRun cutoff runs
      in if fs (finalDir l @ [run]) \<noteq> Some Dir then next fs
         else case newRunLayout uni (RootDir l) (StreamID l) run of
           None \<Rightarrow> next fs
         | Some rl \<Rightarrow>
             if StreamID l = curStream \<and> (curRun = [] \<or> run = curRun) then next fs
             else case ensureDirNoSymlinks deny fs (RootDir l) (finalDir rl) of
               (fs, Some e) \<Rightarrow> (fs, Some e)
             | (fs, None) \<Rightarrow>
                 case archiveFinalDirLastModified di fs (finalDir rl) of
                   Inl e \<Rightarrow> (fs, Some e)
                 | Inr modified \<Rightarrow>
                     if modified < cutoff
                     then if deny (finalDir rl) then (fs, Some ErrPermission) else next (os_remove_all fs (finalDir rl))
                     else next fs)"

fun retain_streams ::
  "(nat \<Rightarrow> bool) \<Rightarrow> (path \<Rightarrow> bool) \<Rightarrow> dir_info \<Rightarrow> path \<Rightarrow> string \<Rightarrow> string \<Rightarrow> int \<Rightarrow> string list \<Rightarrow> text_fs
    \<Rightarrow> text_fs \<times> fs_error option" where
  "retain_streams uni deny di base curStream curRun cutoff [] fs = (fs, None)"
| "retain_streams uni deny di base curStream curRun cutoff (stream # streams) fs =
     (let next = retain_streams uni deny di base curStream curRun cutoff streams
      in case fs (base @ [''final'', stream]) of
           Some Symlink \<Rightarrow> (fs, Some ErrSymlink)
         | Some Dir \<Rightarrow>
             (case newLayout uni base stream of
                None \<Rightarrow> next fs
              | Some l \<Rightarrow>
                  case ensureDirNoSymlinks deny fs base (finalDir l) of
                    (fs, Some e) \<Rightarrow> (fs, Some e)
                  | (fs, None) \<Rightarrow>
                      case retain_runs uni deny di l curStream curRun cutoff (di_list di fs (finalDir l)) fs of
                        (fs, Some e) \<Rightarrow> (fs, Some e)
                      | (fs, None) \<Rightarrow> next fs)
         | _ \<Rightarrow> next fs)"

text \<open>The age is a \<^verbatim>\<open>time.Duration\<close>, whose multiplication wraps at 64 bits.\<close>

definition retention_cutoff :: "int \<Rightarrow> int \<Rightarrow> int" where
  "retention_cutoff days now = now + wrap64 (wrap64 (- days * 24) * 3600000000000)"

definition cleanupExpiredLocalArchives ::
  "(nat \<Rightarrow> bool) \<Rightarrow> (path \<Rightarrow> bool) \<Rightarrow> dir_info \<Rightarrow> path \<Rightarrow> string \<Rightarrow> string \<Rightarrow> int \<Rightarrow> int \<Rightarrow> text_fs \<Rightarrow> text_fs \<times> fs_error option" where
  "cleanupExpiredLocalArchives uni deny di base curStream curRun days now fs =
     (if days \<le> 0 then (fs, None)
      else let finalRoot = base @ [''final'']
      in case fs finalRoot of
           None \<Rightarrow> (fs, None)
         | Some Symlink \<Rightarrow> (fs, Some ErrSymlink)
         | Some Dir \<Rightarrow>
             (case ensureDirNoSymlinks deny fs base finalRoot of
                (fs, Some e) \<Rightarrow> (fs, Some e)
              | (fs, None) \<Rightarrow>
                  retain_streams uni deny di base curStream curRun (retention_cutoff days now) (di_list di fs finalRoot) fs)
         | Some _ \<Rightarrow> (fs, Some ErrNotDirectory))"

section \<open>The package\<close>

definition archiveConfigMetadata :: "archive_config \<Rightarrow> (string \<times> json) list" where
  "archiveConfigMetadata cfg =
     (let text = (\<lambda>k v. if v \<noteq> [] then [(k, JStr v)] else []); flag = (\<lambda>k b. if b then [(k, JBool True)] else [])
      in text ''drive_destination_id'' (DriveDestinationID cfg) @ text ''archive_profile_id'' (ArchiveProfileID cfg)
         @ text ''auth_mode'' (AuthMode cfg) @ text ''oauth_account_id'' (OAuthAccountID cfg)
         @ text ''oauth_provider_id'' (OAuthProviderID cfg) @ flag ''shared_drive'' (SharedDrive cfg)
         @ flag ''shared_drive_id_configured'' (SharedDriveID cfg \<noteq> [])
         @ (if ArchiveFileName cfg \<noteq> [] then [(''archive_file_name'', JStr (archiveUploadFileName (ArchiveFileName cfg) ''final.mp4''))] else [])
         @ (if 0 < RetentionDays cfg then [(''retention_days'', JNum (of_int (RetentionDays cfg)))] else [])
         @ flag ''folder_id_configured'' (FolderID cfg \<noteq> [] \<or> FolderIDSecretName cfg \<noteq> [])
         @ flag ''client_id_configured'' (ClientID cfg \<noteq> [])
         @ flag ''client_secret_configured'' (ClientSecret cfg \<noteq> [] \<or> ClientSecretSecretName cfg \<noteq> [])
         @ flag ''refresh_token_configured'' (RefreshToken cfg \<noteq> [] \<or> RefreshTokenSecretName cfg \<noteq> []))"

definition metadataExtra :: "bool \<Rightarrow> rat \<Rightarrow> archive_config \<Rightarrow> (string \<times> json) list" where
  "metadataExtra dryRun duration cfg =
     [(''dry_run'', JBool dryRun), (''remux_duration_ms'', JNum duration)]
     @ (if archiveConfigMetadata cfg \<noteq> [] then [(''archive_config'', JObj (archiveConfigMetadata cfg))] else [])"

definition archiveArtifactsForRun :: "string \<Rightarrow> string \<Rightarrow> (string \<times> string) list" where
  "archiveArtifactsForRun stream run =
     [(''tmp_artifact_set'', ''tmp/'' @ stream),
      (''final_artifact_set'', ''final/'' @ stream @ (if run \<noteq> [] then ''/'' @ run else [])),
      (''recording_mkv'', ''final.mkv''), (''preview_playlist'', ''preview/index.m3u8''), (''final_mp4'', ''final.mp4''),
      (''metadata'', ''metadata.json''), (''logs'', ''logs.jsonl''), (''captions'', ''captions.vtt''),
      (''transcript'', ''transcript.json''), (''ffmpeg_progress'', ''ffmpeg-progress.txt''),
      (''ffmpeg_audio'', ''ffmpeg-audio-stats.txt'')]"

datatype package_error = JobIncomplete | RunIncomplete | LayoutRefused | Phase string

definition errorClass :: "package_error option \<Rightarrow> string" where
  "errorClass e =
     (case e of
        None \<Rightarrow> ''none''
      | Some (Phase p) \<Rightarrow>
          if p = ''input'' then ''archive_input_unavailable'' else if p = ''remux'' then ''ffmpeg_remux_failed''
          else if p = ''package'' then ''archive_package_failed'' else if p = ''upload'' then ''archive_upload_failed''
          else if p = ''retention'' then ''archive_retention_failed'' else ''operation_failed''
      | Some _ \<Rightarrow> ''operation_failed'')"

record package_result =
  pr_layout :: layout
  pr_metadata :: archive_metadata
  pr_source :: string
  pr_partial :: bool

text \<open>
  \<open>pe_run input output\<close> is FFmpeg with the command line of \<^verbatim>\<open>BuildRemuxArgs\<close> for these paths; \<open>pe_time\<close> and
  \<open>pe_took\<close> are the clock and the time it took.
\<close>

record pack_env =
  pe_uni :: "nat \<Rightarrow> bool"
  pe_deny :: "path \<Rightarrow> bool"
  pe_temp :: string
  pe_info :: dir_info
  pe_run :: "path \<Rightarrow> path \<Rightarrow> text_fs \<Rightarrow> text_fs \<times> bool"
  pe_enc :: "archive_metadata \<Rightarrow> string"
  pe_time :: int
  pe_took :: rat

definition copy_logs :: "(path \<Rightarrow> bool) \<Rightarrow> text_fs \<Rightarrow> layout \<Rightarrow> text_fs \<times> fs_error option" where
  "copy_logs deny fs l =
     (case safeRegularFileInfo fs (tmpLogs l) of
        Inr _ \<Rightarrow> copyFile deny fs (tmpLogs l) (finalLogs l)
      | Inl ErrNotExist \<Rightarrow> write_file deny fs (finalLogs l) []
      | Inl e \<Rightarrow> (fs, Some e))"

text \<open>The remux: from the recording, and when that fails from the preview, if there is one.\<close>

definition remux :: "pack_env \<Rightarrow> layout \<Rightarrow> path \<Rightarrow> text_fs \<Rightarrow> text_fs \<times> (string \<times> bool) option" where
  "remux env l out fs =
     (case pe_run env (finalMKV l) out fs of
        (fs, True) \<Rightarrow> (fs, Some (''final_mkv'', False))
      | (fs, False) \<Rightarrow>
          case safeRegularFileInfo fs (previewPlaylist l) of
            Inl _ \<Rightarrow> (fs, None)
          | Inr _ \<Rightarrow> (case pe_run env (previewPlaylist l) out fs of
                (fs, True) \<Rightarrow> (fs, Some (''hls_preview_fallback'', True))
              | (fs, False) \<Rightarrow> (fs, None)))"

definition package_metadata :: "pack_env \<Rightarrow> package_job \<Rightarrow> string \<times> bool \<Rightarrow> archive_metadata" where
  "package_metadata env job src =
     \<lparr>md_stream = PkgStreamID job, md_name = PkgName job,
      md_started = (case PkgStartedAt job of None \<Rightarrow> pe_time env | Some t \<Rightarrow> t),
      md_archive = archiveArtifactsForRun (PkgStreamID job) (PkgRunID job), md_upload = zeroUpload,
      md_extra = metadataExtra (PkgDryRun job) (pe_took env) (PkgArchiveConfig job)
        @ [(''archive_source'', JStr (fst src)), (''archive_partial'', JBool (snd src)), (''archive_run_id'', JStr (PkgRunID job))]\<rparr>"

text \<open>One after the other, up to the first error.\<close>

definition then_fs :: "text_fs \<times> fs_error option \<Rightarrow> (text_fs \<Rightarrow> text_fs \<times> fs_error option) \<Rightarrow> text_fs \<times> fs_error option" where
  "then_fs r f = (case r of (fs, None) \<Rightarrow> f fs | (fs, Some e) \<Rightarrow> (fs, Some e))"

definition copy_sidecars :: "(path \<Rightarrow> bool) \<Rightarrow> layout \<Rightarrow> text_fs \<Rightarrow> text_fs \<times> fs_error option" where
  "copy_sidecars deny l fs =
     then_fs (then_fs (copy_logs deny fs l) (\<lambda>fs. copyIfExists deny fs (tmpCaptions l) (finalCaptions l)))
       (\<lambda>fs. copyIfExists deny fs (tmpTranscript l) (finalTranscript l))"

definition finish_package ::
  "pack_env \<Rightarrow> 'u uploader \<Rightarrow> package_job \<Rightarrow> layout \<Rightarrow> string \<times> bool \<Rightarrow> text_fs \<Rightarrow> 'u \<Rightarrow> text_fs \<times> 'u \<times> (package_error + package_result)" where
  "finish_package env up job l src fs u =
     (case copy_sidecars (pe_deny env) l fs of
        (fs, Some _) \<Rightarrow> (fs, u, Inl (Phase ''package''))
      | (fs, None) \<Rightarrow>
          case collectArchiveFiles fs l (PkgArchiveConfig job) of
            Inl _ \<Rightarrow> (fs, u, Inl (Phase ''package''))
          | Inr files \<Rightarrow>
              case uploadArchiveFiles (pe_deny env) (pe_enc env) up files (finalMetadata l) (package_metadata env job src) fs u of
                (fs, u, None) \<Rightarrow> (fs, u, Inl (Phase ''upload''))
              | (fs, u, Some (md, upload)) \<Rightarrow>
                  case cleanupExpiredLocalArchives (pe_uni env) (pe_deny env) (pe_info env) (RootDir l) (PkgStreamID job) (PkgRunID job)
                      (RetentionDays (PkgArchiveConfig job)) (pe_time env) fs of
                    (fs, Some _) \<Rightarrow> (fs, u, Inl (Phase ''retention''))
                  | (fs, None) \<Rightarrow> (fs, u, Inr \<lparr>pr_layout = l, pr_metadata = md, pr_source = fst src, pr_partial = snd src\<rparr>))"

definition package_output ::
  "pack_env \<Rightarrow> 'u uploader \<Rightarrow> package_job \<Rightarrow> layout \<Rightarrow> path \<Rightarrow> text_fs \<Rightarrow> 'u \<Rightarrow> text_fs \<times> 'u \<times> (package_error + package_result)" where
  "package_output env up job l out fs u =
     (if rejectExistingSymlink fs (finalMP4 l) \<noteq> None then (fs, u, Inl (Phase ''remux''))
      else case remux env l out fs of
        (fs, None) \<Rightarrow> (fs, u, Inl (Phase ''remux''))
      | (fs, Some src) \<Rightarrow>
          case safeRegularFileInfo fs out of
            Inl _ \<Rightarrow> (fs, u, Inl (Phase ''remux''))
          | Inr _ \<Rightarrow>
              case replaceFileNoSymlink (pe_deny env) (di_list (pe_info env)) fs out (finalMP4 l) of
                (fs, Some _) \<Rightarrow> (fs, u, Inl (Phase ''remux''))
              | (fs, None) \<Rightarrow> finish_package env up job l src fs u)"

text \<open>The lock of a stream, \<^verbatim>\<open>acquirePackageLock\<close>; it is held by a call until it returns.\<close>

definition acquirePackageLock :: "path \<Rightarrow> string \<Rightarrow> (path \<times> string) list \<Rightarrow> (path \<times> string) list option" where
  "acquirePackageLock base stream active = (if (base, stream) \<in> set active then None else Some ((base, stream) # active))"

definition package_locked ::
  "pack_env \<Rightarrow> 'u uploader \<Rightarrow> package_job \<Rightarrow> layout \<Rightarrow> text_fs \<Rightarrow> 'u \<Rightarrow> text_fs \<times> 'u \<times> (package_error + package_result)" where
  "package_locked env up job l fs u =
     (case ensureDirNoSymlinks (pe_deny env) fs (RootDir l) (finalDir l) of
        (fs, Some _) \<Rightarrow> (fs, u, Inl (Phase ''package''))
      | (fs, None) \<Rightarrow>
          if rejectArchiveDirSymlinks fs (RootDir l) (tmpDir l) \<noteq> None then (fs, u, Inl (Phase ''input''))
          else if rejectArchiveDirSymlinks fs (RootDir l) (finalDir l) \<noteq> None then (fs, u, Inl (Phase ''package''))
          else case safeRegularFileInfo fs (finalMKV l) of
            Inl _ \<Rightarrow> (fs, u, Inl (Phase ''input''))
          | Inr _ \<Rightarrow>
              case createRemuxOutput (pe_deny env) (pe_temp env) fs (RootDir l) (finalDir l) of
                (fs, Inl _) \<Rightarrow> (fs, u, Inl (Phase ''remux''))
              | (fs, Inr out) \<Rightarrow>
                  case package_output env up job l out fs u of
                    (fs, u, r) \<Rightarrow> (fst (os_remove (pe_deny env) (di_list (pe_info env)) fs out), u, r))"

definition package ::
  "pack_env \<Rightarrow> 'u uploader \<Rightarrow> path \<Rightarrow> (path \<times> string) list \<Rightarrow> package_job \<Rightarrow> text_fs \<Rightarrow> 'u
    \<Rightarrow> text_fs \<times> 'u \<times> (package_error + package_result)" where
  "package env up base active job fs u =
     (if PkgStreamID job = [] \<or> PkgName job = [] then (fs, u, Inl JobIncomplete)
      else if trim_space (PkgRunID job) = [] \<or> PkgStartedAt job = None then (fs, u, Inl RunIncomplete)
      else case newRunLayout (pe_uni env) base (PkgStreamID job) (PkgRunID job) of
        None \<Rightarrow> (fs, u, Inl LayoutRefused)
      | Some l \<Rightarrow>
          if acquirePackageLock (RootDir l) (PkgStreamID job) active = None then (fs, u, Inl (Phase ''package''))
          else package_locked env up job l fs u)"

end
