(* ===== verification/Retention.thy ===== *)
theory Retention
  imports Packaging
begin

text \<open>What the removal of old archives may change (see \<open>Packaging\<close>).\<close>

text \<open>A place in the directory of another run, itself older than the cutoff.\<close>

definition expired_at :: "(nat \<Rightarrow> bool) \<Rightarrow> dir_info \<Rightarrow> path \<Rightarrow> string \<Rightarrow> string \<Rightarrow> int \<Rightarrow> path \<Rightarrow> bool" where
  "expired_at uni di base curStream curRun cutoff q \<longleftrightarrow> di_time di q < cutoff
     \<and> (\<exists>stream run. isSafeID uni stream \<and> isSafeArchiveRunID run \<and> \<not> (stream = curStream \<and> (curRun = [] \<or> run = curRun))
          \<and> prefix (base @ [''final'', stream, run]) q)"

definition near_final :: "path \<Rightarrow> path \<Rightarrow> bool" where
  "near_final base q \<longleftrightarrow> prefix q (base @ [''final'']) \<or> prefix (base @ [''final'']) q"

text \<open>Directories may have been added, and what has expired may have gone; all else is as it was. Nothing makes infinitely many files.\<close>

definition retained :: "path \<Rightarrow> (path \<Rightarrow> bool) \<Rightarrow> text_fs \<Rightarrow> text_fs \<Rightarrow> bool" where
  "retained base old fs fs' \<longleftrightarrow>
     (\<forall>q. fs' q = fs q \<or> (fs q = None \<and> fs' q = Some Dir \<and> near_final base q)
        \<or> (fs q \<noteq> None \<and> old q \<and> (fs' q = None \<or> fs' q = Some Dir)))
     \<and> (finite (dom fs) \<longrightarrow> finite (dom fs'))"

lemma retained_refl [simp]: "retained base old fs fs"
  by (simp add: retained_def)

lemma retained_trans: "retained base old a b \<Longrightarrow> retained base old b c \<Longrightarrow> retained base old a c"
  unfolding retained_def by (metis option.distinct(1))

lemma retained_kept: "retained base old fs fs' \<Longrightarrow> fs q \<noteq> None \<Longrightarrow> \<not> old q \<Longrightarrow> fs' q = fs q"
  unfolding retained_def by metis

lemma adds_dirs_finite:
  assumes "adds_dirs fs fs' p" and "finite (dom fs)"
  shows "finite (dom fs')"
proof (rule finite_subset)
  have "q \<in> dom fs \<union> set (prefixes p)" if "q \<in> dom fs'" for q
  proof (cases "fs' q = fs q")
    case True
    with that show ?thesis by (simp add: dom_def)
  next
    case False
    with assms(1) show ?thesis by (simp add: adds_dirs_def)
  qed
  then show "dom fs' \<subseteq> dom fs \<union> set (prefixes p)" by blast
qed (use assms(2) in simp)

lemma retained_dirs:
  assumes "adds_dirs fs fs' dir" and "prefix (base @ [''final'']) dir"
  shows "retained base old fs fs'"
proof -
  have "near_final base q" if "prefix q dir" for q
    using prefix_same_cases [OF that assms(2)] by (auto simp: near_final_def)
  then have "\<forall>q. fs' q = fs q \<or> (fs q = None \<and> fs' q = Some Dir \<and> near_final base q)"
    using assms(1) unfolding adds_dirs_def by metis
  with adds_dirs_finite [OF assms(1)] show ?thesis unfolding retained_def by blast
qed

text \<open>What the walk of a directory gives, in a file system with finitely many files: everything below it.\<close>

definition walks :: "dir_info \<Rightarrow> bool" where
  "walks di \<longleftrightarrow> (\<forall>fs dir q. finite (dom fs) \<longrightarrow> fs q \<noteq> None \<longrightarrow> strict_prefix dir q \<longrightarrow> q \<in> set (di_walk di fs dir))"

lemma latest_time_bound:
  "latest_time di fs ps t = Inr m \<Longrightarrow> t \<le> m \<and> (\<forall>p \<in> set ps. di_time di p \<le> m)"
proof (induction ps arbitrary: t)
  case (Cons p ps)
  let ?t = "if t < di_time di p then di_time di p else t"
  from Cons.prems have "latest_time di fs ps ?t = Inr m" by (auto split: option.splits node.splits)
  from Cons.IH [OF this] have "?t \<le> m" "\<forall>p \<in> set ps. di_time di p \<le> m" by auto
  moreover have "t \<le> ?t" "di_time di p \<le> ?t" by auto
  ultimately have "t \<le> m" "di_time di p \<le> m" by linarith+
  with \<open>\<forall>p \<in> set ps. di_time di p \<le> m\<close> show ?case by simp
qed simp

lemma last_modified_bound:
  assumes "archiveFinalDirLastModified di fs dir = Inr m" and "walks di" and "finite (dom fs)" and "fs q \<noteq> None" and "prefix dir q"
  shows "di_time di q \<le> m"
proof -
  from assms(1) have l: "latest_time di fs (di_walk di fs dir) (di_time di dir) = Inr m"
    by (auto simp: archiveFinalDirLastModified_def split: option.splits node.splits)
  show ?thesis
  proof (cases "q = dir")
    case True
    with latest_time_bound [OF l] show ?thesis by simp
  next
    case False
    with assms(2-5) have "q \<in> set (di_walk di fs dir)" by (auto simp: walks_def strict_prefix_def)
    with latest_time_bound [OF l] show ?thesis by simp
  qed
qed

lemma ensure_below_final:
  assumes "ensureDirNoSymlinks deny fs base dir = (fs', r)" and "base \<noteq> []" and "clean_path base"
    and "dir = base @ ''final'' # ns" and "\<forall>n \<in> set ns. plain_name n"
  shows "retained base old fs fs'"
proof (rule retained_dirs)
  show "adds_dirs fs fs' dir"
    by (rule ensure_dir_frame [OF assms(1,2)]) (use assms(3-5) in \<open>auto simp: clean_path_def plain_name_def\<close>)
  show "prefix (base @ [''final'']) dir" by (simp add: assms(4))
qed

lemma run_dir:
  assumes "newRunLayout uni base stream run = Some l" and "stream \<noteq> ''.''"
  shows "finalDir l = base @ [''final'', stream, run]" "tmpDir l = base @ [''tmp'', stream]"
    "RootDir l = base" "StreamID l = stream" "plain_name stream" "plain_name run" "isSafeID uni stream" "isSafeArchiveRunID run"
proof -
  from assms have f: "isSafeID uni stream" "isSafeArchiveRunID run" "l = \<lparr>RootDir = base, StreamID = stream, ArchiveRunID = run\<rparr>"
    by (simp_all add: newRunLayout_fields)
  then have p: "plain_name stream" "plain_name run" using safe_id_plain run_id_plain assms(2) by blast+
  then have "run \<noteq> []" by (simp add: plain_name_def)
  with p f(3) show "finalDir l = base @ [''final'', stream, run]" "tmpDir l = base @ [''tmp'', stream]"
    "RootDir l = base" "StreamID l = stream" by (simp_all add: finalDir_plain)
  from p f show "plain_name stream" "plain_name run" "isSafeID uni stream" "isSafeArchiveRunID run" by simp_all
qed

lemma retain_runs_retained:
  assumes "retain_runs uni deny di l curStream curRun cutoff runs fs = (fs', r)"
    and "newLayout uni base stream = Some l" and "stream \<noteq> ''.''" and "base \<noteq> []" "clean_path base" "walks di"
    and "finite (dom fs)"
  shows "retained base (expired_at uni di base curStream curRun cutoff) fs fs'"
  using assms(1,7)
proof (induction runs arbitrary: fs)
  case (Cons run runs)
  have l: "RootDir l = base" "StreamID l = stream" using assms(2) by (simp_all add: newLayout_fields)
  show ?case
  proof (cases "fs (finalDir l @ [run]) \<noteq> Some Dir \<or> newRunLayout uni (RootDir l) (StreamID l) run = None
      \<or> (StreamID l = curStream \<and> (curRun = [] \<or> run = curRun))")
    case True
    with Cons.prems(1) have "retain_runs uni deny di l curStream curRun cutoff runs fs = (fs', r)"
      by (auto simp: Let_def split: option.splits if_splits)
    then show ?thesis using Cons.prems(2) by (rule Cons.IH)
  next
    case False
    then obtain rl where rl: "newRunLayout uni base stream run = Some rl" and other: "\<not> (stream = curStream \<and> (curRun = [] \<or> run = curRun))"
      using l by auto
    note d = run_dir [OF rl assms(3)]
    obtain fs1 r1 where e: "ensureDirNoSymlinks deny fs base (finalDir rl) = (fs1, r1)" by fastforce
    have k: "retained base (expired_at uni di base curStream curRun cutoff) fs fs1"
      by (rule ensure_below_final [OF e assms(4,5)]) (use d in auto)
    have fin: "finite (dom fs1)" using k Cons.prems(2) by (simp add: retained_def)
    show ?thesis
    proof (cases "r1 = None \<and> (\<exists>m. archiveFinalDirLastModified di fs1 (finalDir rl) = Inr m \<and> m < cutoff) \<and> \<not> deny (finalDir rl)")
      case False
      then have "fs' = fs1 \<or> retain_runs uni deny di l curStream curRun cutoff runs fs1 = (fs', r)"
        using Cons.prems(1) rl other l e \<open>\<not> (fs (finalDir l @ [run]) \<noteq> Some Dir \<or> _)\<close>
        by (auto simp: Let_def split: option.splits sum.splits if_splits)
      with Cons.IH [OF _ fin] k retained_trans show ?thesis by blast
    next
      case True
      then obtain m where m: "archiveFinalDirLastModified di fs1 (finalDir rl) = Inr m" "m < cutoff" by blast
      have "retained base (expired_at uni di base curStream curRun cutoff) fs1 (os_remove_all fs1 (finalDir rl))"
        unfolding retained_def
      proof (intro conjI allI)
        show "finite (dom fs1) \<longrightarrow> finite (dom (os_remove_all fs1 (finalDir rl)))"
          by (auto simp: os_remove_all_def dom_def elim: finite_subset [rotated])
        fix q
        have "expired_at uni di base curStream curRun cutoff q" if "fs1 q \<noteq> None" "prefix (finalDir rl) q"
          using last_modified_bound [OF m(1) assms(6) fin that] m(2) that(2) other d by (auto simp: expired_at_def)
        then show "os_remove_all fs1 (finalDir rl) q = fs1 q
          \<or> fs1 q = None \<and> os_remove_all fs1 (finalDir rl) q = Some Dir \<and> near_final base q
          \<or> fs1 q \<noteq> None \<and> expired_at uni di base curStream curRun cutoff q
            \<and> (os_remove_all fs1 (finalDir rl) q = None \<or> os_remove_all fs1 (finalDir rl) q = Some Dir)"
          by (cases "fs1 q") (auto simp: os_remove_all_def)
      qed
      moreover have "retain_runs uni deny di l curStream curRun cutoff runs (os_remove_all fs1 (finalDir rl)) = (fs', r)"
        using Cons.prems(1) rl other l e m True \<open>\<not> (fs (finalDir l @ [run]) \<noteq> Some Dir \<or> _)\<close>
        by (auto simp: Let_def split: option.splits sum.splits if_splits)
      then have "retained base (expired_at uni di base curStream curRun cutoff) (os_remove_all fs1 (finalDir rl)) fs'"
        by (rule Cons.IH) (use fin in \<open>auto simp: os_remove_all_def dom_def elim: finite_subset [rotated]\<close>)
      ultimately show ?thesis using k retained_trans by blast
    qed
  qed
qed simp

lemma retain_streams_retained:
  assumes "retain_streams uni deny di base curStream curRun cutoff streams fs = (fs', r)"
    and "''.'' \<notin> set streams" and "base \<noteq> []" "clean_path base" "walks di"
    and "finite (dom fs)"
  shows "retained base (expired_at uni di base curStream curRun cutoff) fs fs'"
  using assms(1,2,6)
proof (induction streams arbitrary: fs)
  case (Cons stream streams)
  let ?R = "retained base (expired_at uni di base curStream curRun cutoff)"
  show ?case
  proof (cases "fs (base @ [''final'', stream]) = Some Dir \<and> newLayout uni base stream \<noteq> None")
    case False
    then have "fs' = fs \<or> retain_streams uni deny di base curStream curRun cutoff streams fs = (fs', r)"
      using Cons.prems(1) by (auto simp: Let_def split: option.splits node.splits)
    with Cons show ?thesis by auto
  next
    case True
    then obtain l where l: "newLayout uni base stream = Some l" by blast
    have s: "stream \<noteq> ''.''" using Cons.prems(2) by auto
    with l have d: "finalDir l = base @ [''final'', stream]" "plain_name stream"
      using safe_id_plain by (auto simp: newLayout_fields finalDir_plain)
    obtain fs1 r1 where e: "ensureDirNoSymlinks deny fs base (finalDir l) = (fs1, r1)" by fastforce
    have k: "?R fs fs1" by (rule ensure_below_final [OF e assms(3,4)]) (use d in auto)
    obtain fs2 r2 where t: "retain_runs uni deny di l curStream curRun cutoff (di_list di fs1 (finalDir l)) fs1 = (fs2, r2)" by fastforce
    have fin: "finite (dom fs1)" using k Cons.prems(3) by (simp add: retained_def)
    have k2: "?R fs1 fs2" by (rule retain_runs_retained [OF t l s assms(3-5) fin])
    have fin2: "finite (dom fs2)" using k2 fin by (simp add: retained_def)
    have "fs' = fs1 \<or> fs' = fs2 \<or> retain_streams uni deny di base curStream curRun cutoff streams fs2 = (fs', r)"
      using Cons.prems(1) True l e t by (auto simp: Let_def split: option.splits prod.splits)
    moreover have "''.'' \<notin> set streams" using Cons.prems(2) by simp
    ultimately show ?thesis using Cons.IH [OF _ _ fin2] k k2 retained_trans by metis
  qed
qed simp

lemma cleanup_retained:
  assumes "cleanupExpiredLocalArchives uni deny di base curStream curRun days now fs = (fs', r)"
    and "\<And>fs p. ''.'' \<notin> set (di_list di fs p)" and "base \<noteq> []" "clean_path base" "walks di" and "finite (dom fs)"
  shows "if days \<le> 0 then fs' = fs else retained base (expired_at uni di base curStream curRun (retention_cutoff days now)) fs fs'"
proof (cases "days \<le> 0 \<or> fs (base @ [''final'']) \<noteq> Some Dir")
  case True
  with assms(1) show ?thesis by (auto simp: cleanupExpiredLocalArchives_def Let_def split: option.splits node.splits if_splits)
next
  case False
  obtain fs1 r1 where e: "ensureDirNoSymlinks deny fs base (base @ [''final'']) = (fs1, r1)" by fastforce
  have k: "retained base (expired_at uni di base curStream curRun (retention_cutoff days now)) fs fs1"
    by (rule ensure_below_final [OF e assms(3,4)]) auto
  have "fs' = fs1 \<or> retain_streams uni deny di base curStream curRun (retention_cutoff days now) (di_list di fs1 (base @ [''final''])) fs1 = (fs', r)"
    using assms(1) False e by (auto simp: cleanupExpiredLocalArchives_def Let_def split: option.splits)
  moreover have "finite (dom fs1)" using k assms(6) by (simp add: retained_def)
  ultimately show ?thesis using False k retain_streams_retained [OF _ assms(2-5)] retained_trans by (metis (no_types, lifting))
qed

lemma retention_cutoff_exact: "0 \<le> days \<Longrightarrow> days \<le> 106751 \<Longrightarrow> retention_cutoff days now = now - days * 86400000000000"
  by (simp add: retention_cutoff_def wrap64_id)

end
