(* ===== verification/PackageProperties.thy ===== *)
theory PackageProperties
  imports Retention "HOL-Library.List_Lexorder" "HOL-Library.Char_ord"
begin

text \<open>What packaging changes, what it leaves alone, and what it has done when it succeeds (see \<open>Packaging\<close>).\<close>

section \<open>Changes below one directory\<close>

definition changes_in :: "path \<Rightarrow> text_fs \<Rightarrow> text_fs \<Rightarrow> bool" where
  "changes_in d fs fs' \<longleftrightarrow>
     (\<forall>q. \<not> prefix d q \<longrightarrow> fs' q = fs q \<or> (fs q = None \<and> fs' q = Some Dir \<and> prefix q d))
     \<and> (finite (dom fs) \<longrightarrow> finite (dom fs'))"

lemma changes_refl [simp]: "changes_in d fs fs"
  by (simp add: changes_in_def)

lemma changes_trans: "changes_in d a b \<Longrightarrow> changes_in d b c \<Longrightarrow> changes_in d a c"
  unfolding changes_in_def by (metis option.distinct(1))

lemma changes_kept: "changes_in d fs fs' \<Longrightarrow> \<not> prefix d q \<Longrightarrow> fs q \<noteq> None \<Longrightarrow> fs' q = fs q"
  unfolding changes_in_def by metis

lemma changes_upd: "prefix d p \<Longrightarrow> changes_in d fs (fs(p := v))"
  by (auto simp: changes_in_def)

lemma changes_dirs:
  assumes "adds_dirs fs fs' p" and "prefix p d \<or> prefix d p"
  shows "changes_in d fs fs'"
proof -
  have "prefix q d" if "prefix q p" "\<not> prefix d q" for q
    using that assms(2) by (meson prefix_order.trans prefix_same_cases)
  then have "\<forall>q. \<not> prefix d q \<longrightarrow> fs' q = fs q \<or> (fs q = None \<and> fs' q = Some Dir \<and> prefix q d)"
    using assms(1) unfolding adds_dirs_def by metis
  with adds_dirs_finite [OF assms(1)] show ?thesis unfolding changes_in_def by blast
qed

lemma mkdir_changes: "mkdir_all deny fs [] dir = (fs', r) \<Longrightarrow> prefix dir d \<or> prefix d dir \<Longrightarrow> changes_in d fs fs'"
  using mkdir_all_frame [of deny fs "[]" dir fs' r] changes_dirs by simp

text \<open>Writing a file of the directory \<open>d\<close>.\<close>

lemma write_changes:
  assumes "write_file deny fs (d @ [n]) body = (fs', r)"
  shows "changes_in d fs fs'"
proof -
  obtain fs1 r1 where m: "mkdir_all deny fs [] d = (fs1, r1)" by fastforce
  have "fs' = fs1 \<or> fs' = fs1(d @ [n] \<mapsto> Regular body)"
    using assms m by (auto simp: write_file_def split: option.splits node.splits if_splits)
  with mkdir_changes [OF m, of d] changes_upd [of d "d @ [n]" fs1] show ?thesis by (auto intro: changes_trans)
qed

lemma copy_changes:
  assumes "copyFile deny fs src (d @ [n]) = (fs', r)"
  shows "changes_in d fs fs'"
proof -
  obtain fs1 r1 where m: "mkdir_all deny fs [] d = (fs1, r1)" by fastforce
  have c: "changes_in d fs fs1" using mkdir_changes [OF m, of d] by simp
  from assms m have "fs' = fs1 \<or> (\<exists>body. write_file deny fs1 (d @ [n]) body = (fs', r))"
    by (auto simp: copyFile_def split: option.splits sum.splits)
  with c write_changes show ?thesis by (auto intro: changes_trans)
qed

lemma copy_if_changes: "copyIfExists deny fs src (d @ [n]) = (fs', r) \<Longrightarrow> changes_in d fs fs'"
  by (auto simp: copyIfExists_def split: sum.splits fs_error.splits dest: copy_changes)

lemma copy_logs_changes:
  assumes "copy_logs deny fs l = (fs', r)" and "finalLogs l = d @ [n]"
  shows "changes_in d fs fs'"
  using assms by (auto simp: copy_logs_def split: sum.splits fs_error.splits dest: copy_changes write_changes)

lemma remove_changes: "os_remove deny listing fs p = (fs', r) \<Longrightarrow> prefix d p \<Longrightarrow> changes_in d fs fs'"
  by (auto simp: os_remove_def split: option.splits if_splits intro: changes_upd)

lemma replace_changes:
  assumes "replaceFileNoSymlink deny listing fs src dst = (fs', r)" and "prefix d src" and "prefix d dst"
  shows "changes_in d fs fs'"
proof -
  obtain fs1 r1 where o: "os_remove deny listing fs dst = (fs1, r1)" by fastforce
  have "changes_in d fs1 (fs1(src := None, dst := fs1 src))"
    using changes_trans [OF changes_upd [OF assms(2)] changes_upd [OF assms(3)]] by blast
  with remove_changes [OF o assms(3)] have "changes_in d fs (fs1(src := None, dst := fs1 src))" by (rule changes_trans)
  moreover have "fs' = fs \<or> fs' = fs1 \<or> fs' = fs1(src := None, dst := fs1 src)"
    using assms(1) o by (auto simp: replaceFileNoSymlink_def Let_def split: option.splits sum.splits if_splits)
  ultimately show ?thesis using remove_changes [OF o assms(3)] by auto
qed

section \<open>FFmpeg\<close>

text \<open>FFmpeg writes its output, and nothing else.\<close>

definition runs_to_output :: "pack_env \<Rightarrow> bool" where
  "runs_to_output env \<longleftrightarrow> (\<forall>i out fs q. q \<noteq> out \<longrightarrow> fst (pe_run env i out fs) q = fs q)"

lemma run_changes:
  assumes "runs_to_output env" and "pe_run env i out fs = (fs', r)" and "prefix d out"
  shows "changes_in d fs fs'"
proof -
  have "fs' q = fs q" if "q \<noteq> out" for q using assms(1,2) that unfolding runs_to_output_def by (metis fst_conv)
  then have "fs' = fs(out := fs' out)" by auto
  with changes_upd [OF assms(3), of fs "fs' out"] show ?thesis by simp
qed

lemma remux_changes:
  assumes "runs_to_output env" and "remux env l out fs = (fs', r)" and "prefix d out"
  shows "changes_in d fs fs'"
proof -
  obtain fs1 a where 1: "pe_run env (finalMKV l) out fs = (fs1, a)" by fastforce
  obtain fs2 b where 2: "pe_run env (previewPlaylist l) out fs1 = (fs2, b)" by fastforce
  have "fs' = fs1 \<or> fs' = fs2" using assms(2) 1 2 by (auto simp: remux_def split: bool.splits sum.splits)
  with run_changes [OF assms(1) 1 assms(3)] run_changes [OF assms(1) 2 assms(3)] show ?thesis by (auto intro: changes_trans)
qed

section \<open>The parts of packaging\<close>

lemma sidecars_changes:
  assumes "copy_sidecars deny l fs = (fs', r)" and "finalLogs l = d @ [a]" "finalCaptions l = d @ [b]" "finalTranscript l = d @ [c]"
  shows "changes_in d fs fs'"
proof -
  obtain fs1 r1 where 1: "copy_logs deny fs l = (fs1, r1)" by fastforce
  obtain fs2 r2 where 2: "copyIfExists deny fs1 (tmpCaptions l) (finalCaptions l) = (fs2, r2)" by fastforce
  obtain fs3 r3 where 3: "copyIfExists deny fs2 (tmpTranscript l) (finalTranscript l) = (fs3, r3)" by fastforce
  have c: "changes_in d fs fs1" "changes_in d fs1 fs2" "changes_in d fs2 fs3"
    using copy_logs_changes [OF 1 assms(2)] copy_if_changes 2 3 assms(3,4) by auto
  have "fs' = fs1 \<or> fs' = fs2 \<or> fs' = fs3"
    using assms(1) 1 2 3 by (auto simp: copy_sidecars_def then_fs_def split: option.splits)
  with c show ?thesis by (auto intro: changes_trans)
qed

lemma upload_changes:
  assumes "uploadArchiveFiles deny enc up files (d @ [n]) md fs u = (fs', u', r)"
  shows "changes_in d fs fs'"
proof -
  obtain mf df where s: "split_metadata (d @ [n]) files = (mf, df)" by fastforce
  obtain u1 r1 where 1: "(if df = [] then (u, Some zeroUpload) else up fs df u) = (u1, r1)" by fastforce
  show ?thesis
  proof (cases r1)
    case None
    with assms s 1 show ?thesis by (auto simp: uploadArchiveFiles_def)
  next
    case (Some upl)
    obtain fs1 w1 where 2: "write_file deny fs (d @ [n]) (enc (md\<lparr>md_upload := upl\<rparr>)) = (fs1, w1)" by fastforce
    have c1: "changes_in d fs fs1" using 2 by (rule write_changes)
    show ?thesis
    proof (cases w1)
      case (Some e)
      with assms s 1 2 \<open>r1 = Some upl\<close> c1 show ?thesis by (auto simp: uploadArchiveFiles_def)
    next
      case None
      from assms s 1 2 \<open>r1 = Some upl\<close> None have "fs' = fs1 \<or> (\<exists>body r. write_file deny fs1 (d @ [n]) body = (fs', r))"
        by (auto simp: uploadArchiveFiles_def Let_def split: prod.splits option.splits)
      with c1 write_changes show ?thesis by (auto intro: changes_trans)
    qed
  qed
qed

text \<open>After the output is in place: changes in the run's directory, and then at most the removal of old runs.\<close>

definition then_retained ::
  "pack_env \<Rightarrow> package_job \<Rightarrow> layout \<Rightarrow> (package_error + 'a) \<Rightarrow> path \<Rightarrow> text_fs \<Rightarrow> text_fs \<Rightarrow> bool" where
  "then_retained env job l r d fs fs' \<longleftrightarrow>
     (\<exists>fs1. changes_in d fs fs1 \<and> (fs' = fs1 \<or> ((\<exists>x. r = Inr x) \<or> r = Inl (Phase ''retention''))
        \<and> fst (cleanupExpiredLocalArchives (pe_uni env) (pe_deny env) (pe_info env) (RootDir l) (PkgStreamID job) (PkgRunID job)
             (RetentionDays (PkgArchiveConfig job)) (pe_time env) fs1) = fs'))"

lemma then_retained_front: "changes_in d fs fs1 \<Longrightarrow> then_retained env job l r d fs1 fs' \<Longrightarrow> then_retained env job l r d fs fs'"
  unfolding then_retained_def by (blast intro: changes_trans)

lemma then_retained_same: "changes_in d fs fs' \<Longrightarrow> then_retained env job l r d fs fs'"
  by (auto simp: then_retained_def)

lemma finish_shape:
  assumes "finish_package env up job l src fs u = (fs', u', r)"
    and f: "finalLogs l = d @ [a]" "finalCaptions l = d @ [b]" "finalTranscript l = d @ [c]" "finalMetadata l = d @ [m]"
  shows "then_retained env job l r d fs fs'"
proof -
  obtain fs1 r1 where 1: "copy_sidecars (pe_deny env) l fs = (fs1, r1)" by fastforce
  have c1: "changes_in d fs fs1" by (rule sidecars_changes [OF 1 f(1-3)])
  show ?thesis
  proof (cases "r1 = None \<and> (\<exists>files. collectArchiveFiles fs1 l (PkgArchiveConfig job) = Inr files)")
    case False
    then have "fs' = fs1" using assms(1) 1 by (auto simp: finish_package_def split: option.splits sum.splits)
    with c1 show ?thesis by (simp add: then_retained_same)
  next
    case True
    then obtain files where files: "collectArchiveFiles fs1 l (PkgArchiveConfig job) = Inr files" by blast
    obtain fs2 u2 r2 where 2: "uploadArchiveFiles (pe_deny env) (pe_enc env) up files (d @ [m]) (package_metadata env job src) fs1 u = (fs2, u2, r2)"
      using prod_cases3 by blast
    have c2: "changes_in d fs fs2" using c1 upload_changes [OF 2] by (rule changes_trans)
    obtain fs3 r3 where 3: "cleanupExpiredLocalArchives (pe_uni env) (pe_deny env) (pe_info env) (RootDir l) (PkgStreamID job) (PkgRunID job)
        (RetentionDays (PkgArchiveConfig job)) (pe_time env) fs2 = (fs3, r3)" by fastforce
    have "fs' = fs2 \<or> fs' = fs3 \<and> ((\<exists>x. r = Inr x) \<or> r = Inl (Phase ''retention''))"
      using assms(1) 1 2 3 True files f(4) by (auto simp: finish_package_def split: option.splits)
    with c2 3 show ?thesis unfolding then_retained_def by (metis fst_conv)
  qed
qed

lemma output_shape:
  assumes "package_output env up job l out fs u = (fs', u', r)" and "runs_to_output env" and "prefix d out"
    and f: "finalLogs l = d @ [a]" "finalCaptions l = d @ [b]" "finalTranscript l = d @ [c]" "finalMetadata l = d @ [m]" "finalMP4 l = d @ [v]"
  shows "then_retained env job l r d fs fs'"
proof -
  obtain fs1 r1 where 1: "remux env l out fs = (fs1, r1)" by fastforce
  have c1: "changes_in d fs fs1" by (rule remux_changes [OF assms(2) 1 assms(3)])
  obtain fs2 r2 where 2: "replaceFileNoSymlink (pe_deny env) (di_list (pe_info env)) fs1 out (finalMP4 l) = (fs2, r2)" by fastforce
  have c2: "changes_in d fs fs2" using c1 replace_changes [OF 2 assms(3)] f(5) by (auto intro: changes_trans)
  have "fs' = fs \<or> fs' = fs1 \<or> fs' = fs2 \<or> (\<exists>src. finish_package env up job l src fs2 u = (fs', u', r))"
    using assms(1) 1 2 by (auto simp: package_output_def split: option.splits sum.splits if_splits)
  then consider "changes_in d fs fs'" | src where "finish_package env up job l src fs2 u = (fs', u', r)"
    using c1 c2 changes_refl by blast
  then show ?thesis
  proof cases
    case 1
    then show ?thesis by (rule then_retained_same)
  next
    case 2
    from then_retained_front [OF c2 finish_shape [OF 2 f(1-4)]] show ?thesis .
  qed
qed

lemma create_changes:
  assumes "createRemuxOutput deny temp fs base dir = (fs', r)" and "plain_name temp"
  shows "changes_in dir fs fs'" "r = Inr out \<Longrightarrow> out = dir @ [temp] \<and> fs' out = Some (Regular [])"
proof -
  obtain fs1 r1 where 1: "mkdir_all deny fs [] dir = (fs1, r1)" by fastforce
  have "fs' = fs1 \<or> fs' = fs1(dir @ [temp] \<mapsto> Regular [])"
    using assms 1 by (auto simp: createRemuxOutput_def Let_def split: option.splits if_splits)
  moreover have "changes_in dir fs fs1" using mkdir_changes [OF 1, of dir] by simp
  moreover have "changes_in dir fs1 (fs1(dir @ [temp] \<mapsto> Regular []))" by (rule changes_upd) simp
  ultimately show "changes_in dir fs fs'" using changes_trans by blast
  show "r = Inr out \<Longrightarrow> out = dir @ [temp] \<and> fs' out = Some (Regular [])"
    using assms 1 by (auto simp: createRemuxOutput_def Let_def split: option.splits if_splits)
qed

section \<open>Properties\<close>

text \<open>
  What packaging relies on: finitely many files, a root that is absolute and clean, a new name of the form \<^verbatim>\<open>os.CreateTemp\<close> makes, FFmpeg that writes
  its output only, a walk that comes by everything, listings without the entry for the directory itself.
\<close>

definition pack_ok :: "pack_env \<Rightarrow> path \<Rightarrow> package_job \<Rightarrow> layout \<Rightarrow> text_fs \<Rightarrow> bool" where
  "pack_ok env base job l fs \<longleftrightarrow> newRunLayout (pe_uni env) base (PkgStreamID job) (PkgRunID job) = Some l \<and> PkgStreamID job \<noteq> ''.''
     \<and> base \<noteq> [] \<and> clean_path base \<and> plain_name (pe_temp env) \<and> has_prefix (pe_temp env) ''.final-remux-''
     \<and> runs_to_output env \<and> walks (pe_info env) \<and> finite (dom fs) \<and> (\<forall>fs p. ''.'' \<notin> set (di_list (pe_info env) fs p))"

lemma pack_ok_files:
  assumes "pack_ok env base job l fs"
  shows "finalDir l = base @ [''final'', PkgStreamID job, PkgRunID job]" "RootDir l = base"
    "finalLogs l = finalDir l @ [''logs.jsonl'']" "finalCaptions l = finalDir l @ [''captions.vtt'']"
    "finalTranscript l = finalDir l @ [''transcript.json'']" "finalMetadata l = finalDir l @ [''metadata.json'']"
    "finalMP4 l = finalDir l @ [''final.mp4'']" "tmpDir l = base @ [''tmp'', PkgStreamID job]"
    "PkgRunID job \<noteq> []"
  using assms run_dir [of "pe_uni env" base "PkgStreamID job" "PkgRunID job" l]
  by (auto simp: pack_ok_def layout_file_defs plain_name_def)

text \<open>
  C6. Packaging never harms a recording. Whatever it returns, a file that was there is changed only in the directory of
  the very run that is packaged; beyond it only runs that have expired are removed, never the packaged one, and only
  after the upload has succeeded and the configuration asks for it; so the recording itself, and
  everything else in the stream's working directory, is as it was, for another attempt.
\<close>

theorem packaging_keeps_recordings:
  assumes "package env up base active job fs u = (fs', u', r)" and "pack_ok env base job l fs"
    and "RetentionDays (PkgArchiveConfig job) \<le> 106751"
  shows "(\<forall>q. fs q \<noteq> None \<longrightarrow> fs' q \<noteq> fs q \<longrightarrow> prefix (finalDir l) q
        \<or> ((\<exists>x. r = Inr x) \<or> r = Inl (Phase ''retention'')) \<and> 0 < RetentionDays (PkgArchiveConfig job)
          \<and> expired_at (pe_uni env) (pe_info env) base (PkgStreamID job) (PkgRunID job)
              (pe_time env - RetentionDays (PkgArchiveConfig job) * 86400000000000) q)
    \<and> (\<forall>q. prefix (tmpDir l) q \<longrightarrow> fs q \<noteq> None \<longrightarrow> fs' q = fs q)"
proof -
  let ?d = "finalDir l" and ?days = "RetentionDays (PkgArchiveConfig job)"
  note ok = assms(2) [unfolded pack_ok_def] and files = pack_ok_files [OF assms(2)]
  have shape: "\<exists>fs2. then_retained env job l r ?d fs fs2 \<and> changes_in ?d fs2 fs'"
  proof (cases "package_locked env up job l fs u = (fs', u', r)")
    case False
    then have "fs' = fs" using assms(1) ok by (auto simp: package_def split: option.splits if_splits)
    then show ?thesis using then_retained_same [OF changes_refl] changes_refl by blast
  next
    case True
    obtain fs1 r1 where 1: "ensureDirNoSymlinks (pe_deny env) fs (RootDir l) ?d = (fs1, r1)" by fastforce
    have "adds_dirs fs fs1 ?d" by (rule ensure_dir_frame [OF 1]) (use ok files in \<open>auto simp: clean_path_def newRunLayout_fields dest: safe_id_plain run_id_plain simp: plain_name_def\<close>)
    then have c1: "changes_in ?d fs fs1" by (rule changes_dirs) simp
    obtain fs2 r2 where 2: "createRemuxOutput (pe_deny env) (pe_temp env) fs1 (RootDir l) ?d = (fs2, r2)" by fastforce
    have plain: "plain_name (pe_temp env)" using ok by simp
    have c2: "changes_in ?d fs fs2" using c1 create_changes(1) [OF 2 plain] by (rule changes_trans)
    show ?thesis
    proof (cases "\<exists>out. r2 = Inr out \<and> fs' \<noteq> fs1")
      case False
      then have "fs' = fs1 \<or> fs' = fs2" using True 1 2 by (auto simp: package_locked_def split: option.splits sum.splits if_splits)
      with c1 c2 have "changes_in ?d fs fs'" by blast
      then show ?thesis using then_retained_same changes_refl by blast
    next
      case out: True
      then obtain out where r2: "r2 = Inr out" by blast
      have o: "prefix ?d out" using create_changes(2) [OF 2 plain r2] by simp
      obtain fs3 u3 r3 where 3: "package_output env up job l out fs2 u = (fs3, u3, r3)" using prod_cases3 by blast
      from True 1 2 r2 3 out have e: "fs' = fst (os_remove (pe_deny env) (di_list (pe_info env)) fs3 out)" "r3 = r"
        by (auto simp: package_locked_def split: option.splits sum.splits if_splits)
      have "then_retained env job l r ?d fs fs3"
        using then_retained_front [OF c2] output_shape [OF 3 _ o files(3-7)] ok e(2) by blast
      moreover have "changes_in ?d fs3 fs'" unfolding e(1) by (rule remove_changes [OF _ o]) (rule surjective_pairing)
      ultimately show ?thesis by blast
    qed
  qed
  then obtain fs1 fs2 where c1: "changes_in ?d fs fs1" and c2: "changes_in ?d fs2 fs'"
    and mid: "fs2 = fs1 \<or> ((\<exists>x. r = Inr x) \<or> r = Inl (Phase ''retention''))
      \<and> fst (cleanupExpiredLocalArchives (pe_uni env) (pe_deny env) (pe_info env) base (PkgStreamID job) (PkgRunID job) ?days (pe_time env) fs1) = fs2"
    unfolding then_retained_def files(2) by blast
  have ret: "retained base (expired_at (pe_uni env) (pe_info env) base (PkgStreamID job) (PkgRunID job) (pe_time env - ?days * 86400000000000)) fs1 fs2
      \<and> ((\<exists>x. r = Inr x) \<or> r = Inl (Phase ''retention'')) \<and> 0 < ?days" if "fs2 \<noteq> fs1"
  proof -
    let ?c = "cleanupExpiredLocalArchives (pe_uni env) (pe_deny env) (pe_info env) base (PkgStreamID job) (PkgRunID job) ?days (pe_time env) fs1"
    have "fst ?c = fs2" using mid that by simp
    then obtain rr where "cleanupExpiredLocalArchives (pe_uni env) (pe_deny env) (pe_info env) base (PkgStreamID job) (PkgRunID job) ?days (pe_time env) fs1 = (fs2, rr)"
      by (cases ?c) simp
    note k = cleanup_retained [OF this]
    have lists: "\<And>fs p. ''.'' \<notin> set (di_list (pe_info env) fs p)" and b: "base \<noteq> []" "clean_path base" "walks (pe_info env)"
      using ok by blast+
    have fin: "finite (dom fs1)" using c1 ok by (simp add: changes_in_def)
    have pos: "0 < ?days" using k [OF lists b fin] that by (cases "?days \<le> 0") simp_all
    then have "retention_cutoff ?days (pe_time env) = pe_time env - ?days * 86400000000000"
      using assms(3) by (simp add: retention_cutoff_exact)
    then show ?thesis using k [OF lists b fin] pos mid that by simp
  qed
  have main: "prefix ?d q \<or> ((\<exists>x. r = Inr x) \<or> r = Inl (Phase ''retention'')) \<and> 0 < ?days
      \<and> expired_at (pe_uni env) (pe_info env) base (PkgStreamID job) (PkgRunID job) (pe_time env - ?days * 86400000000000) q"
    if q: "fs q \<noteq> None" "fs' q \<noteq> fs q" for q
  proof (rule disjCI)
    assume no: "\<not> (((\<exists>x. r = Inr x) \<or> r = Inl (Phase ''retention'')) \<and> 0 < ?days
      \<and> expired_at (pe_uni env) (pe_info env) base (PkgStreamID job) (PkgRunID job) (pe_time env - ?days * 86400000000000) q)"
    show "prefix ?d q"
    proof (rule ccontr)
      assume np: "\<not> prefix ?d q"
      have 1: "fs1 q = fs q" by (rule changes_kept [OF c1 np q(1)])
      have "fs2 q = fs1 q"
      proof (cases "fs2 = fs1")
        case False
        with ret no show ?thesis using retained_kept [OF conjunct1 [OF ret [OF False]], of q] 1 q(1) by auto
      qed simp
      with 1 changes_kept [OF c2 np] q show False by simp
    qed
  qed
  have "fs' q = fs q" if q: "prefix (tmpDir l) q" "fs q \<noteq> None" for q
  proof (rule ccontr)
    obtain zs where z: "q = base @ ''tmp'' # zs" using q(1) files(8) by (auto simp: prefix_def)
    assume "fs' q \<noteq> fs q"
    from main [OF q(2) this] show False by (auto simp: expired_at_def files(1) prefix_def z)
  qed
  with main show ?thesis by blast
qed

section \<open>A package that succeeds\<close>

text \<open>Everything but the given places is kept.\<close>

definition keeps :: "path set \<Rightarrow> text_fs \<Rightarrow> text_fs \<Rightarrow> bool" where
  "keeps S fs fs' \<longleftrightarrow> (\<forall>q. q \<notin> S \<longrightarrow> fs q \<noteq> None \<longrightarrow> fs' q = fs q)"

lemma keeps_trans: "keeps S a b \<Longrightarrow> keeps S' b c \<Longrightarrow> keeps (S \<union> S') a c"
  by (simp add: keeps_def)

lemma keeps_at: "keeps S fs fs' \<Longrightarrow> q \<notin> S \<Longrightarrow> fs q = Some n \<Longrightarrow> fs' q = Some n"
  by (simp add: keeps_def)

lemma write_ok:
  assumes "write_file deny fs p body = (fs', None)"
  shows "fs' p = Some (Regular body)" "keeps {p} fs fs'"
proof -
  obtain fs1 r1 where m: "mkdir_all deny fs [] (butlast p) = (fs1, r1)" by fastforce
  have "fs' = fs1(p \<mapsto> Regular body)"
    using assms m by (auto simp: write_file_def split: option.splits node.splits if_splits)
  moreover have "adds_dirs fs fs1 (butlast p)" using mkdir_all_frame [OF m] by simp
  ultimately show "fs' p = Some (Regular body)" "keeps {p} fs fs'" by (auto simp: keeps_def adds_dirs_def)
qed

lemma copy_ok:
  assumes "copyFile deny fs src dst = (fs', None)" and "safeRegularFileInfo fs src = Inr n"
  shows "\<exists>body. n = Regular body \<and> fs src = Some (Regular body) \<and> fs' dst = Some (Regular body)" "keeps {dst} fs fs'"
proof -
  obtain fs1 r1 where m: "mkdir_all deny fs [] (butlast dst) = (fs1, r1)" by fastforce
  have a: "adds_dirs fs fs1 (butlast dst)" using mkdir_all_frame [OF m] by simp
  from assms m obtain body where b: "read_file fs1 src = Inr body" "write_file deny fs1 dst body = (fs', None)"
    by (auto simp: copyFile_def split: option.splits sum.splits)
  have s: "fs src = Some n" using assms(2) by (auto simp: safeRegularFileInfo_def split: option.splits node.splits)
  then have "fs1 src = Some n" using a by (auto simp: adds_dirs_def)
  with b(1) have "n = Regular body" by (auto simp: read_file_def safeRegularFileInfo_def split: node.splits)
  with s write_ok [OF b(2)] show "\<exists>body. n = Regular body \<and> fs src = Some (Regular body) \<and> fs' dst = Some (Regular body)" by blast
  show "keeps {dst} fs fs'" using a write_ok(2) [OF b(2)] by (auto simp: keeps_def adds_dirs_def)
qed

lemma copy_if_ok:
  assumes "copyIfExists deny fs src dst = (fs', None)"
  shows "(fs src = Some (Regular c) \<longrightarrow> fs' dst = Some (Regular c)) \<and> keeps {dst} fs fs'"
proof -
  consider "safeRegularFileInfo fs src = Inl ErrNotExist" "fs' = fs" | n where "safeRegularFileInfo fs src = Inr n" "copyFile deny fs src dst = (fs', None)"
    using assms by (auto simp: copyIfExists_def split: sum.splits fs_error.splits)
  then show ?thesis
  proof cases
    case 1
    then show ?thesis by (auto simp: safeRegularFileInfo_def keeps_def split: option.splits node.splits)
  next
    case 2
    from copy_ok [OF 2(2,1)] show ?thesis by auto
  qed
qed

lemma copy_logs_ok:
  assumes "copy_logs deny fs l = (fs', None)"
  shows "fs' (finalLogs l) = Some (Regular (file_content fs (tmpLogs l))) \<and> keeps {finalLogs l} fs fs'"
proof -
  consider "fs (tmpLogs l) = None" "write_file deny fs (finalLogs l) [] = (fs', None)"
    | n where "safeRegularFileInfo fs (tmpLogs l) = Inr n" "copyFile deny fs (tmpLogs l) (finalLogs l) = (fs', None)"
    using assms by (auto simp: copy_logs_def safeRegularFileInfo_def split: sum.splits fs_error.splits option.splits node.splits)
  then show ?thesis
  proof cases
    case 1
    from write_ok [OF 1(2)] 1(1) show ?thesis by (simp add: file_content_def)
  next
    case 2
    from copy_ok [OF 2(2,1)] show ?thesis by (auto simp: file_content_def)
  qed
qed

lemma upload_ok:
  assumes "uploadArchiveFiles deny enc up files p md fs u = (fs', u', Some (md', merged))"
  shows "fs' p = Some (Regular (enc md'))" "keeps {p} fs fs'" "md' = md\<lparr>md_upload := merged\<rparr>"
proof -
  obtain mf df where s: "split_metadata p files = (mf, df)" by fastforce
  obtain u1 r1 where 1: "(if df = [] then (u, Some zeroUpload) else up fs df u) = (u1, r1)" by fastforce
  then obtain upl where r1: "r1 = Some upl" using assms s by (cases r1) (auto simp: uploadArchiveFiles_def)
  obtain fs1 w1 where 2: "write_file deny fs p (enc (md\<lparr>md_upload := upl\<rparr>)) = (fs1, w1)" by fastforce
  then have w1: "w1 = None" using assms s 1 r1 by (cases w1) (auto simp: uploadArchiveFiles_def)
  from assms s 1 r1 2 w1 have md: "md' = md\<lparr>md_upload := merged\<rparr>" and 3: "write_file deny fs1 p (enc md') = (fs', None)"
    by (auto simp: uploadArchiveFiles_def Let_def split: prod.splits option.splits)
  from keeps_trans [OF write_ok(2) [OF 2 [unfolded w1]] write_ok(2) [OF 3]] show "keeps {p} fs fs'" by simp
  from write_ok(1) [OF 3] md show "fs' p = Some (Regular (enc md'))" "md' = md\<lparr>md_upload := merged\<rparr>" by simp_all
qed

lemma replace_ok:
  assumes "replaceFileNoSymlink deny listing fs src dst = (fs', None)" and "src \<noteq> dst"
  shows "fs' dst = fs src" "fs src \<noteq> None" "\<not> deny src" "keeps {src, dst} fs fs'"
proof -
  obtain fs1 r1 where o1: "os_remove deny listing fs dst = (fs1, r1)" by fastforce
  then have k: "\<forall>q. q \<noteq> dst \<longrightarrow> fs1 q = fs q" by (auto simp: os_remove_def split: option.splits if_splits)
  have e: "fs' = fs1(src := None, dst := fs1 src) \<and> \<not> deny src \<and> fs src \<noteq> None"
    using assms(1) o1 by (auto simp: replaceFileNoSymlink_def Let_def safeRegularFileInfo_def split: option.splits sum.splits if_splits node.splits)
  with k assms(2) show "fs' dst = fs src" "fs src \<noteq> None" "\<not> deny src" "keeps {src, dst} fs fs'" by (auto simp: keeps_def)
qed

lemma remux_ok:
  assumes "remux env l out fs = (fs', Some src)"
  shows "\<exists>fs0. pe_run env (if snd src then previewPlaylist l else finalMKV l) out fs0 = (fs', True)"
  using assms by (auto simp: remux_def split: prod.splits bool.splits sum.splits)

lemma package_finish_ok:
  assumes "finish_package env up job l src fs u = (fs', u', Inr res)" and ok: "pack_ok env base job l fs0"
  shows "\<exists>fs2 merged. changes_in (finalDir l) fs fs2 \<and> keeps {finalLogs l, finalCaptions l, finalTranscript l, finalMetadata l} fs fs2
    \<and> fs2 (finalLogs l) = Some (Regular (file_content fs (tmpLogs l)))
    \<and> (\<forall>c. fs (tmpCaptions l) = Some (Regular c) \<longrightarrow> fs2 (finalCaptions l) = Some (Regular c))
    \<and> (\<forall>c. fs (tmpTranscript l) = Some (Regular c) \<longrightarrow> fs2 (finalTranscript l) = Some (Regular c))
    \<and> fs2 (finalMetadata l) = Some (Regular (pe_enc env (pr_metadata res)))
    \<and> pr_metadata res = (package_metadata env job src)\<lparr>md_upload := merged\<rparr>
    \<and> pr_layout res = l \<and> pr_source res = fst src \<and> pr_partial res = snd src
    \<and> cleanupExpiredLocalArchives (pe_uni env) (pe_deny env) (pe_info env) base (PkgStreamID job) (PkgRunID job)
         (RetentionDays (PkgArchiveConfig job)) (pe_time env) fs2 = (fs', None)"
proof -
  note f = pack_ok_files [OF ok]
  obtain fs1 r1 where 1: "copy_sidecars (pe_deny env) l fs = (fs1, r1)" by fastforce
  have r1: "r1 = None" using assms(1) 1 by (cases r1) (auto simp: finish_package_def)
  obtain fa ra where a: "copy_logs (pe_deny env) fs l = (fa, ra)" by fastforce
  obtain fb rb where b: "copyIfExists (pe_deny env) fa (tmpCaptions l) (finalCaptions l) = (fb, rb)" by fastforce
  have r: "ra = None" "rb = None" and c: "copyIfExists (pe_deny env) fb (tmpTranscript l) (finalTranscript l) = (fs1, None)"
    using 1 r1 a b by (auto simp: copy_sidecars_def then_fs_def split: option.splits)
  obtain files where files: "collectArchiveFiles fs1 l (PkgArchiveConfig job) = Inr files"
    using assms(1) 1 r1 by (cases "collectArchiveFiles fs1 l (PkgArchiveConfig job)") (auto simp: finish_package_def)
  obtain fs2 u2 r2 where 2: "uploadArchiveFiles (pe_deny env) (pe_enc env) up files (finalMetadata l) (package_metadata env job src) fs1 u = (fs2, u2, r2)"
    using prod_cases3 by blast
  obtain md merged where r2: "r2 = Some (md, merged)" using assms(1) 1 r1 files 2 by (cases r2) (auto simp: finish_package_def)
  have fin: "cleanupExpiredLocalArchives (pe_uni env) (pe_deny env) (pe_info env) base (PkgStreamID job) (PkgRunID job)
      (RetentionDays (PkgArchiveConfig job)) (pe_time env) fs2 = (fs', None)"
    "pr_metadata res = md" "pr_layout res = l" "pr_source res = fst src" "pr_partial res = snd src"
    using assms(1) 1 r1 files 2 r2 f(2) by (auto simp: finish_package_def split: prod.splits option.splits)
  note up = upload_ok [OF 2 [unfolded r2]]
  note la = copy_logs_ok [OF a [unfolded r(1)]] and lb = copy_if_ok [OF b [unfolded r(2)]] and lc = copy_if_ok [OF c]
  have t: "tmpCaptions l = tmpDir l @ [''captions.vtt'']" "tmpTranscript l = tmpDir l @ [''transcript.json'']"
    using f by (simp_all add: layout_file_defs)
  have all: "keeps {finalLogs l, finalCaptions l, finalTranscript l, finalMetadata l} fs fs2"
    using keeps_trans [OF keeps_trans [OF keeps_trans [OF conjunct2 [OF la] conjunct2 [OF lb]] conjunct2 [OF lc]] up(2)]
    by (simp add: insert_commute)
  have "fs2 (finalLogs l) = Some (Regular (file_content fs (tmpLogs l)))"
    by (rule keeps_at [OF up(2)], simp add: f, rule keeps_at [OF conjunct2 [OF lc]], simp add: f,
        rule keeps_at [OF conjunct2 [OF lb]], simp add: f, rule conjunct1 [OF la])
  moreover have "fs2 (finalCaptions l) = Some (Regular x)" if "fs (tmpCaptions l) = Some (Regular x)" for x
  proof -
    have "fa (tmpCaptions l) = Some (Regular x)" by (rule keeps_at [OF conjunct2 [OF la] _ that]) (simp add: f t)
    with lb have "fb (finalCaptions l) = Some (Regular x)" by blast
    then have "fs1 (finalCaptions l) = Some (Regular x)" by (rule keeps_at [OF conjunct2 [OF lc], rotated]) (simp add: f)
    then show ?thesis by (rule keeps_at [OF up(2), rotated]) (simp add: f)
  qed
  moreover have "fs2 (finalTranscript l) = Some (Regular x)" if "fs (tmpTranscript l) = Some (Regular x)" for x
  proof -
    have "fa (tmpTranscript l) = Some (Regular x)" by (rule keeps_at [OF conjunct2 [OF la] _ that]) (simp add: f t)
    then have "fb (tmpTranscript l) = Some (Regular x)" by (rule keeps_at [OF conjunct2 [OF lb], rotated]) (simp add: f t)
    with lc have "fs1 (finalTranscript l) = Some (Regular x)" by blast
    then show ?thesis by (rule keeps_at [OF up(2), rotated]) (simp add: f)
  qed
  moreover have "changes_in (finalDir l) fs fs2"
    using changes_trans [OF sidecars_changes [OF 1 f(3-5)] upload_changes [OF 2 [unfolded f(6)]]] .
  ultimately show ?thesis using all up fin by (intro exI [of _ fs2] exI [of _ merged]) simp
qed

lemma not_expired_here:
  assumes "pack_ok env base job l fs" and "prefix (finalDir l) q"
  shows "\<not> expired_at (pe_uni env) di base (PkgStreamID job) (PkgRunID job) cutoff q"
  using assms(2) by (auto simp: expired_at_def pack_ok_files(1) [OF assms(1)] prefix_def)

text \<open>
  C8. A package that succeeds is complete. The finished file is what FFmpeg wrote, from the recording or, when that failed, from the
  preview, and the result and the metadata say which; logs, captions and transcript are those of the
  recording; the metadata on disk are the metadata of the result, with what the uploader answered; and no
  unfinished output is left.
\<close>

theorem package_complete:
  assumes "package env up base active job fs u = (fs', u', Inr res)" and "pack_ok env base job l fs"
  shows "(\<exists>fs0. snd (pe_run env (if pr_partial res then previewPlaylist l else finalMKV l) (finalDir l @ [pe_temp env]) fs0)
        \<and> fs' (finalMP4 l) = fst (pe_run env (if pr_partial res then previewPlaylist l else finalMKV l) (finalDir l @ [pe_temp env]) fs0)
            (finalDir l @ [pe_temp env])) \<and> fs' (finalMP4 l) \<noteq> None
    \<and> fs' (finalLogs l) = Some (Regular (file_content fs (tmpLogs l)))
    \<and> (\<forall>c. fs (tmpCaptions l) = Some (Regular c) \<longrightarrow> fs' (finalCaptions l) = Some (Regular c))
    \<and> (\<forall>c. fs (tmpTranscript l) = Some (Regular c) \<longrightarrow> fs' (finalTranscript l) = Some (Regular c))
    \<and> fs' (finalMetadata l) = Some (Regular (pe_enc env (pr_metadata res)))
    \<and> (\<exists>merged. pr_metadata res = (package_metadata env job (pr_source res, pr_partial res))\<lparr>md_upload := merged\<rparr>)
    \<and> (\<forall>c. fs' (finalDir l @ [pe_temp env]) \<noteq> Some (Regular c))"
proof -
  let ?out = "finalDir l @ [pe_temp env]" and ?d = "finalDir l"
  note ok = assms(2) [unfolded pack_ok_def] and f = pack_ok_files [OF assms(2)]
  have plain: "plain_name (pe_temp env)" using ok by simp
  have temp: "pe_temp env \<notin> {''final.mp4'', ''logs.jsonl'', ''captions.vtt'', ''transcript.json'', ''metadata.json''}"
    using ok by (auto simp: has_prefix_def)
  have locked: "package_locked env up job l fs u = (fs', u', Inr res)"
    using assms(1) ok by (auto simp: package_def split: option.splits if_splits)
  obtain fs1 r1 where 1: "ensureDirNoSymlinks (pe_deny env) fs (RootDir l) ?d = (fs1, r1)" by fastforce
  have r1: "r1 = None" using locked 1 by (cases r1) (auto simp: package_locked_def)
  have a1: "adds_dirs fs fs1 ?d"
    by (rule ensure_dir_frame [OF 1]) (use ok f in \<open>auto simp: clean_path_def newRunLayout_fields dest: safe_id_plain run_id_plain simp: plain_name_def\<close>)
  obtain fs2 r2 where 2: "createRemuxOutput (pe_deny env) (pe_temp env) fs1 (RootDir l) ?d = (fs2, r2)" by fastforce
  have r2: "r2 = Inr ?out"
    using locked 1 r1 2 create_changes(2) [OF 2 plain] by (cases r2) (auto simp: package_locked_def split: option.splits sum.splits if_splits)
  obtain fs6 u6 r6 where 6: "package_output env up job l ?out fs2 u = (fs6, u6, r6)" using prod_cases3 by blast
  have e: "fs' = fst (os_remove (pe_deny env) (di_list (pe_info env)) fs6 ?out)" "r6 = Inr res"
    using locked 1 r1 2 r2 6 by (auto simp: package_locked_def split: option.splits sum.splits if_splits)
  obtain fs3 r3 where 3: "remux env l ?out fs2 = (fs3, r3)" by fastforce
  obtain src where r3: "r3 = Some src" using 6 e(2) 3 by (cases r3) (auto simp: package_output_def split: if_splits)
  obtain fs4 r4 where 4: "replaceFileNoSymlink (pe_deny env) (di_list (pe_info env)) fs3 ?out (finalMP4 l) = (fs4, r4)" by fastforce
  have r4: "r4 = None" and 5: "finish_package env up job l src fs4 u = (fs6, u6, Inr res)"
    using 6 e(2) 3 r3 4 by (auto simp: package_output_def split: if_splits sum.splits option.splits)
  have ne: "?out \<noteq> finalMP4 l" using temp f(7) by simp
  note rep = replace_ok [OF 4 [unfolded r4] ne]
  obtain fs5 merged where c5: "changes_in ?d fs4 fs5" and k5: "keeps {finalLogs l, finalCaptions l, finalTranscript l, finalMetadata l} fs4 fs5"
    and logs: "fs5 (finalLogs l) = Some (Regular (file_content fs4 (tmpLogs l)))"
    and caps: "\<forall>c. fs4 (tmpCaptions l) = Some (Regular c) \<longrightarrow> fs5 (finalCaptions l) = Some (Regular c)"
    and trans: "\<forall>c. fs4 (tmpTranscript l) = Some (Regular c) \<longrightarrow> fs5 (finalTranscript l) = Some (Regular c)"
    and meta: "fs5 (finalMetadata l) = Some (Regular (pe_enc env (pr_metadata res)))"
    and md: "pr_metadata res = (package_metadata env job src)\<lparr>md_upload := merged\<rparr>" and src: "pr_source res = fst src" "pr_partial res = snd src"
    and clean: "cleanupExpiredLocalArchives (pe_uni env) (pe_deny env) (pe_info env) base (PkgStreamID job) (PkgRunID job)
         (RetentionDays (PkgArchiveConfig job)) (pe_time env) fs5 = (fs6, None)"
    using package_finish_ok [OF 5 assms(2)] by blast
  have tmp: "fs4 q = fs q" if pq: "prefix (tmpDir l) q" for q
  proof -
    obtain zs where q: "q = base @ ''tmp'' # zs" using pq f(8) by (auto simp: prefix_def)
    then have np: "\<not> prefix ?d q" "\<not> prefix q ?d" by (auto simp: f(1) prefix_def)
    have "fs1 q = fs q" using a1 np(2) unfolding adds_dirs_def by metis
    moreover have "changes_in ?d fs1 fs2" by (rule create_changes(1) [OF 2 plain])
    moreover have "changes_in ?d fs2 fs3" by (rule remux_changes [OF _ 3]) (use ok in simp_all)
    moreover have "changes_in ?d fs3 fs4" by (rule replace_changes [OF 4]) (simp_all add: f)
    ultimately show ?thesis using np unfolding changes_in_def by metis
  qed
  have t: "prefix (tmpDir l) (tmpLogs l)" "prefix (tmpDir l) (tmpCaptions l)" "prefix (tmpDir l) (tmpTranscript l)"
    using f by (simp_all add: layout_file_defs)
  have fin: "finite (dom fs5)"
  proof -
    have "changes_in ?d fs fs1" by (rule changes_dirs [OF a1]) simp
    moreover have "changes_in ?d fs1 fs2" by (rule create_changes(1) [OF 2 plain])
    moreover have "changes_in ?d fs2 fs3" by (rule remux_changes [OF _ 3]) (use ok in simp_all)
    moreover have "changes_in ?d fs3 fs4" by (rule replace_changes [OF 4]) (simp_all add: f)
    ultimately have "finite (dom fs4)" using ok by (simp add: changes_in_def)
    with c5 show ?thesis by (simp add: changes_in_def)
  qed
  have here: "fs6 q = fs5 q" if "prefix ?d q" "fs5 q \<noteq> None" for q
  proof (cases "RetentionDays (PkgArchiveConfig job) \<le> 0")
    case True
    with clean show ?thesis by (simp add: cleanupExpiredLocalArchives_def)
  next
    case False
    have "retained base (expired_at (pe_uni env) (pe_info env) base (PkgStreamID job) (PkgRunID job)
        (retention_cutoff (RetentionDays (PkgArchiveConfig job)) (pe_time env))) fs5 fs6"
      using cleanup_retained [OF clean _ _ _ _ fin] ok False by simp
    from retained_kept [OF this that(2) not_expired_here [OF assms(2) that(1)]] show ?thesis .
  qed
  have run: "snd (pe_run env i ?out fs0) \<and> fs3 = fst (pe_run env i ?out fs0)"
    if "pe_run env i ?out fs0 = (fs3, True)" for i fs0 using that by simp
  obtain fs0 where r0: "snd (pe_run env (if snd src then previewPlaylist l else finalMKV l) ?out fs0)"
    "fs3 = fst (pe_run env (if snd src then previewPlaylist l else finalMKV l) ?out fs0)"
    using remux_ok [OF 3 [unfolded r3]] run by blast
  have nd: "\<not> pe_deny env ?out" "fs3 ?out \<noteq> None" using rep by simp_all
  have out: "fs' = fs6 \<or> fs' = fs6(?out := None)"
    unfolding e(1) by (auto simp: os_remove_def split: option.splits)
  have final: "fs' q = fs5 q" if "prefix ?d q" "fs5 q \<noteq> None" "q \<noteq> ?out" for q
    using here [OF that(1,2)] out that(3) by auto
  have mp4: "fs5 (finalMP4 l) = fs3 ?out"
    using k5 rep(1) nd(2) by (simp add: keeps_def f)
  have dirs: "prefix ?d (finalLogs l)" "prefix ?d (finalCaptions l)" "prefix ?d (finalTranscript l)" "prefix ?d (finalMetadata l)" "prefix ?d (finalMP4 l)"
    and outs: "finalLogs l \<noteq> ?out" "finalCaptions l \<noteq> ?out" "finalTranscript l \<noteq> ?out" "finalMetadata l \<noteq> ?out" "finalMP4 l \<noteq> ?out"
    using temp by (auto simp: f)
  have tl: "fs4 (tmpLogs l) = fs (tmpLogs l)" "fs4 (tmpCaptions l) = fs (tmpCaptions l)" "fs4 (tmpTranscript l) = fs (tmpTranscript l)"
    using tmp t by blast+
  have "fs' (finalMP4 l) = fs3 ?out" using final [OF dirs(5) _ outs(5)] mp4 nd(2) by simp
  moreover have "fs' (finalLogs l) = Some (Regular (file_content fs (tmpLogs l)))"
    using final [OF dirs(1) _ outs(1)] logs tl(1) by (simp add: file_content_def)
  moreover have "fs' (finalCaptions l) = Some (Regular c)" if "fs (tmpCaptions l) = Some (Regular c)" for c
    using final [OF dirs(2) _ outs(2)] caps tl(2) that by simp
  moreover have "fs' (finalTranscript l) = Some (Regular c)" if "fs (tmpTranscript l) = Some (Regular c)" for c
    using final [OF dirs(3) _ outs(3)] trans tl(3) that by simp
  moreover have "fs' (finalMetadata l) = Some (Regular (pe_enc env (pr_metadata res)))"
    using final [OF dirs(4) _ outs(4)] meta by simp
  moreover have "fs' ?out \<noteq> Some (Regular c)" for c
    using nd(1) unfolding e(1) by (auto simp: os_remove_def split: option.splits if_splits)
  ultimately show ?thesis using r0 nd(2) md src by (intro conjI exI [of _ fs0] exI [of _ merged]) simp_all
qed

section \<open>A sample\<close>

definition walk_all :: "text_fs \<Rightarrow> path \<Rightarrow> path list" where
  [code del]: "walk_all fs dir = sorted_list_of_set {q \<in> dom fs. strict_prefix dir q}"

definition sample_pack :: pack_env where
  "sample_pack = \<lparr>pe_uni = (\<lambda>_. False), pe_deny = (\<lambda>_. False), pe_temp = ''.final-remux-1.mp4'',
     pe_info = \<lparr>di_list = (\<lambda>_ _. []), di_walk = walk_all, di_time = (\<lambda>_. 0)\<rparr>,
     pe_run = (\<lambda>i out fs. if i = [''srv'', ''tmp'', ''s'', ''final.mkv''] then (fs, False) else (fs(out \<mapsto> Regular ''mp4''), True)),
     pe_enc = (\<lambda>md. ''metadata of '' @ md_stream md), pe_time = 1000, pe_took = 0\<rparr>"

definition sample_uploader :: "nat uploader" where
  "sample_uploader fs files n = (n + length files, Some (zeroUpload\<lparr>ur_attempts := 1\<rparr>))"

definition sample_pack_job :: package_job where
  "sample_pack_job = \<lparr>PkgStreamID = ''s'', PkgRunID = ''r1'', PkgName = ''show'', PkgStartedAt = Some 5, PkgDryRun = False,
     PkgArchiveConfig = zeroArchiveConfig\<rparr>"

definition sample_pack_fs :: text_fs where
  "sample_pack_fs = [[''srv''] \<mapsto> Dir, [''srv'', ''tmp''] \<mapsto> Dir, [''srv'', ''tmp'', ''s''] \<mapsto> Dir,
     [''srv'', ''tmp'', ''s'', ''final.mkv''] \<mapsto> Regular ''mkv'', [''srv'', ''tmp'', ''s'', ''preview''] \<mapsto> Dir,
     [''srv'', ''tmp'', ''s'', ''preview'', ''index.m3u8''] \<mapsto> Regular ''m3u8'',
     [''srv'', ''tmp'', ''s'', ''captions.vtt''] \<mapsto> Regular ''vtt'']"

definition sample_packed :: "text_fs \<times> nat \<times> (package_error + package_result)" where
  "sample_packed = package sample_pack sample_uploader [''srv''] [] sample_pack_job sample_pack_fs 0"

lemma sample_pack_ok:
  "\<exists>l. pack_ok sample_pack [''srv''] sample_pack_job l sample_pack_fs \<and> l = \<lparr>RootDir = [''srv''], StreamID = ''s'', ArchiveRunID = ''r1''\<rparr>"
proof -
  have "newRunLayout (pe_uni sample_pack) [''srv''] ''s'' ''r1'' = Some \<lparr>RootDir = [''srv''], StreamID = ''s'', ArchiveRunID = ''r1''\<rparr>"
    by code_simp
  moreover have "walks (pe_info sample_pack)"
    by (auto simp: walks_def sample_pack_def walk_all_def)
  moreover have "finite (dom sample_pack_fs)" by (simp add: sample_pack_fs_def)
  ultimately show ?thesis
    by (auto simp: pack_ok_def sample_pack_def sample_pack_job_def runs_to_output_def clean_path_def plain_name_def has_prefix_def)
qed

lemma sample_packed_ok: "(case snd (snd sample_packed) of Inr res \<Rightarrow> pr_partial res | Inl _ \<Rightarrow> False)"
  by code_simp

lemma packaging_keeps_recordings_witness:
  "fst sample_packed [''srv'', ''tmp'', ''s'', ''final.mkv''] = Some (Regular ''mkv'')"
proof -
  obtain fs u r where p: "sample_packed = (fs, u, r)" using prod_cases3 by blast
  obtain l where l: "pack_ok sample_pack [''srv''] sample_pack_job l sample_pack_fs"
    "l = \<lparr>RootDir = [''srv''], StreamID = ''s'', ArchiveRunID = ''r1''\<rparr>" using sample_pack_ok by blast
  have "tmpDir l = [''srv'', ''tmp'', ''s'']" using pack_ok_files(8) [OF l(1)] by (simp add: sample_pack_job_def)
  moreover have "RetentionDays (PkgArchiveConfig sample_pack_job) \<le> 106751" by (simp add: sample_pack_job_def zeroArchiveConfig_def)
  moreover have m: "sample_pack_fs [''srv'', ''tmp'', ''s'', ''final.mkv''] = Some (Regular ''mkv'')" by (simp add: sample_pack_fs_def)
  ultimately have "fs [''srv'', ''tmp'', ''s'', ''final.mkv''] = Some (Regular ''mkv'')"
    using conjunct2 [OF packaging_keeps_recordings [OF p [unfolded sample_packed_def] l(1)], rule_format, of "[''srv'', ''tmp'', ''s'', ''final.mkv'']"]
    by simp
  then show ?thesis unfolding p by simp
qed

lemma package_complete_witness:
  "fst sample_packed [''srv'', ''final'', ''s'', ''r1'', ''final.mp4''] = Some (Regular ''mp4'')
   \<and> fst sample_packed [''srv'', ''final'', ''s'', ''r1'', ''captions.vtt''] = Some (Regular ''vtt'')
   \<and> fst sample_packed [''srv'', ''final'', ''s'', ''r1'', ''metadata.json''] = Some (Regular ''metadata of s'')"
proof -
  obtain fs u r where p: "sample_packed = (fs, u, r)" using prod_cases3 by blast
  obtain res where r: "r = Inr res" "pr_partial res" using sample_packed_ok unfolding p by (auto split: sum.splits)
  obtain l where l: "pack_ok sample_pack [''srv''] sample_pack_job l sample_pack_fs"
    "l = \<lparr>RootDir = [''srv''], StreamID = ''s'', ArchiveRunID = ''r1''\<rparr>" using sample_pack_ok by blast
  note f = pack_ok_files [OF l(1)]
  have d: "finalDir l = [''srv'', ''final'', ''s'', ''r1'']" "tmpDir l = [''srv'', ''tmp'', ''s'']"
    using f by (simp_all add: sample_pack_job_def)
  have t: "tmpCaptions l = [''srv'', ''tmp'', ''s'', ''captions.vtt'']" "previewPlaylist l = [''srv'', ''tmp'', ''s'', ''preview'', ''index.m3u8'']"
    using d(2) by (simp_all add: layout_file_defs previewDir_def)
  from package_complete [OF p [unfolded sample_packed_def r(1)] l(1)] r d t f show ?thesis
    unfolding p by (auto simp: sample_pack_fs_def sample_pack_def sample_pack_job_def package_metadata_def)
qed

end
