(* ===== verification/Drive.thy ===== *)
theory Drive
  imports Packaging
begin

text \<open>
  Uploads: \<^verbatim>\<open>internal/archive/uploader.go\<close>, \<^verbatim>\<open>retry.go\<close> and \<^verbatim>\<open>gdrive.go\<close>. Google Drive is a service with a state of its
  own: its answers to requests are arguments. \<open>None\<close> is an error, and a request that failed may have had its effect.
\<close>

section \<open>Uploaders\<close>

definition dryRunUpload :: "bool \<Rightarrow> 'u uploader" where
  "dryRunUpload cancelled fs files u =
     (if cancelled then (u, None)
      else (u, Some \<lparr>ur_dry = True, ur_folder = ''dry-run-folder'',
        ur_ids = foldl (\<lambda>ids f. AList.update (uf_drive f) ''dry-run-file'' ids) [] files, ur_attempts = 0\<rparr>))"

definition mockUpload :: "bool \<Rightarrow> bool \<Rightarrow> 'u uploader" where
  "mockUpload fails cancelled fs files u =
     (if fails then (u, None) else if files = [] then (u, None) else dryRunUpload cancelled fs files u)"

text \<open>The prefix of the SHA-256 of a secret; \<open>sha\<close> gives it in hexadecimal.\<close>

definition secretFingerprint :: "(string \<Rightarrow> string) \<Rightarrow> string \<Rightarrow> string" where
  "secretFingerprint sha v = ''sha256:'' @ take 12 (sha v)"

definition upload_json :: "(string \<Rightarrow> string) \<Rightarrow> upload_result \<Rightarrow> (string \<times> json) list" where
  "upload_json sha r =
     (''dry_run'', JBool (ur_dry r))
     # (if ur_folder r \<noteq> [] then [(''folder_id_configured'', JBool True),
          (''folder_id_fingerprint'', JStr (secretFingerprint sha (ur_folder r)))] else [])
     @ [(''file_count'', JNum (of_nat (length (ur_ids r))))]
     @ (let prints = map (\<lambda>(k, v). (k, JStr (secretFingerprint sha v))) (filter (\<lambda>(k, v). v \<noteq> []) (ur_ids r))
        in if prints \<noteq> [] then [(''file_fingerprints'', JObj prints)] else [])
     @ [(''attempts'', JNum (of_int (ur_attempts r)))]"

section \<open>Trying again\<close>

text \<open>The delay doubles; it is a \<^verbatim>\<open>time.Duration\<close>, and wraps.\<close>

definition retry_delay :: "int \<Rightarrow> int \<Rightarrow> int" where
  "retry_delay base attempt = wrap64 (base * wrap64 (2 ^ nat (attempt - 1)))"

text \<open>\<open>sleep\<close> answers False when the context ended.\<close>

function retry_loop ::
  "'u uploader \<Rightarrow> (int \<Rightarrow> 'u \<Rightarrow> 'u \<times> bool) \<Rightarrow> int \<Rightarrow> int \<Rightarrow> text_fs \<Rightarrow> upload_file list \<Rightarrow> int \<Rightarrow> 'u \<Rightarrow> 'u \<times> upload_result option" where
  "retry_loop up sleep most base fs files attempt u =
     (if most < attempt then (u, None)
      else case up fs files u of
        (u, Some r) \<Rightarrow> (u, Some (r\<lparr>ur_attempts := attempt\<rparr>))
      | (u, None) \<Rightarrow>
          if attempt = most then (u, None)
          else case sleep (retry_delay base attempt) u of
            (u, False) \<Rightarrow> (u, None)
          | (u, True) \<Rightarrow> retry_loop up sleep most base fs files (attempt + 1) u)"
  by pat_completeness auto
termination
  by (relation "measure (\<lambda>(up, sleep, most, base, fs, files, attempt, u). nat (most + 1 - attempt))") auto

declare retry_loop.simps [simp del]

definition retryUpload :: "'u uploader \<Rightarrow> (int \<Rightarrow> 'u \<Rightarrow> 'u \<times> bool) \<Rightarrow> int \<Rightarrow> int \<Rightarrow> 'u uploader" where
  "retryUpload up sleep most base fs files u =
     retry_loop up sleep (if most \<le> 0 then 1 else most) (if base \<le> 0 then second else base) fs files 1 u"

section \<open>Google Drive\<close>

record drive_config =
  dc_auth :: string
  dc_credential :: string
  dc_account :: string
  dc_folder :: string
  dc_shared :: bool
  dc_shared_id :: string
  dc_client :: string
  dc_secret :: string
  dc_refresh :: string
  dc_dry :: bool

definition drive_summary :: "(string \<Rightarrow> string) \<Rightarrow> drive_config \<Rightarrow> (string \<times> json) list" where
  "drive_summary sha c =
     (let flag = (\<lambda>k v. if trim_space v \<noteq> [] then [(k, JBool True)] else [])
      in [(''auth_mode'', JStr (dc_auth c)), (''shared_drive'', JBool (dc_shared c)), (''dry_run'', JBool (dc_dry c))]
         @ (if trim_space (dc_credential c) \<noteq> [] \<or> trim_space (dc_account c) \<noteq> []
            then [(''unsupported_service_account_configured'', JBool True)] else [])
         @ (if trim_space (dc_folder c) \<noteq> []
            then [(''folder_id_configured'', JBool True), (''folder_id_fingerprint'', JStr (secretFingerprint sha (dc_folder c)))] else [])
         @ flag ''shared_drive_id_configured'' (dc_shared_id c) @ flag ''client_id_configured'' (dc_client c)
         @ flag ''client_secret_configured'' (dc_secret c) @ flag ''refresh_token_configured'' (dc_refresh c))"

definition drive_valid :: "drive_config \<Rightarrow> bool" where
  "drive_valid c \<longleftrightarrow> \<not> (trim_space (dc_credential c) \<noteq> [] \<or> trim_space (dc_account c) \<noteq> [] \<or> dc_auth c = ''service_account'')
     \<and> dc_auth c = ''oauth2'' \<and> dc_client c \<noteq> [] \<and> dc_secret c \<noteq> [] \<and> dc_refresh c \<noteq> [] \<and> dc_folder c \<noteq> []"

definition env_bool :: "string \<Rightarrow> bool \<Rightarrow> bool" where
  "env_bool raw fallback =
     (let value = trim_space (to_lower raw)
      in if value = [] then fallback
         else if value \<in> {''1'', ''true'', ''yes'', ''on''} then True
         else if value \<in> {''0'', ''false'', ''no'', ''off''} then False
         else fallback)"

definition replace_char :: "char \<Rightarrow> string \<Rightarrow> string \<Rightarrow> string" where
  "replace_char c t s = concat (map (\<lambda>d. if d = c then t else [d]) s)"

definition safeDriveName :: "string \<Rightarrow> string" where
  "safeDriveName value =
     (let value = replace_char (CHR 0x5C) ''_'' (replace_char (CHR ''/'') ''_'' (trim_space value))
      in if value = [] then ''untitled'' else value)"

definition driveQueryLiteral :: "string \<Rightarrow> string" where
  "driveQueryLiteral value = replace_char (CHR 0x27) [CHR 0x5C, CHR 0x27] (replace_char (CHR 0x5C) [CHR 0x5C, CHR 0x5C] value)"

definition quoted :: "string \<Rightarrow> string" where
  "quoted s = CHR 0x27 # s @ [CHR 0x27]"

definition query_head :: "bool \<Rightarrow> string" where
  "query_head folder = (if folder then ''mimeType = '' else ''mimeType != '') @ quoted ''application/vnd.google-apps.folder''
     @ '' and trashed = false and name = ''"

definition drive_query :: "bool \<Rightarrow> string \<Rightarrow> string \<Rightarrow> string" where
  "drive_query folder name parent =
     query_head folder @ quoted (driveQueryLiteral name) @ '' and '' @ quoted (driveQueryLiteral parent) @ '' in parents''"

text \<open>
  The requests: a list for a query, which is answered with at most one identifier (the page size); the creation of
  a folder or of a file with its contents; a change of a file.
\<close>

record 'd drive_service =
  dv_list :: "string \<Rightarrow> bool \<Rightarrow> string option \<Rightarrow> 'd \<Rightarrow> 'd \<times> string list option"
  dv_create :: "bool \<Rightarrow> string \<Rightarrow> string \<Rightarrow> string \<Rightarrow> bool \<Rightarrow> 'd \<Rightarrow> 'd \<times> string option"
  dv_update :: "string \<Rightarrow> string \<Rightarrow> string \<Rightarrow> bool \<Rightarrow> 'd \<Rightarrow> 'd \<times> string option"

definition list_corpora :: "drive_config \<Rightarrow> string option" where
  "list_corpora c = (if dc_shared c \<and> trim_space (dc_shared_id c) \<noteq> [] then Some (trim_space (dc_shared_id c)) else None)"

definition ensureDriveFolder ::
  "'d drive_service \<Rightarrow> string \<Rightarrow> string \<Rightarrow> bool \<Rightarrow> string option \<Rightarrow> 'd \<Rightarrow> 'd \<times> string option" where
  "ensureDriveFolder svc parent name shared corpora d =
     (case dv_list svc (drive_query True name parent) shared corpora d of
        (d, None) \<Rightarrow> (d, None)
      | (d, Some (i # _)) \<Rightarrow> (d, Some i)
      | (d, Some []) \<Rightarrow> dv_create svc True name parent [] shared d)"

definition ensureArchiveFolder ::
  "'d drive_service \<Rightarrow> drive_config \<Rightarrow> string \<Rightarrow> string \<Rightarrow> string \<Rightarrow> 'd \<Rightarrow> 'd \<times> string option" where
  "ensureArchiveFolder svc c streamName streamID started d =
     (case ensureDriveFolder svc (dc_folder c) (safeDriveName streamName) (dc_shared c) (list_corpora c) d of
        (d, None) \<Rightarrow> (d, None)
      | (d, Some streamFolder) \<Rightarrow>
          ensureDriveFolder svc streamFolder (started @ ''_JST_'' @ safeDriveName streamID) (dc_shared c) (list_corpora c) d)"

definition findDriveFile :: "'d drive_service \<Rightarrow> string \<Rightarrow> string \<Rightarrow> bool \<Rightarrow> 'd \<Rightarrow> 'd \<times> string option option" where
  "findDriveFile svc folder name shared d =
     (case dv_list svc (drive_query False name folder) shared None d of
        (d, None) \<Rightarrow> (d, None)
      | (d, Some []) \<Rightarrow> (d, Some None)
      | (d, Some (i # _)) \<Rightarrow> (d, Some (if i = [] then None else Some i)))"

definition slash_base :: "string \<Rightarrow> string" where
  "slash_base p =
     (if p = [] then ''.''
      else let p = trim_right_char (CHR ''/'') p; b = rev (takeWhile (\<lambda>c. c \<noteq> CHR ''/'') (rev p))
           in if b = [] then ''/'' else b)"

text \<open>The file is checked, opened and checked again; its contents are those it has then.\<close>

definition uploadFile ::
  "'d drive_service \<Rightarrow> text_fs \<Rightarrow> string \<Rightarrow> upload_file \<Rightarrow> bool \<Rightarrow> 'd \<Rightarrow> 'd \<times> string option" where
  "uploadFile svc fs folder f shared d =
     (case read_file fs (uf_local f) of
        Inl _ \<Rightarrow> (d, None)
      | Inr content \<Rightarrow>
          let name = slash_base (uf_drive f)
          in case findDriveFile svc folder name shared d of
               (d, None) \<Rightarrow> (d, None)
             | (d, Some (Some existing)) \<Rightarrow> dv_update svc existing name content shared d
             | (d, Some None) \<Rightarrow> dv_create svc False name folder content shared d)"

fun upload_files ::
  "'d drive_service \<Rightarrow> text_fs \<Rightarrow> string \<Rightarrow> bool \<Rightarrow> upload_file list \<Rightarrow> (string \<times> string) list \<Rightarrow> 'd
    \<Rightarrow> 'd \<times> (string \<times> string) list option" where
  "upload_files svc fs folder shared [] ids d = (d, Some ids)"
| "upload_files svc fs folder shared (f # files) ids d =
     (case uploadFile svc fs folder f shared d of
        (d, None) \<Rightarrow> (d, None)
      | (d, Some i) \<Rightarrow> upload_files svc fs folder shared files (AList.update (uf_drive f) i ids) d)"

definition googleDriveDryRun :: "upload_file list \<Rightarrow> upload_result" where
  "googleDriveDryRun files = \<lparr>ur_dry = True, ur_folder = ''gdrive-dry-run-folder'',
     ur_ids = foldl (\<lambda>ids f. AList.update (uf_drive f) ''gdrive-dry-run-file'' ids) [] files, ur_attempts = 0\<rparr>"

text \<open>\<open>started\<close> is the time of the start as the code writes it; \<open>connects\<close> is whether a client of the service can be made.\<close>

definition driveUpload ::
  "'d drive_service \<Rightarrow> drive_config \<Rightarrow> bool \<Rightarrow> bool \<Rightarrow> string \<Rightarrow> string \<Rightarrow> string \<Rightarrow> 'd uploader" where
  "driveUpload svc c connects cancelled streamName streamID started fs files d =
     (if cancelled then (d, None)
      else if dc_dry c then (d, Some (googleDriveDryRun files))
      else if \<not> drive_valid c \<or> \<not> connects then (d, None)
      else case ensureArchiveFolder svc c streamName streamID started d of
        (d, None) \<Rightarrow> (d, None)
      | (d, Some folder) \<Rightarrow>
          case upload_files svc fs folder (dc_shared c) files [] d of
            (d, None) \<Rightarrow> (d, None)
          | (d, Some ids) \<Rightarrow> (d, Some \<lparr>ur_dry = False, ur_folder = folder, ur_ids = ids, ur_attempts = 0\<rparr>))"

section \<open>The uploader of a job\<close>

definition googleDriveConfig :: "archive_config \<Rightarrow> drive_config" where
  "googleDriveConfig cfg = \<lparr>dc_auth = AuthMode cfg, dc_credential = [], dc_account = [], dc_folder = FolderID cfg,
     dc_shared = SharedDrive cfg, dc_shared_id = SharedDriveID cfg, dc_client = ClientID cfg, dc_secret = ClientSecret cfg,
     dc_refresh = RefreshToken cfg, dc_dry = False\<rparr>"

definition uploader_for_job ::
  "'d drive_service \<Rightarrow> bool \<Rightarrow> bool \<Rightarrow> (int \<Rightarrow> 'd \<Rightarrow> 'd \<times> bool) \<Rightarrow> string \<Rightarrow> package_job \<Rightarrow> 'd uploader" where
  "uploader_for_job svc connects cancelled sleep started job =
     (if PkgDryRun job \<or> AuthMode (PkgArchiveConfig job) = [] then dryRunUpload cancelled
      else retryUpload (driveUpload svc (googleDriveConfig (PkgArchiveConfig job)) connects cancelled
             (PkgName job) (PkgStreamID job) started) sleep 5 (2 * second))"

end
