(* ===== verification/DriveProperties.thy ===== *)
theory DriveProperties
  imports Drive
begin

text \<open>What uploads guarantee when requests fail and are made again (see \<open>Drive\<close>).\<close>

section \<open>The service\<close>

record drive_entry =
  de_id :: string
  de_folder :: bool
  de_name :: string
  de_parent :: string
  de_content :: string

definition entry_key :: "drive_entry \<Rightarrow> bool \<times> string \<times> string" where
  "entry_key e = (de_folder e, de_name e, de_parent e)"

text \<open>How the service reads a query: a backslash in a literal protects the next character, and a quote ends it.\<close>

fun read_literal :: "string \<Rightarrow> (string \<times> string) option" where
  "read_literal [] = None"
| "read_literal (c # s) =
     (if c = CHR 0x27 then Some ([], s)
      else if c = CHR 0x5C then (case s of [] \<Rightarrow> None | d # s \<Rightarrow> map_option (apfst (Cons d)) (read_literal s))
      else map_option (apfst (Cons c)) (read_literal s))"

definition read_query_as :: "bool \<Rightarrow> string \<Rightarrow> (bool \<times> string \<times> string) option" where
  "read_query_as folder q =
     (let h = query_head folder @ [CHR 0x27]; m = '' and '' @ [CHR 0x27]
      in if \<not> has_prefix q h then None
         else case read_literal (drop (length h) q) of
           None \<Rightarrow> None
         | Some (name, r) \<Rightarrow>
             if \<not> has_prefix r m then None
             else case read_literal (drop (length m) r) of
               None \<Rightarrow> None
             | Some (parent, r) \<Rightarrow> if r = '' in parents'' then Some (folder, name, parent) else None)"

definition read_query :: "string \<Rightarrow> (bool \<times> string \<times> string) option" where
  "read_query q = (case read_query_as True q of None \<Rightarrow> read_query_as False q | Some k \<Rightarrow> Some k)"

text \<open>
  What is documented of the service, for the entries it holds: a list finds an entry when there is one, a creation gives a new
  identifier, a change is made to the file named; an error leaves open whether the request had its effect.
\<close>

definition drive_laws :: "'d drive_service \<Rightarrow> ('d \<Rightarrow> drive_entry list) \<Rightarrow> bool \<Rightarrow> string option \<Rightarrow> bool" where
  "drive_laws svc entries shared corpora \<longleftrightarrow>
     (\<forall>q c d d' r. c \<in> {None, corpora} \<longrightarrow> dv_list svc q shared c d = (d', r) \<longrightarrow> entries d' = entries d
        \<and> (\<forall>ids k. r = Some ids \<longrightarrow> read_query q = Some k \<longrightarrow>
             (\<forall>i \<in> set ids. \<exists>e \<in> set (entries d). de_id e = i \<and> entry_key e = k)
             \<and> (ids = [] \<longrightarrow> (\<forall>e \<in> set (entries d). entry_key e \<noteq> k))))
     \<and> (\<forall>folder name parent content d d' r. dv_create svc folder name parent content shared d = (d', r) \<longrightarrow>
          (r = None \<and> entries d' = entries d)
          \<or> (\<exists>i. i \<noteq> [] \<and> i \<notin> de_id ` set (entries d) \<and> (r = None \<or> r = Some i)
               \<and> entries d' = \<lparr>de_id = i, de_folder = folder, de_name = name, de_parent = parent, de_content = content\<rparr> # entries d))
     \<and> (\<forall>i name content d d' r. dv_update svc i name content shared d = (d', r) \<longrightarrow>
          (r = None \<and> entries d' = entries d)
          \<or> ((r = None \<or> r = Some i)
               \<and> entries d' = map (\<lambda>e. if de_id e = i then e\<lparr>de_name := name, de_content := content\<rparr> else e) (entries d)))"

text \<open>No identifier twice, and no two entries of one kind with one name in one place.\<close>

definition drive_tidy :: "drive_entry list \<Rightarrow> bool" where
  "drive_tidy es \<longleftrightarrow> distinct (map de_id es) \<and> [] \<notin> de_id ` set es \<and> distinct (map entry_key es)"

section \<open>Queries\<close>

lemma replace_char_simps [simp]:
  "replace_char c t [] = []" "replace_char c t (d # s) = (if d = c then t else [d]) @ replace_char c t s"
  by (simp_all add: replace_char_def)

lemma literal_simps [simp]:
  "driveQueryLiteral [] = []"
  "driveQueryLiteral (c # s) = (if c = CHR 0x27 then [CHR 0x5C, CHR 0x27] else if c = CHR 0x5C then [CHR 0x5C, CHR 0x5C] else [c]) @ driveQueryLiteral s"
  by (simp_all add: driveQueryLiteral_def)

lemma read_literal_back: "read_literal (driveQueryLiteral v @ CHR 0x27 # r) = Some (v, r)"
  by (induction v) auto

lemma read_query_back [simp]: "read_query (drive_query folder name parent) = Some (folder, name, parent)"
proof -
  have split: "drive_query folder name parent = (query_head folder @ [CHR 0x27]) @ driveQueryLiteral name @ CHR 0x27
      # ('' and '' @ [CHR 0x27]) @ driveQueryLiteral parent @ CHR 0x27 # '' in parents''"
    by (simp add: drive_query_def quoted_def)
  have same: "read_query_as folder (drive_query folder name parent) = Some (folder, name, parent)"
    unfolding read_query_as_def Let_def split
    by (simp add: has_prefix_def read_literal_back del: append_assoc)
  have other: "read_query_as True (drive_query False name parent) = None"
    by (simp add: read_query_as_def Let_def drive_query_def query_head_def has_prefix_def)
  from same other show ?thesis by (cases folder) (simp_all add: read_query_def)
qed

section \<open>Changes of the entries\<close>

definition evolves :: "(bool \<times> string \<times> string) set \<Rightarrow> drive_entry list \<Rightarrow> drive_entry list \<Rightarrow> bool" where
  "evolves K es es' \<longleftrightarrow> drive_tidy es'
     \<and> (\<forall>e \<in> set es. \<exists>e' \<in> set es'. de_id e' = de_id e \<and> entry_key e' = entry_key e \<and> (entry_key e \<notin> K \<longrightarrow> e' = e))"

lemma evolves_refl: "drive_tidy es \<Longrightarrow> evolves K es es"
  by (auto simp: evolves_def)

lemma evolves_trans: "evolves K a b \<Longrightarrow> evolves L b c \<Longrightarrow> evolves (K \<union> L) a c"
  unfolding evolves_def by (metis Un_iff)

lemma evolves_mono: "evolves K a b \<Longrightarrow> K \<subseteq> L \<Longrightarrow> evolves L a b"
  unfolding evolves_def by (meson subsetD)

lemma evolves_tidy: "evolves K a b \<Longrightarrow> drive_tidy b"
  by (simp add: evolves_def)

lemma laws_list:
  assumes "drive_laws svc entries shared corpora" and "c = None \<or> c = corpora" and "dv_list svc (drive_query folder name parent) shared c d = (d', r)"
  shows "entries d' = entries d" "r = Some (i # is) \<Longrightarrow> \<exists>e \<in> set (entries d). de_id e = i \<and> entry_key e = (folder, name, parent)"
    "r = Some [] \<Longrightarrow> \<forall>e \<in> set (entries d). entry_key e \<noteq> (folder, name, parent)"
proof -
  have "entries d' = entries d \<and> (\<forall>ids k. r = Some ids \<longrightarrow> read_query (drive_query folder name parent) = Some k \<longrightarrow>
             (\<forall>i \<in> set ids. \<exists>e \<in> set (entries d). de_id e = i \<and> entry_key e = k)
             \<and> (ids = [] \<longrightarrow> (\<forall>e \<in> set (entries d). entry_key e \<noteq> k)))"
    using assms(2,3) conjunct1 [OF assms(1) [unfolded drive_laws_def]] by blast
  then show "entries d' = entries d" "r = Some (i # is) \<Longrightarrow> \<exists>e \<in> set (entries d). de_id e = i \<and> entry_key e = (folder, name, parent)"
    "r = Some [] \<Longrightarrow> \<forall>e \<in> set (entries d). entry_key e \<noteq> (folder, name, parent)"
    by simp_all
qed

lemma laws_create:
  assumes "drive_laws svc entries shared corpora" and "dv_create svc folder name parent content shared d = (d', r)"
    and "drive_tidy (entries d)" and "\<forall>e \<in> set (entries d). entry_key e \<noteq> (folder, name, parent)"
  shows "evolves K (entries d) (entries d')"
    "r = Some i \<Longrightarrow> \<exists>e \<in> set (entries d'). de_id e = i \<and> entry_key e = (folder, name, parent) \<and> de_content e = content"
proof -
  have "(r = None \<and> entries d' = entries d)
          \<or> (\<exists>i. i \<noteq> [] \<and> i \<notin> de_id ` set (entries d) \<and> (r = None \<or> r = Some i)
               \<and> entries d' = \<lparr>de_id = i, de_folder = folder, de_name = name, de_parent = parent, de_content = content\<rparr> # entries d)"
    using assms(2) conjunct1 [OF conjunct2 [OF assms(1) [unfolded drive_laws_def]]] by blast
  then consider "r = None" "entries d' = entries d"
    | j where "j \<noteq> []" "j \<notin> de_id ` set (entries d)" "r = None \<or> r = Some j"
      "entries d' = \<lparr>de_id = j, de_folder = folder, de_name = name, de_parent = parent, de_content = content\<rparr> # entries d" by blast
  then have "evolves K (entries d) (entries d')
    \<and> (r = Some i \<longrightarrow> (\<exists>e \<in> set (entries d'). de_id e = i \<and> entry_key e = (folder, name, parent) \<and> de_content e = content))"
  proof cases
    case 1
    with assms(3) show ?thesis by (simp add: evolves_refl)
  next
    case 2
    with assms(3,4) show ?thesis by (auto simp: evolves_def drive_tidy_def entry_key_def)
  qed
  then show "evolves K (entries d) (entries d')"
    "r = Some i \<Longrightarrow> \<exists>e \<in> set (entries d'). de_id e = i \<and> entry_key e = (folder, name, parent) \<and> de_content e = content" by simp_all
qed

lemma laws_update:
  assumes "drive_laws svc entries shared corpora" and "dv_update svc j name content shared d = (d', r)"
    and "drive_tidy (entries d)" and "e \<in> set (entries d)" "de_id e = j" "entry_key e = (folder, name, parent)"
  shows "evolves {(folder, name, parent)} (entries d) (entries d')"
    "r = Some i \<Longrightarrow> \<exists>e \<in> set (entries d'). de_id e = i \<and> entry_key e = (folder, name, parent) \<and> de_content e = content"
proof -
  let ?f = "\<lambda>e. if de_id e = j then e\<lparr>de_name := name, de_content := content\<rparr> else e"
  have one: "x = e" if "x \<in> set (entries d)" "de_id x = j" for x
    using assms(3,4,5) that by (auto simp: drive_tidy_def distinct_map inj_on_def)
  have same: "de_id (?f x) = de_id x \<and> entry_key (?f x) = entry_key x \<and> (entry_key x \<noteq> (folder, name, parent) \<longrightarrow> ?f x = x)"
    if "x \<in> set (entries d)" for x
    using one [OF that] assms(6) by (auto simp: entry_key_def)
  have maps: "map de_id (map ?f (entries d)) = map de_id (entries d)" "map entry_key (map ?f (entries d)) = map entry_key (entries d)"
    using same by (simp_all cong: map_cong)
  have "de_id ` set (map ?f (entries d)) = de_id ` set (entries d)" using maps(1) by (metis set_map)
  with assms(3) maps have tidy: "drive_tidy (map ?f (entries d))" by (simp only: drive_tidy_def simp_thms)
  have ev: "evolves {(folder, name, parent)} (entries d) (map ?f (entries d))"
    unfolding evolves_def
  proof (intro conjI ballI tidy)
    fix x assume x: "x \<in> set (entries d)"
    show "\<exists>e'\<in>set (map ?f (entries d)). de_id e' = de_id x \<and> entry_key e' = entry_key x \<and> (entry_key x \<notin> {(folder, name, parent)} \<longrightarrow> e' = x)"
      using same [OF x] x by (intro bexI [of _ "?f x"]) auto
  qed
  have e: "?f e \<in> set (map ?f (entries d))" using assms(4) by auto
  have "(r = None \<and> entries d' = entries d) \<or> ((r = None \<or> r = Some j) \<and> entries d' = map ?f (entries d))"
    using assms(2) conjunct2 [OF conjunct2 [OF assms(1) [unfolded drive_laws_def]]] by blast
  with ev show "evolves {(folder, name, parent)} (entries d) (entries d')" by (auto intro: evolves_refl [OF assms(3)])
  assume "r = Some i"
  with \<open>_ \<or> _\<close> have d': "i = j" "entries d' = map ?f (entries d)" by auto
  with e same [OF assms(4)] assms(5,6) show "\<exists>e \<in> set (entries d'). de_id e = i \<and> entry_key e = (folder, name, parent) \<and> de_content e = content"
    by (intro bexI [of _ "?f e"]) auto
qed

text \<open>One file, and all of them.\<close>

definition file_key :: "string \<Rightarrow> upload_file \<Rightarrow> bool \<times> string \<times> string" where
  "file_key folder f = (False, slash_base (uf_drive f), folder)"

definition stored :: "text_fs \<Rightarrow> string \<Rightarrow> drive_entry list \<Rightarrow> upload_file \<Rightarrow> string \<Rightarrow> bool" where
  "stored fs folder es f i \<longleftrightarrow>
     (\<exists>e \<in> set es. de_id e = i \<and> entry_key e = file_key folder f \<and> fs (uf_local f) = Some (Regular (de_content e)))"

lemma stored_kept: "stored fs folder es f i \<Longrightarrow> evolves K es es' \<Longrightarrow> file_key folder f \<notin> K \<Longrightarrow> stored fs folder es' f i"
  unfolding stored_def evolves_def by metis

lemma upload_file_step:
  assumes laws: "drive_laws svc entries shared corpora" and "uploadFile svc fs folder f shared d = (d', r)" and t: "drive_tidy (entries d)"
  shows "evolves {file_key folder f} (entries d) (entries d')" "r = Some i \<Longrightarrow> stored fs folder (entries d') f i"
proof -
  let ?k = "file_key folder f" and ?q = "drive_query False (slash_base (uf_drive f)) folder"
  obtain d1 r1 where 1: "dv_list svc ?q shared None d = (d1, r1)" by fastforce
  note l = laws_list [OF laws _ 1, simplified]
  have t1: "drive_tidy (entries d1)" using t l(1) by simp
  consider "d' = d" "r = None" | "d' = d1" "r = None"
    | content where "read_file fs (uf_local f) = Inr content" "r1 = Some []" "dv_create svc False (slash_base (uf_drive f)) folder content shared d1 = (d', r)"
    | content j js where "read_file fs (uf_local f) = Inr content" "r1 = Some (j # js)" "j \<noteq> []"
        "dv_update svc j (slash_base (uf_drive f)) content shared d1 = (d', r)"
    | js where "r1 = Some ([] # js)"
    using assms(2) 1 by (auto simp: uploadFile_def findDriveFile_def Let_def split: sum.splits option.splits list.splits if_splits)
  then have "evolves {?k} (entries d) (entries d') \<and> (r = Some i \<longrightarrow> stored fs folder (entries d') f i)"
  proof cases
    case 3
    have none: "\<forall>e \<in> set (entries d1). entry_key e \<noteq> ?k" using l 3(2) by (simp add: file_key_def)
    have "fs (uf_local f) = Some (Regular content)"
      using 3(1) by (auto simp: read_file_def safeRegularFileInfo_def split: option.splits node.splits)
    with laws_create [OF laws 3(3) t1 none [unfolded file_key_def]] l(1) show ?thesis by (auto simp: stored_def file_key_def)
  next
    case 4
    obtain e where e: "e \<in> set (entries d1)" "de_id e = j" "entry_key e = ?k" using l(1,2) 4(2) by (auto simp: file_key_def)
    have "fs (uf_local f) = Some (Regular content)"
      using 4(1) by (auto simp: read_file_def safeRegularFileInfo_def split: option.splits node.splits)
    with laws_update [OF laws 4(4) t1 e [unfolded file_key_def]] l(1) show ?thesis by (auto simp: stored_def file_key_def)
  next
    case 5
    with l(2) have "[] \<in> de_id ` set (entries d)" by force
    with t show ?thesis by (simp add: drive_tidy_def)
  qed (use t t1 l(1) in \<open>simp_all add: evolves_refl\<close>)
  then show "evolves {?k} (entries d) (entries d')" "r = Some i \<Longrightarrow> stored fs folder (entries d') f i" by simp_all
qed

lemma upload_files_step:
  assumes laws: "drive_laws svc entries shared corpora"
  shows "upload_files svc fs folder shared files ids d = (d', r) \<Longrightarrow> drive_tidy (entries d) \<Longrightarrow>
    evolves (file_key folder ` set files) (entries d) (entries d')
    \<and> (\<forall>ids'. r = Some ids' \<longrightarrow> distinct (map (file_key folder) files) \<longrightarrow>
         (\<forall>p. p \<notin> uf_drive ` set files \<longrightarrow> map_of ids' p = map_of ids p)
         \<and> (\<forall>f \<in> set files. \<exists>i. map_of ids' (uf_drive f) = Some i \<and> stored fs folder (entries d') f i))"
proof (induction files arbitrary: ids d)
  case Nil
  then show ?case by (auto simp: evolves_refl)
next
  case (Cons f files)
  obtain d1 r1 where 1: "uploadFile svc fs folder f shared d = (d1, r1)" by fastforce
  note s = upload_file_step [OF laws 1 Cons.prems(2)]
  show ?case
  proof (cases r1)
    case None
    with Cons.prems(1) 1 have "d' = d1" "r = None" by simp_all
    with s(1) show ?thesis by (auto intro: evolves_mono)
  next
    case (Some i)
    let ?ids = "AList.update (uf_drive f) i ids"
    have u: "upload_files svc fs folder shared files ?ids d1 = (d', r)" using Cons.prems(1) 1 Some by simp
    note IH = Cons.IH [OF u evolves_tidy [OF s(1)]]
    have ev: "evolves (file_key folder ` set (f # files)) (entries d) (entries d')"
      using evolves_trans [OF s(1) conjunct1 [OF IH]] by simp
    have "(\<forall>p. p \<notin> uf_drive ` set (f # files) \<longrightarrow> map_of ids' p = map_of ids p)
         \<and> (\<forall>f' \<in> set (f # files). \<exists>i. map_of ids' (uf_drive f') = Some i \<and> stored fs folder (entries d') f' i)"
      if r: "r = Some ids'" and dist: "distinct (map (file_key folder) (f # files))" for ids'
    proof -
      have ih: "\<forall>p. p \<notin> uf_drive ` set files \<longrightarrow> map_of ids' p = map_of ?ids p"
        "\<forall>f' \<in> set files. \<exists>i. map_of ids' (uf_drive f') = Some i \<and> stored fs folder (entries d') f' i"
        using conjunct2 [OF IH] r dist by auto
      have new: "file_key folder f \<notin> file_key folder ` set files" using dist by simp
      then have "uf_drive f \<notin> uf_drive ` set files" by (force simp: file_key_def)
      with ih(1) have "map_of ids' (uf_drive f) = Some i" by (simp add: update_conv')
      moreover have "stored fs folder (entries d') f i" by (rule stored_kept [OF s(2) [OF Some] conjunct1 [OF IH] new])
      ultimately show ?thesis using ih by (auto simp: update_conv')
    qed
    with ev show ?thesis by blast
  qed
qed

lemma ensure_folder_step:
  assumes laws: "drive_laws svc entries shared corpora" and "ensureDriveFolder svc parent name shared corpora d = (d', r)" and t: "drive_tidy (entries d)"
  shows "evolves {} (entries d) (entries d')" "r = Some i \<Longrightarrow> \<exists>e \<in> set (entries d'). de_id e = i \<and> entry_key e = (True, name, parent)"
proof -
  obtain d1 r1 where 1: "dv_list svc (drive_query True name parent) shared corpora d = (d1, r1)" by fastforce
  note l = laws_list [OF laws _ 1, simplified]
  have t1: "drive_tidy (entries d1)" using t l(1) by simp
  consider "d' = d1" "r = None" | j js where "d' = d1" "r1 = Some (j # js)" "r = Some j"
    | "r1 = Some []" "dv_create svc True name parent [] shared d1 = (d', r)"
    using assms(2) 1 by (auto simp: ensureDriveFolder_def split: option.splits list.splits)
  then have "evolves {} (entries d) (entries d') \<and> (r = Some i \<longrightarrow> (\<exists>e \<in> set (entries d'). de_id e = i \<and> entry_key e = (True, name, parent)))"
  proof cases
    case 2
    with l t1 show ?thesis by (auto simp: evolves_refl)
  next
    case 3
    with laws_create [OF laws 3(2) t1] l show ?thesis by auto
  qed (use t1 l(1) in \<open>simp add: evolves_refl\<close>)
  then show "evolves {} (entries d) (entries d')" "r = Some i \<Longrightarrow> \<exists>e \<in> set (entries d'). de_id e = i \<and> entry_key e = (True, name, parent)" by simp_all
qed

text \<open>What one call of the uploader has done, whether it failed or not.\<close>

definition tidy_upload :: "text_fs \<Rightarrow> upload_file list \<Rightarrow> drive_entry list \<Rightarrow> drive_entry list \<Rightarrow> upload_result option \<Rightarrow> bool" where
  "tidy_upload fs files es es' r \<longleftrightarrow> drive_tidy es'
     \<and> (\<forall>e \<in> set es. \<exists>e' \<in> set es'. de_id e' = de_id e \<and> entry_key e' = entry_key e
          \<and> (fst (snd (entry_key e)) \<notin> (\<lambda>f. slash_base (uf_drive f)) ` set files \<longrightarrow> e' = e))
     \<and> (\<forall>res. r = Some res \<longrightarrow> \<not> ur_dry res \<longrightarrow> distinct (map (\<lambda>f. slash_base (uf_drive f)) files) \<longrightarrow>
          (\<forall>f \<in> set files. \<exists>i. map_of (ur_ids res) (uf_drive f) = Some i \<and> stored fs (ur_folder res) es' f i))"

lemma evolves_upload:
  assumes "evolves K es es'" and "K \<subseteq> file_key folder ` set files"
    and "\<And>res. r = Some res \<Longrightarrow> \<not> ur_dry res \<Longrightarrow> distinct (map (\<lambda>f. slash_base (uf_drive f)) files) \<Longrightarrow>
          \<forall>f \<in> set files. \<exists>i. map_of (ur_ids res) (uf_drive f) = Some i \<and> stored fs (ur_folder res) es' f i"
  shows "tidy_upload fs files es es' r"
proof -
  have k: "fst (snd (entry_key e)) \<in> (\<lambda>f. slash_base (uf_drive f)) ` set files" if "entry_key e \<in> K" for e
    using that assms(2) by (force simp: file_key_def)
  have "\<exists>e' \<in> set es'. de_id e' = de_id e \<and> entry_key e' = entry_key e
          \<and> (fst (snd (entry_key e)) \<notin> (\<lambda>f. slash_base (uf_drive f)) ` set files \<longrightarrow> e' = e)" if "e \<in> set es" for e
    using assms(1) that k [of e] unfolding evolves_def by blast
  then show ?thesis using assms(1,3) by (simp add: tidy_upload_def evolves_def)
qed

lemma drive_upload_step:
  assumes laws: "drive_laws svc entries (dc_shared c) (list_corpora c)"
    and "driveUpload svc c connects cancelled streamName streamID started fs files d = (d', r)" and t: "drive_tidy (entries d)"
  shows "tidy_upload fs files (entries d) (entries d') r"
proof -
  let ?es = "entries d" and ?es' = "entries d'"
  have none: "evolves {} ?es ?es' \<Longrightarrow> \<forall>res. r = Some res \<longrightarrow> ur_dry res \<Longrightarrow> tidy_upload fs files ?es ?es' r"
    by (rule evolves_upload) auto
  obtain d1 r1 where 1: "ensureArchiveFolder svc c streamName streamID started d = (d1, r1)" by fastforce
  obtain da ra where a: "ensureDriveFolder svc (dc_folder c) (safeDriveName streamName) (dc_shared c) (list_corpora c) d = (da, ra)" by fastforce
  have ea: "evolves {} ?es (entries da)" by (rule ensure_folder_step [OF laws a t])
  have "d1 = da \<or> (\<exists>f. ensureDriveFolder svc f (started @ ''_JST_'' @ safeDriveName streamID) (dc_shared c) (list_corpora c) da = (d1, r1))"
    using 1 a by (auto simp: ensureArchiveFolder_def split: option.splits)
  then have e1: "evolves {} ?es (entries d1)"
    using ea ensure_folder_step(1) [OF laws _ evolves_tidy [OF ea]] evolves_trans [OF ea, of "{}"] by auto
  show ?thesis
  proof (cases "cancelled \<or> dc_dry c \<or> \<not> drive_valid c \<or> \<not> connects \<or> r1 = None")
    case True
    then have "d' = d \<or> d' = d1" "\<forall>res. r = Some res \<longrightarrow> ur_dry res"
      using assms(2) 1 by (auto simp: driveUpload_def googleDriveDryRun_def split: if_splits)
    with none e1 evolves_refl [OF t] show ?thesis by blast
  next
    case False
    then obtain folder where r1: "r1 = Some folder" by blast
    obtain d2 r2 where 2: "upload_files svc fs folder (dc_shared c) files [] d1 = (d2, r2)" by fastforce
    note u = upload_files_step [OF laws 2 evolves_tidy [OF e1]]
    from assms(2) 1 r1 False 2 have d': "d' = d2"
      and r: "r = (case r2 of None \<Rightarrow> None | Some ids \<Rightarrow> Some \<lparr>ur_dry = False, ur_folder = folder, ur_ids = ids, ur_attempts = 0\<rparr>)"
      by (auto simp: driveUpload_def split: option.splits)
    have ev: "evolves (file_key folder ` set files) ?es ?es'"
      using evolves_trans [OF e1 conjunct1 [OF u]] d' by simp
    have keys: "distinct (map (file_key folder) files)" if "distinct (map (\<lambda>f. slash_base (uf_drive f)) files)"
      using that by (auto simp: distinct_map inj_on_def file_key_def)
    show ?thesis
      by (rule evolves_upload [OF ev subset_refl]) (use conjunct2 [OF u] keys r d' in \<open>auto split: option.splits\<close>)
  qed
qed

section \<open>Trying again\<close>

lemma retry_loop_step:
  assumes "up fs files u = (u1, r1)" and "sleep (retry_delay base attempt) u1 = (u2, b)" and "attempt \<le> most"
  shows "retry_loop up sleep most base fs files attempt u =
     (case r1 of Some res \<Rightarrow> (u1, Some (res\<lparr>ur_attempts := attempt\<rparr>))
      | None \<Rightarrow> if attempt = most then (u1, None) else if b then retry_loop up sleep most base fs files (attempt + 1) u2 else (u2, None))"
  using assms by (subst retry_loop.simps) (cases r1; cases b; simp)

lemma retry_steps:
  assumes step: "\<And>u u' r. up fs files u = (u', r) \<Longrightarrow> I u \<Longrightarrow> I u'" and idle: "\<And>t u u' b. sleep t u = (u', b) \<Longrightarrow> I u \<Longrightarrow> I u'"
  shows "retry_loop up sleep most base fs files attempt u = (u', r) \<Longrightarrow> I u \<Longrightarrow>
    I u' \<and> (\<forall>res. r = Some res \<longrightarrow> (\<exists>u0 res0. I u0 \<and> up fs files u0 = (u', Some res0) \<and> ur_folder res = ur_folder res0
       \<and> ur_ids res = ur_ids res0 \<and> ur_dry res = ur_dry res0))"
proof (induction "nat (most + 1 - attempt)" arbitrary: attempt u rule: less_induct)
  case less
  show ?case
  proof (cases "most < attempt")
    case True
    with less.prems show ?thesis by (simp add: retry_loop.simps)
  next
    case False
    obtain u1 r1 where 1: "up fs files u = (u1, r1)" by fastforce
    have i1: "I u1" by (rule step [OF 1 less.prems(2)])
    obtain u2 b where 2: "sleep (retry_delay base attempt) u1 = (u2, b)" by fastforce
    have i2: "I u2" by (rule idle [OF 2 i1])
    consider res where "r1 = Some res" "u' = u1" "r = Some (res\<lparr>ur_attempts := attempt\<rparr>)" | "r = None" "u' = u1 \<or> u' = u2"
      | "retry_loop up sleep most base fs files (attempt + 1) u2 = (u', r)"
      using less.prems(1) retry_loop_step [of up fs files u u1 r1 sleep base attempt u2 b most] 1 2 False by (cases r1) (auto split: if_splits)
    then show ?thesis
    proof cases
      case 1: 1
      with \<open>up fs files u = (u1, r1)\<close> i1 less.prems(2) show ?thesis by auto
    next
      case 2
      with i1 i2 show ?thesis by auto
    next
      case 3
      from False have "nat (most + 1 - (attempt + 1)) < nat (most + 1 - attempt)" by simp
      from less.hyps [OF this 3 i2] show ?thesis .
    qed
  qed
qed

section \<open>Properties\<close>


text \<open>Uploads and sleeps that count what is asked of them.\<close>

definition counted :: "'u uploader \<Rightarrow> ('u \<times> nat \<times> int list) uploader" where
  "counted up fs files = (\<lambda>(u, n, ts). case up fs files u of (u, r) \<Rightarrow> ((u, Suc n, ts), r))"

definition timed :: "(int \<Rightarrow> 'u \<Rightarrow> 'u \<times> bool) \<Rightarrow> int \<Rightarrow> 'u \<times> nat \<times> int list \<Rightarrow> ('u \<times> nat \<times> int list) \<times> bool" where
  "timed sleep t = (\<lambda>(u, n, ts). case sleep t u of (u, b) \<Rightarrow> ((u, n, ts @ [t]), b))"

lemma retry_loop_counts:
  assumes "\<And>i. 1 \<le> i \<Longrightarrow> i < most \<Longrightarrow> retry_delay base i = base * 2 ^ nat (i - 1)"
  shows "retry_loop (counted up) (timed sleep) most base fs files attempt (u, n, ts) = ((u', n', ts'), r) \<Longrightarrow>
    1 \<le> attempt \<Longrightarrow> attempt \<le> most \<Longrightarrow> int n = attempt - 1 \<Longrightarrow> ts = map (\<lambda>i. base * 2 ^ i) [0..<n] \<Longrightarrow>
    attempt \<le> int n' \<and> int n' \<le> most \<and> retry_loop up sleep most base fs files attempt u = (u', r)
    \<and> (\<exists>k. ts' = map (\<lambda>i. base * 2 ^ i) [0..<k] \<and> (k = n' \<and> r = None \<and> int n' < most \<or> Suc k = n' \<and> (r = None \<longrightarrow> int n' = most)))
    \<and> (\<forall>res. r = Some res \<longrightarrow> ur_attempts res = int n')"
proof (induction "nat (most + 1 - attempt)" arbitrary: attempt u n ts rule: less_induct)
  case less
  obtain u1 r1 where 1: "up fs files u = (u1, r1)" by fastforce
  obtain u2 b where 2: "sleep (retry_delay base attempt) u1 = (u2, b)" by fastforce
  have c: "counted up fs files (u, n, ts) = ((u1, Suc n, ts), r1)" using 1 by (simp add: counted_def)
  have t: "timed sleep (retry_delay base attempt) (u1, Suc n, ts) = ((u2, Suc n, ts @ [retry_delay base attempt]), b)"
    using 2 by (simp add: timed_def)
  note eqs = retry_loop_step [of "counted up" fs files "(u, n, ts)" "(u1, Suc n, ts)" r1 "timed sleep" base attempt, OF c t less.prems(3)]
    retry_loop_step [of up fs files u u1 r1 sleep base attempt u2 b most, OF 1 2 less.prems(3)]
  have n: "int (Suc n) = attempt" using less.prems(2,4) by simp
  show ?case
  proof (cases "r1 = None \<and> attempt \<noteq> most \<and> b")
    case True
    have lt: "attempt < most" using True less.prems(3) by simp
    have d: "ts @ [retry_delay base attempt] = map (\<lambda>i. base * 2 ^ i) [0..<Suc n]"
      using assms [OF less.prems(2) lt] less.prems(5) n by (simp add: nat_diff_distrib flip: n)
    from True eqs less.prems(1) have r: "retry_loop (counted up) (timed sleep) most base fs files (attempt + 1)
        (u2, Suc n, map (\<lambda>i. base * 2 ^ i) [0..<Suc n]) = ((u', n', ts'), r)" unfolding d by simp
    have m: "nat (most + 1 - (attempt + 1)) < nat (most + 1 - attempt)" using lt by simp
    from less.hyps [OF m r _ _ _ refl] lt less.prems(2) n True eqs(2) show ?thesis by simp
  next
    case False
    then have "(\<exists>res. r1 = Some res) \<or> r1 = None \<and> attempt = most \<or> r1 = None \<and> attempt < most \<and> \<not> b"
      using less.prems(3) by (cases r1) auto
    moreover have "retry_delay base attempt = base * 2 ^ n" if "attempt < most"
      using assms [OF less.prems(2) that] by (simp flip: less.prems(4))
    ultimately show ?thesis using eqs less.prems n by auto
  qed
qed

text \<open>
  C29. An upload that is tried again ends: it is made at least once and at most as often as the policy says, again
  only after it failed and after a pause, each pause twice the one before, and it is not made again once it has succeeded.
  The answer tells how often it was made, and an error is that of the last try or of an interrupted pause.
\<close>

theorem retries_bounded:
  assumes "retryUpload (counted up) (timed sleep) most base fs files (u, 0, []) = ((u', n, ts), r)"
    and "(if base \<le> 0 then second else base) * 2 ^ nat (most - 2) < 2 ^ 63"
  shows "1 \<le> n \<and> int n \<le> (if most \<le> 0 then 1 else most) \<and> retryUpload up sleep most base fs files u = (u', r)
    \<and> (\<exists>k. ts = map (\<lambda>i. (if base \<le> 0 then second else base) * 2 ^ i) [0..<k]
         \<and> (k = n \<and> r = None \<and> int n < most \<or> Suc k = n \<and> (r = None \<longrightarrow> int n = (if most \<le> 0 then 1 else most))))
    \<and> (\<forall>res. r = Some res \<longrightarrow> ur_attempts res = int n)"
proof -
  define b where "b = (if base \<le> 0 then second else base)"
  define m where "m = (if most \<le> 0 then 1 else most)"
  have b: "1 \<le> b" and m: "1 \<le> m" by (auto simp: b_def m_def second_def millisecond_def)
  have d: "retry_delay b i = b * 2 ^ nat (i - 1)" if "1 \<le> i" "i < m" for i
  proof -
    have "(2 :: int) ^ nat (i - 1) \<le> 2 ^ nat (most - 2)" by (rule power_increasing) (use that m_def in \<open>auto split: if_splits\<close>)
    then have "b * 2 ^ nat (i - 1) \<le> b * 2 ^ nat (most - 2)" using b by simp
    with assms(2) have lt: "b * 2 ^ nat (i - 1) < 2 ^ 63" by (simp add: b_def)
    moreover have "(2 :: int) ^ nat (i - 1) \<le> b * 2 ^ nat (i - 1)" using b by simp
    ultimately have "(2 :: int) ^ nat (i - 1) < 2 ^ 63" by linarith
    then have "wrap64 (2 ^ nat (i - 1)) = 2 ^ nat (i - 1)" by (intro wrap64_id) (simp_all add: order_trans [of _ 0])
    moreover have "wrap64 (b * 2 ^ nat (i - 1)) = b * 2 ^ nat (i - 1)" by (rule wrap64_id) (use lt b in \<open>simp_all add: order_trans [of _ 0]\<close>)
    ultimately show ?thesis by (simp add: retry_delay_def)
  qed
  have r: "retry_loop (counted up) (timed sleep) m b fs files 1 (u, 0, []) = ((u', n, ts), r)"
    using assms(1) by (simp add: retryUpload_def b_def m_def)
  from retry_loop_counts [OF d r _ m] have "1 \<le> int n \<and> int n \<le> m \<and> retry_loop up sleep m b fs files 1 u = (u', r)
    \<and> (\<exists>k. ts = map (\<lambda>i. b * 2 ^ i) [0..<k] \<and> (k = n \<and> r = None \<and> int n < m \<or> Suc k = n \<and> (r = None \<longrightarrow> int n = m)))
    \<and> (\<forall>res. r = Some res \<longrightarrow> ur_attempts res = int n)" by simp
  moreover have "int n < m \<Longrightarrow> int n < most" if "1 \<le> int n" using that by (auto simp: m_def split: if_splits)
  ultimately show ?thesis using assms(1) unfolding b_def m_def retryUpload_def by auto
qed

section \<open>A sample\<close>

text \<open>A service whose first two requests fail, the second one, the creation of the folder, after it had its effect.\<close>

definition sample_list :: "string \<Rightarrow> bool \<Rightarrow> string option \<Rightarrow> nat \<times> drive_entry list \<Rightarrow> (nat \<times> drive_entry list) \<times> string list option" where
  "sample_list q shared c = (\<lambda>(n, es). ((Suc n, es),
     if n = 0 then None
     else case read_query q of
       None \<Rightarrow> Some []
     | Some k \<Rightarrow> Some (take 1 (map de_id (filter (\<lambda>e. entry_key e = k) es)))))"

definition sample_create ::
  "bool \<Rightarrow> string \<Rightarrow> string \<Rightarrow> string \<Rightarrow> bool \<Rightarrow> nat \<times> drive_entry list \<Rightarrow> (nat \<times> drive_entry list) \<times> string option" where
  "sample_create folder name parent content shared = (\<lambda>(n, es).
     let i = replicate (Suc (sum_list (map (length \<circ> de_id) es))) CHR ''i''
     in ((Suc n, \<lparr>de_id = i, de_folder = folder, de_name = name, de_parent = parent, de_content = content\<rparr> # es),
         if n = 2 then None else Some i))"

definition sample_update :: "string \<Rightarrow> string \<Rightarrow> string \<Rightarrow> bool \<Rightarrow> nat \<times> drive_entry list \<Rightarrow> (nat \<times> drive_entry list) \<times> string option" where
  "sample_update i name content shared = (\<lambda>(n, es).
     ((Suc n, map (\<lambda>e. if de_id e = i then e\<lparr>de_name := name, de_content := content\<rparr> else e) es), Some i))"

definition sample_drive :: "(nat \<times> drive_entry list) drive_service" where
  "sample_drive = \<lparr>dv_list = sample_list, dv_create = sample_create, dv_update = sample_update\<rparr>"

definition sample_drive_config :: drive_config where
  "sample_drive_config = \<lparr>dc_auth = ''oauth2'', dc_credential = [], dc_account = [], dc_folder = ''top'', dc_shared = False,
     dc_shared_id = [], dc_client = ''c'', dc_secret = ''s'', dc_refresh = ''r'', dc_dry = False\<rparr>"

lemma sample_drive_laws: "drive_laws sample_drive snd False None"
proof -
  have fresh: "length (de_id e) < Suc (sum_list (map (length \<circ> de_id) es))" if "e \<in> set es" for e es
    using member_le_sum_list [of "length (de_id e)" "map (length \<circ> de_id) es"] that by force
  have "replicate (Suc (sum_list (map (length \<circ> de_id) es))) CHR ''i'' \<notin> de_id ` set es" for es
    using fresh by (metis (mono_tags, lifting) imageE length_replicate nat_neq_iff)
  then have new: "CHR ''i'' # replicate (sum_list (map (length \<circ> de_id) es)) CHR ''i'' \<notin> de_id ` set es" for es
    by (simp del: sum_list_simps)
  have listed: "\<exists>e \<in> set es. de_id e = i \<and> P e" if "i \<in> set (take 1 (map de_id (filter P es)))" for P es i
    using in_set_takeD [OF that] by auto
  have empty: "\<forall>e \<in> set es. \<not> P e" if "take 1 (map de_id (filter P es)) = []" for P es
    using that by (simp add: filter_empty_conv)
  have "snd d' = snd d \<and> (\<forall>ids k. r = Some ids \<longrightarrow> read_query q = Some k \<longrightarrow>
      (\<forall>i \<in> set ids. \<exists>e \<in> set (snd d). de_id e = i \<and> entry_key e = k) \<and> (ids = [] \<longrightarrow> (\<forall>e \<in> set (snd d). entry_key e \<noteq> k)))"
    if "sample_list q shared c d = (d', r)" for q shared c d d' r
    using that listed empty by (auto simp: sample_list_def filter_empty_conv split: prod.splits if_splits option.splits simp del: One_nat_def)
  moreover have "\<exists>i. i \<noteq> [] \<and> i \<notin> de_id ` set (snd d) \<and> (r = None \<or> r = Some i)
      \<and> snd d' = \<lparr>de_id = i, de_folder = folder, de_name = name, de_parent = parent, de_content = content\<rparr> # snd d"
    if "sample_create folder name parent content shared d = (d', r)" for folder name parent content shared d d' r
    using that new [of "snd d"] by (cases d) (auto simp: sample_create_def Let_def split: if_splits)
  moreover have "r = Some i \<and> snd d' = map (\<lambda>e. if de_id e = i then e\<lparr>de_name := name, de_content := content\<rparr> else e) (snd d)"
    if "sample_update i name content shared d = (d', r)" for i name content shared d d' r
    using that by (cases d) (auto simp: sample_update_def)
  ultimately show ?thesis unfolding drive_laws_def sample_drive_def by simp
qed

definition sample_upload :: "(nat \<times> drive_entry list) \<times> upload_result option" where
  "sample_upload = retryUpload (driveUpload sample_drive sample_drive_config True False ''a/b'' ''s'' ''20260101_000000'')
     (\<lambda>t d. (d, True)) 5 0 [[''x''] \<mapsto> Regular ''new''] [\<lparr>uf_local = [''x''], uf_drive = ''it's.mp4'', uf_size = 3\<rparr>] (0, [])"

lemma sample_upload_ok: "case sample_upload of (d, r) \<Rightarrow> (case r of None \<Rightarrow> False | Some res \<Rightarrow> \<not> ur_dry res) \<and> length (snd d) = 3"
  by code_simp


lemma retries_bounded_witness:
  "case retryUpload (counted (\<lambda>fs files u. (u, None))) (timed (\<lambda>t u. (u, True))) 3 5 Map.empty [] ((), 0, []) of
     ((u, n, ts), r) \<Rightarrow> 1 \<le> n \<and> n \<le> 3"
proof -
  obtain u n ts r where "retryUpload (counted (\<lambda>fs files u. (u, None))) (timed (\<lambda>t u. (u, True))) 3 5 Map.empty [] ((), 0, []) = ((u, n, ts), r)"
    by (metis surj_pair)
  from retries_bounded [OF this] this show ?thesis by auto
qed

end
