(* ===== verification/Migration.thy ===== *)
theory Migration
  imports Packaging "HOL-Library.List_Lexorder" "HOL-Library.Char_ord"
begin

text \<open>
  The migration of archives that lie in the directory of their stream into a directory of a run,
  \<^verbatim>\<open>internal/archive/v2migration/migration.go\<close>: plan, backup, apply with rollback, verification and restoration, over the
  file system of \<open>FileSystem\<close>. SHA-256, the coding of the plan as JSON, directory listings and what the system refuses are
  arguments.
\<close>

section \<open>Plans\<close>

record mig_entry =
  me_source :: string
  me_dest :: string
  me_dir_existed :: bool
  me_file_existed :: bool
  me_backup :: string
  me_size :: int
  me_sha :: string

record mig_plan =
  mp_version :: int
  mp_ids :: "string list"
  mp_strategies :: "(string \<times> string) list"
  mp_retained :: bool
  mp_entries :: "mig_entry list"

record mig_artifact =
  ar_dir :: path
  ar_sha :: string
  ar_count :: nat

record mig_result =
  mr_pre :: nat
  mr_post :: nat
  mr_orphans :: nat
  mr_restored :: bool
  mr_deletion :: bool

datatype mig_error = EmptyDenominator | FsFailed fs_error | UnsafeEntry | NotCanonical | InvalidPlan | ManifestMismatch
  | ArtifactMismatch | SourceConflict | DestinationConflict | UnownedDestination | MissingEntry | DestinationExists
  | Interrupted | CountMismatch | SourceChanged | DestinationChanged

record mig_env =
  mg_sha :: "string \<Rightarrow> string"
  mg_marshal :: "mig_plan \<Rightarrow> string"
  mg_indent :: "mig_plan \<Rightarrow> string"
  mg_parse :: "string \<Rightarrow> mig_plan option"
  mg_list :: "text_fs \<Rightarrow> path \<Rightarrow> string list"
  mg_deny :: "path \<Rightarrow> bool"
  mg_refuse :: "text_fs \<Rightarrow> path \<Rightarrow> path \<Rightarrow> bool"

definition manifestName :: string where
  "manifestName = ''archive-v2-migration-manifest.json''"

definition newPlan :: "mig_entry list \<Rightarrow> mig_plan" where
  "newPlan entries = \<lparr>mp_version = 1, mp_ids = [''DEP-ENC-0002'', ''DEP-ENC-0004''],
     mp_strategies = [(''DEP-ENC-0002'', ''archive read-only''), (''DEP-ENC-0004'', ''retain data / remove runtime reference'')],
     mp_retained = True, mp_entries = entries\<rparr>"

section \<open>Paths and files\<close>

text \<open>The components of \<^verbatim>\<open>filepath.Clean\<close> of a relative path.\<close>

definition rel_parts :: "string \<Rightarrow> string list" where
  "rel_parts s = foldl (clean_part False) [] (split_at (CHR ''/'') s)"

definition validateRelative :: "string \<Rightarrow> bool" where
  "validateRelative s \<longleftrightarrow> \<not> (s = [] \<or> has_prefix s ''/'')
     \<and> \<not> (filepath_clean s = ''..'' \<or> has_prefix (filepath_clean s) ''../'')"

definition safe_join :: "path \<Rightarrow> string \<Rightarrow> path option" where
  "safe_join base s = (if validateRelative s then Some (base @ rel_parts s) else None)"

definition joined :: "path \<Rightarrow> string \<Rightarrow> path" where
  "joined base s = (case safe_join base s of None \<Rightarrow> [] | Some p \<Rightarrow> p)"

definition hashRegularFile :: "mig_env \<Rightarrow> text_fs \<Rightarrow> path \<Rightarrow> string \<Rightarrow> fs_error + int \<times> string" where
  "hashRegularFile env fs base s =
     (case safe_join base s of
        None \<Rightarrow> Inl ErrEscapesRoot
      | Some p \<Rightarrow>
          case fs p of
            None \<Rightarrow> Inl ErrNotExist
          | Some (Regular c) \<Rightarrow> Inr (int (length c), mg_sha env c)
          | Some _ \<Rightarrow> Inl ErrNotRegular)"

definition hashMatches :: "mig_env \<Rightarrow> text_fs \<Rightarrow> path \<Rightarrow> string \<Rightarrow> mig_entry \<Rightarrow> fs_error option" where
  "hashMatches env fs base s e =
     (case hashRegularFile env fs base s of
        Inl err \<Rightarrow> Some err
      | Inr (bytes, digest) \<Rightarrow> if bytes \<noteq> me_size e \<or> digest \<noteq> me_sha e then Some ErrInvalidRecord else None)"

definition step_into :: "path \<Rightarrow> string \<Rightarrow> path" where
  "step_into cur w = (if w = ''.'' then cur else cur @ [w])"

definition or_dot :: "string list \<Rightarrow> string list" where
  "or_dot ps = (if ps = [] then [''.''] else ps)"

fun check_parents :: "text_fs \<Rightarrow> path \<Rightarrow> string list \<Rightarrow> fs_error option" where
  "check_parents fs cur [] = None"
| "check_parents fs cur (w # ws) =
     (case fs (step_into cur w) of
        None \<Rightarrow> None
      | Some Dir \<Rightarrow> check_parents fs (step_into cur w) ws
      | Some _ \<Rightarrow> Some ErrNotDirectory)"

definition checkParentDirectories :: "text_fs \<Rightarrow> path \<Rightarrow> string \<Rightarrow> fs_error option" where
  "checkParentDirectories fs base s =
     (if \<not> validateRelative s then Some ErrEscapesRoot
      else check_parents fs base (or_dot (rel_parts (filepath_dir (filepath_clean s)))))"

fun ensure_safe_parts :: "(path \<Rightarrow> bool) \<Rightarrow> text_fs \<Rightarrow> path \<Rightarrow> string list \<Rightarrow> text_fs \<times> fs_error option" where
  "ensure_safe_parts deny fs cur [] = (fs, None)"
| "ensure_safe_parts deny fs cur (w # ws) =
     (let p = step_into cur w
      in case fs p of
           None \<Rightarrow> if deny p then (fs, Some ErrPermission) else ensure_safe_parts deny (fs(p \<mapsto> Dir)) p ws
         | Some Dir \<Rightarrow> ensure_safe_parts deny fs p ws
         | Some _ \<Rightarrow> (fs, Some ErrNotDirectory))"

definition ensureSafeDir :: "(path \<Rightarrow> bool) \<Rightarrow> text_fs \<Rightarrow> path \<Rightarrow> string \<Rightarrow> text_fs \<times> fs_error option" where
  "ensureSafeDir deny fs base s =
     (if \<not> validateRelative s then (fs, Some ErrEscapesRoot)
      else ensure_safe_parts deny fs base (or_dot (rel_parts s)))"

text \<open>\<^verbatim>\<open>os.Rename\<close>: refused by the system, without the file or the directory it is to be in, or onto a directory.\<close>

definition os_rename :: "mig_env \<Rightarrow> text_fs \<Rightarrow> path \<Rightarrow> path \<Rightarrow> text_fs \<times> fs_error option" where
  "os_rename env fs src dst =
     (if fs src = None then (fs, Some ErrNotExist)
      else if mg_refuse env fs src dst \<or> fs (butlast dst) \<noteq> Some Dir \<or> fs dst = Some Dir then (fs, Some ErrPermission)
      else (fs(src := None, dst := fs src), None))"

definition copyVerified ::
  "mig_env \<Rightarrow> text_fs \<Rightarrow> path \<Rightarrow> string \<Rightarrow> path \<Rightarrow> string \<Rightarrow> mig_entry \<Rightarrow> text_fs \<times> fs_error option" where
  "copyVerified env fs sroot srel droot drel e =
     (case hashMatches env fs sroot srel e of
        Some err \<Rightarrow> (fs, Some err)
      | None \<Rightarrow>
          case ensureSafeDir (mg_deny env) fs droot (filepath_dir drel) of
            (fs, Some err) \<Rightarrow> (fs, Some err)
          | (fs, None) \<Rightarrow>
              let dst = joined droot drel
              in if fs dst \<noteq> None \<or> mg_deny env dst then (fs, Some ErrPermission)
                 else let fs = fs(dst := fs (joined sroot srel)) in (fs, hashMatches env fs droot drel e))"

section \<open>The plan of an archive\<close>

definition cleanRoot :: "text_fs \<Rightarrow> path \<Rightarrow> bool" where
  "cleanRoot fs base \<longleftrightarrow> fs base = Some Dir"

definition uuid_char :: "nat \<Rightarrow> char \<Rightarrow> bool" where
  "uuid_char i c \<longleftrightarrow> (if i \<in> {8, 13, 18, 23} then c = CHR ''-'' else c \<in> set ''0123456789abcdef'')"

definition legacyArchiveRunID :: "string \<Rightarrow> string option" where
  "legacyArchiveRunID stream =
     (let s = to_lower (trim_space stream)
      in if length s \<noteq> 36 \<or> \<not> list_all (\<lambda>i. uuid_char i (s ! i)) [0..<36] then None
         else Some (''legacy-'' @ filter (\<lambda>c. c \<noteq> CHR ''-'') s))"

definition rel_join :: "string list \<Rightarrow> string" where
  "rel_join ps = join_with (CHR ''/'') ps"

fun legacy_files :: "mig_env \<Rightarrow> text_fs \<Rightarrow> path \<Rightarrow> string \<Rightarrow> string list \<Rightarrow> mig_error + mig_entry list" where
  "legacy_files env fs base stream [] = Inr []"
| "legacy_files env fs base stream (child # children) =
     (case fs (base @ [''final'', stream, child]) of
        Some Dir \<Rightarrow> legacy_files env fs base stream children
      | Some (Regular _) \<Rightarrow>
          (case hashRegularFile env fs base (rel_join [''final'', stream, child]) of
             Inl err \<Rightarrow> Inl (FsFailed err)
           | Inr (bytes, digest) \<Rightarrow>
               (case legacy_files env fs base stream children of
                  Inl err \<Rightarrow> Inl err
                | Inr es \<Rightarrow> Inr (\<lparr>me_source = rel_join [''final'', stream, child], me_dest = [], me_dir_existed = False,
                    me_file_existed = False, me_backup = [], me_size = bytes, me_sha = digest\<rparr> # es)))
      | _ \<Rightarrow> Inl UnsafeEntry)"

definition base_name :: "string \<Rightarrow> string" where
  "base_name s = last (split_at (CHR ''/'') s)"

definition with_destination :: "text_fs \<Rightarrow> path \<Rightarrow> string \<Rightarrow> string \<Rightarrow> bool \<Rightarrow> mig_entry \<Rightarrow> mig_entry" where
  "with_destination fs base stream run existed e =
     (let name = base_name (me_source e)
      in e\<lparr>me_dest := rel_join [''final'', stream, run, name], me_dir_existed := existed,
           me_file_existed := fs (base @ [''final'', stream, run, name]) \<noteq> None,
           me_backup := rel_join [''objects'', stream, run, name]\<rparr>)"

definition plan_stream :: "mig_env \<Rightarrow> text_fs \<Rightarrow> path \<Rightarrow> string \<Rightarrow> mig_error + mig_entry list" where
  "plan_stream env fs base stream =
     (if fs (base @ [''final'', stream]) \<noteq> Some Dir then Inl UnsafeEntry
      else case legacy_files env fs base stream (mg_list env fs (base @ [''final'', stream])) of
        Inl err \<Rightarrow> Inl err
      | Inr [] \<Rightarrow> Inr []
      | Inr legacy \<Rightarrow>
          case legacyArchiveRunID stream of
            None \<Rightarrow> Inl NotCanonical
          | Some run \<Rightarrow>
              case fs (base @ [''final'', stream, run]) of
                None \<Rightarrow> Inr (map (with_destination fs base stream run False) (sort_key me_source legacy))
              | Some Dir \<Rightarrow> Inr (map (with_destination fs base stream run True) (sort_key me_source legacy))
              | Some _ \<Rightarrow> Inl UnsafeEntry)"

fun plan_streams :: "mig_env \<Rightarrow> text_fs \<Rightarrow> path \<Rightarrow> string list \<Rightarrow> mig_error + mig_entry list" where
  "plan_streams env fs base [] = Inr []"
| "plan_streams env fs base (stream # streams) =
     (case plan_stream env fs base stream of
        Inl err \<Rightarrow> Inl err
      | Inr es \<Rightarrow> (case plan_streams env fs base streams of Inl err \<Rightarrow> Inl err | Inr rest \<Rightarrow> Inr (es @ rest)))"

definition buildPlan :: "mig_env \<Rightarrow> text_fs \<Rightarrow> path \<Rightarrow> bool \<Rightarrow> mig_error + mig_plan" where
  "buildPlan env fs base expectedNonEmpty =
     (if \<not> cleanRoot fs base then Inl (FsFailed ErrNotDirectory)
      else case fs (base @ [''final'']) of
        None \<Rightarrow> if expectedNonEmpty then Inl (FsFailed ErrNotExist) else Inr (newPlan [])
      | Some Dir \<Rightarrow>
          (case plan_streams env fs base (mg_list env fs (base @ [''final''])) of
             Inl err \<Rightarrow> Inl err
           | Inr es \<Rightarrow> if expectedNonEmpty \<and> es = [] then Inl EmptyDenominator else Inr (newPlan (sort_key me_source es)))
      | Some _ \<Rightarrow> Inl (FsFailed ErrNotDirectory))"

definition valid_entry :: "mig_entry \<Rightarrow> bool" where
  "valid_entry e \<longleftrightarrow> 0 \<le> me_size e \<and> length (me_sha e) = 64
     \<and> validateRelative (me_source e) \<and> validateRelative (me_dest e) \<and> validateRelative (me_backup e)"

definition validatePlan :: "mig_plan \<Rightarrow> mig_error option" where
  "validatePlan p =
     (if mp_version p \<noteq> 1 \<or> mp_ids p \<noteq> [''DEP-ENC-0002'', ''DEP-ENC-0004'']
        \<or> map_of (mp_strategies p) ''DEP-ENC-0002'' \<noteq> Some ''archive read-only''
        \<or> map_of (mp_strategies p) ''DEP-ENC-0004'' \<noteq> Some ''retain data / remove runtime reference''
        \<or> length (mp_strategies p) \<noteq> 2 \<or> \<not> mp_retained p
      then Some InvalidPlan
      else if mp_entries p = [] then Some EmptyDenominator
      else if \<not> list_all valid_entry (mp_entries p) \<or> \<not> distinct (map me_source (mp_entries p)) then Some InvalidPlan
      else None)"

section \<open>The backup\<close>

definition validateExistingBackup :: "mig_env \<Rightarrow> text_fs \<Rightarrow> path \<Rightarrow> mig_plan \<Rightarrow> mig_error + mig_artifact" where
  "validateExistingBackup env fs dir want =
     (case fs (dir @ [manifestName]) of
        Some (Regular body) \<Rightarrow>
          (case mg_parse env body of
             None \<Rightarrow> Inl ManifestMismatch
           | Some got \<Rightarrow>
               if mg_marshal env want \<noteq> mg_marshal env got then Inl ManifestMismatch
               else if \<not> list_all (\<lambda>e. hashMatches env fs dir (me_backup e) e = None) (mp_entries got) then Inl ManifestMismatch
               else Inr \<lparr>ar_dir = dir, ar_sha = mg_sha env body, ar_count = length (mp_entries got)\<rparr>)
      | _ \<Rightarrow> Inl (FsFailed ErrNotExist))"

definition loadBackup :: "mig_env \<Rightarrow> text_fs \<Rightarrow> path \<Rightarrow> mig_error + mig_plan \<times> mig_artifact" where
  "loadBackup env fs dir =
     (case fs (dir @ [manifestName]) of
        Some (Regular body) \<Rightarrow>
          (case mg_parse env body of
             None \<Rightarrow> Inl ManifestMismatch
           | Some plan \<Rightarrow>
               (case validatePlan plan of
                  Some err \<Rightarrow> Inl err
                | None \<Rightarrow> (case validateExistingBackup env fs dir plan of Inl err \<Rightarrow> Inl err | Inr a \<Rightarrow> Inr (plan, a))))
      | _ \<Rightarrow> Inl (FsFailed ErrNotExist))"

fun backup_files :: "mig_env \<Rightarrow> text_fs \<Rightarrow> path \<Rightarrow> path \<Rightarrow> mig_entry list \<Rightarrow> text_fs \<times> fs_error option" where
  "backup_files env fs base dir [] = (fs, None)"
| "backup_files env fs base dir (e # es) =
     (case copyVerified env fs base (me_source e) dir (me_backup e) e of
        (fs, Some err) \<Rightarrow> (fs, Some err)
      | (fs, None) \<Rightarrow> backup_files env fs base dir es)"

definition backup :: "mig_env \<Rightarrow> text_fs \<Rightarrow> path \<Rightarrow> path \<Rightarrow> mig_plan \<Rightarrow> text_fs \<times> (mig_error + mig_artifact)" where
  "backup env fs base dir plan =
     (if \<not> cleanRoot fs base then (fs, Inl (FsFailed ErrNotDirectory))
      else case validatePlan plan of
        Some err \<Rightarrow> (fs, Inl err)
      | None \<Rightarrow>
          if fs dir \<noteq> None then (fs, validateExistingBackup env fs dir plan)
          else case mkdir_all (mg_deny env) fs [] dir of
            (fs, Some err) \<Rightarrow> (fs, Inl (FsFailed err))
          | (fs, None) \<Rightarrow>
              case backup_files env fs base dir (mp_entries plan) of
                (fs, Some err) \<Rightarrow> (fs, Inl (FsFailed err))
              | (fs, None) \<Rightarrow>
                  let p = dir @ [manifestName]; body = mg_indent env plan
                  in if fs p \<noteq> None \<or> mg_deny env p then (fs, Inl (FsFailed ErrPermission))
                     else (fs(p \<mapsto> Regular body),
                       Inr \<lparr>ar_dir = dir, ar_sha = mg_sha env body, ar_count = length (mp_entries plan)\<rparr>))"

section \<open>Apply\<close>

definition matchingFilePresent :: "mig_env \<Rightarrow> text_fs \<Rightarrow> path \<Rightarrow> string \<Rightarrow> mig_entry \<Rightarrow> fs_error + bool" where
  "matchingFilePresent env fs base s e =
     (case checkParentDirectories fs base s of
        Some err \<Rightarrow> Inl err
      | None \<Rightarrow>
          case hashMatches env fs base s e of
            None \<Rightarrow> Inr True
          | Some ErrNotExist \<Rightarrow> Inr False
          | Some err \<Rightarrow> Inl err)"

definition preflight_entry :: "mig_env \<Rightarrow> text_fs \<Rightarrow> path \<Rightarrow> bool \<Rightarrow> mig_entry \<Rightarrow> mig_error option" where
  "preflight_entry env fs base restoring e =
     (case matchingFilePresent env fs base (me_source e) e of
        Inl _ \<Rightarrow> Some SourceConflict
      | Inr source \<Rightarrow>
          case matchingFilePresent env fs base (me_dest e) e of
            Inl _ \<Rightarrow> Some DestinationConflict
          | Inr destination \<Rightarrow>
              if destination \<and> (source \<or> me_file_existed e) then Some UnownedDestination
              else if \<not> source \<and> \<not> destination \<and> \<not> restoring then Some MissingEntry
              else None)"

fun preflight :: "mig_env \<Rightarrow> text_fs \<Rightarrow> path \<Rightarrow> bool \<Rightarrow> mig_entry list \<Rightarrow> mig_error option" where
  "preflight env fs base restoring [] = None"
| "preflight env fs base restoring (e # es) =
     (case preflight_entry env fs base restoring e of Some err \<Rightarrow> Some err | None \<Rightarrow> preflight env fs base restoring es)"

definition verifyInputs :: "mig_env \<Rightarrow> text_fs \<Rightarrow> path \<Rightarrow> mig_plan \<Rightarrow> mig_artifact \<Rightarrow> bool \<Rightarrow> mig_error option" where
  "verifyInputs env fs base plan a require =
     (if \<not> cleanRoot fs base then Some (FsFailed ErrNotDirectory)
      else case validatePlan plan of
        Some err \<Rightarrow> Some err
      | None \<Rightarrow>
          case validateExistingBackup env fs (ar_dir a) plan of
            Inl err \<Rightarrow> Some err
          | Inr b \<Rightarrow>
              if ar_sha b \<noteq> ar_sha a \<or> ar_count b \<noteq> ar_count a then Some ArtifactMismatch
              else if require then preflight env fs base False (mp_entries plan) else None)"

definition dryRun :: "mig_env \<Rightarrow> text_fs \<Rightarrow> path \<Rightarrow> mig_plan \<Rightarrow> mig_artifact \<Rightarrow> mig_error + mig_result" where
  "dryRun env fs base plan a =
     (case verifyInputs env fs base plan a True of
        Some err \<Rightarrow> Inl err
      | None \<Rightarrow> Inr \<lparr>mr_pre = length (mp_entries plan), mr_post = length (mp_entries plan), mr_orphans = 0,
          mr_restored = False, mr_deletion = False\<rparr>)"

text \<open>The directories go longest first, each only when it is empty.\<close>

definition made_directories :: "mig_entry list \<Rightarrow> string list" where
  "made_directories es = rev (sort_key length (remdups (map (\<lambda>e. filepath_dir (me_dest e)) (filter (\<lambda>e. \<not> me_dir_existed e) es))))"

fun remove_directories :: "mig_env \<Rightarrow> text_fs \<Rightarrow> path \<Rightarrow> string list \<Rightarrow> text_fs" where
  "remove_directories env fs base [] = fs"
| "remove_directories env fs base (s # ss) =
     (case safe_join base s of
        None \<Rightarrow> remove_directories env fs base ss
      | Some p \<Rightarrow> remove_directories env (fst (os_remove (mg_deny env) (mg_list env) fs p)) base ss)"

definition cleanupDestinationDirectories :: "mig_env \<Rightarrow> text_fs \<Rightarrow> path \<Rightarrow> mig_entry list \<Rightarrow> text_fs" where
  "cleanupDestinationDirectories env fs base es = remove_directories env fs base (made_directories es)"

text \<open>The moves are taken back in reverse order; \<open>moved\<close> has the last one first.\<close>

fun move_back :: "mig_env \<Rightarrow> text_fs \<Rightarrow> path \<Rightarrow> mig_entry list \<Rightarrow> text_fs" where
  "move_back env fs base [] = fs"
| "move_back env fs base (e # es) =
     move_back env (fst (os_rename env fs (joined base (me_dest e)) (joined base (me_source e)))) base es"

definition rollback :: "mig_env \<Rightarrow> text_fs \<Rightarrow> path \<Rightarrow> mig_entry list \<Rightarrow> text_fs" where
  "rollback env fs base moved = cleanupDestinationDirectories env (move_back env fs base moved) base (rev moved)"

fun apply_entries ::
  "mig_env \<Rightarrow> (nat \<Rightarrow> bool) \<Rightarrow> path \<Rightarrow> nat \<Rightarrow> mig_entry list \<Rightarrow> mig_entry list \<Rightarrow> text_fs
    \<Rightarrow> text_fs \<times> mig_entry list \<times> mig_error option" where
  "apply_entries env interrupt base k moved [] fs = (fs, moved, None)"
| "apply_entries env interrupt base k moved (e # es) fs =
     (let source = joined base (me_source e); destination = joined base (me_dest e)
      in if fs source = None
         then if hashMatches env fs base (me_dest e) e \<noteq> None then (fs, moved, Some MissingEntry)
              else apply_entries env interrupt base (Suc k) moved es fs
         else if fs destination \<noteq> None then (fs, moved, Some DestinationExists)
         else case ensureSafeDir (mg_deny env) fs base (filepath_dir (me_dest e)) of
           (fs, Some err) \<Rightarrow> (fs, moved, Some (FsFailed err))
         | (fs, None) \<Rightarrow>
             case os_rename env fs source destination of
               (fs, Some err) \<Rightarrow> (fs, moved, Some (FsFailed err))
             | (fs, None) \<Rightarrow>
                 if interrupt (Suc k) then (fs, e # moved, Some Interrupted)
                 else apply_entries env interrupt base (Suc k) (e # moved) es fs)"

definition verify :: "mig_env \<Rightarrow> text_fs \<Rightarrow> path \<Rightarrow> mig_plan \<Rightarrow> mig_artifact \<Rightarrow> mig_error + mig_result" where
  "verify env fs base plan a =
     (case verifyInputs env fs base plan a False of
        Some err \<Rightarrow> Inl err
      | None \<Rightarrow>
          let post = length (filter (\<lambda>e. hashMatches env fs base (me_dest e) e = None) (mp_entries plan));
              orphans = length (filter (\<lambda>e. hashMatches env fs base (me_dest e) e \<noteq> None) (mp_entries plan))
                + length (filter (\<lambda>e. fs (joined base (me_source e)) \<noteq> None) (mp_entries plan))
          in if post \<noteq> length (mp_entries plan) \<or> orphans \<noteq> 0 then Inl CountMismatch
             else Inr \<lparr>mr_pre = length (mp_entries plan), mr_post = post, mr_orphans = orphans, mr_restored = False, mr_deletion = False\<rparr>)"

definition apply_plan ::
  "mig_env \<Rightarrow> (nat \<Rightarrow> bool) \<Rightarrow> path \<Rightarrow> mig_plan \<Rightarrow> mig_artifact \<Rightarrow> text_fs \<Rightarrow> text_fs \<times> (mig_error + mig_result)" where
  "apply_plan env interrupt base plan a fs =
     (case verifyInputs env fs base plan a True of
        Some err \<Rightarrow> (fs, Inl err)
      | None \<Rightarrow>
          case apply_entries env interrupt base 0 [] (mp_entries plan) fs of
            (fs, moved, Some err) \<Rightarrow> (rollback env fs base moved, Inl err)
          | (fs, moved, None) \<Rightarrow>
              case verify env fs base plan a of
                Inl err \<Rightarrow> (rollback env fs base moved, Inl err)
              | Inr r \<Rightarrow> (fs, Inr (r\<lparr>mr_deletion := True\<rparr>)))"

section \<open>Restore\<close>

fun restore_entries :: "mig_env \<Rightarrow> path \<Rightarrow> path \<Rightarrow> mig_entry list \<Rightarrow> text_fs \<Rightarrow> text_fs \<times> mig_error option" where
  "restore_entries env base dir [] fs = (fs, None)"
| "restore_entries env base dir (e # es) fs =
     (let source = joined base (me_source e); destination = joined base (me_dest e)
      in if fs source \<noteq> None
         then if hashMatches env fs base (me_source e) e \<noteq> None then (fs, Some SourceChanged)
              else restore_entries env base dir es fs
         else case ensureSafeDir (mg_deny env) fs base (filepath_dir (me_source e)) of
           (fs, Some err) \<Rightarrow> (fs, Some (FsFailed err))
         | (fs, None) \<Rightarrow>
             if fs destination \<noteq> None
             then if hashMatches env fs base (me_dest e) e \<noteq> None then (fs, Some DestinationChanged)
                  else (case os_rename env fs destination source of
                      (fs, Some err) \<Rightarrow> (fs, Some (FsFailed err))
                    | (fs, None) \<Rightarrow> restore_entries env base dir es fs)
             else case copyVerified env fs dir (me_backup e) base (me_source e) e of
                 (fs, Some err) \<Rightarrow> (fs, Some (FsFailed err))
               | (fs, None) \<Rightarrow> restore_entries env base dir es fs)"

definition restore_plan :: "mig_env \<Rightarrow> path \<Rightarrow> mig_plan \<Rightarrow> mig_artifact \<Rightarrow> text_fs \<Rightarrow> text_fs \<times> (mig_error + mig_result)" where
  "restore_plan env base plan a fs =
     (case verifyInputs env fs base plan a False of
        Some err \<Rightarrow> (fs, Inl err)
      | None \<Rightarrow>
          case preflight env fs base True (mp_entries plan) of
            Some err \<Rightarrow> (fs, Inl err)
          | None \<Rightarrow>
              case restore_entries env base (ar_dir a) (mp_entries plan) fs of
                (fs, Some err) \<Rightarrow> (fs, Inl err)
              | (fs, None) \<Rightarrow>
                  if \<not> list_all (\<lambda>e. hashMatches env fs base (me_source e) e = None) (mp_entries plan) then (fs, Inl SourceChanged)
                  else (cleanupDestinationDirectories env fs base (mp_entries plan),
                    Inr \<lparr>mr_pre = length (mp_entries plan), mr_post = length (mp_entries plan), mr_orphans = 0,
                      mr_restored = True, mr_deletion = False\<rparr>))"

end
