(* ===== verification/MigrationPaths.thy ===== *)
theory MigrationPaths
  imports Migration
begin

text \<open>The paths of a migration, and what its steps change (see \<open>Migration\<close>).\<close>

section \<open>Canonical paths\<close>

definition canonical :: "string \<Rightarrow> bool" where
  "canonical s \<longleftrightarrow> (\<exists>ps. ps \<noteq> [] \<and> (\<forall>w \<in> set ps. plain_name w) \<and> s = rel_join ps)"

lemma split_at_join:
  "ps \<noteq> [] \<Longrightarrow> \<forall>w \<in> set ps. c \<notin> set w \<Longrightarrow> split_at c (join_with c ps) = ps"
proof (induction c ps rule: join_with.induct)
  case (3 c w v ws)
  have "split_at c (w @ c # s) = w # split_at c s" if "c \<notin> set w" for w s
    using that by (induction w) auto
  with 3 show ?case by simp
qed (auto simp: split_at_no_sep)

lemma clean_parts_plain: "\<forall>w \<in> set ps. plain_name w \<Longrightarrow> foldl (clean_part False) acc ps = acc @ ps"
  by (induction ps arbitrary: acc) (auto simp: clean_part_def plain_name_def)

lemma rel_parts_join [simp]: "ps \<noteq> [] \<Longrightarrow> \<forall>w \<in> set ps. plain_name w \<Longrightarrow> rel_parts (rel_join ps) = ps"
  by (simp add: rel_parts_def rel_join_def split_at_join plain_name_def clean_parts_plain)

lemma join_head: "ps \<noteq> [] \<Longrightarrow> \<forall>w \<in> set ps. plain_name w \<Longrightarrow> \<exists>r. rel_join ps = hd ps @ r \<and> (r = [] \<or> hd r = CHR ''/'')"
  by (cases ps rule: remdups_adj.cases) (auto simp: rel_join_def)

lemma plain_join_head:
  assumes "ps \<noteq> []" and "\<forall>w \<in> set ps. plain_name w"
  shows "rel_join ps \<noteq> [] \<and> \<not> has_prefix (rel_join ps) ''/'' \<and> rel_join ps \<noteq> ''..'' \<and> \<not> has_prefix (rel_join ps) ''../''"
proof -
  obtain r where r: "rel_join ps = hd ps @ r" "r = [] \<or> hd r = CHR ''/''" using join_head [OF assms] by blast
  have w: "plain_name (hd ps)" using assms by simp
  have "\<not> has_prefix (hd ps @ r) ''../''"
  proof
    assume "has_prefix (hd ps @ r) ''../''"
    then have "take (Suc (Suc (Suc 0))) (hd ps @ r) = ''../''" by (simp add: has_prefix_def del: take_append)
    with w r(2) show False
      by (cases "hd ps" rule: remdups_adj.cases; cases "tl (tl (hd ps))"; cases r) (auto simp: plain_name_def take_Cons' split: if_splits)
  qed
  moreover have "hd ps @ r \<noteq> ''..''"
    using w r(2) by (cases r) (auto simp: plain_name_def append_eq_Cons_conv)
  ultimately show ?thesis using w unfolding r(1) by (cases "hd ps") (auto simp: plain_name_def has_prefix_def)
qed

lemma clean_join [simp]:
  assumes "ps \<noteq> []" and "\<forall>w \<in> set ps. plain_name w"
  shows "filepath_clean (rel_join ps) = rel_join ps"
proof -
  have "\<not> has_prefix (rel_join ps) ''/''" using plain_join_head [OF assms] by simp
  moreover have "foldl (clean_part False) [] (split_at (CHR ''/'') (rel_join ps)) = ps"
    using rel_parts_join [OF assms] by (simp add: rel_parts_def)
  ultimately show ?thesis using assms(1) by (simp add: filepath_clean_def Let_def rel_join_def)
qed

lemma valid_join [simp]: "ps \<noteq> [] \<Longrightarrow> \<forall>w \<in> set ps. plain_name w \<Longrightarrow> validateRelative (rel_join ps)"
  using plain_join_head by (simp add: validateRelative_def)

lemma join_snoc: "ps \<noteq> [] \<Longrightarrow> rel_join (ps @ [w]) = rel_join ps @ CHR ''/'' # w"
  by (induction ps rule: induct_list012) (auto simp: rel_join_def)

lemma filepath_dir_join:
  assumes "ps \<noteq> []" and "\<forall>w \<in> set ps. plain_name w"
  shows "filepath_dir (rel_join ps) = (if butlast ps = [] then ''.'' else rel_join (butlast ps))"
proof -
  obtain qs w where ps: "ps = qs @ [w]" using assms(1) by (metis append_butlast_last_id)
  have w: "CHR ''/'' \<notin> set w" using assms(2) ps by (auto simp: plain_name_def)
  have rest: "takeWhile (\<lambda>c. c \<noteq> CHR ''/'') (rev w @ CHR ''/'' # r) = rev w" "takeWhile (\<lambda>c. c \<noteq> CHR ''/'') (rev w) = rev w" for r
    using w by (auto simp: takeWhile_append takeWhile_eq_all_conv)
  show ?thesis
  proof (cases "qs = []")
    case True
    then have j: "rel_join ps = w" by (simp add: ps rel_join_def)
    have "length (takeWhile (\<lambda>c. c \<noteq> CHR ''/'') (rev w)) = length w" unfolding rest(2) by simp
    then show ?thesis using True by (simp add: j filepath_dir_def) (simp add: ps filepath_clean_def has_prefix_def clean_part_def)
  next
    case False
    have q: "\<forall>w \<in> set qs. plain_name w" using assms(2) ps by simp
    have r: "rel_join ps = (rel_join qs @ ''/'') @ w" using join_snoc [OF False, of w] ps by simp
    have "take (length (rel_join ps) - length (takeWhile (\<lambda>c. c \<noteq> CHR ''/'') (rev (rel_join ps)))) (rel_join ps) = rel_join qs @ ''/''"
      using rest(1) [of "rev (rel_join qs)"] by (simp add: r)
    moreover have "filepath_clean (rel_join qs @ ''/'') = rel_join qs"
    proof -
      have "split_at c (s @ [c]) = split_at c s @ [[]]" for c s
        using split_at_nonempty by (induction s) (auto split: list.splits)
      then have "split_at (CHR ''/'') (rel_join qs @ ''/'') = qs @ [[]]"
        using split_at_join [OF False, of "CHR ''/''"] q by (simp add: rel_join_def plain_name_def)
      moreover have "\<not> has_prefix (rel_join qs @ ''/'') ''/''"
        using plain_join_head [OF False q] by (cases "rel_join qs") (auto simp: has_prefix_def)
      ultimately show ?thesis using False q
        by (simp add: filepath_clean_def Let_def clean_parts_plain clean_part_def rel_join_def)
    qed
    ultimately show ?thesis using False by (simp add: filepath_dir_def ps)
  qed
qed

lemma rel_parts_dot [simp]: "rel_parts ''.'' = []" "validateRelative ''.''"
  by (simp_all add: rel_parts_def clean_part_def validateRelative_def has_prefix_def filepath_clean_def)

lemma canonical_joined:
  assumes "canonical s"
  shows "joined base s = base @ rel_parts s" "rel_parts s \<noteq> []" "validateRelative s" "safe_join base s = Some (base @ rel_parts s)"
  using assms by (auto simp: canonical_def joined_def safe_join_def)

lemma canonical_dir:
  assumes "canonical s"
  shows "rel_parts (filepath_dir s) = butlast (rel_parts s)" "validateRelative (filepath_dir s)" "filepath_clean s = s"
    "\<forall>w \<in> set (rel_parts s). plain_name w"
proof -
  obtain ps where ps: "ps \<noteq> []" "\<forall>w \<in> set ps. plain_name w" "s = rel_join ps" using assms by (auto simp: canonical_def)
  have b: "\<forall>w \<in> set (butlast ps). plain_name w" using ps(2) by (meson in_set_butlastD)
  show "rel_parts (filepath_dir s) = butlast (rel_parts s)" "validateRelative (filepath_dir s)" "filepath_clean s = s"
    "\<forall>w \<in> set (rel_parts s). plain_name w"
    using ps b by (auto simp: filepath_dir_join)
qed

section \<open>Directories\<close>

lemma step_into_plain [simp]: "plain_name w \<Longrightarrow> step_into cur w = cur @ [w]" "step_into cur ''.'' = cur"
  by (auto simp: step_into_def plain_name_def)

lemma ensure_safe_frame:
  assumes "ensure_safe_parts deny fs cur ps = (fs', r)" and "\<forall>w \<in> set ps. plain_name w \<or> w = ''.''"
  shows "adds_dirs fs fs' (foldl step_into cur ps)"
  using assms
proof (induction ps arbitrary: fs cur)
  case (Cons w ws)
  let ?p = "step_into cur w"
  have below: "prefix ?p (foldl step_into ?p ws)" for ws :: "string list"
  proof (induction ws rule: rev_induct)
    case (snoc v vs)
    have "prefix (foldl step_into ?p vs) (step_into (foldl step_into ?p vs) v)" by (simp add: step_into_def)
    with snoc show ?case by (auto intro: prefix_order.trans)
  qed simp
  consider "fs' = fs" | "fs ?p = None" "ensure_safe_parts deny (fs(?p \<mapsto> Dir)) ?p ws = (fs', r)"
    | "ensure_safe_parts deny fs ?p ws = (fs', r)"
    using Cons.prems(1) by (auto simp: Let_def split: option.splits node.splits if_splits)
  then show ?case
  proof cases
    case 2
    have "adds_dirs fs (fs(?p \<mapsto> Dir)) (foldl step_into ?p ws)" using 2(1) below by (rule adds_dirs_new)
    from adds_dirs_trans [OF this Cons.IH [OF 2(2)]] Cons.prems(2) show ?thesis by simp
  next
    case 3
    from Cons.IH [OF 3] Cons.prems(2) show ?thesis by simp
  qed simp
qed simp

lemma foldl_step_plain: "\<forall>w \<in> set ps. plain_name w \<Longrightarrow> foldl step_into cur ps = cur @ ps"
  by (induction ps arbitrary: cur) auto

lemma ensureSafeDir_frame:
  assumes "ensureSafeDir deny fs base (filepath_dir s) = (fs', r)" and "canonical s"
  shows "adds_dirs fs fs' (butlast (base @ rel_parts s))"
proof -
  note c = canonical_dir [OF assms(2)] canonical_joined [OF assms(2)]
  have plain: "\<forall>w \<in> set (butlast (rel_parts s)). plain_name w" using c(4) by (meson in_set_butlastD)
  have e: "ensure_safe_parts deny fs base (or_dot (butlast (rel_parts s))) = (fs', r)"
    using assms(1) c by (simp add: ensureSafeDir_def)
  have "foldl step_into base (or_dot (butlast (rel_parts s))) = butlast (base @ rel_parts s)"
    using plain c(6) by (auto simp: or_dot_def foldl_step_plain butlast_append)
  moreover have "adds_dirs fs fs' (foldl step_into base (or_dot (butlast (rel_parts s))))"
    by (rule ensure_safe_frame [OF e]) (use plain in \<open>auto simp: or_dot_def\<close>)
  ultimately show ?thesis by simp
qed

text \<open>When the checks of the parents pass, everything above an existing path is a directory.\<close>

definition tree_fs :: "text_fs \<Rightarrow> bool" where
  "tree_fs fs \<longleftrightarrow> (\<forall>p. fs p \<noteq> None \<longrightarrow> p \<noteq> [] \<longrightarrow> fs (butlast p) \<noteq> None)"

lemma tree_above: "tree_fs fs \<Longrightarrow> fs q \<noteq> None \<Longrightarrow> prefix p q \<Longrightarrow> fs p \<noteq> None"
proof (induction q rule: rev_induct)
  case (snoc x q)
  show ?case
  proof (cases "p = q @ [x]")
    case False
    then have "prefix p q" using snoc.prems(3) by simp
    moreover have "fs q \<noteq> None" using snoc.prems(1,2) unfolding tree_fs_def by (metis snoc_eq_iff_butlast)
    ultimately show ?thesis using snoc.IH snoc.prems(1) by blast
  qed (use snoc.prems in simp)
qed simp

lemma check_parents_dirs:
  assumes "check_parents fs cur ps = None" and "tree_fs fs" and "\<forall>w \<in> set ps. plain_name w" and "ps \<noteq> []"
  shows "fs (cur @ ps) = None \<or> fs (cur @ ps) = Some Dir"
  using assms
proof (induction ps arbitrary: cur)
  case (Cons w ws)
  show ?case
  proof (cases "fs (cur @ [w])")
    case None
    with tree_above [OF Cons.prems(2), of "cur @ w # ws" "cur @ [w]"] show ?thesis by (cases "fs (cur @ w # ws)") auto
  next
    case (Some n)
    with Cons.prems(1,3) have "n = Dir" "check_parents fs (cur @ [w]) ws = None" by (auto split: node.splits)
    with Some Cons.IH [of "cur @ [w]"] Cons.prems(2,3) show ?thesis by (cases "ws = []") auto
  qed
qed simp

lemma check_parents_dest:
  assumes "checkParentDirectories fs base s = None" and "tree_fs fs" and "canonical s" and "fs base = Some Dir"
  shows "fs (butlast (base @ rel_parts s)) = None \<or> fs (butlast (base @ rel_parts s)) = Some Dir"
proof -
  note c = canonical_dir [OF assms(3)] canonical_joined [OF assms(3)]
  have plain: "\<forall>w \<in> set (butlast (rel_parts s)). plain_name w" using c(4) by (meson in_set_butlastD)
  have "check_parents fs base (or_dot (butlast (rel_parts s))) = None"
    using assms(1) c by (simp add: checkParentDirectories_def)
  with check_parents_dirs [OF _ assms(2) plain] c(6) assms(4) show ?thesis
    by (cases "butlast (rel_parts s) = []") (auto simp: or_dot_def butlast_append)
qed

lemma rename_cases:
  assumes "os_rename env fs src dst = (fs', r)"
  shows "(fs' = fs \<and> r \<noteq> None) \<or> (r = None \<and> fs' = fs(src := None, dst := fs src) \<and> fs src \<noteq> None \<and> fs (butlast dst) = Some Dir)"
  using assms by (auto simp: os_rename_def split: if_splits)

lemma hash_matches_at:
  assumes "hashMatches env fs base s e = None" and "canonical s"
  shows "\<exists>c. fs (base @ rel_parts s) = Some (Regular c) \<and> int (length c) = me_size e \<and> mg_sha env c = me_sha e"
  using assms(1) canonical_joined(4) [OF assms(2), of base]
  by (auto simp: hashMatches_def hashRegularFile_def split: option.splits node.splits if_splits)

end
