(* ===== verification/MigrationSteps.thy ===== *)
theory MigrationSteps
  imports MigrationPaths
begin

text \<open>What applying and restoring a plan change, step by step (see \<open>Migration\<close>).\<close>

section \<open>Plans whose paths are apart\<close>

definition src :: "path \<Rightarrow> mig_entry \<Rightarrow> path" where
  "src base e = base @ rel_parts (me_source e)"

definition dst :: "path \<Rightarrow> mig_entry \<Rightarrow> path" where
  "dst base e = base @ rel_parts (me_dest e)"

definition places :: "path \<Rightarrow> mig_entry list \<Rightarrow> path set" where
  "places base es = src base ` set es \<union> dst base ` set es"

definition well_planned :: "path \<Rightarrow> mig_entry list \<Rightarrow> bool" where
  "well_planned base es \<longleftrightarrow> list_all (\<lambda>e. canonical (me_source e) \<and> canonical (me_dest e)) es
     \<and> distinct (map (src base) es @ map (dst base) es) \<and> (\<forall>p \<in> places base es. \<forall>q \<in> places base es. \<not> strict_prefix p q)"

lemma planned:
  assumes "well_planned base es" and "e \<in> set es"
  shows "joined base (me_source e) = src base e" "joined base (me_dest e) = dst base e"
    "canonical (me_source e)" "canonical (me_dest e)" "src base e \<in> places base es" "dst base e \<in> places base es"
  using assms canonical_joined(1) by (auto simp: well_planned_def src_def dst_def places_def list_all_iff)

lemma planned_apart:
  assumes "well_planned base es" and "e \<in> set es" "f \<in> set es"
  shows "src base e \<noteq> dst base f" "src base e = src base f \<Longrightarrow> e = f" "dst base e = dst base f \<Longrightarrow> e = f"
  using assms by (auto simp: well_planned_def distinct_map inj_on_def)

text \<open>Above a place there is no place.\<close>

lemma above_no_place:
  assumes "well_planned base es" and "p \<in> places base es" and "prefix q (butlast p)"
  shows "q \<notin> places base es"
proof
  assume q: "q \<in> places base es"
  have "p \<noteq> []"
  proof
    assume "p = []"
    with assms(2) obtain e where "e \<in> set es" "src base e = [] \<or> dst base e = []" by (auto simp: places_def)
    with assms(1) canonical_joined(2) show False by (auto simp: well_planned_def list_all_iff src_def dst_def)
  qed
  then have "strict_prefix (butlast p) p" by (metis append_butlast_last_id strict_prefixI')
  with assms(3) have "strict_prefix q p" by (rule prefix_order.le_less_trans)
  with assms(1,2) q show False by (simp add: well_planned_def)
qed

text \<open>Outside of \<open>P\<close> no file comes, goes or changes.\<close>

definition kept_outside :: "path set \<Rightarrow> text_fs \<Rightarrow> text_fs \<Rightarrow> bool" where
  "kept_outside P fs fs' \<longleftrightarrow> (\<forall>q n. q \<notin> P \<longrightarrow> n \<noteq> Dir \<longrightarrow> (fs' q = Some n \<longleftrightarrow> fs q = Some n))"

lemma kept_refl [simp]: "kept_outside P fs fs"
  by (simp add: kept_outside_def)

lemma kept_trans: "kept_outside P a b \<Longrightarrow> kept_outside P b c \<Longrightarrow> kept_outside P a c"
  by (simp add: kept_outside_def)

lemma kept_dirs: "adds_dirs fs fs' p \<Longrightarrow> kept_outside P fs fs'"
  unfolding kept_outside_def adds_dirs_def by (metis option.distinct(1) option.inject)

lemma kept_upd: "p \<in> P \<Longrightarrow> kept_outside P fs (fs(p := v))"
  by (auto simp: kept_outside_def)

lemma kept_dir: "kept_outside P fs fs' \<Longrightarrow> q \<notin> P \<Longrightarrow> fs q = None \<or> fs q = Some Dir \<Longrightarrow> fs' q = None \<or> fs' q = Some Dir"
  unfolding kept_outside_def by (metis option.exhaust option.distinct(1) option.inject)

section \<open>The removal of directories\<close>

lemma remove_directories_frame:
  assumes "\<forall>s \<in> set ss. safe_join base s = None \<or> (\<exists>p. safe_join base s = Some p \<and> p \<notin> P \<and> (fs p = None \<or> fs p = Some Dir))"
  shows "kept_outside P fs (remove_directories env fs base ss) \<and> (\<forall>q \<in> P. remove_directories env fs base ss q = fs q)"
  using assms
proof (induction ss arbitrary: fs)
  case (Cons s ss)
  show ?case
  proof (cases "safe_join base s")
    case None
    with Cons show ?thesis by simp
  next
    case (Some p)
    let ?fs = "fst (os_remove (mg_deny env) (mg_list env) fs p)"
    have p: "p \<notin> P" "fs p = None \<or> fs p = Some Dir" using Cons.prems Some by auto
    have e: "?fs = fs \<or> ?fs = fs(p := None)" by (auto simp: os_remove_def split: option.splits)
    have k: "kept_outside P fs ?fs" "\<forall>q \<in> P. ?fs q = fs q" using e p by (auto simp: kept_outside_def split: if_splits)
    have "\<forall>s \<in> set ss. safe_join base s = None \<or> (\<exists>p. safe_join base s = Some p \<and> p \<notin> P \<and> (?fs p = None \<or> ?fs p = Some Dir))"
    proof
      fix t assume "t \<in> set ss"
      with Cons.prems have "safe_join base t = None \<or> (\<exists>p. safe_join base t = Some p \<and> p \<notin> P \<and> (fs p = None \<or> fs p = Some Dir))" by simp
      then show "safe_join base t = None \<or> (\<exists>p. safe_join base t = Some p \<and> p \<notin> P \<and> (?fs p = None \<or> ?fs p = Some Dir))"
        using e by (cases "safe_join base t") (auto split: if_splits)
    qed
    from Cons.IH [OF this] k Some show ?thesis by (auto intro: kept_trans)
  qed
qed simp

lemma cleanup_frame:
  assumes w: "well_planned base all" and "set es \<subseteq> set all"
    and "\<forall>e \<in> set es. \<not> me_dir_existed e \<longrightarrow> fs (butlast (dst base e)) = None \<or> fs (butlast (dst base e)) = Some Dir"
  shows "kept_outside (places base all) fs (cleanupDestinationDirectories env fs base es)
    \<and> (\<forall>q \<in> places base all. cleanupDestinationDirectories env fs base es q = fs q)"
  unfolding cleanupDestinationDirectories_def
proof (rule remove_directories_frame, intro ballI disjI2)
  fix s assume "s \<in> set (made_directories es)"
  then obtain e where e: "e \<in> set es" "\<not> me_dir_existed e" "s = filepath_dir (me_dest e)" by (auto simp: made_directories_def)
  have a: "e \<in> set all" using e(1) assms(2) by blast
  note c = canonical_dir [OF planned(4) [OF w a]] canonical_joined [OF planned(4) [OF w a]]
  have "safe_join base s = Some (butlast (dst base e))"
    using c(1,2,6) e(3) by (simp add: safe_join_def dst_def butlast_append)
  with above_no_place [OF w planned(6) [OF w a], of "butlast (dst base e)"] assms(3) e(1,2)
  show "\<exists>p. safe_join base s = Some p \<and> p \<notin> places base all \<and> (fs p = None \<or> fs p = Some Dir)" by simp
qed

section \<open>Apply\<close>

text \<open>An entry is as it was, or as a whole at its destination.\<close>

definition entry_stays :: "path \<Rightarrow> text_fs \<Rightarrow> text_fs \<Rightarrow> mig_entry \<Rightarrow> bool" where
  "entry_stays base fs fs' e \<longleftrightarrow> fs' (src base e) = fs (src base e) \<and> fs' (dst base e) = fs (dst base e)"

definition entry_moved :: "path \<Rightarrow> text_fs \<Rightarrow> text_fs \<Rightarrow> mig_entry \<Rightarrow> bool" where
  "entry_moved base fs fs' e \<longleftrightarrow> fs (src base e) \<noteq> None \<and> fs (dst base e) = None
     \<and> fs' (src base e) = None \<and> fs' (dst base e) = fs (src base e)"

definition applying :: "path \<Rightarrow> mig_entry list \<Rightarrow> text_fs \<Rightarrow> mig_entry list \<Rightarrow> text_fs \<Rightarrow> bool" where
  "applying base all fs0 moved fs \<longleftrightarrow> kept_outside (places base all) fs0 fs \<and> set moved \<subseteq> set all \<and> distinct moved
     \<and> (\<forall>e \<in> set all. if e \<in> set moved then entry_moved base fs0 fs e \<and> fs (butlast (dst base e)) = Some Dir
          else entry_stays base fs0 fs e)
     \<and> (\<forall>q. q \<notin> places base all \<longrightarrow> fs0 q = Some Dir \<longrightarrow> fs q = Some Dir)"

lemma planned_dirs:
  assumes w: "well_planned base all" and e: "e \<in> set all" and "adds_dirs fs fs' (butlast p)" and "p \<in> places base all"
  shows "fs' (src base e) = fs (src base e)" "fs' (dst base e) = fs (dst base e)"
  using assms(3) above_no_place [OF w assms(4)] planned(5,6) [OF w e] unfolding adds_dirs_def by blast+

lemma move_places:
  assumes w: "well_planned base all" and e: "e \<in> set all" "f \<in> set all" "f \<noteq> e"
  shows "(fs(src base e := a, dst base e := b)) (src base f) = fs (src base f)" "(fs(src base e := a, dst base e := b)) (dst base f) = fs (dst base f)"
  using planned_apart [OF w e(1,2)] planned_apart [OF w e(2,1)] e(3) by auto

lemma applying_step:
  assumes w: "well_planned base all" and inv: "applying base all fs0 moved fs" and e: "e \<in> set all" "e \<notin> set moved"
    and d: "adds_dirs fs fs1 (butlast (dst base e))"
  shows "applying base all fs0 moved fs1"
    "fs (src base e) \<noteq> None \<Longrightarrow> fs (dst base e) = None \<Longrightarrow> fs1 (butlast (dst base e)) = Some Dir \<Longrightarrow>
     applying base all fs0 (e # moved) (fs1(src base e := None, dst base e := fs1 (src base e)))"
proof -
  have p: "dst base e \<in> places base all" "src base e \<in> places base all" using planned(5,6) [OF w e(1)] by simp_all
  have same: "fs1 (src base f) = fs (src base f)" "fs1 (dst base f) = fs (dst base f)" if "f \<in> set all" for f
    using planned_dirs [OF w that d p(1)] by simp_all
  have dirs: "fs q = Some Dir \<Longrightarrow> fs1 q = Some Dir" for q using d by (rule adds_dirs_Some)
  show a1: "applying base all fs0 moved fs1"
    using inv same dirs kept_trans [OF _ kept_dirs [OF d]] unfolding applying_def entry_stays_def entry_moved_def by auto
  assume fs: "fs (src base e) \<noteq> None" "fs (dst base e) = None" and top: "fs1 (butlast (dst base e)) = Some Dir"
  define fs2 where "fs2 = fs1(src base e := None, dst base e := fs1 (src base e))"
  have other: "fs2 q = fs1 q" if "q \<notin> places base all" for q using that p by (auto simp: fs2_def)
  have above: "fs2 (butlast (dst base f)) = fs1 (butlast (dst base f))" if "f \<in> set all" for f
    using other above_no_place [OF w planned(6) [OF w that]] by simp
  have k: "kept_outside (places base all) fs1 fs2" using other by (simp add: kept_outside_def)
  have "if f \<in> set (e # moved) then entry_moved base fs0 fs2 f \<and> fs2 (butlast (dst base f)) = Some Dir else entry_stays base fs0 fs2 f"
    if f: "f \<in> set all" for f
  proof (cases "f = e")
    case True
    have "entry_stays base fs0 fs e" using inv e by (auto simp: applying_def)
    then show ?thesis using True fs top above [OF e(1)] same [OF e(1)] planned_apart(1) [OF w e(1,1)]
      by (auto simp: entry_moved_def entry_stays_def fs2_def)
  next
    case False
    have "fs2 (src base f) = fs1 (src base f)" "fs2 (dst base f) = fs1 (dst base f)"
      unfolding fs2_def by (rule move_places [OF w e(1) f False])+
    with False a1 f above [OF f] show ?thesis
      by (auto simp: applying_def entry_moved_def entry_stays_def)
  qed
  moreover have "fs2 q = Some Dir" if "q \<notin> places base all" "fs0 q = Some Dir" for q
    using a1 other that by (simp add: applying_def)
  moreover have "kept_outside (places base all) fs0 fs2" "set (e # moved) \<subseteq> set all" "distinct (e # moved)"
    using a1 kept_trans [OF _ k] e by (auto simp: applying_def)
  ultimately have "applying base all fs0 (e # moved) fs2" by (simp only: applying_def) blast
  then show "applying base all fs0 (e # moved) (fs1(src base e := None, dst base e := fs1 (src base e)))" by (simp only: fs2_def)
qed

lemma apply_entries_inv:
  assumes w: "well_planned base all"
  shows "apply_entries env interrupt base k moved es fs = (fs', moved', r) \<Longrightarrow> applying base all fs0 moved fs \<Longrightarrow>
    set es \<subseteq> set all \<Longrightarrow> distinct es \<Longrightarrow> set es \<inter> set moved = {} \<Longrightarrow> applying base all fs0 moved' fs'"
proof (induction es arbitrary: k moved fs)
  case (Cons e es)
  have e: "e \<in> set all" "e \<notin> set moved" using Cons.prems by auto
  note pl = planned [OF w e(1)]
  obtain fs1 r1 where 1: "ensureSafeDir (mg_deny env) fs base (filepath_dir (me_dest e)) = (fs1, r1)" by fastforce
  have d: "adds_dirs fs fs1 (butlast (dst base e))" using ensureSafeDir_frame [OF 1 pl(4)] by (simp add: dst_def)
  note step = applying_step [OF w Cons.prems(2) e d]
  obtain fs2 r2 where 2: "os_rename env fs1 (src base e) (dst base e) = (fs2, r2)" by fastforce
  consider "fs' = fs" "moved' = moved" | "apply_entries env interrupt base (Suc k) moved es fs = (fs', moved', r)"
    | "fs' = fs1" "moved' = moved" | "fs' = fs2" "moved' = moved" "r2 \<noteq> None"
    | "fs (src base e) \<noteq> None" "fs (dst base e) = None" "r2 = None" "fs' = fs2" "moved' = e # moved"
    | "fs (src base e) \<noteq> None" "fs (dst base e) = None" "r2 = None" "apply_entries env interrupt base (Suc k) (e # moved) es fs2 = (fs', moved', r)"
    using Cons.prems(1) 1 2 pl(1,2) by (auto simp: Let_def split: option.splits if_splits)
  moreover have mv: "r2 = None \<Longrightarrow> fs (src base e) \<noteq> None \<Longrightarrow> fs (dst base e) = None \<Longrightarrow> applying base all fs0 (e # moved) fs2"
    using rename_cases [OF 2] step(2) by (metis option.distinct(1))
  ultimately show ?case
  proof cases
    case 2
    from Cons.IH [OF this Cons.prems(2)] Cons.prems show ?thesis by simp
  next
    case 4
    with rename_cases [OF 2] step(1) show ?thesis by auto
  next
    case 5
    with mv show ?thesis by simp
  next
    case 6
    from Cons.IH [OF 6(4) mv [OF 6(3,1,2)]] Cons.prems show ?thesis by auto
  qed (use Cons.prems step(1) in simp_all)
qed simp

text \<open>
  Taking the moves back. It may be refused, and then an entry stays at its destination; \<open>calm\<close> says
  that nothing is refused and the sources were in directories.
\<close>

definition calm :: "mig_env \<Rightarrow> path \<Rightarrow> mig_entry list \<Rightarrow> text_fs \<Rightarrow> bool" where
  "calm env base all fs \<longleftrightarrow> (\<forall>f a b. \<not> mg_refuse env f a b)
     \<and> (\<forall>e \<in> set all. fs (src base e) \<noteq> None \<longrightarrow> fs (butlast (src base e)) = Some Dir)"

definition going_back :: "mig_env \<Rightarrow> path \<Rightarrow> mig_entry list \<Rightarrow> text_fs \<Rightarrow> mig_entry list \<Rightarrow> text_fs \<Rightarrow> bool" where
  "going_back env base all fs0 pending fs \<longleftrightarrow> kept_outside (places base all) fs0 fs \<and> set pending \<subseteq> set all \<and> distinct pending
     \<and> (\<forall>e \<in> set all. if e \<in> set pending then entry_moved base fs0 fs e
          else entry_stays base fs0 fs e \<or> entry_moved base fs0 fs e \<and> \<not> calm env base all fs0)
     \<and> (\<forall>q. q \<notin> places base all \<longrightarrow> fs0 q = Some Dir \<longrightarrow> fs q = Some Dir)"

lemma going_back_step:
  assumes w: "well_planned base all" and inv: "going_back env base all fs0 (e # pending) fs"
    and "os_rename env fs (dst base e) (src base e) = (fs', r)"
  shows "going_back env base all fs0 pending fs'"
proof -
  have e: "e \<in> set all" "e \<notin> set pending" using inv by (auto simp: going_back_def)
  have p: "dst base e \<in> places base all" "src base e \<in> places base all" using planned(5,6) [OF w e(1)] by simp_all
  have m: "entry_moved base fs0 fs e" using inv e by (auto simp: going_back_def)
  from rename_cases [OF assms(3)] show ?thesis
  proof
    assume f: "fs' = fs \<and> r \<noteq> None"
    have "\<not> calm env base all fs0"
    proof
      assume c: "calm env base all fs0"
      with m e(1) have "fs0 (butlast (src base e)) = Some Dir" by (auto simp: calm_def entry_moved_def)
      moreover have "butlast (src base e) \<notin> places base all" using above_no_place [OF w p(2)] by simp
      ultimately have "fs (butlast (src base e)) = Some Dir" using inv by (simp add: going_back_def)
      with m c assms(3) f show False by (auto simp: calm_def os_rename_def entry_moved_def split: if_splits)
    qed
    with inv m e f show ?thesis by (auto simp: going_back_def split: if_splits)
  next
    assume "r = None \<and> fs' = fs(dst base e := None, src base e := fs (dst base e)) \<and> fs (dst base e) \<noteq> None \<and> fs (butlast (src base e)) = Some Dir"
    then have f: "fs' = fs(dst base e := None, src base e := fs (dst base e))" by simp
    have other: "fs' q = fs q" if "q \<notin> places base all" for q using that p by (auto simp: f)
    have undone: "entry_stays base fs0 fs' e"
      using m planned_apart(1) [OF w e(1,1)] by (auto simp: entry_stays_def entry_moved_def f)
    have "if x \<in> set pending then entry_moved base fs0 fs' x
          else entry_stays base fs0 fs' x \<or> entry_moved base fs0 fs' x \<and> \<not> calm env base all fs0" if x: "x \<in> set all" for x
    proof (cases "x = e")
      case True
      with undone e show ?thesis by simp
    next
      case False
      have "fs' (src base x) = fs (src base x)" "fs' (dst base x) = fs (dst base x)"
        using planned_apart [OF w e(1) x] planned_apart [OF w x e(1)] False by (auto simp: f)
      with inv x False show ?thesis by (auto simp: going_back_def entry_stays_def entry_moved_def)
    qed
    moreover have "kept_outside (places base all) fs0 fs'" "\<forall>q. q \<notin> places base all \<longrightarrow> fs0 q = Some Dir \<longrightarrow> fs' q = Some Dir"
      using inv other by (auto simp: going_back_def kept_outside_def)
    moreover have "set pending \<subseteq> set all" "distinct pending" using inv by (auto simp: going_back_def)
    ultimately show ?thesis by (simp only: going_back_def) blast
  qed
qed

lemma move_back_inv:
  assumes w: "well_planned base all"
  shows "going_back env base all fs0 moved fs \<Longrightarrow> going_back env base all fs0 [] (move_back env fs base moved)"
proof (induction moved arbitrary: fs)
  case (Cons e es)
  have "e \<in> set all" using Cons.prems by (simp add: going_back_def)
  with planned(1,2) [OF w this] going_back_step [OF w Cons.prems, OF surjective_pairing] Cons.IH show ?case by simp
qed simp

lemma applying_back: "applying base all fs0 moved fs \<Longrightarrow> going_back env base all fs0 moved fs"
  by (auto simp: applying_def going_back_def)

lemma rollback_inv:
  assumes w: "well_planned base all" and inv: "applying base all fs0 moved fs"
  shows "kept_outside (places base all) fs0 (rollback env fs base moved)
    \<and> (\<forall>e \<in> set all. entry_stays base fs0 (rollback env fs base moved) e
         \<or> entry_moved base fs0 (rollback env fs base moved) e \<and> \<not> calm env base all fs0)"
proof -
  let ?fs = "move_back env fs base moved" and ?P = "places base all"
  have b: "going_back env base all fs0 [] ?fs" by (rule move_back_inv [OF w applying_back [OF inv]])
  have dirs: "fs (butlast (dst base e)) = Some Dir" "e \<in> set all" if "e \<in> set moved" for e
    using inv that by (auto simp: applying_def)
  have kf: "kept_outside ?P fs ?fs"
    using inv b by (auto simp: applying_def going_back_def kept_outside_def)
  have "?fs (butlast (dst base e)) = None \<or> ?fs (butlast (dst base e)) = Some Dir" if e: "e \<in> set (rev moved)" for e
    using kept_dir [OF kf above_no_place [OF w planned(6) [OF w dirs(2)], of e]] dirs(1) e by simp
  then have c: "kept_outside ?P ?fs (rollback env fs base moved) \<and> (\<forall>q \<in> ?P. rollback env fs base moved q = ?fs q)"
    unfolding rollback_def using inv by (intro cleanup_frame [OF w]) (auto simp: applying_def)
  have same: "entry_stays base fs0 (rollback env fs base moved) e = entry_stays base fs0 ?fs e"
    "entry_moved base fs0 (rollback env fs base moved) e = entry_moved base fs0 ?fs e" if "e \<in> set all" for e
    using c planned(5,6) [OF w that] by (auto simp: entry_stays_def entry_moved_def)
  from b c same kept_trans show ?thesis by (auto simp: going_back_def)
qed

end
