(* ===== verification/MigrationProperties.thy ===== *)
theory MigrationProperties
  imports MigrationSteps
begin

text \<open>What a migration guarantees (see \<open>Migration\<close>).\<close>

section \<open>Before\<close>

definition entry_bytes :: "mig_env \<Rightarrow> mig_entry \<Rightarrow> string \<Rightarrow> bool" where
  "entry_bytes env e c \<longleftrightarrow> int (length c) = me_size e \<and> mg_sha env c = me_sha e"

lemma matches_bytes:
  assumes "hashMatches env fs base s e = None" and "canonical s"
  shows "\<exists>c. fs (base @ rel_parts s) = Some (Regular c) \<and> entry_bytes env e c"
  using hash_matches_at [OF assms] by (simp add: entry_bytes_def)

lemma present_cases:
  assumes "matchingFilePresent env fs base s e = Inr b" and "canonical s"
  shows "checkParentDirectories fs base s = None" "b \<longleftrightarrow> fs (base @ rel_parts s) \<noteq> None"
    "b \<Longrightarrow> \<exists>c. fs (base @ rel_parts s) = Some (Regular c) \<and> entry_bytes env e c"
proof -
  have "hashMatches env fs base s e = None \<and> b \<or> hashMatches env fs base s e = Some ErrNotExist \<and> \<not> b"
    using assms(1) by (auto simp: matchingFilePresent_def split: option.splits fs_error.splits)
  moreover have "hashMatches env fs base s e = Some ErrNotExist \<longleftrightarrow> fs (base @ rel_parts s) = None"
    using canonical_joined(4) [OF assms(2), of base]
    by (auto simp: hashMatches_def hashRegularFile_def split: option.splits node.splits if_splits)
  ultimately show "b \<longleftrightarrow> fs (base @ rel_parts s) \<noteq> None" "b \<Longrightarrow> \<exists>c. fs (base @ rel_parts s) = Some (Regular c) \<and> entry_bytes env e c"
    using matches_bytes [OF _ assms(2)] by auto
  show "checkParentDirectories fs base s = None"
    using assms(1) by (auto simp: matchingFilePresent_def split: option.splits)
qed

lemma preflight_all: "preflight env fs base restoring es = None \<Longrightarrow> e \<in> set es \<Longrightarrow> preflight_entry env fs base restoring e = None"
  by (induction es) (auto split: option.splits)

lemma preflight_entry_ok:
  assumes "preflight_entry env fs base restoring e = None" and w: "well_planned base all" "e \<in> set all"
  shows "checkParentDirectories fs base (me_source e) = None" "checkParentDirectories fs base (me_dest e) = None"
    "fs (src base e) = None \<or> fs (dst base e) = None" "\<not> restoring \<Longrightarrow> fs (src base e) \<noteq> None \<or> fs (dst base e) \<noteq> None"
    "p \<in> {src base e, dst base e} \<Longrightarrow> fs p \<noteq> None \<Longrightarrow> \<exists>c. fs p = Some (Regular c) \<and> entry_bytes env e c"
proof -
  note c = planned(3,4) [OF w]
  from assms(1) obtain a b where a: "matchingFilePresent env fs base (me_source e) e = Inr a"
    and b: "matchingFilePresent env fs base (me_dest e) e = Inr b" and ab: "\<not> (b \<and> a)" "\<not> restoring \<Longrightarrow> a \<or> b"
    by (auto simp: preflight_entry_def split: sum.splits if_splits)
  note pa = present_cases [OF a c(1)] and pb = present_cases [OF b c(2)]
  show "checkParentDirectories fs base (me_source e) = None" "checkParentDirectories fs base (me_dest e) = None"
    "fs (src base e) = None \<or> fs (dst base e) = None" "\<not> restoring \<Longrightarrow> fs (src base e) \<noteq> None \<or> fs (dst base e) \<noteq> None"
    "p \<in> {src base e, dst base e} \<Longrightarrow> fs p \<noteq> None \<Longrightarrow> \<exists>c. fs p = Some (Regular c) \<and> entry_bytes env e c"
    using pa pb ab by (auto simp: src_def dst_def)
qed

lemma inputs_ok:
  assumes "verifyInputs env fs base plan a require = None"
  shows "fs base = Some Dir" "require \<Longrightarrow> preflight env fs base False (mp_entries plan) = None"
  using assms by (auto simp: verifyInputs_def cleanRoot_def split: if_splits option.splits sum.splits)

lemma verified:
  assumes "verify env fs base plan a = Inr r" and w: "well_planned base (mp_entries plan)" and e: "e \<in> set (mp_entries plan)"
  shows "fs (src base e) = None" "\<exists>c. fs (dst base e) = Some (Regular c) \<and> entry_bytes env e c"
proof -
  have "filter (\<lambda>e. hashMatches env fs base (me_dest e) e \<noteq> None) (mp_entries plan) = []"
    "filter (\<lambda>e. fs (joined base (me_source e)) \<noteq> None) (mp_entries plan) = []"
    using assms(1) by (auto simp: verify_def Let_def split: option.splits if_splits)
  then have "hashMatches env fs base (me_dest e) e = None" "fs (joined base (me_source e)) = None"
    using e by (auto simp: filter_empty_conv)
  with matches_bytes planned [OF w e] show "fs (src base e) = None" "\<exists>c. fs (dst base e) = Some (Regular c) \<and> entry_bytes env e c"
    by (auto simp: dst_def)
qed

section \<open>All or nothing\<close>

definition here_or_there :: "mig_env \<Rightarrow> path \<Rightarrow> text_fs \<Rightarrow> text_fs \<Rightarrow> mig_entry \<Rightarrow> bool" where
  "here_or_there env base fs fs' e \<longleftrightarrow> entry_stays base fs fs' e \<or> entry_moved base fs fs' e"

lemma apply_result:
  assumes "apply_plan env interrupt base plan a fs = (fs', r)" and w: "well_planned base (mp_entries plan)" and "distinct (mp_entries plan)"
  shows "kept_outside (places base (mp_entries plan)) fs fs'
    \<and> (\<forall>e \<in> set (mp_entries plan). entry_stays base fs fs' e
         \<or> entry_moved base fs fs' e \<and> ((\<exists>x. r = Inr x) \<and> fs' (butlast (dst base e)) = Some Dir \<or> \<not> calm env base (mp_entries plan) fs))
    \<and> (\<forall>x. r = Inr x \<longrightarrow> (\<forall>e \<in> set (mp_entries plan). fs' (src base e) = None \<and> (\<exists>c. fs' (dst base e) = Some (Regular c) \<and> entry_bytes env e c))
         \<and> verifyInputs env fs base plan a True = None \<and> (\<forall>q. q \<notin> places base (mp_entries plan) \<longrightarrow> fs q = Some Dir \<longrightarrow> fs' q = Some Dir))"
proof (cases "verifyInputs env fs base plan a True")
  case (Some err)
  with assms(1) show ?thesis by (auto simp: apply_plan_def entry_stays_def)
next
  case None
  let ?all = "mp_entries plan"
  obtain fs1 moved r1 where 1: "apply_entries env interrupt base 0 [] ?all fs = (fs1, moved, r1)" using prod_cases3 by blast
  have inv: "applying base ?all fs moved fs1"
    by (rule apply_entries_inv [OF w 1]) (use assms(3) in \<open>simp_all add: applying_def entry_stays_def\<close>)
  note undo = rollback_inv [OF w inv, of env]
  have "(fs' = rollback env fs1 base moved \<and> (\<forall>x. r \<noteq> Inr x)) \<or> ((\<exists>x. verify env fs1 base plan a = Inr x) \<and> fs' = fs1 \<and> (\<exists>x. r = Inr x))"
  proof (cases r1)
    case r1: None
    show ?thesis
      using assms(1) None 1 r1 by (cases "verify env fs1 base plan a") (simp_all add: apply_plan_def, blast+)
  next
    case (Some err)
    show ?thesis using assms(1) None 1 Some by (simp add: apply_plan_def) blast
  qed
  then consider "fs' = rollback env fs1 base moved" "\<forall>x. r \<noteq> Inr x" | x where "verify env fs1 base plan a = Inr x" "fs' = fs1" "\<exists>x. r = Inr x"
    by blast
  then show ?thesis
  proof cases
    case 1
    with undo show ?thesis by blast
  next
    case 2
    then show ?thesis using inv verified [OF 2(1) w] None by (auto simp: applying_def split: if_splits)
  qed
qed

text \<open>
  C2. Applying a migration loses nothing and is all or nothing. Whatever the outcome (refused, interrupted after any move,
  a move refused in the middle, rolled back as far as the system lets it) every recorded file is still there
  as a whole, at its old place or at its new one, and outside of the planned places no file comes, goes or
  changes. When it succeeds, every file is at its new place with the recorded size and digest and none at
  its old one; when it fails and the system refuses no move, every file is where it was.
\<close>

theorem migration_all_or_nothing:
  assumes "apply_plan env interrupt base plan a fs = (fs', r)" and "well_planned base (mp_entries plan)" and "tree_fs fs"
  shows "kept_outside (places base (mp_entries plan)) fs fs'
    \<and> (\<forall>e \<in> set (mp_entries plan). here_or_there env base fs fs' e
        \<and> (\<forall>x. r = Inr x \<longrightarrow> fs' (src base e) = None \<and> (\<exists>c. fs' (dst base e) = Some (Regular c) \<and> entry_bytes env e c))
        \<and> ((\<forall>f p q. \<not> mg_refuse env f p q) \<longrightarrow> (\<forall>x. r \<noteq> Inr x) \<longrightarrow> entry_stays base fs fs' e))"
proof (cases "verifyInputs env fs base plan a True")
  case (Some err)
  with assms(1) have "fs' = fs" "r = Inl err" by (auto simp: apply_plan_def)
  then show ?thesis by (simp add: here_or_there_def entry_stays_def)
next
  case None
  let ?all = "mp_entries plan"
  have "distinct ?all" using assms(2) by (auto simp: well_planned_def distinct_map)
  note res = apply_result [OF assms(1,2) this]
  have pre: "preflight env fs base False ?all = None" "fs base = Some Dir" using inputs_ok [OF None] by simp_all
  have "fs (butlast (src base e)) = Some Dir" if e: "e \<in> set ?all" "fs (src base e) \<noteq> None" for e
  proof -
    note p = preflight_entry_ok [OF preflight_all [OF pre(1) e(1)] assms(2) e(1)]
    have "fs (butlast (src base e)) = None \<or> fs (butlast (src base e)) = Some Dir"
      using check_parents_dest [OF p(1) assms(3) planned(3) [OF assms(2) e(1)] pre(2)] by (simp add: src_def)
    moreover have "fs (butlast (src base e)) \<noteq> None"
      by (rule tree_above [OF assms(3) e(2)]) (metis prefixI append_butlast_last_id butlast.simps(1) prefix_order.refl)
    ultimately show ?thesis by simp
  qed
  then have "(\<forall>f p q. \<not> mg_refuse env f p q) \<Longrightarrow> calm env base ?all fs" by (simp add: calm_def)
  with res show ?thesis unfolding here_or_there_def by blast
qed

section \<open>Restoring\<close>

definition entry_back :: "path \<Rightarrow> text_fs \<Rightarrow> text_fs \<Rightarrow> mig_entry \<Rightarrow> bool" where
  "entry_back base fs fs' e \<longleftrightarrow> fs (src base e) = None \<and> fs (dst base e) \<noteq> None
     \<and> fs' (src base e) = fs (dst base e) \<and> fs' (dst base e) = None"

definition entry_copied :: "mig_env \<Rightarrow> path \<Rightarrow> text_fs \<Rightarrow> text_fs \<Rightarrow> mig_entry \<Rightarrow> bool" where
  "entry_copied env base fs fs' e \<longleftrightarrow> fs (src base e) = None \<and> fs (dst base e) = None \<and> fs' (dst base e) = None
     \<and> (\<exists>c. fs' (src base e) = Some (Regular c) \<and> entry_bytes env e c)"

definition entry_restored :: "mig_env \<Rightarrow> path \<Rightarrow> text_fs \<Rightarrow> text_fs \<Rightarrow> mig_entry \<Rightarrow> bool" where
  "entry_restored env base fs fs' e \<longleftrightarrow> entry_stays base fs fs' e \<or> entry_back base fs fs' e \<or> entry_copied env base fs fs' e"

definition restoring :: "mig_env \<Rightarrow> path \<Rightarrow> mig_entry list \<Rightarrow> text_fs \<Rightarrow> mig_entry list \<Rightarrow> text_fs \<Rightarrow> bool" where
  "restoring env base all fs0 todo fs \<longleftrightarrow> kept_outside (places base all) fs0 fs
     \<and> (\<forall>e \<in> set all. if e \<in> set todo then entry_stays base fs0 fs e
          else entry_restored env base fs0 fs e)"

lemma restoring_dirs:
  assumes w: "well_planned base all" and "restoring env base all fs0 todo fs" and "p \<in> places base all" and d: "adds_dirs fs fs1 (butlast p)"
  shows "restoring env base all fs0 todo fs1"
proof -
  have same: "fs1 (src base f) = fs (src base f)" "fs1 (dst base f) = fs (dst base f)" if "f \<in> set all" for f
    using planned_dirs [OF w that d assms(3)] by simp_all
  then have "entry_stays base fs0 fs1 f = entry_stays base fs0 fs f" "entry_restored env base fs0 fs1 f = entry_restored env base fs0 fs f"
    if "f \<in> set all" for f
    using that by (simp_all add: entry_stays_def entry_restored_def entry_back_def entry_copied_def)
  then show ?thesis
    using assms(2) kept_trans [OF _ kept_dirs [OF d]] by (simp add: restoring_def)
qed

lemma restoring_done:
  assumes w: "well_planned base all" and "restoring env base all fs0 (e # todo) fs" and e: "e \<in> set all" "e \<notin> set todo"
    and "\<forall>q. q \<noteq> src base e \<longrightarrow> q \<noteq> dst base e \<longrightarrow> fs' q = fs q" and "entry_restored env base fs0 fs' e"
  shows "restoring env base all fs0 todo fs'"
proof -
  have p: "src base e \<in> places base all" "dst base e \<in> places base all" using planned(5,6) [OF w e(1)] by simp_all
  have "fs' q = fs q" if "q \<notin> places base all" for q
  proof -
    from p that have "q \<noteq> src base e" "q \<noteq> dst base e" by auto
    with assms(5) show ?thesis by simp
  qed
  then have k: "kept_outside (places base all) fs fs'" by (simp add: kept_outside_def)
  have "if f \<in> set todo then entry_stays base fs0 fs' f else entry_restored env base fs0 fs' f" if f: "f \<in> set all" for f
  proof (cases "f = e")
    case True
    with assms(6) e(2) show ?thesis by simp
  next
    case False
    have "src base f \<noteq> src base e" "src base f \<noteq> dst base e" "dst base f \<noteq> src base e" "dst base f \<noteq> dst base e"
      using planned_apart [OF w e(1) f] planned_apart [OF w f e(1)] False by metis+
    with assms(5) have "fs' (src base f) = fs (src base f)" "fs' (dst base f) = fs (dst base f)" by simp_all
    then have "entry_stays base fs0 fs' f = entry_stays base fs0 fs f" "entry_restored env base fs0 fs' f = entry_restored env base fs0 fs f"
      by (simp_all add: entry_stays_def entry_restored_def entry_back_def entry_copied_def)
    with assms(2) f False show ?thesis by (simp add: restoring_def)
  qed
  with assms(2) kept_trans [OF _ k] show ?thesis by (simp add: restoring_def)
qed

lemma copy_verified_cases:
  assumes "copyVerified env fs dir rel base (me_source e) e = (fs', r)" and w: "well_planned base all" "e \<in> set all" and none: "fs (dst base e) = None" "fs (src base e) = None"
  shows "\<exists>fs1. adds_dirs fs fs1 (butlast (src base e)) \<and> (fs' = fs1 \<and> r \<noteq> None
    \<or> (\<exists>c. fs' = fs1(src base e \<mapsto> Regular c) \<and> entry_bytes env e c))"
proof (cases "hashMatches env fs dir rel e")
  case (Some err)
  with assms(1) show ?thesis by (intro exI [of _ fs]) (auto simp: copyVerified_def)
next
  case None
  then obtain c where c: "fs (joined dir rel) = Some (Regular c)" "entry_bytes env e c"
    by (auto simp: hashMatches_def hashRegularFile_def joined_def entry_bytes_def split: option.splits node.splits if_splits)
  note pl = planned [OF w]
  obtain fs1 r1 where 1: "ensureSafeDir (mg_deny env) fs base (filepath_dir (me_source e)) = (fs1, r1)" by fastforce
  have d: "adds_dirs fs fs1 (butlast (src base e))" using ensureSafeDir_frame [OF 1 pl(3)] by (simp add: src_def)
  have c1: "fs1 (joined dir rel) = Some (Regular c)" by (rule adds_dirs_Some [OF d c(1)])
  have "fs' = fs1 \<and> r \<noteq> None \<or> fs' = fs1(src base e \<mapsto> Regular c)"
    using assms(1) None 1 c1 pl(1) by (auto simp: copyVerified_def Let_def split: option.splits if_splits)
  with d c(2) show ?thesis by blast
qed

lemma restore_entries_inv:
  assumes w: "well_planned base all"
  shows "restore_entries env base dir es fs = (fs', r) \<Longrightarrow> restoring env base all fs0 es fs \<Longrightarrow> set es \<subseteq> set all \<Longrightarrow> distinct es \<Longrightarrow>
    \<exists>todo. restoring env base all fs0 todo fs'"
proof (induction es arbitrary: fs)
  case (Cons e es)
  have e: "e \<in> set all" "e \<notin> set es" using Cons.prems by auto
  note pl = planned [OF w e(1)]
  have st: "entry_stays base fs0 fs e" using Cons.prems(2) e(1) by (simp add: restoring_def)
  have settled: "restoring env base all fs0 es fs2" if "\<forall>q. q \<noteq> src base e \<longrightarrow> q \<noteq> dst base e \<longrightarrow> fs2 q = fs1 q"
    "entry_restored env base fs0 fs2 e" "adds_dirs fs fs1 (butlast (src base e))" for fs1 fs2
    by (rule restoring_done [OF w restoring_dirs [OF w Cons.prems(2) pl(5) that(3)] e that(1,2)])
  have go: ?case if "restore_entries env base dir es fs2 = (fs', r)" "restoring env base all fs0 es fs2" for fs2
    using Cons.IH [OF that] Cons.prems(3,4) by simp
  show ?case
  proof (cases "fs (src base e) = None")
    case False
    have "fs' = fs \<or> restore_entries env base dir es fs = (fs', r)"
      using Cons.prems(1) False pl(1) by (auto simp: Let_def split: if_splits)
    then show ?thesis
    proof
      assume "restore_entries env base dir es fs = (fs', r)"
      from go [OF this settled [OF _ _ adds_dirs_refl]] st show ?thesis by (simp add: entry_restored_def)
    qed (use Cons.prems(2) in blast)
  next
    case True
    obtain fs1 r1 where 1: "ensureSafeDir (mg_deny env) fs base (filepath_dir (me_source e)) = (fs1, r1)" by fastforce
    have d: "adds_dirs fs fs1 (butlast (src base e))" using ensureSafeDir_frame [OF 1 pl(3)] by (simp add: src_def)
    note i1 = restoring_dirs [OF w Cons.prems(2) pl(5) d]
    have s1: "fs1 (src base e) = None" "fs1 (dst base e) = fs (dst base e)" using planned_dirs [OF w e(1) d pl(5)] True by simp_all
    have copied: "entry_copied env base fs0 (fs4(src base e \<mapsto> Regular x)) e"
      if "adds_dirs fs1 fs4 (butlast (src base e))" "fs1 (dst base e) = None" "entry_bytes env e x" for fs4 x
      using st True s1 that planned_dirs [OF w e(1) that(1) pl(5)] planned_apart(1) [OF w e(1) e(1)]
      by (auto simp: entry_copied_def entry_stays_def)
    obtain fs2 r2 where 2: "os_rename env fs1 (dst base e) (src base e) = (fs2, r2)" by fastforce
    obtain fs3 r3 where 3: "copyVerified env fs1 dir (me_backup e) base (me_source e) e = (fs3, r3)" by fastforce
    consider "fs' = fs1" | "fs' = fs2" "r2 \<noteq> None" | "fs1 (dst base e) \<noteq> None" "r2 = None" "restore_entries env base dir es fs2 = (fs', r)"
      | "fs1 (dst base e) = None" "fs' = fs3" "r3 \<noteq> None" | "fs1 (dst base e) = None" "r3 = None" "restore_entries env base dir es fs3 = (fs', r)"
      using Cons.prems(1) True 1 2 3 pl(1,2) by (auto simp: Let_def split: option.splits if_splits)
    then show ?thesis
    proof cases
      case 1
      with i1 show ?thesis by blast
    next
      case c: 2
      with rename_cases [OF 2] i1 show ?thesis by auto
    next
      case c: 3
      with rename_cases [OF 2] have f: "fs2 = fs1(dst base e := None, src base e := fs1 (dst base e))" by auto
      have "entry_back base fs0 fs2 e"
        using st True s1 c(1) planned_apart(1) [OF w e(1) e(1)] by (auto simp: entry_back_def entry_stays_def f)
      then show ?thesis using go [OF c(3) settled [OF _ _ d]] by (simp add: f entry_restored_def)
    next
      case c: 4
      from copy_verified_cases [OF 3 w e(1) c(1) s1(1)] obtain fs4 where f: "adds_dirs fs1 fs4 (butlast (src base e))"
        "fs3 = fs4 \<or> (\<exists>c. fs3 = fs4(src base e \<mapsto> Regular c) \<and> entry_bytes env e c)" by blast
      note d4 = adds_dirs_trans [OF d f(1)]
      have "restoring env base all fs0 es (fs4(src base e \<mapsto> Regular x))" if "entry_bytes env e x" for x
        by (rule settled [OF _ _ d4]) (use copied [OF f(1) c(1) that] in \<open>simp_all add: entry_restored_def\<close>)
      with f(2) restoring_dirs [OF w Cons.prems(2) pl(5) d4] c(2) show ?thesis by blast
    next
      case c: 5
      from copy_verified_cases [OF 3 w e(1) c(1) s1(1)] c(2) obtain fs4 x where
        f: "adds_dirs fs1 fs4 (butlast (src base e))" "fs3 = fs4(src base e \<mapsto> Regular x)" "entry_bytes env e x" by blast
      from go [OF c(3) settled [OF _ _ adds_dirs_trans [OF d f(1)]]] copied [OF f(1) c(1) f(3)] f(2)
      show ?thesis by (simp add: entry_restored_def)
    qed
  qed
qed auto

lemma restore_result:
  assumes "restore_plan env base plan a fs = (fs', r)" and w: "well_planned base (mp_entries plan)" and "distinct (mp_entries plan)"
    and dirs: "\<And>e. preflight env fs base True (mp_entries plan) = None \<Longrightarrow> e \<in> set (mp_entries plan) \<Longrightarrow>
      fs (butlast (dst base e)) = None \<or> fs (butlast (dst base e)) = Some Dir"
  shows "kept_outside (places base (mp_entries plan)) fs fs' \<and> (\<forall>e \<in> set (mp_entries plan). entry_restored env base fs fs' e
    \<and> (\<forall>x. r = Inr x \<longrightarrow> fs' (dst base e) = None \<and> (\<exists>c. fs' (src base e) = Some (Regular c) \<and> entry_bytes env e c)))"
proof (cases "verifyInputs env fs base plan a False = None \<and> preflight env fs base True (mp_entries plan) = None")
  case False
  with assms(1) have "fs' = fs" "\<forall>x. r \<noteq> Inr x" by (auto simp: restore_plan_def split: option.splits)
  then show ?thesis by (simp add: entry_restored_def entry_stays_def)
next
  case True
  let ?all = "mp_entries plan" and ?P = "places base (mp_entries plan)"
  obtain fs1 r1 where 1: "restore_entries env base (ar_dir a) ?all fs = (fs1, r1)" by fastforce
  have "restoring env base ?all fs ?all fs" by (simp add: restoring_def entry_stays_def)
  from restore_entries_inv [OF w 1 this subset_refl assms(3)] obtain todo where inv: "restoring env base ?all fs todo fs1" by blast
  have st: "kept_outside ?P fs fs1" "\<And>e. e \<in> set ?all \<Longrightarrow> entry_restored env base fs fs1 e"
    using inv by (auto simp: restoring_def entry_restored_def split: if_splits)
  let ?fs = "cleanupDestinationDirectories env fs1 base ?all"
  have "fs1 (butlast (dst base e)) = None \<or> fs1 (butlast (dst base e)) = Some Dir" if e: "e \<in> set ?all" for e
    using kept_dir [OF st(1) above_no_place [OF w planned(6) [OF w e]] dirs] True e by simp
  then have c: "kept_outside ?P fs1 ?fs \<and> (\<forall>q \<in> ?P. ?fs q = fs1 q)" by (intro cleanup_frame [OF w]) auto
  have same: "?fs (src base e) = fs1 (src base e)" "?fs (dst base e) = fs1 (dst base e)" if "e \<in> set ?all" for e
    using c planned(5,6) [OF w that] by simp_all
  then have st2: "entry_restored env base fs ?fs e" if "e \<in> set ?all" for e
    using st(2) [OF that] that by (simp add: entry_restored_def entry_stays_def entry_back_def entry_copied_def)
  consider "fs' = fs1" "\<forall>x. r \<noteq> Inr x" | "fs' = ?fs" "list_all (\<lambda>e. hashMatches env fs1 base (me_source e) e = None) ?all"
    using assms(1) True 1 by (cases r1) (auto simp: restore_plan_def split: if_splits)
  then show ?thesis
  proof cases
    case c1: 1
    with st show ?thesis by simp
  next
    case c2: 2
    have "fs' (dst base e) = None \<and> (\<exists>c. fs' (src base e) = Some (Regular c) \<and> entry_bytes env e c)" if e: "e \<in> set ?all" for e
    proof -
      have "hashMatches env fs1 base (me_source e) e = None" using c2(2) e by (simp add: list_all_iff)
      from matches_bytes [OF this planned(3) [OF w e]] obtain c where c: "fs1 (src base e) = Some (Regular c)" "entry_bytes env e c"
        by (auto simp: src_def)
      have "preflight_entry env fs base True e = None" using preflight_all True e by blast
      from preflight_entry_ok(3) [OF this w e] st(2) [OF e] c(1) have "fs1 (dst base e) = None"
        by (auto simp: entry_restored_def entry_stays_def entry_back_def entry_copied_def)
      with c same [OF e] c2(1) show ?thesis by simp
    qed
    moreover have "kept_outside ?P fs fs'" using kept_trans [OF st(1) conjunct1 [OF c]] c2(1) by simp
    ultimately show ?thesis using st2 c2(1) by simp
  qed
qed

lemma tree_dest_dirs:
  assumes "well_planned base (mp_entries plan)" and "tree_fs fs" and "fs base = Some Dir"
    and "preflight env fs base b (mp_entries plan) = None" and "e \<in> set (mp_entries plan)"
  shows "fs (butlast (dst base e)) = None \<or> fs (butlast (dst base e)) = Some Dir"
  using check_parents_dest [OF preflight_entry_ok(2) [OF preflight_all [OF assms(4,5)] assms(1,5)] assms(2) planned(4) [OF assms(1,5)] assms(3)]
  by (simp add: dst_def)

text \<open>
  C5. Restoring undoes a migration: when both succeed, every file that was at its old place is there again with the very
  bytes it had, nothing is left at the new places, and outside of the planned places no file has come, gone or changed.
\<close>

theorem migration_restored:
  assumes "apply_plan env interrupt base plan a fs = (fs1, Inr r1)" and "restore_plan env base plan a fs1 = (fs2, Inr r2)"
    and w: "well_planned base (mp_entries plan)" and "tree_fs fs" and e: "\<And>e. e \<in> set (mp_entries plan) \<Longrightarrow> fs (src base e) \<noteq> None"
  shows "kept_outside (places base (mp_entries plan)) fs fs2
    \<and> (\<forall>e \<in> set (mp_entries plan). fs2 (src base e) = fs (src base e) \<and> fs2 (dst base e) = fs (dst base e))"
proof -
  let ?all = "mp_entries plan"
  have dist: "distinct ?all" using w by (auto simp: well_planned_def distinct_map)
  note res = apply_result [OF assms(1) w dist]
  have "verifyInputs env fs base plan a True = None" using res by blast
  with inputs_ok have pre: "preflight env fs base False ?all = None" "fs base = Some Dir" by blast+
  have none: "fs (dst base x) = None" if x: "x \<in> set ?all" for x
    using preflight_entry_ok(3) [OF preflight_all [OF pre(1) x] w x] e [OF x] by simp
  have moved: "fs1 (src base x) = None" "fs1 (dst base x) = fs (src base x)" if x: "x \<in> set ?all" for x
    using res x e [OF x] by (auto simp: entry_stays_def entry_moved_def)
  have dirs: "fs1 (butlast (dst base x)) = None \<or> fs1 (butlast (dst base x)) = Some Dir" if x: "x \<in> set ?all" for x
  proof -
    have "kept_outside (places base ?all) fs fs1" using res by simp
    from kept_dir [OF this above_no_place [OF w planned(6) [OF w x]] tree_dest_dirs [OF w assms(4) pre(2,1) x]]
    show ?thesis by simp
  qed
  note undone = restore_result [OF assms(2) w dist dirs]
  have k: "kept_outside (places base ?all) fs fs2"
    using kept_trans [OF conjunct1 [OF res] conjunct1 [OF undone]] .
  have "fs2 (src base x) = fs (src base x) \<and> fs2 (dst base x) = fs (dst base x)" if x: "x \<in> set ?all" for x
  proof -
    have r: "entry_restored env base fs1 fs2 x" "fs2 (src base x) \<noteq> None" "fs2 (dst base x) = None" using undone x by auto
    with moved [OF x] e [OF x] none [OF x] show ?thesis
      by (auto simp: entry_restored_def entry_stays_def entry_back_def entry_copied_def)
  qed
  with k show ?thesis by blast
qed

end
