(* ===== verification/MigrationPlan.thy ===== *)
theory MigrationPlan
  imports MigrationProperties
begin

text \<open>The plan that is built for an archive, and a migration from its plan to its restoration (see \<open>Migration\<close>).\<close>

section \<open>Names\<close>

lemma legacy_run_plain:
  assumes "legacyArchiveRunID s = Some run"
  shows "plain_name run"
proof -
  let ?s = "to_lower (trim_space s)"
  have run: "run = ''legacy-'' @ filter (\<lambda>c. c \<noteq> CHR ''-'') ?s" and all: "\<forall>i < length ?s. uuid_char i (?s ! i)"
    using assms by (auto simp: legacyArchiveRunID_def Let_def list_all_iff split: if_splits)
  have "CHR ''/'' \<noteq> c" if "c \<in> set ?s" for c
    using that all by (auto simp: in_set_conv_nth uuid_char_def split: if_splits)
  then show ?thesis by (auto simp: run plain_name_def)
qed

lemma base_name_join: "\<forall>w \<in> set (ps @ [c]). plain_name w \<Longrightarrow> base_name (rel_join (ps @ [c])) = c"
  using split_at_join [of "ps @ [c]" "CHR ''/''"] by (auto simp: base_name_def rel_join_def plain_name_def)

text \<open>A file of a stream and its entry.\<close>

definition entry_for :: "mig_env \<Rightarrow> text_fs \<Rightarrow> path \<Rightarrow> string \<Rightarrow> string \<Rightarrow> mig_entry \<Rightarrow> bool" where
  "entry_for env fs base stream child e \<longleftrightarrow> plain_name stream \<and> plain_name child
     \<and> me_source e = rel_join [''final'', stream, child]
     \<and> (\<exists>c. fs (base @ [''final'', stream, child]) = Some (Regular c) \<and> entry_bytes env e c)"

definition entry_to :: "text_fs \<Rightarrow> path \<Rightarrow> string \<Rightarrow> string \<Rightarrow> mig_entry \<Rightarrow> bool" where
  "entry_to fs base stream child e \<longleftrightarrow> (\<exists>run. legacyArchiveRunID stream = Some run \<and> me_dest e = rel_join [''final'', stream, run, child]
     \<and> (fs (base @ [''final'', stream, run]) = None \<or> fs (base @ [''final'', stream, run]) = Some Dir))"

lemma plain_final [simp]: "plain_name ''final''"
  by (simp add: plain_name_def)

lemma canonical_join [intro]: "ps \<noteq> [] \<Longrightarrow> \<forall>w \<in> set ps. plain_name w \<Longrightarrow> canonical (rel_join ps)"
  by (auto simp: canonical_def)

lemma hash_child:
  assumes "plain_name stream" "plain_name child" and "hashRegularFile env fs base (rel_join [''final'', stream, child]) = Inr (bytes, digest)"
  shows "\<exists>c. fs (base @ [''final'', stream, child]) = Some (Regular c) \<and> bytes = int (length c) \<and> digest = mg_sha env c"
proof -
  have "canonical (rel_join [''final'', stream, child])" using assms(1,2) by (intro canonical_join) auto
  then have "safe_join base (rel_join [''final'', stream, child]) = Some (base @ [''final'', stream, child])"
    using canonical_joined(4) assms(1,2) by simp
  with assms(3) show ?thesis by (auto simp: hashRegularFile_def split: option.splits node.splits)
qed

lemma legacy_files_entries:
  assumes "plain_name stream"
  shows "legacy_files env fs base stream children = Inr es \<Longrightarrow> \<forall>w \<in> set children. plain_name w \<Longrightarrow> distinct children \<Longrightarrow>
    (\<forall>e \<in> set es. \<exists>child \<in> set children. entry_for env fs base stream child e)
    \<and> (\<forall>child \<in> set children. (\<exists>c. fs (base @ [''final'', stream, child]) = Some (Regular c)) \<longrightarrow>
         rel_join [''final'', stream, child] \<in> me_source ` set es)
    \<and> distinct (map me_source es)"
proof (induction children arbitrary: es)
  case (Cons child children)
  have p: "plain_name child" using Cons.prems by simp
  consider "fs (base @ [''final'', stream, child]) = Some Dir" "legacy_files env fs base stream children = Inr es"
    | c bytes digest es' where "fs (base @ [''final'', stream, child]) = Some (Regular c)"
      "hashRegularFile env fs base (rel_join [''final'', stream, child]) = Inr (bytes, digest)" "legacy_files env fs base stream children = Inr es'"
      "es = \<lparr>me_source = rel_join [''final'', stream, child], me_dest = [], me_dir_existed = False,
                    me_file_existed = False, me_backup = [], me_size = bytes, me_sha = digest\<rparr> # es'"
    using Cons.prems(1) by (auto split: option.splits node.splits sum.splits)
  then show ?case
  proof cases
    case 1
    with Cons.IH [OF 1(2)] Cons.prems show ?thesis by auto
  next
    case 2
    note ih = Cons.IH [OF 2(3)]
    have "entry_for env fs base stream child (hd es)"
      using hash_child [OF assms p 2(2)] p assms by (auto simp: entry_for_def entry_bytes_def 2(4))
    moreover have "rel_join [''final'', stream, child] \<notin> me_source ` set es'"
    proof
      assume "rel_join [''final'', stream, child] \<in> me_source ` set es'"
      with ih Cons.prems obtain other where o: "other \<in> set children" "plain_name other"
        "rel_join [''final'', stream, child] = rel_join [''final'', stream, other]" by (fastforce simp: entry_for_def)
      then have "rel_parts (rel_join [''final'', stream, child]) = rel_parts (rel_join [''final'', stream, other])" by simp
      with o(1,2) p assms Cons.prems(3) show False by auto
    qed
    ultimately show ?thesis using ih Cons.prems 2(4) by auto
  qed
qed simp

definition lists_names :: "mig_env \<Rightarrow> text_fs \<Rightarrow> bool" where
  "lists_names env fs \<longleftrightarrow> (\<forall>p. distinct (mg_list env fs p) \<and> set (mg_list env fs p) = {w. fs (p @ [w]) \<noteq> None}
     \<and> (\<forall>w \<in> set (mg_list env fs p). plain_name w))"

lemma lists_namesD:
  assumes "lists_names env fs"
  shows "distinct (mg_list env fs p)" "set (mg_list env fs p) = {w. fs (p @ [w]) \<noteq> None}" "\<forall>w \<in> set (mg_list env fs p). plain_name w"
  using assms unfolding lists_names_def by blast+

lemma with_destination_entry:
  assumes "entry_for env fs base stream child e" and "legacyArchiveRunID stream = Some run"
    and "fs (base @ [''final'', stream, run]) = None \<or> fs (base @ [''final'', stream, run]) = Some Dir"
  shows "entry_for env fs base stream child (with_destination fs base stream run b e)"
    "entry_to fs base stream child (with_destination fs base stream run b e)"
proof -
  have "base_name (me_source e) = child"
    using assms(1) base_name_join [of "[''final'', stream]" child] by (auto simp: entry_for_def)
  with assms show "entry_for env fs base stream child (with_destination fs base stream run b e)"
    "entry_to fs base stream child (with_destination fs base stream run b e)"
    by (auto simp: with_destination_def Let_def entry_for_def entry_to_def entry_bytes_def)
qed

lemma with_destination_source [simp]: "me_source (with_destination fs base stream run b e) = me_source e"
  by (simp add: with_destination_def Let_def)

lemma plan_stream_entries:
  assumes "plan_stream env fs base stream = Inr es" and l: "lists_names env fs" and "plain_name stream"
  shows "(\<forall>e \<in> set es. \<exists>child. entry_for env fs base stream child e \<and> entry_to fs base stream child e)
    \<and> (\<forall>child c. fs (base @ [''final'', stream, child]) = Some (Regular c) \<longrightarrow> rel_join [''final'', stream, child] \<in> me_source ` set es)
    \<and> distinct (map me_source es)"
proof -
  let ?ch = "mg_list env fs (base @ [''final'', stream])"
  from assms(1) obtain legacy where lg: "legacy_files env fs base stream ?ch = Inr legacy"
    by (auto simp: plan_stream_def split: if_splits sum.splits)
  have ch: "\<forall>w \<in> set ?ch. plain_name w" "distinct ?ch" "set ?ch = {w. fs (base @ [''final'', stream, w]) \<noteq> None}"
    using lists_namesD [OF l, of "base @ [''final'', stream]"] by simp_all
  note f = legacy_files_entries [OF assms(3) lg ch(1,2)]
  have inall: "rel_join [''final'', stream, child] \<in> me_source ` set legacy" if "fs (base @ [''final'', stream, child]) = Some (Regular c)" for child c
    using f ch(3) that by auto
  show ?thesis
  proof (cases "legacy = []")
    case True
    with assms(1) lg have "es = []" by (auto simp: plan_stream_def split: if_splits)
    with inall True show ?thesis by auto
  next
    case False
    with assms(1) lg obtain run b where run: "legacyArchiveRunID stream = Some run"
      "fs (base @ [''final'', stream, run]) = None \<or> fs (base @ [''final'', stream, run]) = Some Dir"
      "es = map (with_destination fs base stream run b) (sort_key me_source legacy)"
      by (auto simp: plan_stream_def split: if_splits list.splits option.splits node.splits)
    have "map me_source es = map me_source (sort_key me_source legacy)" by (simp add: run(3))
    then have "me_source ` set es = me_source ` set legacy" by (metis set_map set_sort)
    moreover have "distinct (map me_source es)"
      using \<open>map me_source es = _\<close> f by (simp add: distinct_map)
    moreover have "\<exists>child. entry_for env fs base stream child e \<and> entry_to fs base stream child e" if "e \<in> set es" for e
    proof -
      from that obtain e0 where e0: "e0 \<in> set legacy" "e = with_destination fs base stream run b e0" by (auto simp: run(3))
      with f obtain child where "entry_for env fs base stream child e0" by blast
      from with_destination_entry [OF this run(1,2)] e0(2) show ?thesis by blast
    qed
    ultimately show ?thesis using inall by simp
  qed
qed

lemma plan_streams_entries:
  assumes l: "lists_names env fs"
  shows "plan_streams env fs base streams = Inr es \<Longrightarrow> \<forall>w \<in> set streams. plain_name w \<Longrightarrow> distinct streams \<Longrightarrow>
    (\<forall>e \<in> set es. \<exists>stream \<in> set streams. \<exists>child. entry_for env fs base stream child e \<and> entry_to fs base stream child e)
    \<and> (\<forall>stream \<in> set streams. \<forall>child c. fs (base @ [''final'', stream, child]) = Some (Regular c) \<longrightarrow>
         rel_join [''final'', stream, child] \<in> me_source ` set es)
    \<and> distinct (map me_source es)"
proof (induction streams arbitrary: es)
  case (Cons stream streams)
  then obtain es1 es2 where s: "plan_stream env fs base stream = Inr es1" "plan_streams env fs base streams = Inr es2" "es = es1 @ es2"
    by (auto split: sum.splits)
  have p: "plain_name stream" using Cons.prems by simp
  note one = plan_stream_entries [OF s(1) l p] and ih = Cons.IH [OF s(2)]
  have "me_source ` set es1 \<inter> me_source ` set es2 = {}"
  proof (rule ccontr)
    assume "\<not> ?thesis"
    then obtain e1 e2 where e: "e1 \<in> set es1" "e2 \<in> set es2" "me_source e1 = me_source e2" by auto
    from one e(1) obtain c1 where c1: "entry_for env fs base stream c1 e1" by blast
    from ih e(2) Cons.prems obtain s2 c2 where c2: "s2 \<in> set streams" "entry_for env fs base s2 c2 e2" by auto
    from c1 c2 e(3) have "rel_parts (rel_join [''final'', stream, c1]) = rel_parts (rel_join [''final'', s2, c2])" by (simp add: entry_for_def)
    with c1 c2 Cons.prems(3) show False by (auto simp: entry_for_def)
  qed
  then have "distinct (map me_source es)" using one ih Cons.prems s(3) by simp
  moreover have "rel_join [''final'', st, child] \<in> me_source ` set es" if "st \<in> set (stream # streams)" "fs (base @ [''final'', st, child]) = Some (Regular c)" for st child c
    using one ih Cons.prems s(3) that by (cases "st = stream") (auto simp: image_Un)
  ultimately show ?case using one ih Cons.prems s(3) by auto
qed simp

lemma built_plan:
  assumes "buildPlan env fs base expected = Inr plan" and "lists_names env fs" and "tree_fs fs"
  shows "well_planned base (mp_entries plan)
    \<and> src base ` set (mp_entries plan) = {p. (\<exists>stream child. p = base @ [''final'', stream, child]) \<and> (\<exists>c. fs p = Some (Regular c))}
    \<and> (\<forall>e \<in> set (mp_entries plan). (\<exists>c. fs (src base e) = Some (Regular c) \<and> entry_bytes env e c)
        \<and> (\<exists>stream child run. src base e = base @ [''final'', stream, child] \<and> legacyArchiveRunID stream = Some run
             \<and> dst base e = base @ [''final'', stream, run, child]))"
proof -
  let ?es = "mp_entries plan" and ?list = "mg_list env fs (base @ [''final''])"
  have up: "fs (base @ [''final'', stream]) \<noteq> None \<and> fs (base @ [''final'']) \<noteq> None" if "fs (base @ [''final'', stream, child]) \<noteq> None" for stream child
    using tree_above [OF assms(3) that] by simp
  have facts: "(\<forall>e \<in> set ?es. \<exists>stream child. entry_for env fs base stream child e \<and> entry_to fs base stream child e)
    \<and> (\<forall>stream child c. fs (base @ [''final'', stream, child]) = Some (Regular c) \<longrightarrow> rel_join [''final'', stream, child] \<in> me_source ` set ?es)
    \<and> distinct (map me_source ?es)"
  proof (cases "fs (base @ [''final''])")
    case None
    with assms(1) have "?es = []" by (auto simp: buildPlan_def newPlan_def split: if_splits)
    with None up show ?thesis by force
  next
    case (Some n)
    with assms(1) obtain es where es: "plan_streams env fs base ?list = Inr es" "?es = sort_key me_source es"
      by (auto simp: buildPlan_def newPlan_def split: if_splits node.splits sum.splits)
    have names: "\<forall>w \<in> set ?list. plain_name w" "distinct ?list" "set ?list = {w. fs (base @ [''final'', w]) \<noteq> None}"
      using lists_namesD [OF assms(2), of "base @ [''final'']"] by simp_all
    note p = plan_streams_entries [OF assms(2) es(1) names(1,2)]
    have "rel_join [''final'', stream, child] \<in> me_source ` set ?es" if "fs (base @ [''final'', stream, child]) = Some (Regular c)" for stream child c
      using p names(3) up [of stream child] that by (auto simp: es(2))
    moreover have "distinct (map me_source ?es)" using p by (simp add: es(2) distinct_map)
    ultimately show ?thesis using p by (fastforce simp: es(2))
  qed
  have shape: "\<exists>stream child run c. plain_name stream \<and> plain_name child \<and> me_source e = rel_join [''final'', stream, child] \<and> src base e = base @ [''final'', stream, child]
      \<and> legacyArchiveRunID stream = Some run \<and> canonical (me_source e) \<and> canonical (me_dest e) \<and> dst base e = base @ [''final'', stream, run, child]
      \<and> fs (src base e) = Some (Regular c) \<and> entry_bytes env e c \<and> (fs (base @ [''final'', stream, run]) = None \<or> fs (base @ [''final'', stream, run]) = Some Dir)"
    if e: "e \<in> set ?es" for e
  proof -
    from facts e obtain stream child run where f: "entry_for env fs base stream child e" "legacyArchiveRunID stream = Some run"
      "me_dest e = rel_join [''final'', stream, run, child]" "fs (base @ [''final'', stream, run]) = None \<or> fs (base @ [''final'', stream, run]) = Some Dir"
      by (auto simp: entry_to_def)
    have n: "plain_name stream" "plain_name child" "plain_name run" "me_source e = rel_join [''final'', stream, child]"
      using f(1) legacy_run_plain [OF f(2)] by (simp_all add: entry_for_def)
    have "src base e = base @ [''final'', stream, child]" "dst base e = base @ [''final'', stream, run, child]"
      using n f(3) by (simp_all add: src_def dst_def)
    moreover have "canonical (me_source e)" "canonical (me_dest e)"
      using n f(3) by (auto intro!: canonical_join)
    ultimately show ?thesis using f n by (auto simp: entry_for_def)
  qed
  have inj: "e = f" if e: "e \<in> set ?es" "f \<in> set ?es" and "src base e = src base f \<or> dst base e = dst base f" for e f
  proof -
    have "me_source e = me_source f" using shape [OF e(1)] shape [OF e(2)] that(3) by auto
    with facts e show ?thesis by (auto simp: distinct_map inj_on_def)
  qed
  have ne: "src base e \<noteq> dst base f" "\<not> strict_prefix (src base e) (src base f)" "\<not> strict_prefix (dst base e) (dst base f)"
    "\<not> strict_prefix (src base e) (dst base f)" "\<not> strict_prefix (dst base e) (src base f)" if e: "e \<in> set ?es" "f \<in> set ?es" for e f
    using shape [OF e(1)] shape [OF e(2)] by (auto simp: strict_prefix_def)
  have "distinct ?es" using facts by (simp add: distinct_map)
  then have d: "distinct (map (src base) ?es @ map (dst base) ?es)"
    using inj ne(1) by (auto simp: distinct_map inj_on_def)
  have "well_planned base ?es"
    using d shape ne unfolding well_planned_def places_def list_all_iff by blast
  moreover have "src base ` set ?es = {p. (\<exists>stream child. p = base @ [''final'', stream, child]) \<and> (\<exists>c. fs p = Some (Regular c))}"
  proof (intro subset_antisym subsetI)
    fix p assume "p \<in> {p. (\<exists>stream child. p = base @ [''final'', stream, child]) \<and> (\<exists>c. fs p = Some (Regular c))}"
    then obtain stream child c where p: "p = base @ [''final'', stream, child]" "fs p = Some (Regular c)" by blast
    with facts have "rel_join [''final'', stream, child] \<in> me_source ` set ?es" by blast
    then obtain e where e: "e \<in> set ?es" "me_source e = rel_join [''final'', stream, child]" by force
    have "stream \<in> set ?list" "child \<in> set (mg_list env fs (base @ [''final'', stream]))"
      using lists_namesD(2) [OF assms(2)] p up [of stream child] by simp_all
    then have "plain_name stream" "plain_name child" using lists_namesD(3) [OF assms(2)] by blast+
    with e(2) p(1) have "src base e = p" by (simp add: src_def)
    with e(1) show "p \<in> src base ` set ?es" by blast
  next
    fix p assume "p \<in> src base ` set ?es"
    then obtain e where e: "e \<in> set ?es" "p = src base e" by blast
    from shape [OF e(1)] e(2) show "p \<in> {p. (\<exists>stream child. p = base @ [''final'', stream, child]) \<and> (\<exists>c. fs p = Some (Regular c))}" by auto
  qed
  moreover have "(\<exists>c. fs (src base e) = Some (Regular c) \<and> entry_bytes env e c)
      \<and> (\<exists>stream child run. src base e = base @ [''final'', stream, child] \<and> legacyArchiveRunID stream = Some run
           \<and> dst base e = base @ [''final'', stream, run, child])" if "e \<in> set ?es" for e
    using shape [OF that] by metis
  ultimately show ?thesis by simp
qed

text \<open>
  C19. The plan of an archive is complete and safe: it names exactly the files that lie in the directory of a stream, each with its size
  and digest and its place in the run of the stream, and no place of it lies on or above another.
\<close>

theorem plan_complete:
  assumes "buildPlan env fs base expected = Inr plan" and "lists_names env fs" and "tree_fs fs"
  shows "well_planned base (mp_entries plan)
    \<and> src base ` set (mp_entries plan) = {p. (\<exists>stream child. p = base @ [''final'', stream, child]) \<and> (\<exists>c. fs p = Some (Regular c))}
    \<and> (\<forall>e \<in> set (mp_entries plan). (\<exists>c. fs (src base e) = Some (Regular c) \<and> entry_bytes env e c)
        \<and> (\<exists>stream child run. src base e = base @ [''final'', stream, child] \<and> legacyArchiveRunID stream = Some run
             \<and> dst base e = base @ [''final'', stream, run, child]))"
  using assms by (rule built_plan)

section \<open>A sample\<close>

definition sample_stream :: string where
  "sample_stream = ''01234567-89ab-cdef-0123-456789abcdef''"

definition sample_names :: "string list" where
  "sample_names = [''a'', ''final'', sample_stream, ''final.mp4'', ''legacy-0123456789abcdef0123456789abcdef'', ''b'', ''objects'', manifestName]"

definition sample_mig_env :: "mig_plan \<Rightarrow> mig_env" where
  "sample_mig_env plan = \<lparr>mg_sha = (\<lambda>c. replicate 64 CHR ''0''), mg_marshal = (\<lambda>p. ''m''), mg_indent = (\<lambda>p. ''p''), mg_parse = (\<lambda>s. Some plan),
     mg_list = (\<lambda>fs p. filter (\<lambda>w. fs (p @ [w]) \<noteq> None) sample_names), mg_deny = (\<lambda>p. False), mg_refuse = (\<lambda>fs p q. False)\<rparr>"

definition sample_mig_fs :: text_fs where
  "sample_mig_fs = [[] \<mapsto> Dir, [''a''] \<mapsto> Dir, [''a'', ''final''] \<mapsto> Dir, [''a'', ''final'', sample_stream] \<mapsto> Dir,
     [''a'', ''final'', sample_stream, ''final.mp4''] \<mapsto> Regular ''video'']"

definition sample_plan :: mig_plan where
  "sample_plan = (case buildPlan (sample_mig_env (newPlan [])) sample_mig_fs [''a''] True of Inr p \<Rightarrow> p | Inl _ \<Rightarrow> newPlan [])"

text \<open>The archive with its backup, as \<^verbatim>\<open>Backup\<close> makes it.\<close>

definition sample_run :: string where
  "sample_run = ''legacy-0123456789abcdef0123456789abcdef''"

definition sample_backed :: text_fs where
  "sample_backed = sample_mig_fs([''b''] \<mapsto> Dir, [''b'', ''objects''] \<mapsto> Dir, [''b'', ''objects'', sample_stream] \<mapsto> Dir,
     [''b'', ''objects'', sample_stream, sample_run] \<mapsto> Dir,
     [''b'', ''objects'', sample_stream, sample_run, ''final.mp4''] \<mapsto> Regular ''video'', [''b'', manifestName] \<mapsto> Regular ''p'')"

definition sample_artifact :: mig_artifact where
  "sample_artifact = \<lparr>ar_dir = [''b''], ar_sha = replicate 64 CHR ''0'', ar_count = 1\<rparr>"

definition sample_applied :: "text_fs \<times> (mig_error + mig_result)" where
  "sample_applied = apply_plan (sample_mig_env sample_plan) (\<lambda>_. False) [''a''] sample_plan sample_artifact sample_backed"

definition sample_restored :: "text_fs \<times> (mig_error + mig_result)" where
  "sample_restored = restore_plan (sample_mig_env sample_plan) [''a''] sample_plan sample_artifact (fst sample_applied)"

lemma sample_backup_made:
  "case backup (sample_mig_env sample_plan) sample_mig_fs [''a''] [''b''] sample_plan of
     (fs, r) \<Rightarrow> r = Inr sample_artifact \<and> list_all (\<lambda>p. fs p = sample_backed p) [[''b''], [''b'', manifestName],
       [''b'', ''objects'', sample_stream, sample_run, ''final.mp4'']]"
  by code_simp

lemma sample_built: "buildPlan (sample_mig_env (newPlan [])) sample_mig_fs [''a''] True = Inr sample_plan"
proof -
  have "case buildPlan (sample_mig_env (newPlan [])) sample_mig_fs [''a''] True of Inr p \<Rightarrow> True | Inl _ \<Rightarrow> False" by code_simp
  then show ?thesis by (auto simp: sample_plan_def split: sum.splits)
qed

lemma sample_entries:
  "map (\<lambda>e. (me_source e, me_dest e)) (mp_entries sample_plan) = [(rel_join [''final'', sample_stream, ''final.mp4''], rel_join [''final'', sample_stream, sample_run, ''final.mp4''])]"
  by code_simp

lemma sample_applied_ok: "case snd sample_applied of Inr r \<Rightarrow> True | Inl _ \<Rightarrow> False"
  by code_simp

lemma sample_restored_ok: "case snd sample_restored of Inr r \<Rightarrow> True | Inl _ \<Rightarrow> False"
  by code_simp

lemma sample_plain: "plain_name sample_stream" "plain_name sample_run" "plain_name ''final.mp4''" "plain_name manifestName"
  by (simp_all add: plain_name_def sample_stream_def sample_run_def manifestName_def)

lemma tree_upd: "tree_fs fs \<Longrightarrow> fs (butlast p) \<noteq> None \<Longrightarrow> tree_fs (fs(p \<mapsto> n))"
  by (auto simp: tree_fs_def)

lemma sample_trees: "tree_fs sample_mig_fs" "tree_fs sample_backed"
proof -
  have top: "tree_fs [[] \<mapsto> Dir]" by (auto simp: tree_fs_def split: if_splits)
  show a: "tree_fs sample_mig_fs" unfolding sample_mig_fs_def by (rule top tree_upd)+ simp_all
  show "tree_fs sample_backed" unfolding sample_backed_def by (rule a tree_upd)+ (simp_all add: sample_mig_fs_def)
qed

lemma sample_lists: "lists_names (sample_mig_env p) sample_mig_fs"
proof -
  have "distinct sample_names" "\<forall>w \<in> set sample_names. plain_name w"
    by (simp_all add: sample_names_def sample_stream_def manifestName_def plain_name_def)
  moreover have "w \<in> set sample_names" if "sample_mig_fs (q @ [w]) \<noteq> None" for q w
    using that by (auto simp: sample_mig_fs_def sample_names_def append_eq_Cons_conv split: if_splits)
  ultimately show ?thesis by (auto simp: lists_names_def sample_mig_env_def)
qed

lemma sample_planned: "well_planned [''a''] (mp_entries sample_plan)"
  using built_plan [OF sample_built sample_lists sample_trees(1)] by simp

lemma sample_places:
  assumes "e \<in> set (mp_entries sample_plan)"
  shows "src [''a''] e = [''a'', ''final'', sample_stream, ''final.mp4'']" "dst [''a''] e = [''a'', ''final'', sample_stream, sample_run, ''final.mp4'']"
proof -
  have "(me_source e, me_dest e) \<in> set (map (\<lambda>e. (me_source e, me_dest e)) (mp_entries sample_plan))" using assms by force
  then have "me_source e = rel_join [''final'', sample_stream, ''final.mp4'']" "me_dest e = rel_join [''final'', sample_stream, sample_run, ''final.mp4'']"
    unfolding sample_entries by simp_all
  with sample_plain show "src [''a''] e = [''a'', ''final'', sample_stream, ''final.mp4'']" "dst [''a''] e = [''a'', ''final'', sample_stream, sample_run, ''final.mp4'']"
    by (simp_all add: src_def dst_def)
qed

lemma plan_complete_witness:
  "[''a'', ''final'', sample_stream, ''final.mp4''] \<in> src [''a''] ` set (mp_entries sample_plan)"
  using plan_complete [OF sample_built sample_lists sample_trees(1)] by (auto simp: sample_mig_fs_def)

lemma sample_some: "mp_entries sample_plan \<noteq> []"
  using arg_cong [OF sample_entries, of length] by auto

lemma migration_all_or_nothing_witness:
  "fst sample_applied [''a'', ''final'', sample_stream, sample_run, ''final.mp4''] = Some (Regular ''video'')
   \<and> fst sample_applied [''a'', ''final'', sample_stream, ''final.mp4''] = None"
proof -
  obtain fs r where p: "sample_applied = (fs, r)" by fastforce
  obtain x where r: "r = Inr x" using sample_applied_ok unfolding p by (auto split: sum.splits)
  obtain e where e: "e \<in> set (mp_entries sample_plan)" using sample_some by (meson list.set_sel(1))
  have old: "sample_backed [''a'', ''final'', sample_stream, ''final.mp4''] = Some (Regular ''video'')"
    by (simp add: sample_backed_def sample_mig_fs_def manifestName_def)
  have "here_or_there (sample_mig_env sample_plan) [''a''] sample_backed fs e \<and> fs (src [''a''] e) = None"
    using migration_all_or_nothing [OF p [unfolded sample_applied_def] sample_planned sample_trees(2)] e r by blast
  with old sample_places [OF e] show ?thesis
    unfolding p by (auto simp: here_or_there_def entry_stays_def entry_moved_def)
qed

lemma migration_restored_witness:
  "fst sample_restored [''a'', ''final'', sample_stream, ''final.mp4''] = Some (Regular ''video'')"
proof -
  obtain fs1 r1 where p: "sample_applied = (fs1, r1)" by fastforce
  obtain x where r: "r1 = Inr x" using sample_applied_ok unfolding p by (auto split: sum.splits)
  obtain fs2 r2 where q: "sample_restored = (fs2, r2)" by fastforce
  obtain y where r2: "r2 = Inr y" using sample_restored_ok unfolding q by (auto split: sum.splits)
  obtain e where e: "e \<in> set (mp_entries sample_plan)" using sample_some by (meson list.set_sel(1))
  have old: "sample_backed [''a'', ''final'', sample_stream, ''final.mp4''] = Some (Regular ''video'')"
    by (simp add: sample_backed_def sample_mig_fs_def manifestName_def)
  have present: "sample_backed (src [''a''] f) \<noteq> None" if "f \<in> set (mp_entries sample_plan)" for f
    using old sample_places(1) [OF that] by simp
  have "restore_plan (sample_mig_env sample_plan) [''a''] sample_plan sample_artifact fs1 = (fs2, Inr y)"
    using q r2 unfolding sample_restored_def p by simp
  from migration_restored [OF p [unfolded sample_applied_def r] this sample_planned sample_trees(2) present] e
  have "fs2 (src [''a''] e) = sample_backed (src [''a''] e)" by blast
  with old sample_places(1) [OF e] show ?thesis unfolding q by simp
qed

end
