(* ===== verification/ProcessIo.thy ===== *)
theory ProcessIo
  imports Strings Complex_Main
begin

text \<open>
  What passes between the node and a running FFmpeg: the tail of its error output and the commands on its input
  (\<^verbatim>\<open>streamproc/process_exec.go\<close>, \<^verbatim>\<open>process_lifecycle.go\<close>), how an exit is classified
  (\<^verbatim>\<open>process_diagnostics.go\<close>), and the measurements FFmpeg writes (\<^verbatim>\<open>ffmpeg/progress.go\<close>,
  \<^verbatim>\<open>process_metrics.go\<close>).
\<close>

section \<open>Error output\<close>

definition maxFFmpegStderrBytes :: nat where "maxFFmpegStderrBytes = 8192"

record bounded_stderr =
  bs_data :: string
  bs_truncated :: bool

definition no_stderr :: bounded_stderr where
  "no_stderr = \<lparr>bs_data = [], bs_truncated = False\<rparr>"

definition stderr_write :: "bounded_stderr \<Rightarrow> string \<Rightarrow> bounded_stderr" where
  "stderr_write b p =
     (if p = [] then b
      else if maxFFmpegStderrBytes \<le> length p then \<lparr>bs_data = drop (length p - maxFFmpegStderrBytes) p, bs_truncated = True\<rparr>
      else let d = bs_data b @ p
           in if maxFFmpegStderrBytes < length d then \<lparr>bs_data = drop (length d - maxFFmpegStderrBytes) d, bs_truncated = True\<rparr>
              else b\<lparr>bs_data := d\<rparr>)"

definition stderr_string :: "bounded_stderr \<Rightarrow> string" where
  "stderr_string b =
     (let text = trim_space (bs_data b)
      in if text = [] then [] else if bs_truncated b then ''[truncated] '' @ text else text)"

text \<open>What is promised: the last bytes of everything that was written.\<close>

definition tail_of :: "string \<Rightarrow> string" where
  "tail_of t = drop (length t - maxFFmpegStderrBytes) t"

lemma tail_of_append: "tail_of (tail_of t @ p) = tail_of (t @ p)"
proof (cases "length t \<le> maxFFmpegStderrBytes")
  case True
  then show ?thesis by (simp add: tail_of_def)
next
  case False
  let ?k = "length t - maxFFmpegStderrBytes"
  have l: "length t - ?k = maxFFmpegStderrBytes" using False by simp
  have "tail_of t @ p = drop ?k (t @ p)" using False by (simp add: tail_of_def)
  moreover have "tail_of (drop ?k (t @ p)) = drop (length p + ?k) (t @ p)"
    using False by (simp add: tail_of_def)
  moreover have "length p + ?k = length (t @ p) - maxFFmpegStderrBytes" using False by simp
  ultimately show ?thesis by (simp add: tail_of_def)
qed

lemma tail_of_long: "maxFFmpegStderrBytes \<le> length p \<Longrightarrow> tail_of (t @ p) = drop (length p - maxFFmpegStderrBytes) p"
  by (simp add: tail_of_def drop_append)

text \<open>The relation between the texts written and the buffer.\<close>

definition stderr_shows :: "string list \<Rightarrow> bounded_stderr \<Rightarrow> bool" where
  "stderr_shows ps b \<longleftrightarrow> bs_data b = tail_of (concat ps)
     \<and> (bs_truncated b \<longleftrightarrow> maxFFmpegStderrBytes < length (concat ps) \<or> (\<exists>p \<in> set ps. length p = maxFFmpegStderrBytes))"

lemma stderr_shows_write:
  assumes "stderr_shows ps b"
  shows "stderr_shows (ps @ [p]) (stderr_write b p)"
proof -
  have d: "bs_data b = tail_of (concat ps)" and tr: "bs_truncated b \<longleftrightarrow> maxFFmpegStderrBytes < length (concat ps) \<or> (\<exists>p \<in> set ps. length p = maxFFmpegStderrBytes)"
    using assms by (simp_all add: stderr_shows_def)
  have pos: "0 < maxFFmpegStderrBytes" by (simp add: maxFFmpegStderrBytes_def)
  consider "p = []" | "maxFFmpegStderrBytes \<le> length p" | "p \<noteq> []" "length p < maxFFmpegStderrBytes" by linarith
  then show ?thesis
  proof cases
    case 1
    with assms pos show ?thesis by (auto simp: stderr_shows_def stderr_write_def)
  next
    case 2
    then have "p \<noteq> []" using pos by auto
    moreover have "maxFFmpegStderrBytes < length (concat ps @ p) \<or> length p = maxFFmpegStderrBytes" using 2 by (auto simp: le_less)
    ultimately show ?thesis using 2 by (auto simp: stderr_shows_def stderr_write_def tail_of_long)
  next
    case 3
    let ?d = "bs_data b @ p"
    have e: "tail_of ?d = tail_of (concat ps @ p)" unfolding d by (rule tail_of_append)
    have w: "bs_data (stderr_write b p) = tail_of ?d" "bs_truncated (stderr_write b p) \<longleftrightarrow> bs_truncated b \<or> maxFFmpegStderrBytes < length ?d"
      using 3 by (auto simp: stderr_write_def Let_def tail_of_def)
    have l: "maxFFmpegStderrBytes < length ?d \<or> maxFFmpegStderrBytes < length (concat ps) \<longleftrightarrow> maxFFmpegStderrBytes < length (concat ps @ p)"
      using 3 unfolding d by (auto simp: tail_of_def)
    from w e l tr 3(2) show ?thesis by (auto simp: stderr_shows_def)
  qed
qed

text \<open>
  C27. The buffer of FFmpeg's error output refines the whole text: after any writes of any sizes it holds the last 8192 bytes
  of everything written, and it says that something is missing when something is missing, and otherwise
  only if one write had exactly 8192 bytes.
\<close>

theorem stderr_keeps_tail:
  "stderr_shows ps (foldl stderr_write no_stderr ps) \<and> length (bs_data (foldl stderr_write no_stderr ps)) \<le> maxFFmpegStderrBytes"
proof -
  have "stderr_shows [] no_stderr" by (simp add: stderr_shows_def no_stderr_def tail_of_def)
  then have "stderr_shows ps (foldl stderr_write no_stderr ps)"
    by (induction ps rule: rev_induct) (simp_all add: stderr_shows_write)
  then show ?thesis by (simp add: stderr_shows_def tail_of_def)
qed

section \<open>Commands\<close>

text \<open>A float64 as \<^verbatim>\<open>strconv.ParseFloat\<close> gives it; the parser is an argument.\<close>

datatype go_float = NaN | Infinite bool | Fin rat

datatype stdin = NoStdin | OpenStdin | ClosedStdin

record exec_process =
  ep_stdin :: stdin
  ep_written :: string

datatype command_error = UnsupportedCommand | InvalidRuntimeSettings | NoCommandInput | WriteFailed

text \<open>\<^verbatim>\<open>io.WriteString\<close> to the pipe; a process that no longer reads is an error, which is an argument.\<close>

definition write_stdin :: "bool \<Rightarrow> exec_process \<Rightarrow> string \<Rightarrow> exec_process \<times> command_error option" where
  "write_stdin broken p text =
     (if broken \<or> ep_stdin p \<noteq> OpenStdin then (p, Some WriteFailed) else (p\<lparr>ep_written := ep_written p @ text\<rparr>, None))"

definition exec_command ::
  "(string \<Rightarrow> go_float option) \<Rightarrow> bool \<Rightarrow> exec_process \<Rightarrow> string \<Rightarrow> string \<Rightarrow> string \<Rightarrow> exec_process \<times> command_error option" where
  "exec_command parse broken p target command argument =
     (if target \<noteq> ''volume@gain'' \<or> command \<noteq> ''volume'' then (p, Some UnsupportedCommand)
      else case parse (trim_suffix argument ''dB'') of
        Some (Fin value) \<Rightarrow>
          if value < - 60 \<or> 24 < value then (p, Some InvalidRuntimeSettings)
          else if ep_stdin p = NoStdin then (p, Some NoCommandInput)
          else write_stdin broken p (''c'' @ target @ '' -1 '' @ command @ '' '' @ argument @ [CHR 0x0A])
      | _ \<Rightarrow> (p, Some InvalidRuntimeSettings))"

definition exec_terminate :: "bool \<Rightarrow> exec_process \<Rightarrow> exec_process \<times> command_error option" where
  "exec_terminate broken p =
     (if ep_stdin p = NoStdin then (p, None)
      else case write_stdin broken p [CHR ''q'', CHR 0x0A] of
        (p', e) \<Rightarrow> (p'\<lparr>ep_stdin := ClosedStdin\<rparr>, e))"

text \<open>
  What \<^verbatim>\<open>strconv.ParseFloat\<close> documents: no white space or line break is part of a number, and a number is not the empty text.
\<close>

definition parses_numbers :: "(string \<Rightarrow> go_float option) \<Rightarrow> bool" where
  "parses_numbers parse \<longleftrightarrow> (\<forall>s v. parse s = Some v \<longrightarrow> s \<noteq> [] \<and> CHR '' '' \<notin> set s \<and> CHR 0x0A \<notin> set s \<and> CHR 0x0D \<notin> set s)"

lemma trim_suffix_set: "set s \<subseteq> set (trim_suffix s p) \<union> set p"
  by (auto simp: trim_suffix_def has_suffix_def) (metis append_take_drop_id UnE set_append)

text \<open>
  C33. A runtime command reaches FFmpeg as one line that sets the gain and nothing else: what is written contains
  exactly one line break, at its end, and four words, and the value is finite and between -60 and 24 dB. Every other
  request writes nothing.
\<close>

theorem runtime_command_one_line:
  assumes "parses_numbers parse" and "exec_command parse broken p target command argument = (p', r)"
  shows "(r \<noteq> None \<longrightarrow> p' = p) \<and> (r = None \<longrightarrow> (\<exists>arg value. argument = arg
      \<and> ep_written p' = ep_written p @ ''cvolume@gain -1 volume '' @ arg @ [CHR 0x0A]
      \<and> arg \<noteq> [] \<and> CHR 0x0A \<notin> set arg \<and> CHR 0x0D \<notin> set arg \<and> CHR '' '' \<notin> set arg
      \<and> parse (trim_suffix arg ''dB'') = Some (Fin value) \<and> - 60 \<le> value \<and> value \<le> 24))"
proof -
  have clean: "argument \<noteq> [] \<and> CHR 0x0A \<notin> set argument \<and> CHR 0x0D \<notin> set argument \<and> CHR '' '' \<notin> set argument"
    if "parse (trim_suffix argument ''dB'') = Some v" for v
  proof -
    have "trim_suffix argument ''dB'' \<noteq> []" "CHR '' '' \<notin> set (trim_suffix argument ''dB'')"
      "CHR 0x0A \<notin> set (trim_suffix argument ''dB'')" "CHR 0x0D \<notin> set (trim_suffix argument ''dB'')"
      using assms(1) that by (auto simp: parses_numbers_def)
    with trim_suffix_set [of argument "''dB''"] show ?thesis by (auto simp: trim_suffix_def split: if_splits)
  qed
  from assms(2) show ?thesis
    using clean by (auto simp: exec_command_def write_stdin_def split: if_splits option.splits go_float.splits)
qed

definition sample_parse :: "string \<Rightarrow> go_float option" where
  "sample_parse s = (if s = ''-3.5'' then Some (Fin (- 7 / 2)) else None)"

lemma runtime_command_one_line_witness:
  "case exec_command sample_parse False \<lparr>ep_stdin = OpenStdin, ep_written = []\<rparr> ''volume@gain'' ''volume'' ''-3.5dB'' of
     (p, r) \<Rightarrow> r = None \<and> ep_written p = ''cvolume@gain -1 volume -3.5dB'' @ [CHR 0x0A]"
proof -
  let ?p = "\<lparr>ep_stdin = OpenStdin, ep_written = []\<rparr>"
  obtain p r where e: "exec_command sample_parse False ?p ''volume@gain'' ''volume'' ''-3.5dB'' = (p, r)" by fastforce
  have "parses_numbers sample_parse" by (simp add: parses_numbers_def sample_parse_def split: if_splits)
  from runtime_command_one_line [OF this e] have "r = None \<longrightarrow> ep_written p = ''cvolume@gain -1 volume -3.5dB'' @ [CHR 0x0A]" by auto
  moreover have "r = None"
    using e by (simp add: exec_command_def sample_parse_def trim_suffix_def has_suffix_def write_stdin_def)
  ultimately show ?thesis by (simp add: e)
qed

section \<open>Stopping\<close>

definition stopGracePeriod :: "string \<Rightarrow> nanos" where
  "stopGracePeriod env =
     (let raw = trim_space env
      in if raw = [] then 5 * second
         else case go_atoi raw of
           None \<Rightarrow> 5 * second
         | Some seconds \<Rightarrow> if seconds < 1 then 5 * second else (if 60 < seconds then 60 else seconds) * second)"

lemma stop_grace_bounds: "second \<le> stopGracePeriod env \<and> stopGracePeriod env \<le> 60 * second"
  by (simp add: stopGracePeriod_def Let_def second_def millisecond_def split: option.splits)

text \<open>\<^verbatim>\<open>classifyProcessExit\<close> and \<^verbatim>\<open>classifyStoppedProcessFailure\<close>.\<close>

definition mentions :: "string \<Rightarrow> string list \<Rightarrow> bool" where
  "mentions s ws \<longleftrightarrow> list_ex (str_contains s) ws"

definition classifyProcessExit :: "string \<Rightarrow> string" where
  "classifyProcessExit stderr =
     (let lower = to_lower stderr
      in if lower = [] then ''process_exit''
         else if mentions lower [''connection refused'', ''connection reset'', ''timed out'', ''network is unreachable''] then ''transport''
         else if mentions lower [''error opening output'', ''failed to open output'', ''permission denied''] then ''output_init''
         else if mentions lower [''error initializing filter'', ''failed to configure filter''] then ''filter_init''
         else if mentions lower [''invalid data found'', ''error while decoding'', ''could not find codec''] then ''input_decode''
         else if mentions lower [''rtmp'', ''rtmps'', ''handshake''] then ''relay''
         else ''ffmpeg_exit'')"

definition classifyStoppedProcessFailure :: "string \<Rightarrow> string" where
  "classifyStoppedProcessFailure stderr =
     (let lower = to_lower stderr
      in if str_contains lower ''slave muxer'' \<and> str_contains lower ''failed'' then ''archive_output''
         else if mentions lower [''error writing header'', ''error writing trailer'', ''error while filtering'',
           ''error during encoding'', ''conversion failed''] then ''archive_output''
         else [])"

text \<open>The redaction of a diagnostic, \<^verbatim>\<open>redaction.Diagnostic\<close>, is an argument; \<open>secrets\<close> are those of the job.\<close>

definition redactedProcessExit :: "(string \<Rightarrow> string list \<Rightarrow> string) \<Rightarrow> string list \<Rightarrow> string \<Rightarrow> string \<Rightarrow> string \<times> string" where
  "redactedProcessExit diagnostic secrets err stderr =
     (let base = diagnostic err secrets; safe = trim_space (diagnostic stderr secrets);
          base = (if safe \<noteq> [] then trim_space (base @ '': '' @ safe) else base)
      in (base, classifyProcessExit safe))"

section \<open>Measurements\<close>

text \<open>Arithmetic of float64, where it rounds, is an argument.\<close>

record float_ops =
  fl_parse :: "string \<Rightarrow> go_float option"
  fl_times :: "go_float \<Rightarrow> go_float \<Rightarrow> go_float"
  fl_plus :: "go_float \<Rightarrow> go_float \<Rightarrow> go_float"

fun fl_less :: "go_float \<Rightarrow> go_float \<Rightarrow> bool" where
  "fl_less (Fin a) (Fin b) \<longleftrightarrow> a < b"
| "fl_less NaN _ \<longleftrightarrow> False"
| "fl_less _ NaN \<longleftrightarrow> False"
| "fl_less (Infinite True) _ \<longleftrightarrow> False"
| "fl_less (Infinite False) b \<longleftrightarrow> b \<noteq> Infinite False"
| "fl_less (Fin _) (Infinite up) \<longleftrightarrow> up"

definition fl_leq :: "go_float \<Rightarrow> go_float \<Rightarrow> bool" where
  "fl_leq a b \<longleftrightarrow> a \<noteq> NaN \<and> b \<noteq> NaN \<and> \<not> fl_less b a"

record progress =
  pg_frame :: int
  pg_fps :: go_float
  pg_bitrate :: go_float
  pg_dropped :: go_float
  pg_out_time :: int
  pg_speed :: go_float
  pg_progress :: string

definition no_progress :: progress where
  "no_progress = \<lparr>pg_frame = 0, pg_fps = Fin 0, pg_bitrate = Fin 0, pg_dropped = Fin 0, pg_out_time = 0, pg_speed = Fin 0, pg_progress = []\<rparr>"

definition parseFloat :: "float_ops \<Rightarrow> string \<Rightarrow> go_float" where
  "parseFloat fl value = (case fl_parse fl (trim_space value) of None \<Rightarrow> Fin 0 | Some v \<Rightarrow> v)"

definition parseInt64 :: "string \<Rightarrow> int" where
  "parseInt64 value = (case go_atoi (trim_space value) of None \<Rightarrow> 0 | Some v \<Rightarrow> v)"

definition parseLevelDB :: "float_ops \<Rightarrow> string \<Rightarrow> go_float" where
  "parseLevelDB fl value =
     (let value = trim_space value
      in if to_lower value \<in> {''-inf'', ''-infinity''} then Fin (- 120)
         else if to_lower value \<in> {''inf'', ''+inf'', ''infinity'', ''+infinity''} then Fin 0
         else parseFloat fl value)"

definition parseBitrateKbps :: "float_ops \<Rightarrow> string \<Rightarrow> go_float" where
  "parseBitrateKbps fl value =
     (let value = trim_space (trim_space (trim_suffix value ''bits/s''))
      in if has_suffix value ''k'' then fl_times fl (parseFloat fl (trim_suffix value ''k'')) (Fin 1)
         else if has_suffix value ''M'' then fl_times fl (parseFloat fl (trim_suffix value ''M'')) (Fin 1000)
         else fl_times fl (parseFloat fl value) (Fin 1))"

definition cut_eq :: "string \<Rightarrow> (string \<times> string) option" where
  "cut_eq s = (if CHR ''='' \<in> set s then Some (takeWhile (\<lambda>c. c \<noteq> CHR ''='') s, tl (dropWhile (\<lambda>c. c \<noteq> CHR ''='') s)) else None)"

fun split_lines :: "string \<Rightarrow> string list" where
  "split_lines [] = [[]]"
| "split_lines (c # cs) =
     (if c = CHR 0x0A then [] # split_lines cs
      else case split_lines cs of [] \<Rightarrow> [[c]] | l # ls \<Rightarrow> (c # l) # ls)"

definition progress_line :: "float_ops \<Rightarrow> progress \<Rightarrow> string \<Rightarrow> progress" where
  "progress_line fl pg line =
     (case cut_eq (trim_space line) of
        None \<Rightarrow> pg
      | Some (key, value) \<Rightarrow>
          if key = ''frame'' then pg\<lparr>pg_frame := parseInt64 value\<rparr>
          else if key = ''fps'' then pg\<lparr>pg_fps := parseFloat fl value\<rparr>
          else if key = ''bitrate'' then pg\<lparr>pg_bitrate := parseBitrateKbps fl value\<rparr>
          else if key = ''drop_frames'' then pg\<lparr>pg_dropped := parseFloat fl value\<rparr>
          else if key = ''out_time_us'' then pg\<lparr>pg_out_time := parseInt64 value\<rparr>
          else if key = ''speed'' then pg\<lparr>pg_speed := parseFloat fl (trim_suffix (trim_space value) ''x'')\<rparr>
          else if key = ''progress'' then pg\<lparr>pg_progress := trim_space value\<rparr>
          else pg)"

definition parseProgress :: "float_ops \<Rightarrow> string \<Rightarrow> progress" where
  "parseProgress fl body = foldl (progress_line fl) no_progress (split_lines body)"

record level_stats =
  lv_rms :: "go_float option"
  lv_peak :: "go_float option"

definition audio_line :: "float_ops \<Rightarrow> level_stats \<Rightarrow> string \<Rightarrow> level_stats" where
  "audio_line fl st line =
     (case cut_eq (trim_space line) of
        None \<Rightarrow> st
      | Some (key, value) \<Rightarrow>
          if has_suffix key ''RMS_level'' then st\<lparr>lv_rms := Some (parseLevelDB fl value)\<rparr>
          else if has_suffix key ''Peak_level'' then st\<lparr>lv_peak := Some (parseLevelDB fl value)\<rparr>
          else st)"

definition parseAudioStats :: "float_ops \<Rightarrow> string \<Rightarrow> level_stats" where
  "parseAudioStats fl body = foldl (audio_line fl) \<lparr>lv_rms = None, lv_peak = None\<rparr> (split_lines body)"

text \<open>The metrics that are reported, as the list of their names and values; the files are given by their contents.\<close>

definition reportFFmpegProgress :: "float_ops \<Rightarrow> string option \<Rightarrow> (string \<times> go_float) list" where
  "reportFFmpegProgress fl body =
     (case body of
        None \<Rightarrow> []
      | Some body \<Rightarrow>
          let pg = parseProgress fl body; positive = (\<lambda>name v. if fl_less (Fin 0) v then [(name, v)] else [])
          in positive ''encoder.output_fps'' (pg_fps pg) @ positive ''encoder.output_bitrate_kbps'' (pg_bitrate pg)
             @ positive ''encoder.output_speed_ratio'' (pg_speed pg) @ [(''encoder.dropped_frames_total'', pg_dropped pg)])"

definition reportAudioStats ::
  "float_ops \<Rightarrow> string option \<Rightarrow> go_float \<Rightarrow> go_float \<Rightarrow> go_float \<Rightarrow> go_float \<times> go_float \<Rightarrow> (go_float \<times> go_float) \<times> (string \<times> go_float) list" where
  "reportAudioStats fl body elapsed silence_db clipping_db = (\<lambda>(silence, clipping).
     case body of
       None \<Rightarrow> ((silence, clipping), [])
     | Some body \<Rightarrow>
         let st = parseAudioStats fl body;
             (silence, rms) = (case lv_rms st of
                None \<Rightarrow> (silence, [])
              | Some level \<Rightarrow>
                  let silence = (if fl_leq level silence_db then fl_plus fl silence (if fl_less (Fin 0) elapsed then elapsed else Fin 0) else Fin 0)
                  in (silence, [(''encoder.audio_level_db'', level), (''encoder.audio_silence_sec'', silence)]));
             (clipping, peak) = (case lv_peak st of
                None \<Rightarrow> (clipping, [])
              | Some level \<Rightarrow>
                  let clipping = (if fl_leq clipping_db level then fl_plus fl clipping (Fin 1) else clipping)
                  in (clipping, [(''encoder.audio_clipping_total'', clipping)]))
         in ((silence, clipping), rms @ peak))"

text \<open>A later block of the progress file overrides an earlier one, key by key.\<close>

lemma split_lines_append: "split_lines (a @ CHR 0x0A # b) = split_lines a @ split_lines b"
proof (induction a)
  case (Cons c a)
  have "split_lines a \<noteq> []" for a by (cases a) (auto split: list.splits)
  with Cons show ?case by (auto split: list.splits)
qed simp

lemma parse_progress_append:
  "parseProgress fl (a @ CHR 0x0A # b) = foldl (progress_line fl) (parseProgress fl a) (split_lines b)"
  by (simp add: parseProgress_def split_lines_append)

lemma audio_clipping_grows:
  assumes "reportAudioStats fl body elapsed sd cd (s, c) = ((s', c'), ms)"
  shows "c' = c \<or> c' = fl_plus fl c (Fin 1)" "(''encoder.audio_clipping_total'', v) \<in> set ms \<Longrightarrow> v = c'"
  using assms by (auto simp: reportAudioStats_def Let_def split: option.splits if_splits)

end
