(* ===== verification/IngestToken.thy ===== *)
theory IngestToken
  imports Base64 FileSystem
begin

text \<open>
  Signed ingest tokens, \<^verbatim>\<open>internal/ingesttoken/token.go\<close>: three parts joined by dots, the second the
  base64 form of the claims, the third the base64 form of their signature. The JSON coding of
  the claims and HMAC-SHA256 are the arguments \<open>lib\<close>. Times are in nanoseconds, the expiry in seconds.
\<close>

record token_claims =
  cl_stream :: string
  cl_service :: string
  cl_service_type :: string
  cl_purpose :: string
  cl_audience :: string
  cl_expires :: int

record token_expected =
  ex_stream :: string
  ex_service :: string
  ex_service_type :: string
  ex_purpose :: string
  ex_audience :: string
  ex_now :: "nanos option"

record token_lib =
  marshal :: "token_claims \<Rightarrow> string"
  unmarshal :: "string \<Rightarrow> token_claims option"
  hmac_sha256 :: "string \<Rightarrow> string \<Rightarrow> u8 list"

datatype token_error = KeyRequired | ClaimsIncomplete | TokenFormat | TokenSignature | TokenPayload | TokenClaims
  | TokenExpired | StreamMismatch | ServiceMismatch | ServiceTypeMismatch | PurposeMismatch | AudienceMismatch

definition token_prefix :: string where
  "token_prefix = ''ast_ingest_v1''"

definition string_bytes :: "string \<Rightarrow> nat list" where
  "string_bytes s = map of_char s"

definition bytes_string :: "nat list \<Rightarrow> string" where
  "bytes_string bs = map char_of bs"

definition sign :: "token_lib \<Rightarrow> string \<Rightarrow> string \<Rightarrow> string" where
  "sign lib secret payload = raw_url_encode (map unat (hmac_sha256 lib secret (token_prefix @ ''.'' @ payload)))"

definition issueToken :: "token_lib \<Rightarrow> string \<Rightarrow> token_claims \<Rightarrow> token_error + string" where
  "issueToken lib secret c =
     (let secret = trim_space secret
      in if secret = [] then Inl KeyRequired
         else if trim_space (cl_stream c) = [] \<or> trim_space (cl_service c) = [] \<or> trim_space (cl_service_type c) = []
           \<or> trim_space (cl_purpose c) = [] \<or> trim_space (cl_audience c) = [] \<or> cl_expires c \<le> 0
         then Inl ClaimsIncomplete
         else let p = raw_url_encode (string_bytes (marshal lib c))
              in Inr (token_prefix @ ''.'' @ p @ ''.'' @ sign lib secret p))"

definition tokenExpiry :: "nanos \<Rightarrow> nanos \<Rightarrow> int" where
  "tokenExpiry now ttl = (now + (if ttl \<le> 0 then 12 * 3600 * second else ttl)) div second"

definition mismatch :: "string \<Rightarrow> string \<Rightarrow> bool" where
  "mismatch expected actual \<longleftrightarrow> expected \<noteq> [] \<and> actual \<noteq> expected"

definition verifyToken :: "token_lib \<Rightarrow> nanos \<Rightarrow> string \<Rightarrow> string \<Rightarrow> token_expected \<Rightarrow> token_error + token_claims" where
  "verifyToken lib clock secret token ex =
     (let secret = trim_space secret
      in if secret = [] then Inl KeyRequired
         else case split_at (CHR ''.'') token of
           [prefix_part, payload, sig] \<Rightarrow>
             if prefix_part \<noteq> token_prefix then Inl TokenFormat
             else if sig \<noteq> sign lib secret payload then Inl TokenSignature
             else (case raw_url_decode payload of
                 None \<Rightarrow> Inl TokenPayload
               | Some bs \<Rightarrow>
                   case unmarshal lib (bytes_string bs) of
                     None \<Rightarrow> Inl TokenClaims
                   | Some c \<Rightarrow>
                       let now = (case ex_now ex of None \<Rightarrow> clock | Some t \<Rightarrow> t)
                       in if cl_expires c \<le> 0 \<or> cl_expires c < now div second then Inl TokenExpired
                          else if mismatch (ex_stream ex) (cl_stream c) then Inl StreamMismatch
                          else if mismatch (ex_service ex) (cl_service c) then Inl ServiceMismatch
                          else if mismatch (ex_service_type ex) (cl_service_type c) then Inl ServiceTypeMismatch
                          else if mismatch (ex_purpose ex) (cl_purpose c) then Inl PurposeMismatch
                          else if mismatch (ex_audience ex) (cl_audience c) then Inl AudienceMismatch
                          else Inr c)
         | _ \<Rightarrow> Inl TokenFormat)"

definition isSigned :: "string \<Rightarrow> bool" where
  "isSigned token = has_prefix token (token_prefix @ ''.'')"

section \<open>Lemmas\<close>

lemma bytes_roundtrip [simp]: "bytes_string (string_bytes s) = s"
  by (simp add: bytes_string_def string_bytes_def comp_def map_idI)

lemma string_bytes_small: "list_all (\<lambda>b. b < 256) (string_bytes s)"
  by (auto simp: string_bytes_def list_all_iff)

lemma sign_no_dot: "CHR ''.'' \<notin> set (sign lib secret p)"
proof -
  have "list_all (\<lambda>b. b < 256) (map unat (bs :: u8 list))" for bs
    using unsigned_less [where ?'a = nat and ?'b = 8] by (auto simp: list_all_iff)
  from encode_chars [OF this] show ?thesis unfolding sign_def by blast
qed

lemma payload_no_dot: "CHR ''.'' \<notin> set (raw_url_encode (string_bytes s))"
  using encode_chars [OF string_bytes_small] by blast

lemma split_at_append: "c \<notin> set a \<Longrightarrow> split_at c (a @ c # s) = a # split_at c s"
  by (induction a) auto

lemma join_split: "join_with c (split_at c s) = s"
proof (induction s)
  case Nil
  then show ?case by simp
next
  case (Cons x s)
  then show ?case using split_at_nonempty [of c s]
    by (cases "split_at c s"; cases "tl (split_at c s)") auto
qed

lemma three_parts:
  "split_at (CHR ''.'') t = [a, b, d] \<longleftrightarrow> t = a @ ''.'' @ b @ ''.'' @ d
     \<and> CHR ''.'' \<notin> set a \<and> CHR ''.'' \<notin> set b \<and> CHR ''.'' \<notin> set d"
proof
  assume s: "split_at (CHR ''.'') t = [a, b, d]"
  have "t = a @ ''.'' @ b @ ''.'' @ d" using join_split [of "CHR ''.''" t] s by simp
  with split_at_parts [of _ "CHR ''.''" t] s
  show "t = a @ ''.'' @ b @ ''.'' @ d \<and> CHR ''.'' \<notin> set a \<and> CHR ''.'' \<notin> set b \<and> CHR ''.'' \<notin> set d" by auto
next
  assume "t = a @ ''.'' @ b @ ''.'' @ d \<and> CHR ''.'' \<notin> set a \<and> CHR ''.'' \<notin> set b \<and> CHR ''.'' \<notin> set d"
  then show "split_at (CHR ''.'') t = [a, b, d]" by (simp add: split_at_append split_at_no_sep)
qed

section \<open>Properties\<close>

text \<open>What makes claims acceptable.\<close>

definition claims_ok :: "nanos \<Rightarrow> token_expected \<Rightarrow> token_claims \<Rightarrow> bool" where
  "claims_ok clock ex c \<longleftrightarrow> 0 < cl_expires c
     \<and> (case ex_now ex of None \<Rightarrow> clock | Some t \<Rightarrow> t) div second \<le> cl_expires c
     \<and> list_all (\<lambda>(e, a). e = [] \<or> a = e) [(ex_stream ex, cl_stream c), (ex_service ex, cl_service c),
         (ex_service_type ex, cl_service_type c), (ex_purpose ex, cl_purpose c), (ex_audience ex, cl_audience c)]"

lemma verify_accepts:
  assumes k: "trim_space secret \<noteq> []" and t: "token = token_prefix @ ''.'' @ p @ ''.'' @ sign lib (trim_space secret) p"
    and p: "CHR ''.'' \<notin> set p" "raw_url_decode p = Some bs" "unmarshal lib (bytes_string bs) = Some c" "claims_ok clock ex c"
  shows "verifyToken lib clock secret token ex = Inr c"
proof -
  have "CHR ''.'' \<notin> set token_prefix" by (simp add: token_prefix_def)
  then have "split_at (CHR ''.'') token = [token_prefix, p, sign lib (trim_space secret) p]"
    using three_parts t p(1) sign_no_dot by blast
  with k p(2-4) show ?thesis
    by (simp add: verifyToken_def claims_ok_def mismatch_def Let_def)
qed

lemma verify_iff:
  "verifyToken lib clock secret token ex = Inr c \<longleftrightarrow> trim_space secret \<noteq> []
    \<and> (\<exists>payload bs. token = token_prefix @ ''.'' @ payload @ ''.'' @ sign lib (trim_space secret) payload
         \<and> CHR ''.'' \<notin> set payload \<and> raw_url_decode payload = Some bs
         \<and> unmarshal lib (bytes_string bs) = Some c \<and> claims_ok clock ex c)"
  (is "?l \<longleftrightarrow> ?r")
proof
  assume l: ?l
  then have k: "trim_space secret \<noteq> []" by (auto simp: verifyToken_def Let_def)
  with l obtain p sig where sp: "split_at (CHR ''.'') token = [token_prefix, p, sig]"
    by (auto simp: verifyToken_def Let_def split: list.splits if_splits)
  with l k obtain bs where sig: "sig = sign lib (trim_space secret) p" and bs: "raw_url_decode p = Some bs"
    "unmarshal lib (bytes_string bs) = Some c"
    by (auto simp: verifyToken_def Let_def split: if_splits option.splits)
  have "claims_ok clock ex c"
    using l k sp sig bs by (auto simp: verifyToken_def claims_ok_def mismatch_def Let_def split: if_splits)
  with k sp [unfolded three_parts] sig bs show ?r by blast
next
  assume ?r
  then show ?l using verify_accepts by blast
qed


text \<open>
  Whoever holds the key can hand out tokens that are accepted: if decoding the JSON form of the
  claims gives them back, an issued token is verified, with the key written with or without blanks around it,
  up to the second it expires, and gives the claims back.
\<close>

theorem token_roundtrip:
  assumes "issueToken lib secret c = Inr token" and "unmarshal lib (marshal lib c) = Some c"
    and "trim_space secret' = trim_space secret" and "claims_ok clock ex c"
  shows "verifyToken lib clock secret' token ex = Inr c \<and> isSigned token"
proof -
  let ?p = "raw_url_encode (string_bytes (marshal lib c))"
  have k: "trim_space secret \<noteq> []" and t: "token = token_prefix @ ''.'' @ ?p @ ''.'' @ sign lib (trim_space secret) ?p"
    using assms(1) by (auto simp: issueToken_def Let_def split: if_splits)
  have d: "raw_url_decode ?p = Some (string_bytes (marshal lib c))"
    by (rule raw_url_roundtrip [OF string_bytes_small])
  have "verifyToken lib clock secret' token ex = Inr c"
    by (rule verify_accepts [OF _ _ payload_no_dot d]) (use k t assms(2-4) in simp_all)
  then show ?thesis using t by (simp add: isSigned_def has_prefix_iff)
qed

definition sample_claims :: token_claims where
  "sample_claims = \<lparr>cl_stream = ''s1'', cl_service = ''w1'', cl_service_type = ''worker'', cl_purpose = ''ingest'',
     cl_audience = ''encoder'', cl_expires = 100\<rparr>"

definition sample_lib :: token_lib where
  "sample_lib = \<lparr>marshal = (\<lambda>c. ''{'' @ cl_stream c @ ''}''), unmarshal = (\<lambda>s. if s = ''{s1}'' then Some sample_claims else None),
     hmac_sha256 = (\<lambda>k m. [of_nat (length k), of_nat (length m), 7])\<rparr>"

theorem token_roundtrip_witness:
  "case issueToken sample_lib '' key'' sample_claims of
     Inr token \<Rightarrow> verifyToken sample_lib 0 ''key '' token \<lparr>ex_stream = ''s1'', ex_service = [], ex_service_type = [],
       ex_purpose = ''ingest'', ex_audience = [], ex_now = Some (100 * second)\<rparr> = Inr sample_claims
   | Inl e \<Rightarrow> False"
proof -
  have "\<not> isl (issueToken sample_lib '' key'' sample_claims)" by code_simp
  then obtain token where i: "issueToken sample_lib '' key'' sample_claims = Inr token"
    by (cases "issueToken sample_lib '' key'' sample_claims") auto
  have "unmarshal sample_lib (marshal sample_lib sample_claims) = Some sample_claims"
    "trim_space ''key '' = trim_space '' key''"
    "claims_ok 0 \<lparr>ex_stream = ''s1'', ex_service = [], ex_service_type = [], ex_purpose = ''ingest'', ex_audience = [],
       ex_now = Some (100 * second)\<rparr> sample_claims"
    by (simp add: sample_lib_def sample_claims_def) code_simp+
  from token_roundtrip [OF i this] show ?thesis by (simp add: i)
qed

end
