(* ===== verification/DurableState.thy ===== *)
theory DurableState
  imports ArchiveLayout
begin

text \<open>
  The small files that must survive a restart: the cover generation of a stream
  (\<^verbatim>\<open>internal/streamproc/cover_generation.go\<close>) and its stop receipt
  (\<^verbatim>\<open>stop_receipt.go\<close>). A file holds the record its JSON decodes to, or \<open>Garbage\<close>. Both
  are written to a temporary file that is renamed, so a reader sees the old record or the new
  one; \<open>deny\<close> refuses a write, \<open>sync_fails\<close> makes the directory sync after the rename
  fail, which reports an error although the record is in place.
\<close>

datatype durable = GenerationRecord string u64 u64 | ReceiptRecord string "nanos option" | Garbage

type_synonym dfs = "durable fs"

record disk =
  deny :: "path \<Rightarrow> bool"
  sync_fails :: bool

section \<open>Cover generations\<close>

definition generationDir :: "path \<Rightarrow> path" where
  "generationDir root = path_join root [''state'', ''video-cover-generations'']"

definition generationPath :: "path \<Rightarrow> string \<Rightarrow> path" where
  "generationPath root streamID = path_join (generationDir root) [streamID @ ''.json'']"

text \<open>The zero record stands for a stream without a file.\<close>

definition readCoverGeneration ::
  "(nat \<Rightarrow> bool) \<Rightarrow> disk \<Rightarrow> path \<Rightarrow> dfs \<Rightarrow> string \<Rightarrow> dfs \<times> (fs_error + u64 \<times> u64)" where
  "readCoverGeneration uni d root fs streamID =
     (if newLayout uni root streamID = None then (fs, Inl ErrUnsafeName)
      else if fs (generationDir root) = None then (fs, Inr (0, 0))
      else case ensureDirNoSymlinks (deny d) fs root (generationDir root) of
             (fs, Some e) \<Rightarrow> (fs, Inl e)
           | (fs, None) \<Rightarrow>
               (fs, case fs (generationPath root streamID) of
                      None \<Rightarrow> Inr (0, 0)
                    | Some (Regular (GenerationRecord s j g)) \<Rightarrow>
                        if s \<noteq> streamID \<or> j < 1 \<or> g < 1 then Inl ErrInvalidRecord else Inr (j, g)
                    | Some (Regular _) \<Rightarrow> Inl ErrInvalidRecord
                    | Some _ \<Rightarrow> Inl ErrNotRegular))"

definition write_record :: "disk \<Rightarrow> dfs \<Rightarrow> path \<Rightarrow> durable \<Rightarrow> dfs \<times> fs_error option" where
  "write_record d fs p record =
     (case fs p of
        Some Dir \<Rightarrow> (fs, Some ErrNotRegular)
      | Some Symlink \<Rightarrow> (fs, Some ErrNotRegular)
      | Some Special \<Rightarrow> (fs, Some ErrNotRegular)
      | _ \<Rightarrow> if deny d p then (fs, Some ErrPermission)
             else (fs(p \<mapsto> Regular record), if sync_fails d then Some ErrPermission else None))"

definition writeCoverGeneration ::
  "(nat \<Rightarrow> bool) \<Rightarrow> disk \<Rightarrow> path \<Rightarrow> dfs \<Rightarrow> string \<Rightarrow> u64 \<Rightarrow> u64 \<Rightarrow> dfs \<times> fs_error option" where
  "writeCoverGeneration uni d root fs streamID j g =
     (if newLayout uni root streamID = None then (fs, Some ErrUnsafeName)
      else if j < 1 \<or> g < 1 then (fs, Some ErrInvalidRecord)
      else case ensureDirNoSymlinks (deny d) fs root (generationDir root) of
             (fs, Some e) \<Rightarrow> (fs, Some e)
           | (fs, None) \<Rightarrow> write_record d fs (generationPath root streamID) (GenerationRecord streamID j g))"

text \<open>\<^verbatim>\<open>nextCoverGeneration\<close>; the association list is \<^verbatim>\<open>coverGenerations\<close>.\<close>

type_synonym gen_memory = "(string \<times> u64 \<times> u64) list"

definition nextCoverGeneration ::
  "(nat \<Rightarrow> bool) \<Rightarrow> disk \<Rightarrow> path \<Rightarrow> string \<Rightarrow> u64 \<Rightarrow> dfs \<times> gen_memory
    \<Rightarrow> (dfs \<times> gen_memory) \<times> (fs_error + u64)" where
  "nextCoverGeneration uni d root streamID jobGeneration st =
     (if jobGeneration = 0 then (st, Inr 1)
      else let (fs, memory) = st in
        case readCoverGeneration uni d root fs streamID of
          (fs, Inl e) \<Rightarrow> ((fs, memory), Inl e)
        | (fs, Inr durable) \<Rightarrow>
            let previous = (case map_of memory streamID of
                   Some (j, g) \<Rightarrow> if snd durable < g \<and> j = jobGeneration then (j, g) else durable
                 | None \<Rightarrow> durable);
                next_gen = (if fst previous = jobGeneration \<and> 0 < snd previous then snd previous + 1 else 1)
            in case writeCoverGeneration uni d root fs streamID jobGeneration next_gen of
                 (fs, Some e) \<Rightarrow> ((fs, memory), Inl e)
               | (fs, None) \<Rightarrow>
                   ((fs, AList.update streamID (jobGeneration, next_gen) memory), Inr next_gen))"

section \<open>Stop receipts\<close>

definition receiptDir :: "path \<Rightarrow> path" where
  "receiptDir root = path_join root [''state'', ''stop-receipts'']"

definition receiptPath :: "path \<Rightarrow> string \<Rightarrow> path" where
  "receiptPath root streamID = path_join (receiptDir root) [streamID @ ''.json'']"

definition stopReceiptTTL :: "nanos \<Rightarrow> nanos" where
  "stopReceiptTTL configured = (if 0 < configured then configured else 15 * 60 * second)"

definition recordStopReceipt ::
  "(nat \<Rightarrow> bool) \<Rightarrow> disk \<Rightarrow> path \<Rightarrow> nanos \<Rightarrow> nanos \<Rightarrow> dfs \<Rightarrow> string \<Rightarrow> dfs \<times> fs_error option" where
  "recordStopReceipt uni d root ttl now fs streamID =
     (if newLayout uni root streamID = None then (fs, Some ErrUnsafeName)
      else case ensureDirNoSymlinks (deny d) fs root (receiptDir root) of
             (fs, Some e) \<Rightarrow> (fs, Some e)
           | (fs, None) \<Rightarrow> write_record d fs (receiptPath root streamID)
               (ReceiptRecord streamID (Some (now + stopReceiptTTL ttl))))"

text \<open>The walk of \<^verbatim>\<open>existingStopReceiptDir\<close>: False when a component is missing.\<close>

fun existing_parts :: "'c fs \<Rightarrow> path \<Rightarrow> string list \<Rightarrow> fs_error + bool" where
  "existing_parts fs cur [] = Inr True"
| "existing_parts fs cur (w # ws) =
     (if w = [] \<or> w = ''.'' then existing_parts fs cur ws
      else case fs (cur @ [w]) of
             None \<Rightarrow> Inr False
           | Some Dir \<Rightarrow> existing_parts fs (cur @ [w]) ws
           | Some _ \<Rightarrow> Inl ErrNotDirectory)"

definition existingStopReceiptDir :: "'c fs \<Rightarrow> path \<Rightarrow> path \<Rightarrow> fs_error + bool" where
  "existingStopReceiptDir fs root dir =
     (case path_rel root dir of
        None \<Rightarrow> Inl ErrEscapesRoot
      | Some rel \<Rightarrow>
          case fs root of
            None \<Rightarrow> Inr False
          | Some Dir \<Rightarrow> existing_parts fs root rel
          | Some _ \<Rightarrow> Inl ErrNotDirectory)"

definition hasStopReceipt :: "(nat \<Rightarrow> bool) \<Rightarrow> path \<Rightarrow> nanos \<Rightarrow> dfs \<Rightarrow> string \<Rightarrow> fs_error + bool" where
  "hasStopReceipt uni root now fs streamID =
     (if newLayout uni root streamID = None then Inr False
      else case existingStopReceiptDir fs root (receiptDir root) of
             Inl e \<Rightarrow> Inl e
           | Inr False \<Rightarrow> Inr False
           | Inr True \<Rightarrow>
               case fs (receiptPath root streamID) of
                 None \<Rightarrow> Inr False
               | Some (Regular (ReceiptRecord s (Some expires))) \<Rightarrow> Inr (s = streamID \<and> now < expires)
               | Some (Regular _) \<Rightarrow> Inr False
               | Some _ \<Rightarrow> Inl ErrNotRegular)"

definition clearStopReceipt ::
  "(nat \<Rightarrow> bool) \<Rightarrow> disk \<Rightarrow> path \<Rightarrow> dfs \<Rightarrow> string \<Rightarrow> dfs \<times> fs_error option" where
  "clearStopReceipt uni d root fs streamID =
     (if newLayout uni root streamID = None then (fs, Some ErrUnsafeName)
      else case existingStopReceiptDir fs root (receiptDir root) of
             Inl e \<Rightarrow> (fs, Some e)
           | Inr False \<Rightarrow> (fs, None)
           | Inr True \<Rightarrow>
               case fs (receiptPath root streamID) of
                 None \<Rightarrow> (fs, None)
               | Some (Regular _) \<Rightarrow>
                   if deny d (receiptPath root streamID) then (fs, Some ErrPermission)
                   else (fs(receiptPath root streamID := None), if sync_fails d then Some ErrPermission else None)
               | Some _ \<Rightarrow> (fs, Some ErrNotRegular))"

section \<open>Lemmas\<close>

lemma plain_json: "isSafeID uni s \<Longrightarrow> plain_name (s @ ''.json'')"
  by (auto simp: isSafeID_def plain_name_def append_eq_Cons_conv)

lemma state_paths [simp]:
  "generationDir root = root @ [''state'', ''video-cover-generations'']"
  "receiptDir root = root @ [''state'', ''stop-receipts'']"
  by (simp_all add: generationDir_def receiptDir_def plain_name_def)

lemma generationPath_safe:
  "isSafeID uni s \<Longrightarrow> generationPath root s = root @ [''state'', ''video-cover-generations'', s @ ''.json'']"
  by (simp add: generationPath_def plain_json)

lemma receiptPath_safe:
  "isSafeID uni s \<Longrightarrow> receiptPath root s = root @ [''state'', ''stop-receipts'', s @ ''.json'']"
  by (simp add: receiptPath_def plain_json)

lemma state_dirs_wf: "wf_root root \<Longrightarrow> [] \<notin> set (generationDir root) \<and> ''.'' \<notin> set (generationDir root)"
  "wf_root root \<Longrightarrow> [] \<notin> set (receiptDir root) \<and> ''.'' \<notin> set (receiptDir root)"
  by (auto simp: wf_root_def)

lemma adds_dirs_other: "adds_dirs fs fs' dir \<Longrightarrow> \<not> prefix p dir \<Longrightarrow> fs' p = fs p"
  by (auto simp: adds_dirs_def)

text \<open>Files are below the directories that may be made for them.\<close>

lemma below_not_prefix: "length dir < length p \<Longrightarrow> \<not> prefix p dir"
  by (auto dest: prefix_length_le)

lemma read_keeps:
  assumes "readCoverGeneration uni d root fs s = (fs', res)" and "wf_root root"
    and "length root + 2 < length p"
  shows "fs' p = fs p"
proof (cases "newLayout uni root s = None \<or> fs (generationDir root) = None")
  case True
  with assms(1) show ?thesis by (auto simp: readCoverGeneration_def split: if_splits)
next
  case False
  obtain fs1 r where e: "ensureDirNoSymlinks (deny d) fs root (generationDir root) = (fs1, r)" by fastforce
  have "adds_dirs fs fs1 (generationDir root)"
    using ensure_dir_frame [OF e] assms(2) state_dirs_wf(1) [OF assms(2)] by (auto simp: wf_root_def)
  then have "fs1 p = fs p"
    by (rule adds_dirs_other) (rule below_not_prefix, use assms(3) in simp)
  moreover have "fs' = fs1"
    using assms(1) False e by (auto simp: readCoverGeneration_def split: option.splits)
  ultimately show ?thesis by simp
qed

lemma read_dir:
  assumes "readCoverGeneration uni d root fs s = (fs', res)" and "wf_root root"
  shows "fs (generationDir root) \<noteq> None \<Longrightarrow> fs' (generationDir root) \<noteq> None"
proof -
  obtain fs1 r where e: "ensureDirNoSymlinks (deny d) fs root (generationDir root) = (fs1, r)" by fastforce
  have "adds_dirs fs fs1 (generationDir root)"
    using ensure_dir_frame [OF e] assms(2) state_dirs_wf(1) [OF assms(2)] by (auto simp: wf_root_def)
  moreover have "fs' = fs \<or> fs' = fs1"
    using assms(1) e by (auto simp: readCoverGeneration_def split: if_splits option.splits)
  ultimately show "fs (generationDir root) \<noteq> None \<Longrightarrow> fs' (generationDir root) \<noteq> None"
    by (auto simp: adds_dirs_def)
qed

lemma read_result:
  assumes "readCoverGeneration uni d root fs s = (fs', Inr r)" and "wf_root root" and "isSafeID uni s"
  shows "(fs (generationPath root s) = None \<or> fs (generationDir root) = None) \<and> r = (0, 0)
    \<or> (\<exists>j g. fs (generationPath root s) = Some (Regular (GenerationRecord s j g)) \<and> j \<noteq> 0 \<and> g \<noteq> 0 \<and> r = (j, g))"
proof -
  have k: "fs' (generationPath root s) = fs (generationPath root s)"
    by (rule read_keeps [OF assms(1,2)]) (simp add: generationPath_safe [OF assms(3)])
  show ?thesis
    using assms(1) k
    by (auto simp: readCoverGeneration_def not_less split: if_splits option.splits node.splits durable.splits prod.splits)
qed

lemma write_cases:
  assumes "writeCoverGeneration uni d root fs s j g = (fs', r)" and "wf_root root" and "isSafeID uni s"
  obtains (kept) "r \<noteq> None" "adds_dirs fs fs' (generationDir root)"
  | (written) fs1 where "adds_dirs fs fs1 (generationDir root)" "fs1 (generationDir root) = Some Dir"
      "fs' = fs1(generationPath root s \<mapsto> Regular (GenerationRecord s j g))"
proof -
  obtain fs1 e where en: "ensureDirNoSymlinks (deny d) fs root (generationDir root) = (fs1, e)" by fastforce
  have ad: "adds_dirs fs fs1 (generationDir root)"
    using ensure_dir_frame [OF en] assms(2) state_dirs_wf(1) [OF assms(2)] by (auto simp: wf_root_def)
  have dir: "fs1 (generationDir root) = Some Dir" if "e = None"
    using ensure_dir_real [of "deny d" fs root _ fs1 "generationDir root"] en that assms(2)
      state_dirs_wf(1) [OF assms(2)] by (auto simp: wf_root_def)
  have "r \<noteq> None \<and> (fs' = fs \<or> fs' = fs1)
      \<or> e = None \<and> fs' = fs1(generationPath root s \<mapsto> Regular (GenerationRecord s j g))"
    using assms(1) en
    by (auto simp: writeCoverGeneration_def write_record_def split: if_splits option.splits node.splits)
  then show ?thesis
    using ad dir kept written by auto
qed

text \<open>The lexicographic order on pairs of a job generation and a cover generation.\<close>

definition epoch_less :: "u64 \<times> u64 \<Rightarrow> u64 \<times> u64 \<Rightarrow> bool" where
  "epoch_less a b \<longleftrightarrow> fst a < fst b \<or> (fst a = fst b \<and> snd a < snd b)"

definition epoch_le :: "u64 \<times> u64 \<Rightarrow> u64 \<times> u64 \<Rightarrow> bool" where
  "epoch_le a b \<longleftrightarrow> a = b \<or> epoch_less a b"

lemma epoch_less_trans: "epoch_less a b \<Longrightarrow> epoch_less b c \<Longrightarrow> epoch_less a c"
  by (auto simp: epoch_less_def)

lemma epoch_le_trans: "epoch_le a b \<Longrightarrow> epoch_le b c \<Longrightarrow> epoch_le a c"
  by (auto simp: epoch_le_def intro: epoch_less_trans)

text \<open>The durable record of a stream is \<open>(j, g)\<close>, and what is remembered in memory is not newer.\<close>

definition epoch_inv :: "path \<Rightarrow> string \<Rightarrow> dfs \<times> gen_memory \<Rightarrow> u64 \<times> u64 \<Rightarrow> bool" where
  "epoch_inv root s st r \<longleftrightarrow>
     (if fst st (generationPath root s) = None then r = (0, 0)
      else fst st (generationPath root s) = Some (Regular (GenerationRecord s (fst r) (snd r)))
        \<and> fst r \<noteq> 0 \<and> snd r \<noteq> 0 \<and> fst st (generationDir root) \<noteq> None)
     \<and> (case map_of (snd st) s of None \<Rightarrow> True | Some m \<Rightarrow> epoch_le m r)"

lemma next_step:
  assumes "nextCoverGeneration uni d root s j (fs, mem) = ((fs', mem'), res)"
    and "wf_root root" and "isSafeID uni s" and "epoch_inv root s (fs, mem) (J, G)"
    and "J \<le> j" and "j \<noteq> 0" and "unat G + 1 < 2 ^ 64"
  shows "\<exists>r'. epoch_inv root s (fs', mem') r' \<and> epoch_le (J, G) r' \<and> fst r' \<le> j \<and> unat (snd r') \<le> unat G + 1
    \<and> (\<forall>g. res = Inr g \<longrightarrow> r' = (j, g) \<and> epoch_less (J, G) (j, g))"
proof -
  let ?p = "generationPath root s" and ?dir = "generationDir root"
  have p: "length root + 2 < length ?p" by (simp add: generationPath_safe [OF assms(3)])
  obtain fs1 rd where rd: "readCoverGeneration uni d root fs s = (fs1, rd)" by fastforce
  have p1: "fs1 ?p = fs ?p" by (rule read_keeps [OF rd assms(2) p])
  have dir1: "fs ?dir \<noteq> None \<Longrightarrow> fs1 ?dir \<noteq> None"
    using read_dir [OF rd assms(2)] by auto
  have inv1: "epoch_inv root s (fs1, mem) (J, G)"
    using assms(4) p1 dir1 by (auto simp: epoch_inv_def split: if_splits)
  show ?thesis
  proof (cases rd)
    case (Inl e)
    with assms(1,6) rd have "fs' = fs1" "mem' = mem" "res = Inl e"
      by (auto simp: nextCoverGeneration_def)
    with inv1 assms(5) show ?thesis by (intro exI [of _ "(J, G)"]) (auto simp: epoch_le_def)
  next
    case (Inr du)
    have du: "du = (J, G)"
      using read_result [OF rd [unfolded Inr] assms(2,3)] assms(4)
      by (auto simp: epoch_inv_def split: if_splits)
    let ?g = "if J = j \<and> 0 < G then G + 1 else 1"
    have prev: "(case map_of mem s of Some (j', g') \<Rightarrow> if snd du < g' \<and> j' = j then (j', g') else du
        | None \<Rightarrow> du) = (J, G)"
      using assms(4,5) du
      by (auto simp: epoch_inv_def epoch_le_def epoch_less_def split: option.splits)
    obtain fs2 e where wr: "writeCoverGeneration uni d root fs1 s j ?g = (fs2, e)" by fastforce
    have res: "fs' = fs2 \<and> mem' = (if e = None then AList.update s (j, ?g) mem else mem)
        \<and> res = (case e of None \<Rightarrow> Inr ?g | Some err \<Rightarrow> Inl err)"
      using assms(1,6) rd Inr prev wr
      by (auto simp: nextCoverGeneration_def Let_def split: option.splits)
    have gr: "unat (G + 1) = unat G + 1" using assms(7) by (simp add: unat_word_ariths(1))
    have lt: "epoch_less (J, G) (j, ?g)"
    proof (cases "J = j")
      case True
      then have "G < ?g"
        using gr assms(6) inv1 by (auto simp: word_less_nat_alt)
      with True show ?thesis by (simp add: epoch_less_def)
    next
      case False
      with assms(5) show ?thesis by (simp add: epoch_less_def)
    qed
    have ng: "?g \<noteq> 0" "unat ?g \<le> unat G + 1"
      using gr by (auto simp: word_neq_0_conv [symmetric] unat_eq_zero [symmetric])
    from wr assms(2,3) show ?thesis
    proof (cases rule: write_cases)
      case kept
      with adds_dirs_other [OF kept(2) below_not_prefix, of ?p] p have
        "fs2 ?p = fs1 ?p" "fs1 ?dir \<noteq> None \<longrightarrow> fs2 ?dir \<noteq> None"
        by (auto simp: adds_dirs_def)
      with inv1 res kept(1) assms(5) show ?thesis
        by (intro exI [of _ "(J, G)"]) (auto simp: epoch_inv_def epoch_le_def split: if_splits option.splits)
    next
      case (written fs3)
      have "?dir \<noteq> ?p" using p by (auto dest: arg_cong [of _ _ length])
      with written have "fs2 ?p = Some (Regular (GenerationRecord s j ?g))" "fs2 ?dir \<noteq> None"
        by auto
      moreover have "case map_of mem' s of None \<Rightarrow> True | Some m \<Rightarrow> epoch_le m (j, ?g)"
      proof (cases "e = None")
        case True
        with res show ?thesis by (simp add: update_conv' epoch_le_def)
      next
        case False
        with res inv1 lt show ?thesis
          by (auto simp: epoch_inv_def epoch_le_def intro: epoch_less_trans split: option.splits)
      qed
      ultimately have "epoch_inv root s (fs', mem') (j, ?g)"
        using res assms(6) ng by (simp add: epoch_inv_def)
      with res lt ng show ?thesis
        by (intro exI [of _ "(j, ?g)"]) (auto simp: epoch_le_def split: option.splits)
    qed
  qed
qed

lemma next_other:
  assumes "nextCoverGeneration uni d root s' j (fs, mem) = ((fs', mem'), res)"
    and "wf_root root" and "isSafeID uni s" and "s' \<noteq> s"
    and "epoch_inv root s (fs, mem) r"
  shows "epoch_inv root s (fs', mem') r"
proof -
  let ?p = "generationPath root s" and ?dir = "generationDir root"
  have p: "length root + 2 < length ?p" by (simp add: generationPath_safe [OF assms(3)])
  have "fs' ?p = fs ?p \<and> (fs ?dir \<noteq> None \<longrightarrow> fs' ?dir \<noteq> None) \<and> map_of mem' s = map_of mem s"
  proof (cases "j = 0 \<or> \<not> isSafeID uni s'")
    case True
    with assms(1) have "fs' = fs" "mem' = mem"
      by (auto simp: nextCoverGeneration_def readCoverGeneration_def newLayout_def split: if_splits)
    then show ?thesis by simp
  next
    case False
    then have safe': "isSafeID uni s'" by simp
    obtain fs1 rd where rd: "readCoverGeneration uni d root fs s' = (fs1, rd)" by fastforce
    have k1: "fs1 ?p = fs ?p" "fs ?dir \<noteq> None \<longrightarrow> fs1 ?dir \<noteq> None"
      using read_keeps [OF rd assms(2) p] read_dir [OF rd assms(2)] by auto
    show ?thesis
    proof (cases rd)
      case (Inl e)
      with assms(1) False rd have "fs' = fs1" "mem' = mem"
        by (auto simp: nextCoverGeneration_def)
      with k1 show ?thesis by simp
    next
      case (Inr du)
      then obtain g fs2 e where wr: "writeCoverGeneration uni d root fs1 s' j g = (fs2, e)"
        and res: "fs' = fs2" "mem' = mem \<or> mem' = AList.update s' (j, g) mem"
        using assms(1) False rd by (auto simp: nextCoverGeneration_def Let_def split: prod.splits option.splits)
      have ne: "generationPath root s' \<noteq> ?p" "generationPath root s' \<noteq> ?dir"
        using assms(4) by (auto simp: generationPath_safe [OF assms(3)] generationPath_safe [OF safe'])
      from wr assms(2) safe' have "fs2 ?p = fs1 ?p \<and> (fs1 ?dir \<noteq> None \<longrightarrow> fs2 ?dir \<noteq> None)"
      proof (cases rule: write_cases)
        case kept
        with adds_dirs_other [OF kept(2) below_not_prefix, of ?p] p show ?thesis
          by (auto simp: adds_dirs_def)
      next
        case (written fs3)
        with adds_dirs_other [OF written(1) below_not_prefix, of ?p] p ne show ?thesis
          by (auto simp: adds_dirs_def)
      qed
      with k1 res assms(4) show ?thesis by (auto simp: update_conv')
    qed
  qed
  with assms(5) show ?thesis by (auto simp: epoch_inv_def split: if_splits)
qed

section \<open>Runs\<close>

text \<open>Starts of streams and restarts of the service, which lose the memory but not the disk.\<close>

datatype gen_event = Issue string u64 disk | Restart

fun gen_run ::
  "(nat \<Rightarrow> bool) \<Rightarrow> path \<Rightarrow> gen_event list \<Rightarrow> dfs \<times> gen_memory
    \<Rightarrow> (dfs \<times> gen_memory) \<times> (string \<times> u64 \<times> u64) list" where
  "gen_run uni root [] st = (st, [])"
| "gen_run uni root (Restart # es) st = gen_run uni root es (fst st, [])"
| "gen_run uni root (Issue s j d # es) st =
     (let (st, res) = nextCoverGeneration uni d root s j st;
          (st, issued) = gen_run uni root es st
      in (st, case res of Inl _ \<Rightarrow> issued | Inr g \<Rightarrow> (s, j, g) # issued))"

definition epochs_of :: "string \<Rightarrow> (string \<times> u64 \<times> u64) list \<Rightarrow> (u64 \<times> u64) list" where
  "epochs_of s issued = map snd (filter (\<lambda>e. fst e = s) issued)"

fun jobs_of :: "string \<Rightarrow> gen_event list \<Rightarrow> u64 list" where
  "jobs_of s [] = []"
| "jobs_of s (Restart # es) = jobs_of s es"
| "jobs_of s (Issue s' j d # es) = (if s' = s then j # jobs_of s es else jobs_of s es)"

lemma gen_run_fresh:
  assumes "wf_root root" and "isSafeID uni s"
  shows "epoch_inv root s st r \<Longrightarrow> sorted (fst r # jobs_of s es) \<Longrightarrow> 0 \<notin> set (jobs_of s es) \<Longrightarrow>
    unat (snd r) + length es < 2 ^ 64 \<Longrightarrow>
    sorted_wrt epoch_less (epochs_of s (snd (gen_run uni root es st)))
    \<and> (\<forall>e \<in> set (epochs_of s (snd (gen_run uni root es st))). epoch_less r e)"
proof (induction es arbitrary: st r)
  case Nil
  then show ?case by (simp add: epochs_of_def)
next
  case (Cons ev es)
  show ?case
  proof (cases ev)
    case Restart
    from Cons.prems(1) have "epoch_inv root s (fst st, []) r"
      by (auto simp: epoch_inv_def split: if_splits)
    with Cons.IH Cons.prems Restart show ?thesis by simp
  next
    case (Issue s' j d)
    obtain fs mem fs' mem' res where st: "st = (fs, mem)"
      and nx: "nextCoverGeneration uni d root s' j (fs, mem) = ((fs', mem'), res)"
      by (metis surj_pair)
    obtain st2 issued where rest: "gen_run uni root es (fs', mem') = (st2, issued)" by fastforce
    have out: "snd (gen_run uni root (ev # es) st) = (case res of Inl _ \<Rightarrow> issued | Inr g \<Rightarrow> (s', j, g) # issued)"
      using Issue st nx rest by simp
    show ?thesis
    proof (cases "s' = s")
      case False
      have "epoch_inv root s (fs', mem') r"
        using next_other [OF nx assms(1,2) False] Cons.prems(1) st by simp
      from Cons.IH [OF this] Cons.prems Issue False rest out show ?thesis
        by (auto simp: epochs_of_def split: sum.splits)
    next
      case True
      obtain J G where r: "r = (J, G)" by fastforce
      from Cons.prems(2,3) Issue True r have j: "J \<le> j" "j \<noteq> 0" by auto
      from next_step [OF nx [unfolded True] assms, of J G] Cons.prems(1,4) st r j obtain r' where
        r': "epoch_inv root s (fs', mem') r'" "epoch_le (J, G) r'" "fst r' \<le> j"
          "unat (snd r') \<le> unat G + 1" "\<forall>g. res = Inr g \<longrightarrow> r' = (j, g) \<and> epoch_less (J, G) (j, g)"
        by auto
      have "sorted (fst r' # jobs_of s es)" "0 \<notin> set (jobs_of s es)"
        using Cons.prems(2,3) Issue True r'(3) by auto
      moreover have "unat (snd r') + length es < 2 ^ 64" using Cons.prems(4) r r'(4) by simp
      ultimately have ih: "sorted_wrt epoch_less (epochs_of s issued)"
        "\<forall>e \<in> set (epochs_of s issued). epoch_less r' e"
        using Cons.IH [OF r'(1)] rest by auto
      from ih(2) r'(2) have "\<forall>e \<in> set (epochs_of s issued). epoch_less r e"
        unfolding r epoch_le_def by (auto intro: epoch_less_trans)
      with ih out r r'(5) True show ?thesis
        by (auto simp: epochs_of_def split: sum.splits)
    qed
  qed
qed

section \<open>What a written receipt leaves\<close>

lemma existing_parts_real:
  "[] \<notin> set ws \<Longrightarrow> ''.'' \<notin> set ws \<Longrightarrow> (\<And>q. prefix cur q \<Longrightarrow> prefix q (cur @ ws) \<Longrightarrow> fs q = Some Dir)
    \<Longrightarrow> existing_parts fs cur ws = Inr True"
proof (induction ws arbitrary: cur)
  case (Cons w ws)
  have "fs (cur @ [w]) = Some Dir" by (rule Cons.prems(3)) simp_all
  moreover have "existing_parts fs (cur @ [w]) ws = Inr True"
  proof (rule Cons.IH)
    show "fs q = Some Dir" if "prefix (cur @ [w]) q" "prefix q ((cur @ [w]) @ ws)" for q
      using that by (intro Cons.prems(3)) (auto intro: append_prefixD)
  qed (use Cons.prems in simp_all)
  ultimately show ?case using Cons.prems(1,2) by auto
qed simp

lemma existing_dir_real:
  assumes "\<And>q. prefix root q \<Longrightarrow> prefix q (receiptDir root) \<Longrightarrow> fs q = Some Dir"
  shows "existingStopReceiptDir fs root (receiptDir root) = Inr True"
  using assms existing_parts_real [of "[''state'', ''stop-receipts'']" root fs] assms [of root]
  by (auto simp: existingStopReceiptDir_def path_rel_def)

lemma record_ok:
  assumes "recordStopReceipt uni d root ttl now fs s = (fs', None)" and "wf_root root"
  obtains fs1 where "isSafeID uni s" "adds_dirs fs fs1 (receiptDir root)"
    "fs' = fs1(receiptPath root s \<mapsto> Regular (ReceiptRecord s (Some (now + stopReceiptTTL ttl))))"
    "\<And>q. prefix root q \<Longrightarrow> prefix q (receiptDir root) \<Longrightarrow> fs' q = Some Dir"
proof -
  have safe: "isSafeID uni s" using assms(1) by (auto simp: recordStopReceipt_def newLayout_def split: if_splits)
  obtain fs1 e where en: "ensureDirNoSymlinks (deny d) fs root (receiptDir root) = (fs1, e)" by fastforce
  have wf: "root \<noteq> []" "[] \<notin> set (receiptDir root)" "''.'' \<notin> set (receiptDir root)"
    using assms(2) state_dirs_wf(2) [OF assms(2)] by (auto simp: wf_root_def)
  have e: "e = None" and fs': "fs' = fs1(receiptPath root s \<mapsto> Regular (ReceiptRecord s (Some (now + stopReceiptTTL ttl))))"
    using assms(1) en safe
    by (auto simp: recordStopReceipt_def newLayout_def write_record_def split: if_splits option.splits node.splits)
  show ?thesis
  proof
    show "adds_dirs fs fs1 (receiptDir root)" by (rule ensure_dir_frame [OF en wf])
    show "fs' q = Some Dir" if "prefix root q" "prefix q (receiptDir root)" for q
    proof -
      have "q \<noteq> receiptPath root s"
        using that(2) below_not_prefix [of "receiptDir root" "receiptPath root s"] by (auto simp: receiptPath_safe [OF safe])
      with ensure_dir_real [OF en [unfolded e] wf that] fs' show ?thesis by simp
    qed
  qed (use safe fs' in auto)
qed

section \<open>Properties\<close>

text \<open>
  C16. No visual epoch is issued twice: while the job generations a stream is started with
  do not go back, the pairs of job generation and cover generation that
  \<^verbatim>\<open>nextCoverGeneration\<close> issues for it are strictly increasing, across restarts of the
  service, failed writes, failed directory syncs and the starts of other streams.
\<close>

theorem cover_generations_fresh:
  assumes "wf_root root" and "isSafeID uni s" and "fs (generationPath root s) = None"
    and "sorted (jobs_of s es)" and "0 \<notin> set (jobs_of s es)" and "length es < 2 ^ 64"
  shows "sorted_wrt epoch_less (epochs_of s (snd (gen_run uni root es (fs, []))))"
proof -
  have "epoch_inv root s (fs, []) (0, 0)" using assms(3) by (simp add: epoch_inv_def)
  with gen_run_fresh [OF assms(1,2) this] assms(4-6) show ?thesis by simp
qed

text \<open>
  C31. A stop receipt says that a stream was stopped from when it is written until its time
  to live is over, not later; once it is cleared it is gone; and writing or clearing it says
  nothing about any other stream.
\<close>

theorem stop_receipt_lifecycle:
  assumes "recordStopReceipt uni d root ttl now fs s = (fs', None)"
    and "wf_root root" and "clearStopReceipt uni d' root fs' s = (fs'', None)"
  shows "hasStopReceipt uni root t fs' s = Inr (t < now + stopReceiptTTL ttl)
    \<and> hasStopReceipt uni root t fs'' s = Inr False
    \<and> (isSafeID uni s' \<and> s' \<noteq> s \<longrightarrow> fs' (receiptPath root s') = fs (receiptPath root s')
         \<and> fs'' (receiptPath root s') = fs (receiptPath root s'))"
proof -
  let ?p = "receiptPath root s"
  from record_ok [OF assms(1,2)] obtain fs1 where safe: "isSafeID uni s"
    and ad: "adds_dirs fs fs1 (receiptDir root)"
    and fs': "fs' = fs1(?p \<mapsto> Regular (ReceiptRecord s (Some (now + stopReceiptTTL ttl))))"
    and real: "\<And>q. prefix root q \<Longrightarrow> prefix q (receiptDir root) \<Longrightarrow> fs' q = Some Dir"
    by blast
  have ex: "existingStopReceiptDir fs' root (receiptDir root) = Inr True"
    by (rule existing_dir_real) (rule real)
  have fs'': "fs'' = fs'(?p := None)"
    using assms(3) ex safe fs' by (auto simp: clearStopReceipt_def newLayout_def split: if_splits)
  have "prefix q (receiptDir root) \<Longrightarrow> q \<noteq> ?p" for q
    using below_not_prefix [of "receiptDir root" ?p] by (auto simp: receiptPath_safe [OF safe])
  then have ex'': "existingStopReceiptDir fs'' root (receiptDir root) = Inr True"
    by (intro existing_dir_real) (simp add: fs'' real)
  have other: "fs' (receiptPath root s') = fs (receiptPath root s') \<and> fs'' (receiptPath root s') = fs (receiptPath root s')"
    if "isSafeID uni s'" "s' \<noteq> s"
  proof -
    have "receiptPath root s' \<noteq> ?p" using that by (simp add: receiptPath_safe [OF safe] receiptPath_safe)
    moreover have "fs1 (receiptPath root s') = fs (receiptPath root s')"
      by (rule adds_dirs_other [OF ad]) (rule below_not_prefix, simp add: receiptPath_safe [OF that(1)])
    ultimately show ?thesis by (simp add: fs'' fs')
  qed
  have "hasStopReceipt uni root t fs' s = Inr (t < now + stopReceiptTTL ttl)"
    using ex safe fs' by (simp add: hasStopReceipt_def newLayout_def del: fun_upd_apply) simp
  moreover have "hasStopReceipt uni root t fs'' s = Inr False"
    using ex'' safe fs'' by (simp add: hasStopReceipt_def newLayout_def del: fun_upd_apply) simp
  ultimately show ?thesis using other by blast
qed

theorem cover_generations_fresh_witness:
  "sorted_wrt epoch_less (epochs_of ''s1'' (snd (gen_run (\<lambda>c. False) [''data'']
     [Issue ''s1'' 7 \<lparr>deny = (\<lambda>p. False), sync_fails = True\<rparr>, Restart,
      Issue ''s2'' 3 \<lparr>deny = (\<lambda>p. False), sync_fails = False\<rparr>,
      Issue ''s1'' 7 \<lparr>deny = (\<lambda>p. False), sync_fails = False\<rparr>]
     (\<lambda>p. if p = [''data''] then Some Dir else None, []))))"
  by (rule cover_generations_fresh) (simp_all add: wf_root_def, code_simp+)

definition sample_disk :: disk where
  "sample_disk = \<lparr>deny = (\<lambda>p. False), sync_fails = False\<rparr>"

definition sample_root :: dfs where
  "sample_root = (\<lambda>p. if p = [''data''] then Some Dir else None)"

theorem stop_receipt_lifecycle_witness:
  "\<exists>fs' fs''. recordStopReceipt (\<lambda>c. False) sample_disk [''data''] 0 50 sample_root ''s1'' = (fs', None)
    \<and> clearStopReceipt (\<lambda>c. False) sample_disk [''data''] fs' ''s1'' = (fs'', None)
    \<and> hasStopReceipt (\<lambda>c. False) [''data''] 60 fs' ''s1'' = Inr True
    \<and> hasStopReceipt (\<lambda>c. False) [''data''] 60 fs'' ''s1'' = Inr False"
proof -
  have rec: "snd (recordStopReceipt (\<lambda>c. False) sample_disk [''data''] 0 50 sample_root ''s1'') = None"
    by code_simp
  have clr: "snd (clearStopReceipt (\<lambda>c. False) sample_disk [''data'']
      (fst (recordStopReceipt (\<lambda>c. False) sample_disk [''data''] 0 50 sample_root ''s1'')) ''s1'') = None"
    by code_simp
  obtain fs' where fs': "recordStopReceipt (\<lambda>c. False) sample_disk [''data''] 0 50 sample_root ''s1'' = (fs', None)"
    using rec by (metis prod.collapse)
  obtain fs'' where fs'': "clearStopReceipt (\<lambda>c. False) sample_disk [''data''] fs' ''s1'' = (fs'', None)"
    using clr fs' by (metis fst_conv prod.collapse)
  have "wf_root [''data'']" by (simp add: wf_root_def)
  from stop_receipt_lifecycle [OF fs' this fs'', of 60] fs' fs'' show ?thesis
    by (auto simp: stopReceiptTTL_def second_def millisecond_def)
qed

end
