(* ===== verification/StreamProc.thy ===== *)
theory StreamProc
  imports Jobs DurableState
begin

text \<open>
  The process table of the node, \<^verbatim>\<open>streamproc.Manager\<close>: \<^verbatim>\<open>manager.go\<close>,
  \<^verbatim>\<open>start_preparation.go\<close>, \<^verbatim>\<open>start_preparation_commit.go\<close>,
  \<^verbatim>\<open>process_lifecycle.go\<close> and \<^verbatim>\<open>archive_package.go\<close>. One definition here is one
  section of the code that runs under the manager's lock \<^verbatim>\<open>mu\<close>; theory \<open>SlotSteps\<close> puts
  them together to the concurrent program.

  Pointers are numbers into the heaps \<open>trackeds\<close>, \<open>preps\<close> and \<open>procs\<close>; the Go maps are
  association lists. A channel is a flag that says whether it is closed; closing it twice,
  writing to a nil map and reading through a nil pointer set \<open>panicked\<close>. Texts of errors and
  the times shown in snapshots are left out.
\<close>

section \<open>State\<close>

datatype proc_status = Starting | Running | Stopping | Packaging | Stopped | StFailed
  | PackageFailed | Completed

datatype prep_phase = Preparing | Prepared | Committing | PhRunning | PhFailed | Aborted | Expired

datatype prep_code = NoCode | CodeFeedWitnessFailed | CodeOutputWitnessFailed | CodeCommitFailed
  | CodeProcessExitedEarly | CodeProcessExited

record prep_identity =
  IdStreamID :: string
  IdStartID :: string
  IdServiceID :: string
  IdJobGeneration :: u64
  IdArchiveRunID :: string

record tracked =
  t_stream :: string
  status :: proc_status
  archive_map :: "(string \<times> string) list option"
  process :: "nat option"
  job :: stream_job
  watermark :: bool
  cover :: cover_track
  prep :: "nat option"
  cleaning :: bool

datatype cancel_func = CancelStart | CancelWitness | CancelNothing

record preparation =
  identity :: prep_identity
  p_tracked :: nat
  phase :: prep_phase
  p_code :: prep_code
  expires_at :: nanos
  frame :: "u8 list option"
  cancel :: cancel_func
  start_cancelled :: bool
  cleanup :: bool
  abort_started :: bool
  cleanup_once :: bool
  cleanup_done :: bool
  exited :: "bool option"
  prepare_done :: bool

record proc =
  alive :: bool
  killed :: bool
  done_sent :: bool

record manager =
  trackeds :: "nat \<Rightarrow> tracked"
  n_tracked :: nat
  preps :: "nat \<Rightarrow> preparation"
  n_prep :: nat
  procs :: "nat \<Rightarrow> proc"
  n_proc :: nat
  processes :: "(string \<times> nat) list"
  preparations :: "(string \<times> nat) list"
  preparationOrder :: "string list"
  receipts :: "string list"
  panicked :: bool

definition zero_cover_track :: cover_track where
  "zero_cover_track = \<lparr>c_source = False, c_state = zero_runtime, c_terminal = None, c_replay = [],
     c_replay_order = [], c_transparent = [], c_watermark = \<lparr>l_enabled = False, l_revision = 0,
     l_variant_id = []\<rparr>, c_feed = []\<rparr>"

definition zero_tracked :: tracked where
  "zero_tracked = \<lparr>t_stream = [], status = Starting, archive_map = None, process = None, job = zeroJob,
     watermark = False, cover = zero_cover_track, prep = None, cleaning = False\<rparr>"

definition upd_t :: "nat \<Rightarrow> (tracked \<Rightarrow> tracked) \<Rightarrow> manager \<Rightarrow> manager" where
  "upd_t t f m = m\<lparr>trackeds := (trackeds m)(t := f (trackeds m t))\<rparr>"

definition upd_p :: "nat \<Rightarrow> (preparation \<Rightarrow> preparation) \<Rightarrow> manager \<Rightarrow> manager" where
  "upd_p p f m = m\<lparr>preps := (preps m)(p := f (preps m p))\<rparr>"

definition upd_r :: "nat \<Rightarrow> (proc \<Rightarrow> proc) \<Rightarrow> manager \<Rightarrow> manager" where
  "upd_r r f m = m\<lparr>procs := (procs m)(r := f (procs m r))\<rparr>"

text \<open>The tracked process a stream's entry points to.\<close>

abbreviation entry :: "manager \<Rightarrow> string \<Rightarrow> nat option" where
  "entry m s \<equiv> map_of (processes m) s"

text \<open>\<^verbatim>\<open>m.processes[p.identity.StreamID] == p.tracked\<close>.\<close>

definition is_current :: "manager \<Rightarrow> nat \<Rightarrow> bool" where
  "is_current m p \<longleftrightarrow> entry m (IdStreamID (identity (preps m p))) = Some (p_tracked (preps m p))"

definition processOwnsSlot :: "tracked \<Rightarrow> bool" where
  "processOwnsSlot t \<longleftrightarrow> cleaning t \<or> status t \<in> {Starting, Running, Stopping, Packaging}"

definition isDrained :: "manager \<Rightarrow> bool" where
  "isDrained m \<longleftrightarrow> list_all (\<lambda>(s, t). \<not> processOwnsSlot (trackeds m t)) (processes m)"

definition scrubTrackedProcessJob :: "tracked \<Rightarrow> tracked" where
  "scrubTrackedProcessJob t = t\<lparr>job := scrub_job (job t), cover := scrub_cover (cover t)\<rparr>"

text \<open>\<^verbatim>\<open>p.cancel()\<close>.\<close>

definition call_cancel :: "preparation \<Rightarrow> preparation" where
  "call_cancel p = (if cancel p = CancelStart then p\<lparr>start_cancelled := True\<rparr> else p)"

section \<open>Preparing a start\<close>

text \<open>
  \<^verbatim>\<open>BeginStartPreparation\<close>; \<open>previous\<close> is the job generation \<^verbatim>\<open>readCoverGeneration\<close> returns.
\<close>

definition new_preparation :: "prep_identity \<Rightarrow> nat \<Rightarrow> preparation" where
  "new_preparation i t = \<lparr>identity = i, p_tracked = t, phase = Preparing, p_code = NoCode,
     expires_at = 0, frame = None, cancel = CancelStart, start_cancelled = False, cleanup = False,
     abort_started = False, cleanup_once = False, cleanup_done = False, exited = None,
     prepare_done = False\<rparr>"

definition identity_complete :: "prep_identity \<Rightarrow> bool" where
  "identity_complete i \<longleftrightarrow> IdStreamID i \<noteq> [] \<and> IdStartID i \<noteq> [] \<and> IdServiceID i \<noteq> []
     \<and> IdJobGeneration i \<noteq> 0 \<and> IdArchiveRunID i \<noteq> []"

definition beginStartPreparation ::
  "fs_error + u64 \<Rightarrow> prep_identity \<Rightarrow> manager \<Rightarrow> manager \<times> (proc_error + nat)" where
  "beginStartPreparation previous i m =
     (if \<not> identity_complete i then (m, Inl ErrPreparationConflict)
      else if map_of (preparations m) (IdStartID i) \<noteq> None then (m, Inl ErrPreparationConflict)
      else if \<not> isDrained m then (m, Inl ErrAlreadyRunning)
      else case previous of
             Inl e \<Rightarrow> (m, Inl ErrOther)
           | Inr j \<Rightarrow>
               if IdJobGeneration i \<le> j then (m, Inl ErrPreparationConflict)
               else let t = n_tracked m; p = n_prep m in
                 (m\<lparr>trackeds := (trackeds m)(t := zero_tracked\<lparr>t_stream := IdStreamID i, prep := Some p\<rparr>),
                    n_tracked := t + 1,
                    preps := (preps m)(p := new_preparation i t), n_prep := p + 1,
                    processes := AList.update (IdStreamID i) t (processes m),
                    preparations := AList.update (IdStartID i) p (preparations m)\<rparr>, Inr p))"

definition setPreparationCleanup :: "nat \<Rightarrow> manager \<Rightarrow> manager \<times> proc_error option" where
  "setPreparationCleanup p m =
     (if \<not> is_current m p \<or> phase (preps m p) \<noteq> Preparing then (m, Some ErrPreparationConflict)
      else (upd_p p (\<lambda>x. x\<lparr>cleanup := True\<rparr>) m, None))"

definition prepareStart_job :: "prep_identity \<Rightarrow> stream_job \<Rightarrow> bool" where
  "prepareStart_job i j \<longleftrightarrow> JobStreamID j = IdStreamID i \<and> JobRunID j = IdArchiveRunID i
     \<and> (case VideoCoverStart j of None \<Rightarrow> False | Some v \<Rightarrow> s_job_generation v = IdJobGeneration i)"

text \<open>The check of \<^verbatim>\<open>startProcess\<close> that a preparation still holds its reservation.\<close>

definition reservation_held :: "manager \<Rightarrow> nat \<Rightarrow> bool" where
  "reservation_held m p \<longleftrightarrow> is_current m p \<and> phase (preps m p) = Preparing"

text \<open>FFmpeg is started.\<close>

definition spawn :: "manager \<Rightarrow> manager \<times> nat" where
  "spawn m = (m\<lparr>procs := (procs m)(n_proc m := \<lparr>alive = True, killed = False, done_sent = False\<rparr>),
     n_proc := n_proc m + 1\<rparr>, n_proc m)"

text \<open>
  The section of \<^verbatim>\<open>startProcess\<close> that hands a process to its preparation. The result says
  whether the start was cancelled; \<open>ctx_over\<close> is that the request's context has ended.
\<close>

definition preparation_lifetime :: nanos where
  "preparation_lifetime = 30 * second"

definition install_prepared ::
  "nanos \<Rightarrow> bool \<Rightarrow> stream_job \<Rightarrow> cover_track \<Rightarrow> u8 list \<Rightarrow> (string \<times> string) list \<Rightarrow> nat \<Rightarrow> nat
    \<Rightarrow> manager \<Rightarrow> manager \<times> bool" where
  "install_prepared now ctx_over j c fr artifacts r p m =
     (let pr = preps m p;
          cancelled = (phase pr \<noteq> Preparing \<or> ctx_over \<or> start_cancelled pr);
          m = upd_t (p_tracked pr) (\<lambda>t. t\<lparr>t_stream := JobStreamID j, status := Starting,
                archive_map := Some artifacts, process := Some r, job := j, watermark := True,
                cover := c\<lparr>c_source := True, c_replay := [], c_terminal := c_terminal (cover t),
                  c_replay_order := c_replay_order (cover t)\<rparr>\<rparr>) m;
          m = upd_p p (\<lambda>x. x\<lparr>frame := Some fr, phase := (if cancelled then phase x else Prepared),
                expires_at := now + preparation_lifetime, exited := Some False\<rparr>) m
      in (m, cancelled))"

section \<open>Independent starts\<close>

text \<open>The reservation of \<^verbatim>\<open>startProcess\<close> without a preparation, its release, and the install.\<close>

definition slot_taken :: "manager \<Rightarrow> string \<Rightarrow> bool" where
  "slot_taken m s \<longleftrightarrow> list_ex (\<lambda>(s', t). processOwnsSlot (trackeds m t)
     \<and> (s' = s \<or> prep (trackeds m t) \<noteq> None)) (processes m)"

definition reserve_start :: "stream_job \<Rightarrow> manager \<Rightarrow> manager \<times> (proc_error + nat)" where
  "reserve_start j m =
     (if slot_taken m (JobStreamID j) then (m, Inl ErrAlreadyRunning)
      else let t = n_tracked m in
        (m\<lparr>trackeds := (trackeds m)(t := zero_tracked\<lparr>t_stream := JobStreamID j, job := j\<rparr>),
           n_tracked := t + 1, processes := AList.update (JobStreamID j) t (processes m)\<rparr>, Inr t))"

definition release_start :: "nat \<Rightarrow> manager \<Rightarrow> manager" where
  "release_start t m =
     (let s = t_stream (trackeds m t)
      in if entry m s = Some t then m\<lparr>processes := AList.delete s (processes m)\<rparr> else m)"

definition install_start ::
  "stream_job \<Rightarrow> cover_track \<Rightarrow> (string \<times> string) list \<Rightarrow> nat \<Rightarrow> manager \<Rightarrow> manager \<times> nat" where
  "install_start j c artifacts r m =
     (let t = n_tracked m
      in (m\<lparr>trackeds := (trackeds m)(t := \<lparr>t_stream = JobStreamID j, status = Running,
              archive_map = Some artifacts, process = Some r, job = j, watermark = True,
              cover = c\<lparr>c_source := True, c_replay := []\<rparr>, prep = None, cleaning = False\<rparr>),
            n_tracked := t + 1, processes := AList.update (JobStreamID j) t (processes m)\<rparr>, t))"

section \<open>Looking preparations up\<close>

definition findPreparationLocked :: "prep_identity \<Rightarrow> manager \<Rightarrow> proc_error + nat" where
  "findPreparationLocked i m =
     (case map_of (preparations m) (IdStartID i) of
        None \<Rightarrow> Inl ErrPreparationUnknown
      | Some p \<Rightarrow>
          let expected = identity (preps m p)
          in if IdStreamID expected \<noteq> IdStreamID i \<or> IdServiceID expected \<noteq> IdServiceID i
               \<or> IdJobGeneration expected \<noteq> IdJobGeneration i
               \<or> (IdArchiveRunID i \<noteq> [] \<and> IdArchiveRunID expected \<noteq> IdArchiveRunID i)
             then Inl ErrPreparationConflict else Inr p)"

record preparation_state =
  ps_identity :: prep_identity
  ps_phase :: prep_phase
  ps_code :: prep_code
  ps_expires :: "nanos option"
  ps_process :: "proc_status option"
  ps_cover :: "runtimeState option"

definition preparationStateLocked :: "nat \<Rightarrow> manager \<Rightarrow> preparation_state" where
  "preparationStateLocked p m =
     (let x = preps m p; t = trackeds m (p_tracked x)
      in \<lparr>ps_identity = identity x, ps_phase = phase x, ps_code = p_code x,
          ps_expires = (if phase x = Prepared \<or> phase x = Committing then Some (expires_at x) else None),
          ps_process = (if phase x = PhRunning then Some (status t) else None),
          ps_cover = (if phase x = PhRunning then Some (coverStateSnapshot (cover t)) else None)\<rparr>)"

definition startPreparationStatus :: "string \<Rightarrow> string \<Rightarrow> manager \<Rightarrow> proc_error + preparation_state" where
  "startPreparationStatus streamID startID m =
     (case map_of (preparations m) startID of
        None \<Rightarrow> Inl ErrPreparationUnknown
      | Some p \<Rightarrow> if IdStreamID (identity (preps m p)) \<noteq> streamID \<or> phase (preps m p) = Preparing
                  then Inl ErrPreparationConflict else Inr (preparationStateLocked p m))"

text \<open>\<^verbatim>\<open>rememberPreparationTerminalLocked\<close>: the last 64 finished preparations stay known.\<close>

fun evict_preparations :: "string list \<Rightarrow> (string \<times> nat) list \<Rightarrow> string list \<times> (string \<times> nat) list" where
  "evict_preparations [] ps = ([], ps)"
| "evict_preparations (i # order) ps =
     (if 64 < Suc (length order) then evict_preparations order (AList.delete i ps) else (i # order, ps))"

definition rememberPreparationTerminalLocked :: "nat \<Rightarrow> manager \<Rightarrow> manager" where
  "rememberPreparationTerminalLocked p m =
     (let i = IdStartID (identity (preps m p))
      in if i \<in> set (preparationOrder m) then m
         else case evict_preparations (preparationOrder m @ [i]) (preparations m) of
                (order, ps) \<Rightarrow> m\<lparr>preparationOrder := order, preparations := ps\<rparr>)"

section \<open>Commit\<close>

text \<open>The check and claim of \<^verbatim>\<open>CommitStartPreparation\<close> before the graph is witnessed.\<close>

datatype commit_check = CommitDone preparation_state | CommitConflict | CommitWitness

definition commit_enter :: "nanos \<Rightarrow> nat \<Rightarrow> manager \<Rightarrow> manager \<times> commit_check" where
  "commit_enter now p m =
     (let x = preps m p
      in if phase x = PhRunning \<and> is_current m p \<and> status (trackeds m (p_tracked x)) = Running
         then (m, CommitDone (preparationStateLocked p m))
         else if phase x \<noteq> Prepared \<or> \<not> is_current m p \<or> \<not> now < expires_at x then (m, CommitConflict)
         else (upd_p p (\<lambda>x. x\<lparr>phase := Committing, cancel := CancelWitness\<rparr>) m, CommitWitness))"

text \<open>
  The section after the witness. \<open>outcome\<close> is its error, if any. On an error the caller
  aborts the preparation as failed.
\<close>

definition commit_finish :: "prep_code option \<Rightarrow> nat \<Rightarrow> manager \<Rightarrow> manager \<times> bool" where
  "commit_finish outcome p m =
     (let x = preps m p; t = trackeds m (p_tracked x);
          outcome = (if outcome = None \<and> (\<not> is_current m p \<or> phase x \<noteq> Committing \<or> status t \<noteq> Starting)
                     then Some CodeCommitFailed else outcome)
      in case outcome of
           Some c \<Rightarrow> (upd_p p (\<lambda>x. x\<lparr>p_code := c\<rparr>) m, False)
         | None \<Rightarrow>
             (case VideoCoverStart (job t) of
                None \<Rightarrow> (m\<lparr>panicked := True\<rparr>, False)
              | Some desired \<Rightarrow>
                  (upd_p p (\<lambda>x. x\<lparr>phase := PhRunning, frame := None, cancel := CancelNothing\<rparr>)
                    (upd_t (p_tracked x) (\<lambda>t. t\<lparr>status := Running, cover := (cover t)\<lparr>c_state :=
                        markCoverApplied (c_state (cover t)) (s_revision desired) (s_active desired)
                          (s_cover_asset desired) (c_watermark (cover t))\<rparr>\<rparr>) m), True)))"

section \<open>Abort, expiry and cleanup\<close>

text \<open>The checks of \<^verbatim>\<open>AbortStartPreparation\<close>; \<open>Inr (p, Some s)\<close> answers at once.\<close>

definition abort_request :: "prep_identity \<Rightarrow> manager \<Rightarrow> proc_error + nat \<times> preparation_state option" where
  "abort_request i m =
     (case findPreparationLocked i m of
        Inl e \<Rightarrow> Inl e
      | Inr p \<Rightarrow>
          if phase (preps m p) = Aborted \<and> \<not> cleaning (trackeds m (p_tracked (preps m p)))
          then Inr (p, Some (preparationStateLocked p m))
          else if \<not> is_current m p then Inl ErrPreparationConflict else Inr (p, None))"

text \<open>The first section of \<^verbatim>\<open>abortPreparation\<close>: refused, nothing left to do, or claimed.\<close>

datatype abort_check = AbortConflict | AbortDone | AbortClaimed

definition abort_enter :: "prep_phase \<Rightarrow> nat \<Rightarrow> manager \<Rightarrow> manager \<times> abort_check" where
  "abort_enter ph p m =
     (let x = preps m p
      in if \<not> is_current m p then (m, AbortConflict)
         else if cleanup_done x \<and> prepare_done x \<and> \<not> cleaning (trackeds m (p_tracked x))
         then (upd_p p (\<lambda>x. x\<lparr>phase := ph\<rparr>) m, AbortDone)
         else if abort_started x then (m, AbortConflict)
         else (upd_p p (\<lambda>x. call_cancel (x\<lparr>abort_started := True, phase := ph\<rparr>))
                (upd_t (p_tracked x) (\<lambda>t. t\<lparr>cleaning := True\<rparr>) m), AbortClaimed))"

text \<open>Killing the process, unless it has exited.\<close>

definition abort_kill :: "nat \<Rightarrow> manager \<Rightarrow> manager" where
  "abort_kill p m =
     (case process (trackeds m (p_tracked (preps m p))) of
        None \<Rightarrow> m
      | Some r \<Rightarrow> if exited (preps m p) = Some True then m else upd_r r (\<lambda>x. x\<lparr>killed := True\<rparr>) m)"

text \<open>The last section of \<^verbatim>\<open>abortPreparation\<close>.\<close>

definition abort_final :: "prep_phase \<Rightarrow> nat \<Rightarrow> manager \<Rightarrow> manager" where
  "abort_final ph p m =
     (if \<not> is_current m p then m
      else rememberPreparationTerminalLocked p
        (upd_p p (\<lambda>x. x\<lparr>frame := None, phase := ph\<rparr>)
          (upd_t (p_tracked (preps m p))
            (\<lambda>t. (scrubTrackedProcessJob t)\<lparr>status := StFailed, cleaning := False\<rparr>) m)))"

text \<open>\<^verbatim>\<open>expirePreparation\<close>; True when the caller goes on to abort.\<close>

definition expirePreparation :: "nanos \<Rightarrow> nat \<Rightarrow> manager \<Rightarrow> manager \<times> bool" where
  "expirePreparation now p m =
     (let x = preps m p
      in if map_of (preparations m) (IdStartID (identity x)) \<noteq> Some p \<or> \<not> is_current m p
            \<or> phase x \<noteq> Prepared \<or> now < expires_at x then (m, False)
         else (upd_p p (\<lambda>x. call_cancel (x\<lparr>phase := Expired\<rparr>))
                (upd_t (p_tracked x) (\<lambda>t. t\<lparr>cleaning := True\<rparr>) m), True))"

text \<open>
  \<^verbatim>\<open>cleanupPreparationResources\<close>: its goroutine takes the sources under the lock, and
  reports with \<open>cleanup_done\<close> when it has closed them and run the owner's cleanup.
\<close>

definition cleanup_start :: "nat \<Rightarrow> manager \<Rightarrow> manager \<times> bool" where
  "cleanup_start p m =
     (if cleanup_once (preps m p) then (m, False) else (upd_p p (\<lambda>x. x\<lparr>cleanup_once := True\<rparr>) m, True))"

definition cleanup_take :: "nat \<Rightarrow> manager \<Rightarrow> manager \<times> bool" where
  "cleanup_take p m =
     (upd_t (p_tracked (preps m p)) (\<lambda>t. t\<lparr>watermark := False, cover := (cover t)\<lparr>c_source := False\<rparr>\<rparr>) m,
      cleanup (preps m p))"

definition cleanup_report :: "nat \<Rightarrow> manager \<Rightarrow> manager" where
  "cleanup_report p m =
     (upd_p p (\<lambda>x. x\<lparr>cleanup_done := True\<rparr>) m)\<lparr>panicked := panicked m \<or> cleanup_done (preps m p)\<rparr>"

text \<open>\<^verbatim>\<open>FinishStartPreparation\<close>.\<close>

definition finishStartPreparation :: "nat \<Rightarrow> manager \<Rightarrow> manager" where
  "finishStartPreparation p m =
     (upd_p p (\<lambda>x. x\<lparr>prepare_done := True\<rparr>) m)\<lparr>panicked := panicked m \<or> prepare_done (preps m p)\<rparr>"

section \<open>When a process exits\<close>

text \<open>
  The section of \<^verbatim>\<open>wait\<close> after \<^verbatim>\<open>process.Wait\<close> returned. What follows is a value: nothing,
  because the entry has another process; the end of a preparation that never ran; or the
  cleanup of a process that ran, with the archive job to package afterwards.
\<close>

datatype wait_next = WaitForeign | WaitUnstarted nat nat | WaitCleanup nat "nat option" "package_job option"

definition close_exited :: "nat \<Rightarrow> manager \<Rightarrow> manager" where
  "close_exited p m =
     (upd_p p (\<lambda>x. x\<lparr>exited := Some True\<rparr>) m)\<lparr>panicked := panicked m \<or> exited (preps m p) \<noteq> Some False\<rparr>"

text \<open>The end of a process that ran: \<open>failed\<close> is an exit error, \<open>packager\<close> that archives are packaged.\<close>

definition ran_exit :: "bool \<Rightarrow> bool \<Rightarrow> nat \<Rightarrow> manager \<Rightarrow> manager \<times> package_job option" where
  "ran_exit failed packager t m =
     (let x = trackeds m t; pkg = package_of (job x);
          keep = (\<lambda>st. upd_t t (\<lambda>x. (scrubTrackedProcessJob (x\<lparr>status := st\<rparr>))\<lparr>watermark := False,
            cover := (cover (scrubTrackedProcessJob x))\<lparr>c_source := False\<rparr>\<rparr>) m)
      in if failed \<and> status x \<noteq> Stopping then (keep StFailed, None)
         else if packager then (keep Packaging, Some pkg)
         else (keep Stopped, None))"

definition wait_exit :: "bool \<Rightarrow> bool \<Rightarrow> string \<Rightarrow> nat \<Rightarrow> manager \<Rightarrow> manager \<times> wait_next" where
  "wait_exit failed packager streamID r m =
     (case entry m streamID of
        None \<Rightarrow> (m, WaitForeign)
      | Some t \<Rightarrow>
          if process (trackeds m t) \<noteq> Some r then (m, WaitForeign)
          else let m = upd_t t (\<lambda>x. x\<lparr>cleaning := True\<rparr>) m in
            case prep (trackeds m t) of
              None \<Rightarrow> (case ran_exit failed packager t m of (m, pkg) \<Rightarrow> (m, WaitCleanup t None pkg))
            | Some p \<Rightarrow>
                let m = close_exited p m in
                if phase (preps m p) \<noteq> PhRunning
                then (upd_t t (\<lambda>x. x\<lparr>status := StFailed\<rparr>)
                       (upd_p p (\<lambda>x. call_cancel (x\<lparr>
                          phase := (if phase x = Aborted \<or> phase x = Expired then phase x else PhFailed),
                          p_code := (if p_code x = NoCode then CodeProcessExitedEarly else p_code x)\<rparr>)) m),
                      WaitUnstarted t p)
                else (case ran_exit failed packager t
                        (upd_p p (\<lambda>x. x\<lparr>phase := PhFailed, p_code := CodeProcessExited\<rparr>) m) of
                        (m, pkg) \<Rightarrow> (m, WaitCleanup t (Some p) pkg)))"

text \<open>The last sections of the two ways.\<close>

definition wait_unstarted_final :: "nat \<Rightarrow> nat \<Rightarrow> manager \<Rightarrow> manager" where
  "wait_unstarted_final t p m = rememberPreparationTerminalLocked p
     (upd_t t (\<lambda>x. scrubTrackedProcessJob (x\<lparr>cleaning := False\<rparr>)) m)"

definition wait_final :: "nat \<Rightarrow> nat option \<Rightarrow> manager \<Rightarrow> manager" where
  "wait_final t po m =
     (let m = upd_t t (\<lambda>x. x\<lparr>cleaning := False\<rparr>) m
      in case po of None \<Rightarrow> m | Some p \<Rightarrow> rememberPreparationTerminalLocked p m)"

section \<open>Packaging\<close>

text \<open>The three sections of \<^verbatim>\<open>packageArchive\<close>. The entry of the stream is looked up in each of them.\<close>

definition package_begin :: "package_job \<Rightarrow> manager \<Rightarrow> manager" where
  "package_begin j m =
     (case entry m (PkgStreamID j) of None \<Rightarrow> m | Some t \<Rightarrow> upd_t t (\<lambda>x. x\<lparr>status := Packaging\<rparr>) m)"

definition package_failed :: "package_job \<Rightarrow> manager \<Rightarrow> manager" where
  "package_failed j m =
     (case entry m (PkgStreamID j) of
        None \<Rightarrow> m
      | Some t \<Rightarrow> upd_t t (\<lambda>x. scrubTrackedProcessJob (x\<lparr>status := PackageFailed\<rparr>)) m)"

definition package_completed :: "package_job \<Rightarrow> (string \<times> string) list \<Rightarrow> manager \<Rightarrow> manager" where
  "package_completed j results m =
     (case entry m (PkgStreamID j) of
        None \<Rightarrow> m
      | Some t \<Rightarrow>
          let x = trackeds m t in
          case archive_map x of
            None \<Rightarrow> (upd_t t (\<lambda>x. x\<lparr>status := Completed\<rparr>) m)\<lparr>panicked := True\<rparr>
          | Some a \<Rightarrow> upd_t t (\<lambda>x. scrubTrackedProcessJob (x\<lparr>status := Completed,
              archive_map := Some (foldr (\<lambda>(k, v). AList.update k v) results a)\<rparr>)) m)"

section \<open>Stop and status\<close>

text \<open>
  The first section of \<^verbatim>\<open>Stop\<close>: an answer, or the tracked process to stop. \<open>receipt\<close> is what
  \<^verbatim>\<open>hasStopReceipt\<close> returns.
\<close>

definition stop_begin ::
  "string \<Rightarrow> fs_error + bool \<Rightarrow> manager \<Rightarrow> manager \<times> (proc_error \<times> proc_status option + nat)" where
  "stop_begin streamID receipt m =
     (case entry m streamID of
        None \<Rightarrow> (m, Inl (case receipt of
            Inl e \<Rightarrow> (ErrOther, None)
          | Inr True \<Rightarrow> (ErrAlreadyStopped, Some Stopped)
          | Inr False \<Rightarrow> (ErrNotRunning, None)))
      | Some t \<Rightarrow>
          let st = status (trackeds m t) in
          if st = Running then (upd_t t (\<lambda>x. x\<lparr>status := Stopping\<rparr>) m, Inr t)
          else (m, Inl (if st \<in> {Stopping, Packaging, Stopped, StFailed, PackageFailed}
                        then (ErrAlreadyStopped, Some st)
                        else if st = Starting then (ErrStarting, Some st)
                        else (ErrNotRunning, None))))"

definition stop_targets :: "manager \<Rightarrow> prep_identity list \<times> string list" where
  "stop_targets m =
     (let ts = map (\<lambda>(s, t). (s, trackeds m t)) (processes m)
      in (List.map_filter (\<lambda>(s, t). if status t = Starting
              then map_option (\<lambda>p. identity (preps m p)) (prep t) else None) ts,
          map fst (filter (\<lambda>(s, t). status t = Running) ts)))"

definition status_of :: "string \<Rightarrow> manager \<Rightarrow> proc_error + proc_status" where
  "status_of streamID m =
     (case entry m streamID of None \<Rightarrow> Inl ErrNotRunning | Some t \<Rightarrow> Inr (status (trackeds m t)))"

definition currentStreamID :: "manager \<Rightarrow> string" where
  "currentStreamID m =
     (case find (\<lambda>(s, t). status (trackeds m t) \<in> {Running, Stopping, Packaging}) (processes m) of
        None \<Rightarrow> [] | Some (s, t) \<Rightarrow> s)"

definition activeProcessCount :: "manager \<Rightarrow> nat" where
  "activeProcessCount m =
     length (filter (\<lambda>(s, t). status (trackeds m t) \<in> {Running, Stopping}) (processes m))"

end
