(* ===== verification/SlotSteps.thy ===== *)
theory SlotSteps
  imports StreamProc
begin

text \<open>
  The process table as a concurrent program. Every goroutine that works on it has a program
  counter: the owner of a preparation (the HTTP prepare handler and \<^verbatim>\<open>PrepareStart\<close>), its
  one abort that got past the checks, its cleanup, its commit, the \<^verbatim>\<open>wait\<close> of a process, the
  \<^verbatim>\<open>Stop\<close> that claimed one, and an independent \<^verbatim>\<open>Start\<close>. An event is the next locked
  section of one of them, or one of the ways the world decides: a call arrives, a process exits,
  an operation fails, a wait times out. \<open>exec\<close> gives the state after an event that is
  possible, and None for one that is not.
\<close>

datatype owner_pc = OwnNone | OwnBegun | OwnChecked | OwnSpawned nat | OwnInstalled bool | OwnGone

datatype abort_pc = AbNone | AbWaitPrepare prep_phase | AbWaitExit prep_phase | AbWaitCleanup prep_phase
  | AbReturned | AbTimedOut

datatype cleanup_pc = ClNone | ClStarted | ClTaken bool | ClDone bool

datatype wait_pc = WNone | WRun | WUnstarted nat | WCleanup "nat option" "package_job option"
  | WPackage package_job | WPackaging package_job | WDone

datatype stop_pc = SpNone | SpTerminate | SpWait | SpKillWait | SpReceipt | SpGone

datatype legacy_pc = LgNone | LgReserved | LgSpawned nat | LgGone

record slot =
  mgr :: manager
  owner :: "nat \<Rightarrow> owner_pc"
  timer :: "nat \<Rightarrow> bool"
  aborter :: "nat \<Rightarrow> abort_pc"
  cleaner :: "nat \<Rightarrow> cleanup_pc"
  committer :: "nat \<Rightarrow> bool"
  waiter :: "nat \<Rightarrow> wait_pc"
  stopper :: "nat \<Rightarrow> stop_pc"
  legacy :: "nat \<Rightarrow> legacy_pc"
  abort_calls :: "(nat \<times> prep_phase) list"
  commit_calls :: "nat list"

datatype event =
    EvBegin prep_identity "fs_error + u64"
  | EvSetCleanup nat | EvOwnerFail nat | EvCheck nat stream_job | EvSpawn nat
  | EvInstall nat nanos bool stream_job cover_track "u8 list" "(string \<times> string) list"
  | EvOwnerReturn nat bool
  | EvAbortRequest prep_identity | EvAbortEnter nat prep_phase | EvAbortPrepared nat
  | EvAbortExited nat | EvAbortFinal nat | EvAbortTimeout nat
  | EvCleanupTake nat | EvCleanupDone nat
  | EvCommitRequest prep_identity | EvCommitEnter nat nanos bool | EvCommitFinish nat "prep_code option"
  | EvExpire nat nanos
  | EvExit nat | EvWait nat bool bool | EvWaitUnstarted nat | EvWaitCleaned nat
  | EvPackageBegin nat | EvPackageFailed nat | EvPackageDone nat "(string \<times> string) list"
  | EvStop string "fs_error + bool" | EvTerminate nat bool | EvStopExited nat | EvStopGrace nat bool
  | EvStopReceipt nat bool
  | EvReserve stream_job | EvLegacySpawn nat | EvLegacyFail nat
  | EvLegacyInstall nat stream_job cover_track "(string \<times> string) list"

section \<open>The owner of a preparation\<close>

text \<open>
  \<^verbatim>\<open>prepareStreamStart\<close> (\<^verbatim>\<open>httpapi/start_preparation_routes.go\<close>): when it gives up it
  finishes the preparation and then calls \<^verbatim>\<open>FailStartPreparation\<close>.
\<close>

definition owner_done :: "nat \<Rightarrow> bool \<Rightarrow> slot \<Rightarrow> slot" where
  "owner_done p failed s = s\<lparr>mgr := finishStartPreparation p (mgr s), owner := (owner s)(p := OwnGone),
     abort_calls := (if failed then (p, PhFailed) # abort_calls s else abort_calls s)\<rparr>"

definition own_begin :: "prep_identity \<Rightarrow> fs_error + u64 \<Rightarrow> slot \<Rightarrow> slot option" where
  "own_begin i previous s =
     (case beginStartPreparation previous i (mgr s) of
        (m, Inl e) \<Rightarrow> None
      | (m, Inr p) \<Rightarrow> Some (s\<lparr>mgr := m, owner := (owner s)(p := OwnBegun)\<rparr>))"

definition own_set_cleanup :: "nat \<Rightarrow> slot \<Rightarrow> slot option" where
  "own_set_cleanup p s =
     (if owner s p \<noteq> OwnBegun then None
      else case setPreparationCleanup p (mgr s) of
             (m, None) \<Rightarrow> Some (s\<lparr>mgr := m\<rparr>)
           | (m, Some e) \<Rightarrow> Some (owner_done p True s))"

definition own_fail :: "nat \<Rightarrow> slot \<Rightarrow> slot option" where
  "own_fail p s = (if owner s p \<in> {OwnBegun, OwnChecked} then Some (owner_done p True s) else None)"

text \<open>\<^verbatim>\<open>PrepareStart\<close> up to the check of the reservation; a stop receipt of the stream is cleared first.\<close>

definition own_check :: "nat \<Rightarrow> stream_job \<Rightarrow> slot \<Rightarrow> slot option" where
  "own_check p j s =
     (if owner s p \<noteq> OwnBegun then None
      else if \<not> prepareStart_job (identity (preps (mgr s) p)) j then Some (owner_done p True s)
      else let s = s\<lparr>mgr := (mgr s)\<lparr>receipts := removeAll (JobStreamID j) (receipts (mgr s))\<rparr>\<rparr>
        in if reservation_held (mgr s) p then Some (s\<lparr>owner := (owner s)(p := OwnChecked)\<rparr>)
           else Some (owner_done p True s))"

definition own_spawn :: "nat \<Rightarrow> slot \<Rightarrow> slot option" where
  "own_spawn p s =
     (if owner s p \<noteq> OwnChecked \<or> start_cancelled (preps (mgr s) p) then None
      else case spawn (mgr s) of (m, r) \<Rightarrow> Some (s\<lparr>mgr := m, owner := (owner s)(p := OwnSpawned r)\<rparr>))"

definition own_install ::
  "nat \<Rightarrow> nanos \<Rightarrow> bool \<Rightarrow> stream_job \<Rightarrow> cover_track \<Rightarrow> u8 list \<Rightarrow> (string \<times> string) list \<Rightarrow> slot \<Rightarrow> slot option" where
  "own_install p now ctx_over j c fr artifacts s =
     (case owner s p of
        OwnSpawned r \<Rightarrow>
          if \<not> prepareStart_job (identity (preps (mgr s) p)) j then None
          else (case install_prepared now ctx_over j c fr artifacts r p (mgr s) of
                  (m, cancelled) \<Rightarrow> Some (s\<lparr>mgr := m, owner := (owner s)(p := OwnInstalled cancelled),
                    waiter := (waiter s)(p_tracked (preps (mgr s) p) := WRun)\<rparr>))
      | _ \<Rightarrow> None)"

definition own_return :: "nat \<Rightarrow> bool \<Rightarrow> slot \<Rightarrow> slot option" where
  "own_return p metadata_written s =
     (case owner s p of
        OwnInstalled cancelled \<Rightarrow>
          if cancelled \<or> \<not> metadata_written then Some (owner_done p True s)
          else let i = identity (preps (mgr s) p);
                   failed = (case startPreparationStatus (IdStreamID i) (IdStartID i) (mgr s) of
                               Inl e \<Rightarrow> True | Inr st \<Rightarrow> False)
               in Some ((owner_done p failed s)\<lparr>timer := (timer s)(p := True)\<rparr>)
      | _ \<Rightarrow> None)"

section \<open>Abort, cleanup, commit and expiry\<close>

definition abt_request :: "prep_identity \<Rightarrow> slot \<Rightarrow> slot option" where
  "abt_request i s =
     (case abort_request i (mgr s) of
        Inr (p, None) \<Rightarrow> Some (s\<lparr>abort_calls := (p, Aborted) # abort_calls s\<rparr>)
      | _ \<Rightarrow> None)"

definition abt_enter :: "nat \<Rightarrow> prep_phase \<Rightarrow> slot \<Rightarrow> slot option" where
  "abt_enter p ph s =
     (if (p, ph) \<notin> set (abort_calls s) then None
      else let s' = s\<lparr>abort_calls := remove1 (p, ph) (abort_calls s)\<rparr>
        in case abort_enter ph p (mgr s) of
             (m, AbortClaimed) \<Rightarrow> Some (s'\<lparr>mgr := m, aborter := (aborter s)(p := AbWaitPrepare ph)\<rparr>)
           | (m, _) \<Rightarrow> Some (s'\<lparr>mgr := m\<rparr>))"

definition abt_prepared :: "nat \<Rightarrow> slot \<Rightarrow> slot option" where
  "abt_prepared p s =
     (case aborter s p of
        AbWaitPrepare ph \<Rightarrow>
          if prepare_done (preps (mgr s) p)
          then Some (s\<lparr>mgr := abort_kill p (mgr s), aborter := (aborter s)(p := AbWaitExit ph)\<rparr>)
          else None
      | _ \<Rightarrow> None)"

definition start_cleaner :: "nat \<Rightarrow> slot \<Rightarrow> slot" where
  "start_cleaner p s =
     (case cleanup_start p (mgr s) of
        (m, True) \<Rightarrow> s\<lparr>mgr := m, cleaner := (cleaner s)(p := ClStarted)\<rparr>
      | (m, False) \<Rightarrow> s\<lparr>mgr := m\<rparr>)"

definition abt_exited :: "nat \<Rightarrow> slot \<Rightarrow> slot option" where
  "abt_exited p s =
     (case aborter s p of
        AbWaitExit ph \<Rightarrow>
          if process (trackeds (mgr s) (p_tracked (preps (mgr s) p))) \<noteq> None
             \<and> exited (preps (mgr s) p) \<noteq> Some True then None
          else Some (start_cleaner p (s\<lparr>aborter := (aborter s)(p := AbWaitCleanup ph)\<rparr>))
      | _ \<Rightarrow> None)"

definition abt_final :: "nat \<Rightarrow> slot \<Rightarrow> slot option" where
  "abt_final p s =
     (case aborter s p of
        AbWaitCleanup ph \<Rightarrow>
          if cleanup_done (preps (mgr s) p)
          then Some (s\<lparr>mgr := abort_final ph p (mgr s), aborter := (aborter s)(p := AbReturned)\<rparr>)
          else None
      | _ \<Rightarrow> None)"

definition abt_timeout :: "nat \<Rightarrow> slot \<Rightarrow> slot option" where
  "abt_timeout p s =
     (case aborter s p of
        AbWaitPrepare ph \<Rightarrow> Some (s\<lparr>aborter := (aborter s)(p := AbTimedOut)\<rparr>)
      | AbWaitExit ph \<Rightarrow> Some (s\<lparr>aborter := (aborter s)(p := AbTimedOut)\<rparr>)
      | AbWaitCleanup ph \<Rightarrow> Some (s\<lparr>aborter := (aborter s)(p := AbTimedOut)\<rparr>)
      | _ \<Rightarrow> None)"

definition cln_take :: "nat \<Rightarrow> slot \<Rightarrow> slot option" where
  "cln_take p s =
     (if cleaner s p \<noteq> ClStarted then None
      else case cleanup_take p (mgr s) of
             (m, own) \<Rightarrow> Some (s\<lparr>mgr := m, cleaner := (cleaner s)(p := ClTaken own)\<rparr>))"

definition cln_done :: "nat \<Rightarrow> slot \<Rightarrow> slot option" where
  "cln_done p s =
     (case cleaner s p of
        ClTaken own \<Rightarrow> Some (s\<lparr>mgr := cleanup_report p (mgr s), cleaner := (cleaner s)(p := ClDone own)\<rparr>)
      | _ \<Rightarrow> None)"

definition cmt_request :: "prep_identity \<Rightarrow> slot \<Rightarrow> slot option" where
  "cmt_request i s =
     (case findPreparationLocked i (mgr s) of
        Inl e \<Rightarrow> None
      | Inr p \<Rightarrow> Some (s\<lparr>commit_calls := p # commit_calls s\<rparr>))"

definition cmt_enter :: "nat \<Rightarrow> nanos \<Rightarrow> bool \<Rightarrow> slot \<Rightarrow> slot option" where
  "cmt_enter p now identity_unchanged s =
     (if p \<notin> set (commit_calls s) then None
      else let s' = s\<lparr>commit_calls := remove1 p (commit_calls s)\<rparr>
        in if \<not> identity_unchanged then Some s'
           else case commit_enter now p (mgr s) of
                  (m, CommitWitness) \<Rightarrow> Some (s'\<lparr>mgr := m, committer := (committer s)(p := True)\<rparr>)
                | (m, _) \<Rightarrow> Some (s'\<lparr>mgr := m\<rparr>))"

definition cmt_finish :: "nat \<Rightarrow> prep_code option \<Rightarrow> slot \<Rightarrow> slot option" where
  "cmt_finish p outcome s =
     (if \<not> committer s p then None
      else case commit_finish outcome p (mgr s) of
             (m, ok) \<Rightarrow> Some (s\<lparr>mgr := m, committer := (committer s)(p := False),
               abort_calls := (if ok then abort_calls s else (p, PhFailed) # abort_calls s)\<rparr>))"

definition exp_fire :: "nat \<Rightarrow> nanos \<Rightarrow> slot \<Rightarrow> slot option" where
  "exp_fire p now s =
     (if \<not> timer s p then None
      else case expirePreparation now p (mgr s) of
             (m, claimed) \<Rightarrow> Some (s\<lparr>mgr := m, timer := (timer s)(p := False),
               abort_calls := (if claimed then (p, Expired) # abort_calls s else abort_calls s)\<rparr>))"

section \<open>Exit, packaging and stop\<close>

definition prc_exit :: "nat \<Rightarrow> slot \<Rightarrow> slot option" where
  "prc_exit r s =
     (if r < n_proc (mgr s) \<and> alive (procs (mgr s) r)
      then Some (s\<lparr>mgr := upd_r r (\<lambda>x. x\<lparr>alive := False\<rparr>) (mgr s)\<rparr>) else None)"

text \<open>
  \<^verbatim>\<open>wait\<close> of the tracked process \<open>t\<close>: the result of \<^verbatim>\<open>Wait\<close> goes to the channel \<^verbatim>\<open>done\<close>, and
  a prepared start's cleanup is started.
\<close>

definition wat_exit :: "nat \<Rightarrow> bool \<Rightarrow> bool \<Rightarrow> slot \<Rightarrow> slot option" where
  "wat_exit t failed packager s =
     (case process (trackeds (mgr s) t) of
        None \<Rightarrow> None
      | Some r \<Rightarrow>
          if waiter s t \<noteq> WRun \<or> alive (procs (mgr s) r) then None
          else case wait_exit failed packager (t_stream (trackeds (mgr s) t)) r (mgr s) of
                 (m, next_step) \<Rightarrow>
                   let s = s\<lparr>mgr := upd_r r (\<lambda>x. x\<lparr>done_sent := True\<rparr>) m\<rparr>
                   in case next_step of
                        WaitForeign \<Rightarrow> Some (s\<lparr>waiter := (waiter s)(t := WDone)\<rparr>)
                      | WaitUnstarted t p \<Rightarrow>
                          Some (start_cleaner p (s\<lparr>waiter := (waiter s)(t := WUnstarted p)\<rparr>))
                      | WaitCleanup t None pkg \<Rightarrow> Some (s\<lparr>waiter := (waiter s)(t := WCleanup None pkg)\<rparr>)
                      | WaitCleanup t (Some p) pkg \<Rightarrow>
                          Some (start_cleaner p (s\<lparr>waiter := (waiter s)(t := WCleanup (Some p) pkg)\<rparr>)))"

definition wat_unstarted :: "nat \<Rightarrow> slot \<Rightarrow> slot option" where
  "wat_unstarted t s =
     (case waiter s t of
        WUnstarted p \<Rightarrow>
          if prepare_done (preps (mgr s) p) \<and> cleanup_done (preps (mgr s) p)
          then Some (s\<lparr>mgr := wait_unstarted_final t p (mgr s), waiter := (waiter s)(t := WDone)\<rparr>)
          else None
      | _ \<Rightarrow> None)"

definition wat_cleaned :: "nat \<Rightarrow> slot \<Rightarrow> slot option" where
  "wat_cleaned t s =
     (case waiter s t of
        WCleanup po pkg \<Rightarrow>
          if (case po of None \<Rightarrow> True | Some p \<Rightarrow> cleanup_done (preps (mgr s) p))
          then Some (s\<lparr>mgr := wait_final t po (mgr s), waiter := (waiter s)(t :=
                 (case pkg of None \<Rightarrow> WDone | Some j \<Rightarrow> WPackage j))\<rparr>)
          else None
      | _ \<Rightarrow> None)"

definition pkg_begin :: "nat \<Rightarrow> slot \<Rightarrow> slot option" where
  "pkg_begin t s =
     (case waiter s t of
        WPackage j \<Rightarrow> Some (s\<lparr>mgr := package_begin j (mgr s), waiter := (waiter s)(t := WPackaging j)\<rparr>)
      | _ \<Rightarrow> None)"

definition pkg_failed :: "nat \<Rightarrow> slot \<Rightarrow> slot option" where
  "pkg_failed t s =
     (case waiter s t of
        WPackaging j \<Rightarrow> Some (s\<lparr>mgr := package_failed j (mgr s), waiter := (waiter s)(t := WDone)\<rparr>)
      | _ \<Rightarrow> None)"

definition pkg_done :: "nat \<Rightarrow> (string \<times> string) list \<Rightarrow> slot \<Rightarrow> slot option" where
  "pkg_done t results s =
     (case waiter s t of
        WPackaging j \<Rightarrow>
          Some (s\<lparr>mgr := package_completed j results (mgr s), waiter := (waiter s)(t := WDone)\<rparr>)
      | _ \<Rightarrow> None)"

text \<open>\<^verbatim>\<open>Stop\<close> and \<^verbatim>\<open>stopProcessGracefully\<close>.\<close>

definition stp_begin :: "string \<Rightarrow> fs_error + bool \<Rightarrow> slot \<Rightarrow> slot option" where
  "stp_begin streamID receipt s =
     (case stop_begin streamID receipt (mgr s) of
        (m, Inl answer) \<Rightarrow> None
      | (m, Inr t) \<Rightarrow> Some (s\<lparr>mgr := m, stopper := (stopper s)(t := SpTerminate)\<rparr>))"

definition kill_tracked :: "nat \<Rightarrow> manager \<Rightarrow> manager" where
  "kill_tracked t m =
     (case process (trackeds m t) of
        None \<Rightarrow> m\<lparr>panicked := True\<rparr> | Some r \<Rightarrow> upd_r r (\<lambda>x. x\<lparr>killed := True\<rparr>) m)"

definition stp_terminate :: "nat \<Rightarrow> bool \<Rightarrow> slot \<Rightarrow> slot option" where
  "stp_terminate t ok s =
     (if stopper s t \<noteq> SpTerminate then None
      else if ok then Some (s\<lparr>stopper := (stopper s)(t := SpWait)\<rparr>)
      else Some (s\<lparr>mgr := kill_tracked t (mgr s), stopper := (stopper s)(t := SpGone)\<rparr>))"

definition stp_exited :: "nat \<Rightarrow> slot \<Rightarrow> slot option" where
  "stp_exited t s =
     (case process (trackeds (mgr s) t) of
        None \<Rightarrow> None
      | Some r \<Rightarrow>
          if stopper s t \<in> {SpWait, SpKillWait} \<and> done_sent (procs (mgr s) r)
          then Some (s\<lparr>mgr := upd_r r (\<lambda>x. x\<lparr>done_sent := False\<rparr>) (mgr s),
                 stopper := (stopper s)(t := SpReceipt)\<rparr>)
          else None)"

definition stp_grace :: "nat \<Rightarrow> bool \<Rightarrow> slot \<Rightarrow> slot option" where
  "stp_grace t killed_ok s =
     (if stopper s t = SpWait
      then if killed_ok
           then Some (s\<lparr>mgr := kill_tracked t (mgr s), stopper := (stopper s)(t := SpKillWait)\<rparr>)
           else Some (s\<lparr>stopper := (stopper s)(t := SpGone)\<rparr>)
      else if stopper s t = SpKillWait then Some (s\<lparr>stopper := (stopper s)(t := SpGone)\<rparr>)
      else None)"

definition stp_receipt :: "nat \<Rightarrow> bool \<Rightarrow> slot \<Rightarrow> slot option" where
  "stp_receipt t ok s =
     (if stopper s t \<noteq> SpReceipt then None
      else Some (s\<lparr>mgr := (if ok then (mgr s)\<lparr>receipts := t_stream (trackeds (mgr s) t) # receipts (mgr s)\<rparr>
                           else mgr s), stopper := (stopper s)(t := SpGone)\<rparr>))"

section \<open>Independent starts\<close>

definition leg_reserve :: "stream_job \<Rightarrow> slot \<Rightarrow> slot option" where
  "leg_reserve j s =
     (if JobStreamID j = [] then None
      else case reserve_start j ((mgr s)\<lparr>receipts := removeAll (JobStreamID j) (receipts (mgr s))\<rparr>) of
             (m, Inl e) \<Rightarrow> Some (s\<lparr>mgr := m\<rparr>)
           | (m, Inr t) \<Rightarrow> Some (s\<lparr>mgr := m, legacy := (legacy s)(t := LgReserved)\<rparr>))"

definition leg_spawn :: "nat \<Rightarrow> slot \<Rightarrow> slot option" where
  "leg_spawn t s =
     (if legacy s t \<noteq> LgReserved then None
      else case spawn (mgr s) of (m, r) \<Rightarrow> Some (s\<lparr>mgr := m, legacy := (legacy s)(t := LgSpawned r)\<rparr>))"

definition leg_fail :: "nat \<Rightarrow> slot \<Rightarrow> slot option" where
  "leg_fail t s =
     (case legacy s t of
        LgReserved \<Rightarrow> Some (s\<lparr>mgr := release_start t (mgr s), legacy := (legacy s)(t := LgGone)\<rparr>)
      | LgSpawned r \<Rightarrow> Some (s\<lparr>mgr := release_start t (upd_r r (\<lambda>x. x\<lparr>killed := True\<rparr>) (mgr s)),
          legacy := (legacy s)(t := LgGone)\<rparr>)
      | _ \<Rightarrow> None)"

definition leg_install :: "nat \<Rightarrow> stream_job \<Rightarrow> cover_track \<Rightarrow> (string \<times> string) list \<Rightarrow> slot \<Rightarrow> slot option" where
  "leg_install t j c artifacts s =
     (case legacy s t of
        LgSpawned r \<Rightarrow>
          if JobStreamID j \<noteq> t_stream (trackeds (mgr s) t) then None
          else (case install_start j c artifacts r (mgr s) of
             (m, t') \<Rightarrow> Some (s\<lparr>mgr := m, legacy := (legacy s)(t := LgGone),
               waiter := (waiter s)(t' := WRun)\<rparr>))
      | _ \<Rightarrow> None)"

section \<open>Runs\<close>

fun exec :: "event \<Rightarrow> slot \<Rightarrow> slot option" where
  "exec (EvBegin i previous) s = own_begin i previous s"
| "exec (EvSetCleanup p) s = own_set_cleanup p s"
| "exec (EvOwnerFail p) s = own_fail p s"
| "exec (EvCheck p j) s = own_check p j s"
| "exec (EvSpawn p) s = own_spawn p s"
| "exec (EvInstall p now ctx_over j c fr artifacts) s = own_install p now ctx_over j c fr artifacts s"
| "exec (EvOwnerReturn p ok) s = own_return p ok s"
| "exec (EvAbortRequest i) s = abt_request i s"
| "exec (EvAbortEnter p ph) s = abt_enter p ph s"
| "exec (EvAbortPrepared p) s = abt_prepared p s"
| "exec (EvAbortExited p) s = abt_exited p s"
| "exec (EvAbortFinal p) s = abt_final p s"
| "exec (EvAbortTimeout p) s = abt_timeout p s"
| "exec (EvCleanupTake p) s = cln_take p s"
| "exec (EvCleanupDone p) s = cln_done p s"
| "exec (EvCommitRequest i) s = cmt_request i s"
| "exec (EvCommitEnter p now ok) s = cmt_enter p now ok s"
| "exec (EvCommitFinish p outcome) s = cmt_finish p outcome s"
| "exec (EvExpire p now) s = exp_fire p now s"
| "exec (EvExit r) s = prc_exit r s"
| "exec (EvWait t failed packager) s = wat_exit t failed packager s"
| "exec (EvWaitUnstarted t) s = wat_unstarted t s"
| "exec (EvWaitCleaned t) s = wat_cleaned t s"
| "exec (EvPackageBegin t) s = pkg_begin t s"
| "exec (EvPackageFailed t) s = pkg_failed t s"
| "exec (EvPackageDone t results) s = pkg_done t results s"
| "exec (EvStop streamID receipt) s = stp_begin streamID receipt s"
| "exec (EvTerminate t ok) s = stp_terminate t ok s"
| "exec (EvStopExited t) s = stp_exited t s"
| "exec (EvStopGrace t ok) s = stp_grace t ok s"
| "exec (EvStopReceipt t ok) s = stp_receipt t ok s"
| "exec (EvReserve j) s = leg_reserve j s"
| "exec (EvLegacySpawn t) s = leg_spawn t s"
| "exec (EvLegacyFail t) s = leg_fail t s"
| "exec (EvLegacyInstall t j c artifacts) s = leg_install t j c artifacts s"

fun run :: "event list \<Rightarrow> slot \<Rightarrow> slot option" where
  "run [] s = Some s"
| "run (e # es) s = (case exec e s of None \<Rightarrow> None | Some s \<Rightarrow> run es s)"

text \<open>
  One race is kept apart (theory \<open>SlotProperties\<close> shows what it does): an abort that gets past its checks
  although the process of the preparation has exited and its archive is to be packaged.
\<close>

definition racy :: "event \<Rightarrow> slot \<Rightarrow> bool" where
  "racy e s \<longleftrightarrow> (case e of
     EvAbortEnter p ph \<Rightarrow> status (trackeds (mgr s) (p_tracked (preps (mgr s) p))) = Packaging
       \<and> snd (abort_enter ph p (mgr s)) = AbortClaimed
   | _ \<Rightarrow> False)"

definition empty_manager :: manager where
  "empty_manager = \<lparr>trackeds = (\<lambda>t. zero_tracked), n_tracked = 0,
     preps = (\<lambda>p. new_preparation \<lparr>IdStreamID = [], IdStartID = [], IdServiceID = [],
       IdJobGeneration = 0, IdArchiveRunID = []\<rparr> 0), n_prep = 0,
     procs = (\<lambda>r. \<lparr>alive = False, killed = False, done_sent = False\<rparr>), n_proc = 0,
     processes = [], preparations = [], preparationOrder = [], receipts = [], panicked = False\<rparr>"

definition init :: slot where
  "init = \<lparr>mgr = empty_manager, owner = (\<lambda>p. OwnNone), timer = (\<lambda>p. False), aborter = (\<lambda>p. AbNone),
     cleaner = (\<lambda>p. ClNone), committer = (\<lambda>p. False), waiter = (\<lambda>t. WNone), stopper = (\<lambda>t. SpNone),
     legacy = (\<lambda>t. LgNone), abort_calls = [], commit_calls = []\<rparr>"

inductive reachable :: "slot \<Rightarrow> bool" where
  reachable_init: "reachable init"
| reachable_step: "reachable s \<Longrightarrow> exec e s = Some s' \<Longrightarrow> reachable s'"

text \<open>Without the race.\<close>

inductive calm :: "slot \<Rightarrow> bool" where
  calm_init: "calm init"
| calm_step: "calm s \<Longrightarrow> \<not> racy e s \<Longrightarrow> exec e s = Some s' \<Longrightarrow> calm s'"

lemma calm_reachable: "calm s \<Longrightarrow> reachable s"
  by (induction rule: calm.induct) (auto intro: reachable.intros)

end
