(* ===== verification/SlotInvariant.thy ===== *)
theory SlotInvariant
  imports SlotSteps
begin

text \<open>
  What holds in every calm state of the process table: the shape of the heaps, what the program
  counters of the goroutines say about a tracked process and about a preparation, and that a
  managed start excludes every other one.
\<close>

section \<open>The table of finished preparations\<close>

lemma evict_preparations_props:
  assumes "evict_preparations order ps = (order', ps')" and "distinct order" and "distinct (map fst ps)"
  shows "distinct order' \<and> length order' \<le> 64 \<and> distinct (map fst ps') \<and> set order' \<subseteq> set order
    \<and> fst ` set ps' = fst ` set ps - (set order - set order')
    \<and> (\<forall>k v. map_of ps' k = Some v \<longrightarrow> map_of ps k = Some v)"
  using assms
proof (induction order ps rule: evict_preparations.induct)
  case (1 ps)
  then show ?case by simp
next
  case (2 i order ps)
  show ?case
  proof (cases "64 < Suc (length order)")
    case False
    with 2(2-4) show ?thesis by auto
  next
    case True
    with 2 have ih: "distinct order' \<and> length order' \<le> 64 \<and> distinct (map fst ps') \<and> set order' \<subseteq> set order
      \<and> fst ` set ps' = fst ` set (AList.delete i ps) - (set order - set order')
      \<and> (\<forall>k v. map_of ps' k = Some v \<longrightarrow> map_of (AList.delete i ps) k = Some v)"
      by (simp add: distinct_delete)
    have "map_of ps k = Some v" if "map_of (AList.delete i ps) k = Some v" for k v
      using that by (cases "k = i") (simp_all add: delete_conv')
    moreover have "fst ` set (AList.delete i ps) = fst ` set ps - {i}"
      by (metis delete_keys image_set set_removeAll)
    ultimately have "fst ` set ps' = fst ` set ps - (set (i # order) - set order')"
      "\<forall>k v. map_of ps' k = Some v \<longrightarrow> map_of ps k = Some v"
      using ih 2(3) by auto
    with ih 2(3) show ?thesis by auto
  qed
qed

definition table_ok :: "manager \<Rightarrow> bool" where
  "table_ok m \<longleftrightarrow> distinct (preparationOrder m) \<and> length (preparationOrder m) \<le> 64
     \<and> distinct (map fst (preparations m))
     \<and> (\<forall>k p. map_of (preparations m) k = Some p \<longrightarrow> p < n_prep m \<and> IdStartID (identity (preps m p)) = k)"

text \<open>A preparation that the table still knows and that has not ended.\<close>

definition pending :: "manager \<Rightarrow> nat \<Rightarrow> bool" where
  "pending m p \<longleftrightarrow> (let k = IdStartID (identity (preps m p))
     in map_of (preparations m) k = Some p \<and> k \<notin> set (preparationOrder m))"

definition one_pending :: "manager \<Rightarrow> bool" where
  "one_pending m \<longleftrightarrow> (\<forall>p q. pending m p \<longrightarrow> pending m q \<longrightarrow> p = q)"

lemma remember_fields [simp]:
  "trackeds (rememberPreparationTerminalLocked p m) = trackeds m"
  "n_tracked (rememberPreparationTerminalLocked p m) = n_tracked m"
  "preps (rememberPreparationTerminalLocked p m) = preps m"
  "n_prep (rememberPreparationTerminalLocked p m) = n_prep m"
  "procs (rememberPreparationTerminalLocked p m) = procs m"
  "n_proc (rememberPreparationTerminalLocked p m) = n_proc m"
  "processes (rememberPreparationTerminalLocked p m) = processes m"
  "receipts (rememberPreparationTerminalLocked p m) = receipts m"
  "panicked (rememberPreparationTerminalLocked p m) = panicked m"
  by (simp_all add: rememberPreparationTerminalLocked_def Let_def split_beta)

lemma remember_table:
  assumes "table_ok m"
  shows "table_ok (rememberPreparationTerminalLocked p m)"
    and "pending (rememberPreparationTerminalLocked p m) q \<Longrightarrow> pending m q \<and> q \<noteq> p"
proof -
  define i where "i = IdStartID (identity (preps m p))"
  define m' where "m' = rememberPreparationTerminalLocked p m"
  obtain order ps where e: "evict_preparations (preparationOrder m @ [i]) (preparations m) = (order, ps)"
    by fastforce
  have "table_ok m' \<and> (pending m' q \<longrightarrow> pending m q \<and> q \<noteq> p)"
  proof (cases "i \<in> set (preparationOrder m)")
    case True
    then have "m' = m" by (simp add: m'_def i_def rememberPreparationTerminalLocked_def)
    with assms True show ?thesis by (auto simp: pending_def i_def Let_def)
  next
    case False
    then have m': "preparationOrder m' = order" "preparations m' = ps" "preps m' = preps m" "n_prep m' = n_prep m"
      using e by (simp_all add: m'_def i_def rememberPreparationTerminalLocked_def Let_def)
    have ev: "distinct order" "length order \<le> 64" "distinct (map fst ps)" "set order \<subseteq> insert i (set (preparationOrder m))"
      "fst ` set ps = fst ` set (preparations m) - (insert i (set (preparationOrder m)) - set order)"
      "\<And>k v. map_of ps k = Some v \<Longrightarrow> map_of (preparations m) k = Some v"
      using evict_preparations_props [OF e] assms False by (auto simp: table_ok_def)
    have "table_ok m'"
      using ev assms unfolding table_ok_def m' by blast
    moreover have "pending m q \<and> q \<noteq> p" if "pending m' q"
    proof -
      let ?k = "IdStartID (identity (preps m q))"
      from that have k: "map_of ps ?k = Some q" "?k \<notin> set order"
        by (simp_all add: pending_def m' Let_def)
      then have "?k \<in> fst ` set ps" by (metis map_of_eq_None_iff option.distinct(1))
      with ev(5) k(2) have "?k \<notin> insert i (set (preparationOrder m))" by blast
      with ev(6) [OF k(1)] show ?thesis by (auto simp: pending_def i_def)
    qed
    ultimately show ?thesis by blast
  qed
  then show "table_ok (rememberPreparationTerminalLocked p m)"
    "pending (rememberPreparationTerminalLocked p m) q \<Longrightarrow> pending m q \<and> q \<noteq> p"
    by (auto simp: m'_def)
qed

section \<open>Local invariants\<close>

definition cur :: "manager \<Rightarrow> nat \<Rightarrow> bool" where
  "cur m t \<longleftrightarrow> entry m (t_stream (trackeds m t)) = Some t"

text \<open>
  A tracked process \<open>y\<close> with its \<^verbatim>\<open>wait\<close> at \<open>w\<close> and its \<^verbatim>\<open>Stop\<close> at \<open>sp\<close>; \<open>c\<close> says that the
  stream's entry points to it.
\<close>

definition packaging_inv :: "tracked \<Rightarrow> package_job \<Rightarrow> bool \<Rightarrow> bool" where
  "packaging_inv y j c \<longleftrightarrow> c \<and> status y = Packaging \<and> PkgStreamID j = t_stream y \<and> archive_map y \<noteq> None"

definition track_inv :: "tracked \<Rightarrow> wait_pc \<Rightarrow> stop_pc \<Rightarrow> (nat \<Rightarrow> proc) \<Rightarrow> nat \<Rightarrow> bool \<Rightarrow> bool" where
  "track_inv y w sp R n c \<longleftrightarrow>
     (case process y of
        None \<Rightarrow> w = WNone \<and> sp = SpNone \<and> status y \<noteq> Running
      | Some r \<Rightarrow> r < n \<and> w \<noteq> WNone \<and> (w \<noteq> WRun \<longrightarrow> \<not> alive (R r))
          \<and> (done_sent (R r) \<longrightarrow> \<not> alive (R r)) \<and> (sp = SpReceipt \<longrightarrow> \<not> alive (R r)))
     \<and> (case w of
          WRun \<Rightarrow> c \<and> status y \<in> {Starting, Running, Stopping} \<and> JobStreamID (job y) = t_stream y
            \<and> archive_map y \<noteq> None
        | WCleanup po pkg \<Rightarrow> job_scrubbed (job y) \<and> po = prep y
            \<and> (case pkg of None \<Rightarrow> True | Some j \<Rightarrow> packaging_inv y j c)
        | WUnstarted p \<Rightarrow> prep y = Some p
        | WPackage j \<Rightarrow> packaging_inv y j c
        | WPackaging j \<Rightarrow> packaging_inv y j c
        | _ \<Rightarrow> True)
     \<and> (processOwnsSlot y \<or> job_scrubbed (job y))"

lemma track_inv_frame:
  assumes "track_inv y w sp R n c" and "c \<Longrightarrow> processOwnsSlot y \<Longrightarrow> c'" and "n \<le> n'"
    and "\<And>r. process y = Some r \<Longrightarrow> R' r = R r"
  shows "track_inv y w sp R' n' c'"
  using assms
  by (auto simp: track_inv_def packaging_inv_def processOwnsSlot_def split: option.splits wait_pc.splits)

text \<open>A preparation \<open>x\<close> with its tracked process \<open>y\<close> and the counters of its goroutines.\<close>

definition ended :: "prep_phase \<Rightarrow> bool" where
  "ended ph \<longleftrightarrow> ph \<in> {PhFailed, Aborted, Expired}"

fun starting_pc :: "owner_pc \<Rightarrow> bool" where
  "starting_pc OwnBegun = True"
| "starting_pc OwnChecked = True"
| "starting_pc (OwnSpawned r) = True"
| "starting_pc _ = False"

fun abort_waited :: "abort_pc \<Rightarrow> bool" where
  "abort_waited (AbWaitExit ph) = True"
| "abort_waited (AbWaitCleanup ph) = True"
| "abort_waited AbReturned = True"
| "abort_waited _ = False"

fun abort_target :: "abort_pc \<Rightarrow> bool" where
  "abort_target (AbWaitPrepare ph) = ended ph"
| "abort_target (AbWaitExit ph) = ended ph"
| "abort_target (AbWaitCleanup ph) = ended ph"
| "abort_target _ = True"

fun packaging_pc :: "wait_pc \<Rightarrow> bool" where
  "packaging_pc (WCleanup po pkg) = (pkg \<noteq> None)"
| "packaging_pc (WPackage j) = True"
| "packaging_pc (WPackaging j) = True"
| "packaging_pc _ = False"

text \<open>Packaging starts when the preparation is in the table of the finished ones.\<close>

fun remembered_pc :: "wait_pc \<Rightarrow> bool" where
  "remembered_pc (WPackage j) = True"
| "remembered_pc (WPackaging j) = True"
| "remembered_pc _ = False"

definition owner_inv ::
  "bool \<Rightarrow> bool option \<Rightarrow> nat option \<Rightarrow> proc_status \<Rightarrow> owner_pc \<Rightarrow> abort_pc \<Rightarrow> cleanup_pc \<Rightarrow> wait_pc \<Rightarrow> bool" where
  "owner_inv done ex r st o1 a cl w \<longleftrightarrow>
     o1 \<noteq> OwnNone \<and> (done \<longleftrightarrow> o1 = OwnGone)
   \<and> (starting_pc o1 \<longrightarrow> r = None \<and> st = Starting \<and> cl = ClNone \<and> \<not> abort_waited a)
   \<and> (r \<noteq> None \<longrightarrow> \<not> starting_pc o1 \<and> ex = Some (w \<noteq> WRun))
   \<and> (r = None \<longrightarrow> ex = None \<and> (starting_pc o1 \<or> o1 = OwnGone))"

definition phase_inv ::
  "prep_phase \<Rightarrow> bool \<Rightarrow> proc_status \<Rightarrow> startSnapshot option \<Rightarrow> abort_pc \<Rightarrow> wait_pc \<Rightarrow> bool" where
  "phase_inv ph ab st v a w \<longleftrightarrow>
     (ph = Preparing \<longrightarrow> w = WNone \<or> w = WRun)
   \<and> (ph = Prepared \<or> ph = Committing \<longrightarrow> w = WRun \<and> st = Starting \<and> v \<noteq> None)
   \<and> (ph = PhRunning \<longrightarrow> w = WRun \<and> st \<noteq> Starting)
   \<and> (ab \<longleftrightarrow> a \<noteq> AbNone) \<and> (a \<noteq> AbNone \<longrightarrow> ended ph)"

definition abort_inv :: "bool \<Rightarrow> bool option \<Rightarrow> nat option \<Rightarrow> abort_pc \<Rightarrow> wait_pc \<Rightarrow> bool" where
  "abort_inv done ex r a w \<longleftrightarrow>
     abort_target a \<and> (abort_waited a \<longrightarrow> done)
   \<and> ((\<exists>ph. a = AbWaitCleanup ph) \<or> a = AbReturned \<longrightarrow> r = None \<or> ex = Some True)
   \<and> (packaging_pc w \<longrightarrow> a = AbNone)"

definition cleaner_inv :: "bool \<Rightarrow> bool \<Rightarrow> bool \<Rightarrow> bool option \<Rightarrow> nat option \<Rightarrow> cleanup_pc \<Rightarrow> bool" where
  "cleaner_inv once cdone done ex r cl \<longleftrightarrow>
     (once \<longleftrightarrow> cl \<noteq> ClNone) \<and> (cdone \<longleftrightarrow> (\<exists>b. cl = ClDone b))
   \<and> (cl \<noteq> ClNone \<longrightarrow> done \<and> r = None \<or> ex = Some True)"

definition prep_inv ::
  "preparation \<Rightarrow> tracked \<Rightarrow> owner_pc \<Rightarrow> abort_pc \<Rightarrow> cleanup_pc \<Rightarrow> wait_pc \<Rightarrow> bool \<Rightarrow> bool" where
  "prep_inv x y o1 a cl w c \<longleftrightarrow>
     owner_inv (prepare_done x) (exited x) (process y) (status y) o1 a cl w
   \<and> phase_inv (phase x) (abort_started x) (status y) (VideoCoverStart (job y)) a w
   \<and> abort_inv (prepare_done x) (exited x) (process y) a w
   \<and> cleaner_inv (cleanup_once x) (cleanup_done x) (prepare_done x) (exited x) (process y) cl
   \<and> (starting_pc o1 \<longrightarrow> c)"

lemma prep_inv_frame:
  "prep_inv x y o1 a cl w c \<Longrightarrow> (c \<Longrightarrow> processOwnsSlot y \<Longrightarrow> c') \<Longrightarrow> prep_inv x y o1 a cl w c'"
  by (auto simp: prep_inv_def owner_inv_def processOwnsSlot_def)

text \<open>A tracked process without a preparation.\<close>

fun legacy_busy :: "legacy_pc \<Rightarrow> bool" where
  "legacy_busy LgReserved = True"
| "legacy_busy (LgSpawned r) = True"
| "legacy_busy _ = False"

definition legacy_inv :: "tracked \<Rightarrow> wait_pc \<Rightarrow> legacy_pc \<Rightarrow> bool \<Rightarrow> bool" where
  "legacy_inv y w l c \<longleftrightarrow>
     (legacy_busy l \<longrightarrow> process y = None \<and> status y = Starting \<and> c)
   \<and> (w = WRun \<longrightarrow> status y \<noteq> Starting)"

lemma legacy_inv_frame:
  "legacy_inv y w l c \<Longrightarrow> (c \<Longrightarrow> processOwnsSlot y \<Longrightarrow> c') \<Longrightarrow> legacy_inv y w l c'"
  by (auto simp: legacy_inv_def processOwnsSlot_def)

section \<open>The invariant\<close>

definition entries_ok :: "manager \<Rightarrow> bool" where
  "entries_ok m \<longleftrightarrow> distinct (map fst (processes m))
     \<and> (\<forall>i t. map_of (processes m) i = Some t \<longrightarrow> t < n_tracked m \<and> t_stream (trackeds m t) = i)"

definition links_ok :: "manager \<Rightarrow> bool" where
  "links_ok m \<longleftrightarrow>
     (\<forall>p < n_prep m. p_tracked (preps m p) < n_tracked m \<and> prep (trackeds m (p_tracked (preps m p))) = Some p
        \<and> t_stream (trackeds m (p_tracked (preps m p))) = IdStreamID (identity (preps m p)))
   \<and> (\<forall>t p. t < n_tracked m \<longrightarrow> prep (trackeds m t) = Some p \<longrightarrow> p < n_prep m \<and> p_tracked (preps m p) = t)"

definition unused_ok :: "slot \<Rightarrow> bool" where
  "unused_ok s \<longleftrightarrow>
     (\<forall>t \<ge> n_tracked (mgr s). waiter s t = WNone \<and> stopper s t = SpNone \<and> legacy s t = LgNone)
   \<and> (\<forall>p \<ge> n_prep (mgr s). owner s p = OwnNone \<and> \<not> timer s p \<and> aborter s p = AbNone \<and> cleaner s p = ClNone
        \<and> \<not> committer s p)
   \<and> (\<forall>t < n_tracked (mgr s). prep (trackeds (mgr s) t) \<noteq> None \<longrightarrow> legacy s t = LgNone)"

definition calls_ok :: "slot \<Rightarrow> bool" where
  "calls_ok s \<longleftrightarrow> (\<forall>(p, ph) \<in> set (abort_calls s). p < n_prep (mgr s) \<and> ended ph)
     \<and> (\<forall>p \<in> set (commit_calls s). p < n_prep (mgr s))"

definition heap_ok :: "slot \<Rightarrow> bool" where
  "heap_ok s \<longleftrightarrow> entries_ok (mgr s) \<and> links_ok (mgr s) \<and> unused_ok s \<and> calls_ok s"

text \<open>The goroutine or record that a process belongs to.\<close>

definition holds :: "slot \<Rightarrow> nat \<Rightarrow> nat \<Rightarrow> bool" where
  "holds s t r \<longleftrightarrow> t < n_tracked (mgr s) \<and> (process (trackeds (mgr s) t) = Some r \<or> legacy s t = LgSpawned r
     \<or> (\<exists>p. prep (trackeds (mgr s) t) = Some p \<and> owner s p = OwnSpawned r))"

definition live :: "manager \<Rightarrow> nat \<Rightarrow> bool" where
  "live m r \<longleftrightarrow> r < n_proc m \<and> alive (procs m r) \<and> \<not> killed (procs m r)"

text \<open>A tracked process that has FFmpeg running, or may still start it.\<close>

definition busy :: "slot \<Rightarrow> nat \<Rightarrow> bool" where
  "busy s t \<longleftrightarrow> t < n_tracked (mgr s) \<and> (waiter s t = WRun \<or> legacy_busy (legacy s t)
     \<or> (\<exists>p. prep (trackeds (mgr s) t) = Some p \<and> starting_pc (owner s p)))"

definition exclusive :: "slot \<Rightarrow> bool" where
  "exclusive s \<longleftrightarrow> (\<forall>t u. busy s t \<longrightarrow> busy s u \<longrightarrow> t \<noteq> u \<longrightarrow> prep (trackeds (mgr s) t) = None)"

definition held :: "slot \<Rightarrow> bool" where
  "held s \<longleftrightarrow> (\<forall>t u r. holds s t r \<longrightarrow> holds s u r \<longrightarrow> t = u) \<and> (\<forall>t r. holds s t r \<longrightarrow> r < n_proc (mgr s))
     \<and> (\<forall>r. live (mgr s) r \<longrightarrow> (\<exists>t. holds s t r \<and> busy s t))"

definition local_at :: "nat \<Rightarrow> slot \<Rightarrow> bool" where
  "local_at t s \<longleftrightarrow> (let m = mgr s; y = trackeds m t in
     t < n_tracked m \<longrightarrow>
       track_inv y (waiter s t) (stopper s t) (procs m) (n_proc m) (cur m t)
     \<and> (prep y = None \<longrightarrow> legacy_inv y (waiter s t) (legacy s t) (cur m t))
     \<and> (\<forall>p < n_prep m. p_tracked (preps m p) = t \<longrightarrow>
          prep_inv (preps m p) y (owner s p) (aborter s p) (cleaner s p) (waiter s t) (cur m t)
        \<and> (pending m p \<longrightarrow> cur m t \<and> processOwnsSlot y \<and> \<not> remembered_pc (waiter s t))))"

text \<open>Only the result of a process that has exited is sent.\<close>

definition sent_ok :: "manager \<Rightarrow> bool" where
  "sent_ok m \<longleftrightarrow> (\<forall>r. done_sent (procs m r) \<longrightarrow> \<not> alive (procs m r))"

definition slot_inv :: "slot \<Rightarrow> bool" where
  "slot_inv s \<longleftrightarrow> heap_ok s \<and> table_ok (mgr s) \<and> one_pending (mgr s) \<and> exclusive s \<and> held s
     \<and> sent_ok (mgr s) \<and> \<not> panicked (mgr s) \<and> (\<forall>t. local_at t s)"

section \<open>Steps that change one tracked process\<close>

definition frame :: "nat \<Rightarrow> slot \<Rightarrow> slot \<Rightarrow> bool" where
  "frame t s s' \<longleftrightarrow> (let m = mgr s; m' = mgr s' in
     n_tracked m' = n_tracked m \<and> n_prep m' = n_prep m \<and> processes m' = processes m
   \<and> (\<forall>u. u \<noteq> t \<longrightarrow> trackeds m' u = trackeds m u \<and> waiter s' u = waiter s u \<and> stopper s' u = stopper s u
        \<and> legacy s' u = legacy s u)
   \<and> (\<forall>p. p_tracked (preps m p) \<noteq> t \<or> n_prep m \<le> p \<longrightarrow> preps m' p = preps m p \<and> owner s' p = owner s p
        \<and> timer s' p = timer s p \<and> aborter s' p = aborter s p \<and> cleaner s' p = cleaner s p
        \<and> committer s' p = committer s p)
   \<and> t_stream (trackeds m' t) = t_stream (trackeds m t) \<and> prep (trackeds m' t) = prep (trackeds m t)
   \<and> (\<forall>p. p_tracked (preps m' p) = p_tracked (preps m p) \<and> identity (preps m' p) = identity (preps m p))
   \<and> (n_tracked m \<le> t \<longrightarrow> waiter s' t = WNone \<and> stopper s' t = SpNone \<and> legacy s' t = LgNone)
   \<and> (prep (trackeds m t) \<noteq> None \<longrightarrow> legacy s' t = legacy s t)
   \<and> (\<forall>(p, ph) \<in> set (abort_calls s'). p < n_prep m \<and> ended ph)
   \<and> (\<forall>p \<in> set (commit_calls s'). p < n_prep m)
   \<and> table_ok m' \<and> (\<forall>q. pending m' q \<longrightarrow> pending m q) \<and> \<not> panicked m')"

definition procs_frame :: "nat \<Rightarrow> slot \<Rightarrow> slot \<Rightarrow> bool" where
  "procs_frame t s s' \<longleftrightarrow> (let m = mgr s; m' = mgr s' in
     n_proc m \<le> n_proc m'
   \<and> (\<forall>r u. u \<noteq> t \<longrightarrow> holds s u r \<longrightarrow> procs m' r = procs m r)
   \<and> (\<forall>r < n_proc m. live m' r \<longrightarrow> live m r)
   \<and> (\<forall>r. done_sent (procs m' r) \<longrightarrow> alive (procs m' r) \<longrightarrow> done_sent (procs m r) \<and> alive (procs m r))
   \<and> (\<forall>r. holds s t r \<longrightarrow> live m' r \<longrightarrow> holds s' t r \<and> busy s' t)
   \<and> (\<forall>r. n_proc m \<le> r \<longrightarrow> r < n_proc m' \<longrightarrow> holds s' t r \<and> busy s' t)
   \<and> (\<forall>r. holds s' t r \<longrightarrow> r < n_proc m' \<and> (holds s t r \<or> n_proc m \<le> r))
   \<and> (busy s' t \<longrightarrow> busy s t))"

lemma inv_heap: "slot_inv s \<Longrightarrow> heap_ok s"
  and inv_table: "slot_inv s \<Longrightarrow> table_ok (mgr s)"
  and inv_one_pending: "slot_inv s \<Longrightarrow> one_pending (mgr s)"
  and inv_exclusive: "slot_inv s \<Longrightarrow> exclusive s"
  and inv_held: "slot_inv s \<Longrightarrow> held s"
  and inv_sent: "slot_inv s \<Longrightarrow> sent_ok (mgr s)"
  and inv_panicked: "slot_inv s \<Longrightarrow> \<not> panicked (mgr s)"
  by (simp_all add: slot_inv_def Let_def)

lemma inv_local: "slot_inv s \<Longrightarrow> local_at t s"
  by (simp add: slot_inv_def)

lemma frame_cur: "frame t s s' \<Longrightarrow> cur (mgr s') u = cur (mgr s) u"
  by (cases "u = t") (auto simp: frame_def cur_def Let_def)

lemma frame_heap:
  assumes "heap_ok s" and "frame t s s'"
  shows "heap_ok s'"
proof -
  have st: "t_stream (trackeds (mgr s') u) = t_stream (trackeds (mgr s) u)"
    and pr: "prep (trackeds (mgr s') u) = prep (trackeds (mgr s) u)" for u
    using assms(2) by (cases "u = t"; simp add: frame_def Let_def)+
  have eq: "n_tracked (mgr s') = n_tracked (mgr s)" "n_prep (mgr s') = n_prep (mgr s)"
    "processes (mgr s') = processes (mgr s)"
    "\<And>p. p_tracked (preps (mgr s') p) = p_tracked (preps (mgr s) p)"
    "\<And>p. identity (preps (mgr s') p) = identity (preps (mgr s) p)"
    using assms(2) by (simp_all add: frame_def Let_def)
  have "entries_ok (mgr s')"
    using assms(1) unfolding heap_ok_def entries_ok_def eq st by blast
  moreover have "links_ok (mgr s')"
    using assms(1) unfolding heap_ok_def links_ok_def eq st pr by blast
  moreover have "unused_ok s'"
  proof -
    have "n_tracked (mgr s) \<le> u \<Longrightarrow> waiter s' u = WNone \<and> stopper s' u = SpNone \<and> legacy s' u = LgNone" for u
      using assms by (cases "u = t"; simp add: frame_def heap_ok_def unused_ok_def Let_def)
    moreover have "prep (trackeds (mgr s) u) \<noteq> None \<Longrightarrow> legacy s' u = legacy s u" for u
      using assms(2) by (cases "u = t"; simp add: frame_def Let_def)
    moreover have "n_prep (mgr s) \<le> p \<Longrightarrow> owner s' p = owner s p \<and> timer s' p = timer s p
        \<and> aborter s' p = aborter s p \<and> cleaner s' p = cleaner s p \<and> committer s' p = committer s p" for p
      using assms(2) by (simp add: frame_def Let_def)
    ultimately show ?thesis
      using assms(1) unfolding heap_ok_def unused_ok_def eq pr by simp
  qed
  moreover have "calls_ok s'"
    using assms(2) unfolding calls_ok_def eq frame_def Let_def by blast
  ultimately show ?thesis by (simp add: heap_ok_def)
qed

lemma frame_local:
  assumes "slot_inv s" and "frame t s s'" and "procs_frame t s s'" and "local_at t s'"
  shows "local_at u s'"
proof (cases "u = t \<or> n_tracked (mgr s) \<le> u")
  case True
  then show ?thesis using assms(2,4) by (auto simp: local_at_def frame_def Let_def)
next
  case False
  then have u: "u \<noteq> t" "u < n_tracked (mgr s)" by auto
  let ?m = "mgr s" and ?m' = "mgr s'"
  have T: "trackeds ?m' u = trackeds ?m u" "waiter s' u = waiter s u" "stopper s' u = stopper s u"
    "legacy s' u = legacy s u"
    using assms(2) u(1) by (simp_all add: frame_def Let_def)
  have l: "local_at u s" by (rule inv_local [OF assms(1)])
  have R: "procs ?m' r = procs ?m r" if "process (trackeds ?m u) = Some r" for r
    using that assms(3) u by (auto simp: procs_frame_def holds_def Let_def)
  have "track_inv (trackeds ?m' u) (waiter s' u) (stopper s' u) (procs ?m') (n_proc ?m') (cur ?m' u)"
  proof (rule track_inv_frame)
    show "track_inv (trackeds ?m' u) (waiter s' u) (stopper s' u) (procs ?m) (n_proc ?m) (cur ?m u)"
      using l u by (simp add: local_at_def Let_def T)
  qed (use assms(3) R frame_cur [OF assms(2)] in \<open>auto simp: procs_frame_def Let_def T\<close>)
  moreover have "legacy_inv (trackeds ?m' u) (waiter s' u) (legacy s' u) (cur ?m' u)"
    if "prep (trackeds ?m' u) = None"
    using that l u by (simp add: local_at_def Let_def T frame_cur [OF assms(2)])
  moreover have "prep_inv (preps ?m' p) (trackeds ?m' u) (owner s' p) (aborter s' p) (cleaner s' p)
      (waiter s' u) (cur ?m' u)
    \<and> (pending ?m' p \<longrightarrow> cur ?m' u \<and> processOwnsSlot (trackeds ?m' u) \<and> \<not> remembered_pc (waiter s' u))"
    if "p < n_prep ?m'" "p_tracked (preps ?m' p) = u" for p
  proof -
    have "p < n_prep ?m" "p_tracked (preps ?m p) = u"
      using that assms(2) by (simp_all add: frame_def Let_def)
    moreover from this have "preps ?m' p = preps ?m p" "owner s' p = owner s p" "aborter s' p = aborter s p"
      "cleaner s' p = cleaner s p"
      using assms(2) u(1) by (simp_all add: frame_def Let_def)
    moreover have "pending ?m' p \<Longrightarrow> pending ?m p" using assms(2) by (simp add: frame_def Let_def)
    ultimately show ?thesis
      using l u by (auto simp: local_at_def Let_def T frame_cur [OF assms(2)])
  qed
  ultimately show ?thesis by (simp add: local_at_def Let_def)
qed

lemma frame_other:
  assumes "heap_ok s" and "frame t s s'" and "u \<noteq> t"
  shows "holds s' u r = holds s u r" and "busy s' u = busy s u"
proof -
  have T: "trackeds (mgr s') u = trackeds (mgr s) u" "waiter s' u = waiter s u" "legacy s' u = legacy s u"
    "n_tracked (mgr s') = n_tracked (mgr s)"
    using assms(2,3) by (simp_all add: frame_def Let_def)
  have "owner s' p = owner s p" if "u < n_tracked (mgr s)" "prep (trackeds (mgr s) u) = Some p" for p
  proof -
    have "p_tracked (preps (mgr s) p) = u"
      using assms(1) that unfolding heap_ok_def links_ok_def by blast
    with assms(2,3) show ?thesis by (simp add: frame_def Let_def)
  qed
  then show "holds s' u r = holds s u r" and "busy s' u = busy s u"
    unfolding holds_def busy_def T by auto
qed

lemma local_inv:
  assumes "slot_inv s" and "frame t s s'" and "procs_frame t s s'" and "local_at t s'"
  shows "slot_inv s'"
proof -
  note other = frame_other [OF inv_heap [OF assms(1)] assms(2)]
  have pt: "prep (trackeds (mgr s') u) = prep (trackeds (mgr s) u)" for u
    using assms(2) by (cases "u = t") (simp_all add: frame_def Let_def)
  have busy: "busy s' u \<Longrightarrow> busy s u" for u
    using assms(3) other(2) by (cases "u = t") (auto simp: procs_frame_def Let_def)
  have h: "held s" by (rule inv_held [OF assms(1)])
  have hold: "holds s' u r \<Longrightarrow> holds s u r \<or> u = t \<and> n_proc (mgr s) \<le> r" for u r
    using assms(3) other(1) by (cases "u = t") (auto simp: procs_frame_def Let_def)
  have ex: "exclusive s'"
    using inv_exclusive [OF assms(1)] busy unfolding exclusive_def pt by blast
  have one: "one_pending (mgr s')"
    using inv_one_pending [OF assms(1)] assms(2) unfolding one_pending_def frame_def Let_def by blast
  have "held s'"
    unfolding held_def
  proof (intro conjI allI impI)
    fix u v r assume "holds s' u r" "holds s' v r"
    with hold h show "u = v" unfolding held_def by (metis leD)
  next
    fix u r assume a: "holds s' u r"
    show "r < n_proc (mgr s')"
    proof (cases "u = t")
      case True
      with a assms(3) show ?thesis by (auto simp: procs_frame_def Let_def)
    next
      case False
      with a other(1) h have "r < n_proc (mgr s)" by (auto simp: held_def)
      with assms(3) show ?thesis by (auto simp: procs_frame_def Let_def)
    qed
  next
    fix r assume l: "live (mgr s') r"
    show "\<exists>u. holds s' u r \<and> busy s' u"
    proof (cases "r < n_proc (mgr s)")
      case False
      moreover have "r < n_proc (mgr s')" using l by (simp add: live_def)
      ultimately have "holds s' t r \<and> busy s' t"
        using assms(3) unfolding procs_frame_def Let_def by (metis not_less)
      then show ?thesis by blast
    next
      case True
      with l assms(3) have "live (mgr s) r" by (auto simp: procs_frame_def Let_def)
      with h obtain u where u: "holds s u r" "busy s u" by (auto simp: held_def)
      show ?thesis
      proof (cases "u = t")
        case True
        with u l assms(3) show ?thesis unfolding procs_frame_def Let_def by blast
      next
        case False
        with u other show ?thesis by blast
      qed
    qed
  qed
  moreover have "sent_ok (mgr s')"
    using inv_sent [OF assms(1)] assms(3) unfolding sent_ok_def procs_frame_def Let_def by blast
  ultimately show ?thesis
    using frame_heap [OF inv_heap [OF assms(1)] assms(2)] ex one frame_local [OF assms] assms(2)
    by (simp add: slot_inv_def frame_def Let_def)
qed

text \<open>Steps that start no process; they may kill or end the one of the tracked process.\<close>

definition quiet :: "nat \<Rightarrow> slot \<Rightarrow> slot \<Rightarrow> bool" where
  "quiet t s s' \<longleftrightarrow> t < n_tracked (mgr s) \<and> n_proc (mgr s') = n_proc (mgr s)
     \<and> (\<forall>r. process (trackeds (mgr s) t) \<noteq> Some r \<longrightarrow> procs (mgr s') r = procs (mgr s) r)
     \<and> (\<forall>r. alive (procs (mgr s') r) \<longrightarrow> alive (procs (mgr s) r))
     \<and> (\<forall>r. killed (procs (mgr s) r) \<longrightarrow> killed (procs (mgr s') r))
     \<and> process (trackeds (mgr s') t) = process (trackeds (mgr s) t)
     \<and> (waiter s' t = WRun \<longrightarrow> waiter s t = WRun)
     \<and> (waiter s t = WRun \<longrightarrow> waiter s' t \<noteq> WRun \<longrightarrow>
          (\<forall>r. process (trackeds (mgr s) t) = Some r \<longrightarrow> \<not> alive (procs (mgr s) r)))
     \<and> legacy s' t = legacy s t
     \<and> (\<forall>p r. owner s' p = OwnSpawned r \<longleftrightarrow> owner s p = OwnSpawned r)
     \<and> (\<forall>p. starting_pc (owner s' p) \<longrightarrow> starting_pc (owner s p))"

lemma quiet_procs:
  assumes "slot_inv s" and "frame t s s'" and "quiet t s s'" and "local_at t s'"
  shows "procs_frame t s s'"
proof -
  have sent: "done_sent (procs (mgr s) r) \<and> alive (procs (mgr s) r)"
    if "done_sent (procs (mgr s') r)" "alive (procs (mgr s') r)" for r
  proof (cases "process (trackeds (mgr s') t) = Some r")
    case True
    have "t < n_tracked (mgr s')" using assms(2,3) by (simp add: frame_def quiet_def Let_def)
    with True assms(4) that show ?thesis by (auto simp: local_at_def track_inv_def Let_def)
  next
    case False
    with assms(3) that show ?thesis by (simp add: quiet_def)
  qed
  have n: "n_tracked (mgr s') = n_tracked (mgr s)" and pr: "prep (trackeds (mgr s') t) = prep (trackeds (mgr s) t)"
    using assms(2) by (simp_all add: frame_def Let_def)
  have h: "holds s' t r = holds s t r" for r
    using assms(3) n pr by (auto simp: holds_def quiet_def)
  have b: "busy s' t \<Longrightarrow> busy s t"
    using assms(3) n pr by (auto simp: busy_def quiet_def)
  have live: "live (mgr s') r \<Longrightarrow> live (mgr s) r" for r
    using assms(3) by (auto simp: quiet_def live_def)
  have "busy s' t" if "holds s t r" "live (mgr s') r" for r
  proof -
    from that(1) consider (p) "process (trackeds (mgr s) t) = Some r" | (l) "legacy s t = LgSpawned r"
      | (o) p where "prep (trackeds (mgr s) t) = Some p" "owner s p = OwnSpawned r"
      by (auto simp: holds_def)
    then show ?thesis
    proof cases
      case p
      with that(1) live [OF that(2)] inv_local [OF assms(1), of t] have "waiter s t = WRun"
        by (auto simp: local_at_def track_inv_def holds_def live_def Let_def)
      moreover have "alive (procs (mgr s) r)" using live [OF that(2)] by (simp add: live_def)
      ultimately have "waiter s' t = WRun" using assms(3) p unfolding quiet_def by blast
      with n that(1) show ?thesis by (auto simp: busy_def holds_def)
    next
      case l
      with assms(3) n that(1) show ?thesis by (auto simp: quiet_def busy_def holds_def)
    next
      case o
      from assms(3) o(2) have "owner s' p = OwnSpawned r" by (simp add: quiet_def)
      with o(1) n pr that(1) show ?thesis
        by (auto simp: busy_def holds_def)
    qed
  qed
  moreover have "procs (mgr s') r = procs (mgr s) r" if "u \<noteq> t" "holds s u r" for u r
  proof -
    have "\<not> holds s t r" using that inv_held [OF assms(1)] unfolding held_def by blast
    with assms(3) show ?thesis unfolding quiet_def holds_def by blast
  qed
  moreover have "holds s t r \<Longrightarrow> r < n_proc (mgr s)" for r
    using inv_held [OF assms(1)] by (auto simp: held_def)
  ultimately show ?thesis
    using assms(3) h b live sent unfolding procs_frame_def Let_def by (auto simp: quiet_def)
qed

lemma quiet_inv:
  assumes "slot_inv s" and "frame t s s'" and "quiet t s s'" and "local_at t s'"
  shows "slot_inv s'"
  using local_inv [OF assms(1,2) quiet_procs [OF assms] assms(4)] .

end
