(* ===== verification/SlotLocal.thy ===== *)
theory SlotLocal
  imports SlotInvariant
begin

text \<open>What each locked section does to the local invariants of theory \<open>SlotInvariant\<close>.\<close>

section \<open>Starting, aborting, cleaning up, committing\<close>

lemma scrub_fields [simp]:
  "t_stream (scrubTrackedProcessJob y) = t_stream y" "status (scrubTrackedProcessJob y) = status y"
  "archive_map (scrubTrackedProcessJob y) = archive_map y" "process (scrubTrackedProcessJob y) = process y"
  "prep (scrubTrackedProcessJob y) = prep y" "cleaning (scrubTrackedProcessJob y) = cleaning y"
  "job (scrubTrackedProcessJob y) = scrub_job (job y)" "watermark (scrubTrackedProcessJob y) = watermark y"
  by (simp_all add: scrubTrackedProcessJob_def)

lemma call_cancel_fields [simp]:
  "identity (call_cancel x) = identity x" "p_tracked (call_cancel x) = p_tracked x"
  "phase (call_cancel x) = phase x" "abort_started (call_cancel x) = abort_started x"
  "cleanup_once (call_cancel x) = cleanup_once x" "cleanup_done (call_cancel x) = cleanup_done x"
  "exited (call_cancel x) = exited x" "prepare_done (call_cancel x) = prepare_done x"
  by (simp_all add: call_cancel_def)

lemma prep_finish:
  assumes "prep_inv x y o1 a cl w c" and "o1 \<in> {OwnBegun, OwnChecked} \<or> (\<exists>b. o1 = OwnInstalled b)"
  shows "prep_inv (x\<lparr>prepare_done := True\<rparr>) y OwnGone a cl w c" and "\<not> prepare_done x"
proof -
  show "\<not> prepare_done x" using assms unfolding prep_inv_def by (auto simp: owner_inv_def)
  show "prep_inv (x\<lparr>prepare_done := True\<rparr>) y OwnGone a cl w c"
    using assms unfolding prep_inv_def
    by (simp, auto simp: owner_inv_def, auto simp: abort_inv_def cleaner_inv_def)
qed

lemma prep_set_cleanup: "prep_inv x y o1 a cl w c \<Longrightarrow> prep_inv (x\<lparr>cleanup := b\<rparr>) y o1 a cl w c"
  by (simp add: prep_inv_def)

lemma prep_starting:
  assumes "prep_inv x y o1 a cl w c" and "starting_pc o1" and "starting_pc o2"
  shows "prep_inv x y o2 a cl w c"
  using assms unfolding prep_inv_def by (simp, auto simp: owner_inv_def)

lemma prep_install:
  assumes "prep_inv x y (OwnSpawned r) a cl WNone c" and "VideoCoverStart j \<noteq> None"
    and "phase x \<noteq> Preparing \<longrightarrow> b"
  shows "prep_inv (x\<lparr>frame := fr, phase := (if b then phase x else Prepared), expires_at := e,
      exited := Some False\<rparr>)
    (y\<lparr>t_stream := i, status := Starting, archive_map := m, process := Some r, job := j, watermark := wm,
      cover := cv\<rparr>) (OwnInstalled b) a cl WRun c"
  using assms unfolding prep_inv_def
  by (simp, auto simp: owner_inv_def abort_inv_def cleaner_inv_def phase_inv_def
      ended_def)

lemma track_install:
  assumes "track_inv y WNone sp R n c" and "c" and "r < n" and "done_sent (R r) \<Longrightarrow> \<not> alive (R r)" and "JobStreamID j = t_stream y"
    and "sp = SpNone"
  shows "track_inv (y\<lparr>t_stream := JobStreamID j, status := Starting, archive_map := Some m, process := Some r,
      job := j, watermark := wm, cover := cv\<rparr>) WRun sp R n c"
  using assms by (auto simp: track_inv_def processOwnsSlot_def split: option.splits)

lemma prep_abort_again:
  assumes "prep_inv x y o1 a cl w c" and "cleanup_done x" and "prepare_done x" and "ended ph"
  shows "prep_inv (x\<lparr>phase := ph\<rparr>) y o1 a cl w c"
  using assms unfolding prep_inv_def by (simp, auto simp: phase_inv_def ended_def)

lemma prep_abort_claim:
  assumes "prep_inv x y o1 a cl w c" and "\<not> abort_started x" and "ended ph" and "\<not> packaging_pc w"
  shows "prep_inv (call_cancel (x\<lparr>abort_started := True, phase := ph\<rparr>)) (y\<lparr>cleaning := True\<rparr>) o1
    (AbWaitPrepare ph) cl w c"
  using assms unfolding prep_inv_def
  by (simp, auto simp: phase_inv_def ended_def abort_inv_def owner_inv_def)

lemma track_cleaning: "track_inv y w sp R n c \<Longrightarrow> track_inv (y\<lparr>cleaning := True\<rparr>) w sp R n c"
  by (auto simp: track_inv_def processOwnsSlot_def packaging_inv_def split: option.splits wait_pc.splits)

lemma prep_abort_prepared:
  "prep_inv x y o1 (AbWaitPrepare ph) cl w c \<Longrightarrow> prepare_done x \<Longrightarrow> prep_inv x y o1 (AbWaitExit ph) cl w c"
  unfolding prep_inv_def
  by (auto simp: owner_inv_def phase_inv_def abort_inv_def)

lemma prep_abort_exited:
  "prep_inv x y o1 (AbWaitExit ph) cl w c \<Longrightarrow> process y = None \<or> exited x = Some True \<Longrightarrow>
    prep_inv x y o1 (AbWaitCleanup ph) cl w c"
  unfolding prep_inv_def
  by (auto simp: owner_inv_def phase_inv_def abort_inv_def)

lemma prep_cleanup_start:
  "prep_inv x y o1 a ClNone w c \<Longrightarrow> prepare_done x \<and> process y = None \<or> exited x = Some True \<Longrightarrow>
    prep_inv (x\<lparr>cleanup_once := True\<rparr>) y o1 a ClStarted w c"
  unfolding prep_inv_def by (simp, auto simp: owner_inv_def cleaner_inv_def)

lemma prep_abort_final:
  assumes "prep_inv x y o1 (AbWaitCleanup ph) cl w c"
  shows "prep_inv (x\<lparr>frame := None, phase := ph\<rparr>) ((scrubTrackedProcessJob y)\<lparr>status := StFailed, cleaning := False\<rparr>)
    o1 AbReturned cl w c"
  using assms unfolding prep_inv_def
  by (simp, auto simp: owner_inv_def phase_inv_def abort_inv_def ended_def)

lemma prep_abort_return: "prep_inv x y o1 (AbWaitCleanup ph) cl w c \<Longrightarrow> prep_inv x y o1 AbReturned cl w c"
  unfolding prep_inv_def
  by (auto simp: owner_inv_def phase_inv_def abort_inv_def)

lemma track_abort_final:
  assumes "track_inv y w sp R n c" and "w \<noteq> WRun" and "\<not> packaging_pc w"
  shows "track_inv ((scrubTrackedProcessJob y)\<lparr>status := StFailed, cleaning := False\<rparr>) w sp R n c"
  using assms by (auto simp: track_inv_def split: option.splits wait_pc.splits)

lemma prep_abort_timeout:
  assumes "prep_inv x y o1 a cl w c" and "a \<noteq> AbNone"
  shows "prep_inv x y o1 AbTimedOut cl w c"
  using assms unfolding prep_inv_def
  by (simp, intro conjI, simp add: owner_inv_def, simp add: phase_inv_def, simp add: abort_inv_def)

lemma prep_cleanup_take:
  "prep_inv x y o1 a ClStarted w c \<Longrightarrow> prep_inv x (y\<lparr>watermark := wm, cover := cv\<rparr>) o1 a (ClTaken b) w c"
  unfolding prep_inv_def by (simp, auto simp: owner_inv_def cleaner_inv_def)

lemma track_sources: "track_inv y w sp R n c \<Longrightarrow> track_inv (y\<lparr>watermark := wm, cover := cv\<rparr>) w sp R n c"
  by (auto simp: track_inv_def processOwnsSlot_def packaging_inv_def split: option.splits wait_pc.splits)

lemma prep_cleanup_done:
  assumes "prep_inv x y o1 a (ClTaken b) w c"
  shows "prep_inv (x\<lparr>cleanup_done := True\<rparr>) y o1 a (ClDone b) w c" and "\<not> cleanup_done x"
proof -
  show "\<not> cleanup_done x" using assms unfolding prep_inv_def by (simp add: cleaner_inv_def)
  show "prep_inv (x\<lparr>cleanup_done := True\<rparr>) y o1 a (ClDone b) w c"
    using assms unfolding prep_inv_def by (simp, auto simp: owner_inv_def, auto simp: cleaner_inv_def)
qed

lemma prep_commit_enter:
  "prep_inv x y o1 a cl w c \<Longrightarrow> phase x = Prepared \<Longrightarrow>
    prep_inv (x\<lparr>phase := Committing, cancel := cn\<rparr>) y o1 a cl w c"
  unfolding prep_inv_def by (simp, auto simp: phase_inv_def ended_def)

lemma prep_code: "prep_inv x y o1 a cl w c \<Longrightarrow> prep_inv (x\<lparr>p_code := k\<rparr>) y o1 a cl w c"
  by (simp add: prep_inv_def)

lemma prep_commit:
  assumes "prep_inv x y o1 a cl w c" and "phase x = Committing" and "process y \<noteq> None"
  shows "prep_inv (x\<lparr>phase := PhRunning, frame := fr, cancel := cn\<rparr>) (y\<lparr>status := Running, cover := cv\<rparr>) o1 a cl w c"
    and "VideoCoverStart (job y) \<noteq> None" and "w = WRun"
proof -
  show "VideoCoverStart (job y) \<noteq> None" "w = WRun" using assms by (auto simp: prep_inv_def phase_inv_def)
  then show "prep_inv (x\<lparr>phase := PhRunning, frame := fr, cancel := cn\<rparr>) (y\<lparr>status := Running, cover := cv\<rparr>) o1 a cl w c"
    using assms unfolding prep_inv_def by (simp, auto simp: owner_inv_def phase_inv_def ended_def)
qed

lemma track_commit: "track_inv y WRun sp R n c \<Longrightarrow> track_inv (y\<lparr>status := Running, cover := cv\<rparr>) WRun sp R n c"
  by (auto simp: track_inv_def processOwnsSlot_def split: option.splits)

lemma prep_expire:
  "prep_inv x y o1 a cl w c \<Longrightarrow> phase x = Prepared \<Longrightarrow>
    prep_inv (call_cancel (x\<lparr>phase := Expired\<rparr>)) (y\<lparr>cleaning := True\<rparr>) o1 a cl w c"
  unfolding prep_inv_def by (simp, auto simp: phase_inv_def ended_def)

section \<open>Exit, packaging, stop\<close>

lemma prep_wait_unstarted:
  assumes "prep_inv x y o1 a cl WRun c" and "process y \<noteq> None" and "phase x \<noteq> PhRunning"
  shows "prep_inv (call_cancel (x\<lparr>exited := Some True,
      phase := (if phase x = Aborted \<or> phase x = Expired then phase x else PhFailed), p_code := k\<rparr>))
    (y\<lparr>cleaning := True, status := StFailed\<rparr>) o1 a cl (WUnstarted p) c"
  using assms unfolding prep_inv_def
  by (simp, intro conjI, auto simp: owner_inv_def, auto simp: phase_inv_def ended_def,
      auto simp: abort_inv_def cleaner_inv_def)

lemma track_wait_unstarted:
  assumes "track_inv y WRun sp R n c" and "process y = Some r" and "\<not> alive (R r)" and "prep y = Some p"
  shows "track_inv (y\<lparr>cleaning := True, status := StFailed\<rparr>) (WUnstarted p) sp
    (R(r := (R r)\<lparr>done_sent := True\<rparr>)) n c"
  using assms by (auto simp: track_inv_def processOwnsSlot_def)

lemma prep_wait_ran:
  assumes "prep_inv x y o1 a cl WRun c" and "process y \<noteq> None" and "phase x = PhRunning"
  shows "prep_inv (x\<lparr>exited := Some True, phase := PhFailed, p_code := k\<rparr>)
    ((scrubTrackedProcessJob (y\<lparr>cleaning := True, status := st\<rparr>))\<lparr>watermark := False, cover := cv\<rparr>)
    o1 a cl (WCleanup po pkg) c"
  using assms unfolding prep_inv_def
  by (simp, intro conjI, auto simp: owner_inv_def, auto simp: phase_inv_def ended_def,
      auto simp: abort_inv_def cleaner_inv_def)

lemma track_wait_ran:
  assumes "track_inv y WRun sp R n c" and "process y = Some r" and "\<not> alive (R r)"
    and "pkg \<noteq> None \<Longrightarrow> st = Packaging \<and> pkg = Some (package_of (job y))"
  shows "track_inv ((scrubTrackedProcessJob (y\<lparr>cleaning := True, status := st\<rparr>))\<lparr>watermark := False, cover := cv\<rparr>)
    (WCleanup (prep y) pkg) sp (R(r := (R r)\<lparr>done_sent := True\<rparr>)) n c"
  using assms
  by (auto simp: track_inv_def processOwnsSlot_def packaging_inv_def package_of_def split: option.splits)

lemma prep_wait_done:
  assumes "prep_inv x y o1 a cl w c" and "w = WUnstarted p \<or> w = WCleanup po None \<or> w = WPackaging j"
    and "process y \<noteq> None"
  shows "prep_inv x y o1 a cl WDone c"
  using assms unfolding prep_inv_def
  by (simp, intro conjI, auto simp: owner_inv_def, auto simp: phase_inv_def, auto simp: abort_inv_def)

lemma prep_wait_package:
  assumes "prep_inv x y o1 a cl w c" and "w = WCleanup po (Some j) \<or> w = WPackage j"
    and "process y \<noteq> None" and "w' = WPackage j \<or> w' = WPackaging j"
  shows "prep_inv x y o1 a cl w' c"
  using assms unfolding prep_inv_def
  by (simp, intro conjI, auto simp: owner_inv_def, auto simp: phase_inv_def, auto simp: abort_inv_def)

text \<open>Fields no preparation invariant reads, and a status it does not read after the exit.\<close>

lemma prep_fields:
  assumes "prep_inv x y o1 a cl w c" and "process y' = process y"
    and "(status y' = status y \<and> VideoCoverStart (job y') = VideoCoverStart (job y)) \<or> (w \<notin> {WNone, WRun} \<and> process y \<noteq> None)"
  shows "prep_inv x y' o1 a cl w c"
  using assms unfolding prep_inv_def
  by (elim disjE, simp, simp, intro conjI, auto simp: owner_inv_def, auto simp: phase_inv_def)

lemma track_unstarted_final:
  "track_inv y (WUnstarted p) sp R n c \<Longrightarrow>
    track_inv (scrubTrackedProcessJob (y\<lparr>cleaning := False\<rparr>)) WDone sp R n c"
  by (auto simp: track_inv_def split: option.splits)

lemma track_final:
  "track_inv y (WCleanup po pkg) sp R n c \<Longrightarrow>
    track_inv (y\<lparr>cleaning := False\<rparr>) (case pkg of None \<Rightarrow> WDone | Some j \<Rightarrow> WPackage j) sp R n c"
  by (auto simp: track_inv_def packaging_inv_def processOwnsSlot_def split: option.splits)

lemma track_package_begin:
  "track_inv y (WPackage j) sp R n c \<Longrightarrow> track_inv (y\<lparr>status := Packaging\<rparr>) (WPackaging j) sp R n c"
  by (auto simp: track_inv_def packaging_inv_def processOwnsSlot_def split: option.splits)

lemma track_package_end:
  "track_inv y (WPackaging j) sp R n c \<Longrightarrow> st \<noteq> Running \<Longrightarrow>
    track_inv (scrubTrackedProcessJob (y\<lparr>status := st, archive_map := a\<rparr>)) WDone sp R n c"
  by (auto simp: track_inv_def packaging_inv_def processOwnsSlot_def split: option.splits)

lemma track_stop:
  assumes "track_inv y w sp R n c" and "status y = Running" and "sp' \<noteq> SpReceipt"
  shows "track_inv (y\<lparr>status := Stopping\<rparr>) w sp' R n c"
  using assms by (auto simp: track_inv_def packaging_inv_def processOwnsSlot_def split: option.splits wait_pc.splits)

lemma prep_stop:
  assumes "prep_inv x y o1 a cl w c" and "status y = Running"
  shows "prep_inv x (y\<lparr>status := Stopping\<rparr>) o1 a cl w c"
  using assms unfolding prep_inv_def
  by (simp, intro conjI, auto simp: owner_inv_def, auto simp: phase_inv_def)

lemma track_stopper:
  assumes "track_inv y w sp R n c" and "sp \<noteq> SpNone"
    and "sp' = SpReceipt \<Longrightarrow> \<exists>r. process y = Some r \<and> \<not> alive (R r)"
  shows "track_inv y w sp' R n c"
  using assms by (auto simp: track_inv_def split: option.splits)

text \<open>A process's flags may change as long as it does not come back to life.\<close>

lemma track_procs:
  assumes "track_inv y w sp R n c" and "n \<le> n'"
    and "\<And>r. process y = Some r \<Longrightarrow> (alive (R' r) \<longrightarrow> alive (R r)) \<and> (done_sent (R' r) \<longrightarrow> done_sent (R r))"
  shows "track_inv y w sp R' n' c"
  using assms by (auto simp: track_inv_def split: option.splits)

end
