(* ===== verification/SlotPreservation.thy ===== *)
theory SlotPreservation
  imports SlotLocal
begin

text \<open>Every step but the race keeps the invariant.\<close>

named_theorems slot_updates \<open>how the sections of the code change the heaps\<close>

lemmas [slot_updates] = upd_t_def upd_p_def upd_r_def Let_def

lemma table_same:
  assumes "preparations m' = preparations m" and "preparationOrder m' = preparationOrder m"
    and "n_prep m' = n_prep m" and "\<And>p. identity (preps m' p) = identity (preps m p)"
  shows "table_ok m' = table_ok m" and "pending m' q = pending m q"
  by (simp_all add: table_ok_def pending_def assms)

section \<open>What is known of a preparation\<close>

lemma prep_facts:
  assumes "slot_inv s" and "p < n_prep (mgr s)"
  defines "t \<equiv> p_tracked (preps (mgr s) p)"
  shows "t < n_tracked (mgr s)" and "prep (trackeds (mgr s) t) = Some p" and "legacy s t = LgNone"
    and "\<And>q. q < n_prep (mgr s) \<Longrightarrow> p_tracked (preps (mgr s) q) = t \<Longrightarrow> q = p"
    and "is_current (mgr s) p = cur (mgr s) t"
    and "track_inv (trackeds (mgr s) t) (waiter s t) (stopper s t) (procs (mgr s)) (n_proc (mgr s)) (cur (mgr s) t)"
    and "prep_inv (preps (mgr s) p) (trackeds (mgr s) t) (owner s p) (aborter s p) (cleaner s p)
      (waiter s t) (cur (mgr s) t)"
    and "pending (mgr s) p \<Longrightarrow> cur (mgr s) t \<and> processOwnsSlot (trackeds (mgr s) t) \<and> \<not> remembered_pc (waiter s t)"
proof -
  have l: "links_ok (mgr s)" "unused_ok s" using inv_heap [OF assms(1)] by (simp_all add: heap_ok_def)
  show t: "t < n_tracked (mgr s)" and pr: "prep (trackeds (mgr s) t) = Some p"
    using l(1) assms(2) unfolding links_ok_def t_def by blast+
  show "legacy s t = LgNone" using l(2) t pr by (simp add: unused_ok_def)
  show "q = p" if "q < n_prep (mgr s)" "p_tracked (preps (mgr s) q) = t" for q
  proof -
    have "prep (trackeds (mgr s) (p_tracked (preps (mgr s) q))) = Some q"
      using l(1) that(1) unfolding links_ok_def by blast
    with that(2) pr show ?thesis by simp
  qed
  show "is_current (mgr s) p = cur (mgr s) t"
    using l(1) assms(2) unfolding links_ok_def is_current_def cur_def t_def by metis
  have "local_at t s" by (rule inv_local [OF assms(1)])
  then show "track_inv (trackeds (mgr s) t) (waiter s t) (stopper s t) (procs (mgr s)) (n_proc (mgr s)) (cur (mgr s) t)"
    and "prep_inv (preps (mgr s) p) (trackeds (mgr s) t) (owner s p) (aborter s p) (cleaner s p)
      (waiter s t) (cur (mgr s) t)"
    and "pending (mgr s) p \<Longrightarrow> cur (mgr s) t \<and> processOwnsSlot (trackeds (mgr s) t) \<and> \<not> remembered_pc (waiter s t)"
    using t assms(2) t_def unfolding local_at_def Let_def by blast+
qed

lemma pc_bounds:
  assumes "slot_inv s"
  shows "owner s p \<noteq> OwnNone \<Longrightarrow> p < n_prep (mgr s)" and "timer s p \<Longrightarrow> p < n_prep (mgr s)"
    and "aborter s p \<noteq> AbNone \<Longrightarrow> p < n_prep (mgr s)" and "cleaner s p \<noteq> ClNone \<Longrightarrow> p < n_prep (mgr s)"
    and "committer s p \<Longrightarrow> p < n_prep (mgr s)"
    and "(p, ph) \<in> set (abort_calls s) \<Longrightarrow> p < n_prep (mgr s) \<and> ended ph"
    and "q \<in> set (commit_calls s) \<Longrightarrow> q < n_prep (mgr s)"
    and "waiter s t \<noteq> WNone \<Longrightarrow> t < n_tracked (mgr s)" and "stopper s t \<noteq> SpNone \<Longrightarrow> t < n_tracked (mgr s)"
    and "legacy s t \<noteq> LgNone \<Longrightarrow> t < n_tracked (mgr s) \<and> prep (trackeds (mgr s) t) = None"
proof -
  have u: "unused_ok s" and c: "calls_ok s" using inv_heap [OF assms] by (simp_all add: heap_ok_def)
  have P: "owner s p = OwnNone \<and> \<not> timer s p \<and> aborter s p = AbNone \<and> cleaner s p = ClNone \<and> \<not> committer s p"
    if "\<not> p < n_prep (mgr s)"
    using u that by (simp add: unused_ok_def)
  show "owner s p \<noteq> OwnNone \<Longrightarrow> p < n_prep (mgr s)" "timer s p \<Longrightarrow> p < n_prep (mgr s)"
    "aborter s p \<noteq> AbNone \<Longrightarrow> p < n_prep (mgr s)" "cleaner s p \<noteq> ClNone \<Longrightarrow> p < n_prep (mgr s)"
    "committer s p \<Longrightarrow> p < n_prep (mgr s)"
    using P by blast+
  have T: "waiter s t = WNone \<and> stopper s t = SpNone \<and> legacy s t = LgNone" if "\<not> t < n_tracked (mgr s)"
    using u that by (simp add: unused_ok_def)
  have L: "t < n_tracked (mgr s) \<Longrightarrow> prep (trackeds (mgr s) t) \<noteq> None \<Longrightarrow> legacy s t = LgNone"
    using u by (simp add: unused_ok_def)
  show "waiter s t \<noteq> WNone \<Longrightarrow> t < n_tracked (mgr s)" "stopper s t \<noteq> SpNone \<Longrightarrow> t < n_tracked (mgr s)"
    "legacy s t \<noteq> LgNone \<Longrightarrow> t < n_tracked (mgr s) \<and> prep (trackeds (mgr s) t) = None"
    using T L by blast+
  show "(p, ph) \<in> set (abort_calls s) \<Longrightarrow> p < n_prep (mgr s) \<and> ended ph"
    "q \<in> set (commit_calls s) \<Longrightarrow> q < n_prep (mgr s)"
    using c by (auto simp: calls_ok_def)
qed

text \<open>A step on a preparation and its tracked process.\<close>

lemma prep_step:
  assumes "slot_inv s" and "p < n_prep (mgr s)" and "t = p_tracked (preps (mgr s) p)"
    and "frame t s s'" and "quiet t s s'"
    and "track_inv (trackeds (mgr s') t) (waiter s' t) (stopper s' t) (procs (mgr s')) (n_proc (mgr s)) (cur (mgr s) t)"
    and "prep_inv (preps (mgr s') p) (trackeds (mgr s') t) (owner s' p) (aborter s' p) (cleaner s' p)
      (waiter s' t) (cur (mgr s) t)"
    and "pending (mgr s') p \<Longrightarrow> cur (mgr s) t \<and> processOwnsSlot (trackeds (mgr s') t)
        \<and> \<not> remembered_pc (waiter s' t)"
  shows "slot_inv s'"
proof (rule quiet_inv [OF assms(1,4,5)])
  note f = prep_facts [OF assms(1,2), folded assms(3)]
  have eq: "n_prep (mgr s') = n_prep (mgr s)" "\<And>p. p_tracked (preps (mgr s') p) = p_tracked (preps (mgr s) p)"
    "prep (trackeds (mgr s') t) = prep (trackeds (mgr s) t)"
    using assms(4) by (simp_all add: frame_def Let_def)
  have q: "n_proc (mgr s') = n_proc (mgr s)"
    using assms(5) by (simp add: quiet_def)
  show "local_at t s'"
    unfolding local_at_def Let_def eq q frame_cur [OF assms(4)]
    using assms(6-8) f(2,4) by auto
qed

text \<open>
  The same with the frame spelled out: besides the goroutines and records of \<open>p\<close> only the lists of
  pending calls change, and the table of preparations at most by a \<open>rememberPreparationTerminalLocked\<close>.
\<close>

definition kept :: "nat \<Rightarrow> nat \<Rightarrow> slot \<Rightarrow> slot \<Rightarrow> bool" where
  "kept t p s s' \<longleftrightarrow> (let m = mgr s; m' = mgr s' in
     n_tracked m' = n_tracked m \<and> n_prep m' = n_prep m \<and> n_proc m' = n_proc m
   \<and> (\<forall>r. process (trackeds m t) \<noteq> Some r \<longrightarrow> procs m' r = procs m r)
   \<and> (\<forall>r. alive (procs m' r) \<longrightarrow> alive (procs m r)) \<and> (\<forall>r. killed (procs m r) \<longrightarrow> killed (procs m' r))
   \<and> processes m' = processes m \<and> legacy s' = legacy s \<and> panicked m' = panicked m
   \<and> (\<forall>u. u \<noteq> t \<longrightarrow> trackeds m' u = trackeds m u \<and> waiter s' u = waiter s u \<and> stopper s' u = stopper s u)
   \<and> (\<forall>q. q \<noteq> p \<longrightarrow> preps m' q = preps m q \<and> owner s' q = owner s q \<and> timer s' q = timer s q
        \<and> aborter s' q = aborter s q \<and> cleaner s' q = cleaner s q \<and> committer s' q = committer s q)
   \<and> identity (preps m' p) = identity (preps m p) \<and> p_tracked (preps m' p) = p_tracked (preps m p)
   \<and> t_stream (trackeds m' t) = t_stream (trackeds m t) \<and> prep (trackeds m' t) = prep (trackeds m t)
   \<and> process (trackeds m' t) = process (trackeds m t)
   \<and> (\<forall>(q, ph) \<in> set (abort_calls s'). (q, ph) \<in> set (abort_calls s) \<or> q = p \<and> ended ph)
   \<and> (\<forall>q \<in> set (commit_calls s'). q \<in> set (commit_calls s) \<or> q = p)
   \<and> (waiter s' t = WRun \<longrightarrow> waiter s t = WRun)
   \<and> (waiter s t = WRun \<longrightarrow> waiter s' t \<noteq> WRun \<longrightarrow>
        (\<forall>r. process (trackeds m t) = Some r \<longrightarrow> \<not> alive (procs m r)))
   \<and> (starting_pc (owner s' p) \<longrightarrow> starting_pc (owner s p))
   \<and> (\<forall>r. owner s' p = OwnSpawned r \<longleftrightarrow> owner s p = OwnSpawned r))"

lemma kept_step:
  assumes "slot_inv s" and "p < n_prep (mgr s)" and "t = p_tracked (preps (mgr s) p)" and k: "kept t p s s'"
    and table: "table_ok (mgr s')" "\<And>q. pending (mgr s') q \<Longrightarrow> pending (mgr s) q"
    and loc: "track_inv (trackeds (mgr s') t) (waiter s' t) (stopper s' t) (procs (mgr s')) (n_proc (mgr s)) (cur (mgr s) t)"
      "prep_inv (preps (mgr s') p) (trackeds (mgr s') t) (owner s' p) (aborter s' p) (cleaner s' p)
        (waiter s' t) (cur (mgr s) t)"
      "pending (mgr s') p \<Longrightarrow> cur (mgr s) t \<and> processOwnsSlot (trackeds (mgr s') t)
        \<and> \<not> remembered_pc (waiter s' t)"
  shows "slot_inv s'"
proof (rule prep_step [OF assms(1-3) _ _ loc])
  note f = prep_facts [OF assms(1,2), folded assms(3)]
  have P: "p_tracked (preps (mgr s') q) = p_tracked (preps (mgr s) q) \<and> identity (preps (mgr s') q) = identity (preps (mgr s) q)" for q
    using k by (cases "q = p") (simp_all add: kept_def Let_def)
  have other: "q \<noteq> p" if "p_tracked (preps (mgr s) q) \<noteq> t \<or> n_prep (mgr s) \<le> q" for q
    using that assms(2,3) by auto
  have calls: "q < n_prep (mgr s) \<and> ended ph" if "(q, ph) \<in> set (abort_calls s')" for q ph
  proof -
    have "(q, ph) \<in> set (abort_calls s) \<or> q = p \<and> ended ph"
      using k that unfolding kept_def Let_def by blast
    with pc_bounds(6) [OF assms(1)] assms(2) show ?thesis by blast
  qed
  have commits: "q < n_prep (mgr s)" if "q \<in> set (commit_calls s')" for q
    using k that assms(2) pc_bounds(7) [OF assms(1)] unfolding kept_def Let_def by blast
  have np: "\<not> panicked (mgr s')" using k inv_panicked [OF assms(1)] by (simp add: kept_def Let_def)
  have same: "n_tracked (mgr s') = n_tracked (mgr s)" "n_prep (mgr s') = n_prep (mgr s)"
    "processes (mgr s') = processes (mgr s)" "legacy s' = legacy s"
    "t_stream (trackeds (mgr s') t) = t_stream (trackeds (mgr s) t)"
    "prep (trackeds (mgr s') t) = prep (trackeds (mgr s) t)"
    and T: "\<And>u. u \<noteq> t \<Longrightarrow> trackeds (mgr s') u = trackeds (mgr s) u \<and> waiter s' u = waiter s u \<and> stopper s' u = stopper s u"
    and Q: "\<And>q. q \<noteq> p \<Longrightarrow> preps (mgr s') q = preps (mgr s) q \<and> owner s' q = owner s q \<and> timer s' q = timer s q
        \<and> aborter s' q = aborter s q \<and> cleaner s' q = cleaner s q \<and> committer s' q = committer s q"
    using k by (simp_all add: kept_def Let_def)
  show "frame t s s'"
    unfolding frame_def Let_def
    using same T Q [OF other] P table np calls commits f(1) by (intro conjI allI impI ballI) auto
  have o1: "owner s' q = OwnSpawned r \<longleftrightarrow> owner s q = OwnSpawned r"
    and o2: "starting_pc (owner s' q) \<Longrightarrow> starting_pc (owner s q)" for q r
    using k by (cases "q = p"; simp add: kept_def Let_def)+
  show "quiet t s s'"
    using k f(1) o1 o2 unfolding quiet_def kept_def Let_def by (intro conjI) simp_all
qed

text \<open>When the table of preparations does not change.\<close>

lemma kept_table:
  assumes "slot_inv s" and "kept t p s s'" and "preparations (mgr s') = preparations (mgr s)"
    and "preparationOrder (mgr s') = preparationOrder (mgr s)"
  shows "table_ok (mgr s')" "pending (mgr s') q = pending (mgr s) q"
proof -
  have "n_prep (mgr s') = n_prep (mgr s)" using assms(2) by (simp add: kept_def Let_def)
  moreover have "identity (preps (mgr s') q) = identity (preps (mgr s) q)" for q
    using assms(2) by (cases "q = p") (simp_all add: kept_def Let_def)
  ultimately show "table_ok (mgr s')" "pending (mgr s') q = pending (mgr s) q"
    using table_same [OF assms(3,4)] inv_table [OF assms(1)] by simp_all
qed

lemma kept_inv:
  assumes "slot_inv s" and "p < n_prep (mgr s)" and "t = p_tracked (preps (mgr s) p)" and "kept t p s s'"
    and "preparations (mgr s') = preparations (mgr s)" "preparationOrder (mgr s') = preparationOrder (mgr s)"
    and "track_inv (trackeds (mgr s') t) (waiter s' t) (stopper s' t) (procs (mgr s')) (n_proc (mgr s)) (cur (mgr s) t)"
    and "prep_inv (preps (mgr s') p) (trackeds (mgr s') t) (owner s' p) (aborter s' p) (cleaner s' p)
        (waiter s' t) (cur (mgr s) t)"
    and "processOwnsSlot (trackeds (mgr s) t) \<Longrightarrow> \<not> remembered_pc (waiter s t) \<Longrightarrow>
      processOwnsSlot (trackeds (mgr s') t) \<and> \<not> remembered_pc (waiter s' t)"
  shows "slot_inv s'"
  using kept_step [OF assms(1-4) kept_table(1) [OF assms(1,4-6)] _ assms(7,8)]
    kept_table(2) [OF assms(1,4-6)] prep_facts(8) [OF assms(1,2)] assms(3,9) by blast

section \<open>The owner\<close>

lemma owner_done_inv:
  assumes "slot_inv s" and "owner s p \<in> {OwnBegun, OwnChecked} \<or> (\<exists>b. owner s p = OwnInstalled b)"
  shows "slot_inv (owner_done p failed s)"
proof -
  have p: "p < n_prep (mgr s)" using assms by (auto intro: pc_bounds)
  note f = prep_facts [OF assms(1) p] and fin = prep_finish [OF prep_facts(7) [OF assms(1) p] assms(2)]
  note d = owner_done_def finishStartPreparation_def slot_updates
  show ?thesis
  proof (rule kept_inv [OF assms(1) p refl])
    show "kept (p_tracked (preps (mgr s) p)) p s (owner_done p failed s)"
      using assms(2) fin(2) by (auto simp: kept_def d ended_def)
  qed (use f(6) fin(1) in \<open>simp_all add: d\<close>)
qed

lemma own_set_cleanup_inv:
  assumes "slot_inv s" and "own_set_cleanup p s = Some s'"
  shows "slot_inv s'"
proof -
  have o1: "owner s p = OwnBegun" using assms(2) by (simp add: own_set_cleanup_def split: if_splits)
  then have p: "p < n_prep (mgr s)" by (intro pc_bounds(1) [OF assms(1)]) simp
  note f = prep_facts [OF assms(1) p]
  let ?s' = "s\<lparr>mgr := upd_p p (\<lambda>x. x\<lparr>cleanup := True\<rparr>) (mgr s)\<rparr>"
  have "s' = owner_done p True s \<or> s' = ?s'"
    using assms(2) o1 by (auto simp: own_set_cleanup_def setPreparationCleanup_def split: if_splits)
  moreover have "slot_inv ?s'"
  proof (rule kept_inv [OF assms(1) p refl])
    show "kept (p_tracked (preps (mgr s) p)) p s ?s'" by (auto simp: kept_def slot_updates)
  qed (use f(6) prep_set_cleanup [OF f(7)] in \<open>simp_all add: slot_updates\<close>)
  ultimately show ?thesis using owner_done_inv [OF assms(1), of p True] o1 by auto
qed

lemma own_fail_inv: "slot_inv s \<Longrightarrow> own_fail p s = Some s' \<Longrightarrow> slot_inv s'"
  using owner_done_inv [of s p True] by (auto simp: own_fail_def split: if_splits)

lemma receipts_inv:
  assumes "slot_inv s"
  shows "slot_inv (s\<lparr>mgr := (mgr s)\<lparr>receipts := rs\<rparr>\<rparr>)"
proof -
  let ?s = "s\<lparr>mgr := (mgr s)\<lparr>receipts := rs\<rparr>\<rparr>"
  have "entries_ok (mgr ?s) = entries_ok (mgr s)" "links_ok (mgr ?s) = links_ok (mgr s)"
    "unused_ok ?s = unused_ok s" "calls_ok ?s = calls_ok s"
    by (simp_all add: entries_ok_def links_ok_def unused_ok_def calls_ok_def)
  moreover have pend: "pending (mgr ?s) p = pending (mgr s) p" for p by (simp add: pending_def)
  moreover have "table_ok (mgr ?s) = table_ok (mgr s)" "one_pending (mgr ?s) = one_pending (mgr s)"
    using pend by (simp_all add: table_ok_def one_pending_def)
  moreover have busy: "busy ?s t = busy s t" and holds: "holds ?s t r = holds s t r" and
    live: "live (mgr ?s) r = live (mgr s) r" and cur: "cur (mgr ?s) t = cur (mgr s) t" for t r
    by (simp_all add: busy_def holds_def live_def cur_def)
  moreover have "exclusive ?s = exclusive s" "held ?s = held s"
    by (simp_all add: exclusive_def held_def busy holds live_def)
  moreover have "local_at t ?s = local_at t s" for t
    by (simp add: local_at_def Let_def cur_def pending_def)
  moreover have "sent_ok (mgr ?s)" using inv_sent [OF assms] by (simp add: sent_ok_def)
  ultimately show ?thesis using assms by (simp add: slot_inv_def heap_ok_def)
qed

lemma own_check_inv:
  assumes "slot_inv s" and "own_check p j s = Some s'"
  shows "slot_inv s'"
proof -
  have o1: "owner s p = OwnBegun" using assms(2) by (simp add: own_check_def split: if_splits)
  then have p: "p < n_prep (mgr s)" by (intro pc_bounds(1) [OF assms(1)]) simp
  let ?s = "s\<lparr>mgr := (mgr s)\<lparr>receipts := removeAll (JobStreamID j) (receipts (mgr s))\<rparr>\<rparr>"
  have i: "slot_inv ?s" by (rule receipts_inv [OF assms(1)])
  have p': "p < n_prep (mgr ?s)" using p by simp
  note f = prep_facts [OF i p']
  have "s' = owner_done p True s \<or> s' = owner_done p True ?s \<or> s' = ?s\<lparr>owner := (owner s)(p := OwnChecked)\<rparr>"
    using assms(2) o1 by (auto simp: own_check_def Let_def split: if_splits)
  moreover have "slot_inv (?s\<lparr>owner := (owner ?s)(p := OwnChecked)\<rparr>)"
  proof (rule kept_inv [OF i p' refl])
    show "kept (p_tracked (preps (mgr ?s) p)) p ?s (?s\<lparr>owner := (owner ?s)(p := OwnChecked)\<rparr>)"
      using o1 by (auto simp: kept_def)
  qed (use f(6) prep_starting [OF f(7)] o1 in simp_all)
  ultimately show ?thesis
    using owner_done_inv [OF assms(1), of p True] owner_done_inv [OF i, of p True] o1 by auto
qed

lemma own_return_inv:
  assumes "slot_inv s" and "own_return p ok s = Some s'"
  shows "slot_inv s'"
proof -
  obtain b where o1: "owner s p = OwnInstalled b"
    using assms(2) by (auto simp: own_return_def split: owner_pc.splits)
  then have p: "p < n_prep (mgr s)" by (intro pc_bounds(1) [OF assms(1)]) simp
  let ?s = "\<lambda>failed. (owner_done p failed s)\<lparr>timer := (timer s)(p := True)\<rparr>"
  have i: "slot_inv (owner_done p failed s)" for failed using owner_done_inv [OF assms(1)] o1 by blast
  have p': "p < n_prep (mgr (owner_done p failed s))" for failed
    using p by (simp add: owner_done_def finishStartPreparation_def slot_updates)
  have "slot_inv (?s failed)" for failed
  proof (rule kept_inv [OF i [of failed] p' refl])
    show "kept (p_tracked (preps (mgr (owner_done p failed s)) p)) p (owner_done p failed s) (?s failed)"
      by (auto simp: kept_def owner_done_def)
  qed (use prep_facts(6,7) [OF i p', of failed] in simp_all)
  moreover have "s' = owner_done p True s \<or> (\<exists>failed. s' = ?s failed)"
    using assms(2) o1 by (auto simp: own_return_def Let_def split: if_splits)
  ultimately show ?thesis using i by auto
qed


section \<open>Abort and cleanup\<close>

lemma start_cleaner_inv:
  assumes "slot_inv s" and "p < n_prep (mgr s)"
    and "prepare_done (preps (mgr s) p) \<and> process (trackeds (mgr s) (p_tracked (preps (mgr s) p))) = None
      \<or> exited (preps (mgr s) p) = Some True"
  shows "slot_inv (start_cleaner p s)"
proof (cases "cleanup_once (preps (mgr s) p)")
  case True
  then show ?thesis using assms(1) by (simp add: start_cleaner_def cleanup_start_def)
next
  case False
  note f = prep_facts [OF assms(1,2)]
  let ?s' = "s\<lparr>mgr := upd_p p (\<lambda>x. x\<lparr>cleanup_once := True\<rparr>) (mgr s), cleaner := (cleaner s)(p := ClStarted)\<rparr>"
  have cl: "cleaner s p = ClNone" using False f(7) by (simp add: prep_inv_def cleaner_inv_def)
  have "slot_inv ?s'"
  proof (rule kept_inv [OF assms(1,2) refl])
    show "kept (p_tracked (preps (mgr s) p)) p s ?s'" by (auto simp: kept_def slot_updates)
  qed (use f(6) prep_cleanup_start [OF f(7) [unfolded cl] assms(3)] in \<open>simp_all add: slot_updates\<close>)
  with False show ?thesis by (simp add: start_cleaner_def cleanup_start_def)
qed

lemma abt_request_inv:
  assumes "slot_inv s" and "abt_request i s = Some s'"
  shows "slot_inv s'"
proof -
  obtain p where req: "abort_request i (mgr s) = Inr (p, None)"
    and s': "s' = s\<lparr>abort_calls := (p, Aborted) # abort_calls s\<rparr>"
    using assms(2) by (auto simp: abt_request_def split: sum.splits option.splits)
  then have p: "p < n_prep (mgr s)"
    using inv_table [OF assms(1)]
    by (auto simp: abort_request_def findPreparationLocked_def table_ok_def Let_def
        split: sum.splits option.splits if_splits)
  note f = prep_facts [OF assms(1) p]
  show ?thesis unfolding s'
  proof (rule kept_inv [OF assms(1) p refl])
    show "kept (p_tracked (preps (mgr s) p)) p s (s\<lparr>abort_calls := (p, Aborted) # abort_calls s\<rparr>)"
      by (auto simp: kept_def ended_def)
  qed (use f(6,7) in simp_all)
qed

lemma call_taken:
  assumes "slot_inv s" and "p < n_prep (mgr s)"
  shows "slot_inv (s\<lparr>abort_calls := remove1 c (abort_calls s)\<rparr>)" and "slot_inv (s\<lparr>commit_calls := remove1 q (commit_calls s)\<rparr>)"
proof -
  note f = prep_facts [OF assms]
  show "slot_inv (s\<lparr>abort_calls := remove1 c (abort_calls s)\<rparr>)"
  proof (rule kept_inv [OF assms refl])
    show "kept (p_tracked (preps (mgr s) p)) p s (s\<lparr>abort_calls := remove1 c (abort_calls s)\<rparr>)"
      by (auto simp: kept_def dest: set_remove1_subset [THEN subsetD])
  qed (use f(6,7) in simp_all)
  show "slot_inv (s\<lparr>commit_calls := remove1 q (commit_calls s)\<rparr>)"
  proof (rule kept_inv [OF assms refl])
    show "kept (p_tracked (preps (mgr s) p)) p s (s\<lparr>commit_calls := remove1 q (commit_calls s)\<rparr>)"
      by (auto simp: kept_def dest: set_remove1_subset [THEN subsetD])
  qed (use f(6,7) in simp_all)
qed

lemma abt_enter_inv:
  assumes "slot_inv s" and "abt_enter p ph s = Some s'" and "\<not> racy (EvAbortEnter p ph) s"
  shows "slot_inv s'"
proof -
  have mem: "(p, ph) \<in> set (abort_calls s)" using assms(2) by (simp add: abt_enter_def split: if_splits)
  then have p: "p < n_prep (mgr s)" and ph: "ended ph" using pc_bounds(6) [OF assms(1)] by blast+
  let ?s = "s\<lparr>abort_calls := remove1 (p, ph) (abort_calls s)\<rparr>"
  let ?t = "p_tracked (preps (mgr s) p)"
  have i: "slot_inv ?s" by (rule call_taken(1) [OF assms(1) p])
  have p': "p < n_prep (mgr ?s)" using p by simp
  note f = prep_facts [OF i p']
  show ?thesis
  proof (cases "snd (abort_enter ph p (mgr s))")
    case AbortConflict
    then have "s' = ?s" using assms(2) mem
      by (auto simp: abt_enter_def abort_enter_def Let_def split: if_splits)
    with i show ?thesis by simp
  next
    case AbortDone
    let ?s' = "?s\<lparr>mgr := upd_p p (\<lambda>x. x\<lparr>phase := ph\<rparr>) (mgr s)\<rparr>"
    from AbortDone have c: "cleanup_done (preps (mgr s) p)" "prepare_done (preps (mgr s) p)" and s': "s' = ?s'"
      using assms(2) mem by (auto simp: abt_enter_def abort_enter_def Let_def split: if_splits)
    show ?thesis unfolding s'
    proof (rule kept_inv [OF i p' refl])
      show "kept (p_tracked (preps (mgr ?s) p)) p ?s ?s'" by (auto simp: kept_def slot_updates)
    qed (use f(6) prep_abort_again [OF f(7)] c ph in \<open>simp_all add: slot_updates\<close>)
  next
    case AbortClaimed
    let ?s' = "?s\<lparr>mgr := upd_p p (\<lambda>x. call_cancel (x\<lparr>abort_started := True, phase := ph\<rparr>))
        (upd_t ?t (\<lambda>t. t\<lparr>cleaning := True\<rparr>) (mgr s)), aborter := (aborter s)(p := AbWaitPrepare ph)\<rparr>"
    from AbortClaimed have ab: "\<not> abort_started (preps (mgr s) p)" and s': "s' = ?s'"
      using assms(2) mem by (auto simp: abt_enter_def abort_enter_def Let_def split: if_splits)
    have "status (trackeds (mgr s) ?t) \<noteq> Packaging"
      using assms(3) AbortClaimed by (simp add: racy_def)
    with f(6) have "\<not> packaging_pc (waiter s ?t)"
      by (auto simp: track_inv_def packaging_inv_def split: wait_pc.splits option.splits)
    with prep_abort_claim [OF f(7) _ ph] ab track_cleaning [OF f(6)] show ?thesis
      unfolding s'
      by (intro kept_inv [OF i p' refl]) (auto simp: kept_def slot_updates processOwnsSlot_def)
  qed
qed

lemma track_running: "track_inv y w sp R n c \<Longrightarrow> w = WRun \<Longrightarrow> process y \<noteq> None"
  by (auto simp: track_inv_def split: option.splits)

lemma abt_exited_inv:
  assumes "slot_inv s" and "abt_exited p s = Some s'"
  shows "slot_inv s'"
proof -
  obtain ph where a: "aborter s p = AbWaitExit ph"
    using assms(2) by (auto simp: abt_exited_def split: abort_pc.splits)
  then have p: "p < n_prep (mgr s)" by (intro pc_bounds(3) [OF assms(1)]) simp
  note f = prep_facts [OF assms(1) p]
  let ?t = "p_tracked (preps (mgr s) p)" and ?s = "s\<lparr>aborter := (aborter s)(p := AbWaitCleanup ph)\<rparr>"
  have ex: "process (trackeds (mgr s) ?t) = None \<or> exited (preps (mgr s) p) = Some True"
    and s': "s' = start_cleaner p ?s"
    using assms(2) a by (auto simp: abt_exited_def split: if_splits)
  have i: "slot_inv ?s"
  proof (rule kept_inv [OF assms(1) p refl])
    show "kept ?t p s ?s" by (auto simp: kept_def)
  qed (use f(6) prep_abort_exited [OF f(7) [unfolded a] ex] in simp_all)
  have "prepare_done (preps (mgr s) p)" using f(7) a by (simp add: prep_inv_def abort_inv_def)
  with start_cleaner_inv [OF i] p ex s' show ?thesis by auto
qed

lemma abt_final_inv:
  assumes "slot_inv s" and "abt_final p s = Some s'"
  shows "slot_inv s'"
proof -
  obtain ph where a: "aborter s p = AbWaitCleanup ph"
    using assms(2) by (auto simp: abt_final_def split: abort_pc.splits)
  then have p: "p < n_prep (mgr s)" by (intro pc_bounds(3) [OF assms(1)]) simp
  note f = prep_facts [OF assms(1) p]
  let ?t = "p_tracked (preps (mgr s) p)"
  let ?m = "upd_p p (\<lambda>x. x\<lparr>frame := None, phase := ph\<rparr>)
          (upd_t ?t (\<lambda>t. (scrubTrackedProcessJob t)\<lparr>status := StFailed, cleaning := False\<rparr>) (mgr s))"
  have s': "s' = s\<lparr>mgr := (if is_current (mgr s) p then rememberPreparationTerminalLocked p ?m else mgr s),
      aborter := (aborter s)(p := AbReturned)\<rparr>"
    using assms(2) a by (auto simp: abt_final_def abort_final_def split: if_splits)
  have w: "waiter s ?t \<noteq> WRun" "\<not> packaging_pc (waiter s ?t)"
  proof -
    show "\<not> packaging_pc (waiter s ?t)" using f(7) a by (auto simp: prep_inv_def abort_inv_def)
    have "process (trackeds (mgr s) ?t) = None \<or> exited (preps (mgr s) p) = Some True"
      using f(7) a by (auto simp: prep_inv_def abort_inv_def)
    with f(6,7) show "waiter s ?t \<noteq> WRun"
      by (auto simp: prep_inv_def owner_inv_def track_inv_def)
  qed
  show ?thesis
  proof (cases "is_current (mgr s) p")
    case False
    show ?thesis
    proof (rule kept_inv [OF assms(1) p refl])
      show "kept ?t p s s'" using False by (auto simp: kept_def s')
    qed (use False f(6) prep_abort_return [OF f(7) [unfolded a]] in \<open>simp_all add: s'\<close>)
  next
    case True
    have tab: "table_ok ?m" "pending ?m q = pending (mgr s) q" for q
      using table_same [of ?m "mgr s"] inv_table [OF assms(1)] by (simp_all add: slot_updates)
    show ?thesis
    proof (rule kept_step [OF assms(1) p refl])
      show "kept ?t p s s'" using True by (auto simp: kept_def s' slot_updates)
      show "table_ok (mgr s')" using remember_table(1) [OF tab(1)] True by (simp add: s')
      show "pending (mgr s') q \<Longrightarrow> pending (mgr s) q" for q
        using remember_table(2) [OF tab(1), of p q] True tab(2) by (simp add: s')
      show "pending (mgr s') p \<Longrightarrow> cur (mgr s) ?t \<and> processOwnsSlot (trackeds (mgr s') ?t)
          \<and> \<not> remembered_pc (waiter s' ?t)"
        using remember_table(2) [OF tab(1), of p p] True by (simp add: s')
    qed (use True track_abort_final [OF f(6) w] prep_abort_final [OF f(7) [unfolded a]] in
        \<open>simp_all add: s' slot_updates\<close>)
  qed
qed

lemma abt_timeout_inv:
  assumes "slot_inv s" and "abt_timeout p s = Some s'"
  shows "slot_inv s'"
proof -
  have a: "aborter s p \<noteq> AbNone" and s': "s' = s\<lparr>aborter := (aborter s)(p := AbTimedOut)\<rparr>"
    using assms(2) by (auto simp: abt_timeout_def split: abort_pc.splits)
  then have p: "p < n_prep (mgr s)" by (intro pc_bounds(3) [OF assms(1)])
  note f = prep_facts [OF assms(1) p]
  show ?thesis unfolding s'
  proof (rule kept_inv [OF assms(1) p refl])
    show "kept (p_tracked (preps (mgr s) p)) p s (s\<lparr>aborter := (aborter s)(p := AbTimedOut)\<rparr>)"
      by (auto simp: kept_def)
  qed (use f(6) prep_abort_timeout [OF f(7) a] in simp_all)
qed

lemma cln_take_inv:
  assumes "slot_inv s" and "cln_take p s = Some s'"
  shows "slot_inv s'"
proof -
  have a: "cleaner s p = ClStarted" using assms(2) by (simp add: cln_take_def split: if_splits)
  then have p: "p < n_prep (mgr s)" by (intro pc_bounds(4) [OF assms(1)]) simp
  note f = prep_facts [OF assms(1) p]
  have s': "s' = s\<lparr>mgr := upd_t (p_tracked (preps (mgr s) p)) (\<lambda>t. t\<lparr>watermark := False,
      cover := (cover t)\<lparr>c_source := False\<rparr>\<rparr>) (mgr s), cleaner := (cleaner s)(p := ClTaken (cleanup (preps (mgr s) p)))\<rparr>"
    using assms(2) a by (simp add: cln_take_def cleanup_take_def)
  show ?thesis
  proof (rule kept_inv [OF assms(1) p refl])
    show "kept (p_tracked (preps (mgr s) p)) p s s'" by (auto simp: kept_def s' slot_updates)
  qed (use track_sources [OF f(6)] prep_cleanup_take [OF f(7) [unfolded a]] in
      \<open>simp_all add: s' slot_updates processOwnsSlot_def\<close>)
qed

lemma cln_done_inv:
  assumes "slot_inv s" and "cln_done p s = Some s'"
  shows "slot_inv s'"
proof -
  obtain b where a: "cleaner s p = ClTaken b"
    using assms(2) by (auto simp: cln_done_def split: cleanup_pc.splits)
  then have p: "p < n_prep (mgr s)" by (intro pc_bounds(4) [OF assms(1)]) simp
  note f = prep_facts [OF assms(1) p] and cl = prep_cleanup_done [OF prep_facts(7) [OF assms(1) p, unfolded a]]
  have s': "s' = s\<lparr>mgr := cleanup_report p (mgr s), cleaner := (cleaner s)(p := ClDone b)\<rparr>"
    using assms(2) a by (simp add: cln_done_def)
  show ?thesis
  proof (rule kept_inv [OF assms(1) p refl])
    show "kept (p_tracked (preps (mgr s) p)) p s s'"
      using cl(2) by (auto simp: kept_def s' cleanup_report_def slot_updates)
  qed (use f(6) cl(1) in \<open>simp_all add: s' cleanup_report_def slot_updates\<close>)
qed

section \<open>Commit and expiry\<close>

lemma cmt_request_inv:
  assumes "slot_inv s" and "cmt_request i s = Some s'"
  shows "slot_inv s'"
proof -
  obtain p where req: "findPreparationLocked i (mgr s) = Inr p" and s': "s' = s\<lparr>commit_calls := p # commit_calls s\<rparr>"
    using assms(2) by (auto simp: cmt_request_def split: sum.splits)
  then have p: "p < n_prep (mgr s)"
    using inv_table [OF assms(1)]
    by (auto simp: findPreparationLocked_def table_ok_def Let_def split: option.splits if_splits)
  note f = prep_facts [OF assms(1) p]
  show ?thesis unfolding s'
  proof (rule kept_inv [OF assms(1) p refl])
    show "kept (p_tracked (preps (mgr s) p)) p s (s\<lparr>commit_calls := p # commit_calls s\<rparr>)" by (auto simp: kept_def)
  qed (use f(6,7) in simp_all)
qed

lemma cmt_enter_inv:
  assumes "slot_inv s" and "cmt_enter p now ok s = Some s'"
  shows "slot_inv s'"
proof -
  have mem: "p \<in> set (commit_calls s)" using assms(2) by (simp add: cmt_enter_def split: if_splits)
  then have p: "p < n_prep (mgr s)" using pc_bounds(7) [OF assms(1)] by blast
  let ?s = "s\<lparr>commit_calls := remove1 p (commit_calls s)\<rparr>"
  have i: "slot_inv ?s" by (rule call_taken(2) [OF assms(1) p])
  have p': "p < n_prep (mgr ?s)" using p by simp
  note f = prep_facts [OF i p']
  let ?s' = "?s\<lparr>mgr := upd_p p (\<lambda>x. x\<lparr>phase := Committing, cancel := CancelWitness\<rparr>) (mgr s),
      committer := (committer s)(p := True)\<rparr>"
  have "s' = ?s \<or> s' = ?s' \<and> phase (preps (mgr s) p) = Prepared"
    using assms(2) mem by (auto simp: cmt_enter_def commit_enter_def Let_def split: if_splits)
  moreover have "slot_inv ?s'" if ph: "phase (preps (mgr ?s) p) = Prepared"
  proof (rule kept_inv [OF i p' refl])
    show "kept (p_tracked (preps (mgr ?s) p)) p ?s ?s'" by (auto simp: kept_def slot_updates)
  qed (use f(6) prep_commit_enter [OF f(7) ph] in \<open>simp_all add: slot_updates\<close>)
  ultimately show ?thesis using i by auto
qed

lemma cmt_finish_inv:
  assumes "slot_inv s" and "cmt_finish p outcome s = Some s'"
  shows "slot_inv s'"
proof -
  have cm: "committer s p" using assms(2) by (simp add: cmt_finish_def split: if_splits)
  then have p: "p < n_prep (mgr s)" by (intro pc_bounds(5) [OF assms(1)])
  note f = prep_facts [OF assms(1) p]
  let ?x = "preps (mgr s) p" and ?t = "p_tracked (preps (mgr s) p)"
  consider (err) k where "commit_finish outcome p (mgr s) = (upd_p p (\<lambda>x. x\<lparr>p_code := k\<rparr>) (mgr s), False)"
    | (ok) "phase ?x = Committing" "commit_finish outcome p (mgr s) =
        (case VideoCoverStart (job (trackeds (mgr s) ?t)) of
           None \<Rightarrow> ((mgr s)\<lparr>panicked := True\<rparr>, False)
         | Some desired \<Rightarrow> (upd_p p (\<lambda>x. x\<lparr>phase := PhRunning, frame := None, cancel := CancelNothing\<rparr>)
              (upd_t ?t (\<lambda>t. t\<lparr>status := Running, cover := (cover t)\<lparr>c_state :=
                  markCoverApplied (c_state (cover t)) (s_revision desired) (s_active desired)
                    (s_cover_asset desired) (c_watermark (cover t))\<rparr>\<rparr>) (mgr s)), True))"
  proof (cases "outcome = None \<and> is_current (mgr s) p \<and> phase ?x = Committing \<and> status (trackeds (mgr s) ?t) = Starting")
    case True
    then show ?thesis by (intro ok) (simp_all add: commit_finish_def Let_def)
  next
    case False
    then obtain k where "(if outcome = None \<and> (\<not> is_current (mgr s) p \<or> phase ?x \<noteq> Committing
        \<or> status (trackeds (mgr s) ?t) \<noteq> Starting) then Some CodeCommitFailed else outcome) = Some k"
      by (cases outcome) auto
    then show ?thesis by (intro err [of k]) (simp add: commit_finish_def Let_def)
  qed
  then show ?thesis
  proof cases
    case err
    with assms(2) cm have s': "s' = s\<lparr>mgr := upd_p p (\<lambda>x. x\<lparr>p_code := k\<rparr>) (mgr s),
        committer := (committer s)(p := False), abort_calls := (p, PhFailed) # abort_calls s\<rparr>"
      by (simp add: cmt_finish_def)
    show ?thesis
    proof (rule kept_inv [OF assms(1) p refl])
      show "kept ?t p s s'" by (auto simp: kept_def s' slot_updates ended_def)
    qed (use f(6) prep_code [OF f(7)] in \<open>simp_all add: s' slot_updates\<close>)
  next
    case ok
    have "waiter s ?t = WRun" using f(7) ok(1) by (simp add: prep_inv_def phase_inv_def)
    then have pr: "process (trackeds (mgr s) ?t) \<noteq> None" using f(6) by (auto dest: track_running)
    note c = prep_commit [OF f(7) ok(1) pr]
    obtain desired where d: "VideoCoverStart (job (trackeds (mgr s) ?t)) = Some desired" using c(2) by blast
    have s': "s' = s\<lparr>mgr := upd_p p (\<lambda>x. x\<lparr>phase := PhRunning, frame := None, cancel := CancelNothing\<rparr>)
              (upd_t ?t (\<lambda>t. t\<lparr>status := Running, cover := (cover t)\<lparr>c_state :=
                  markCoverApplied (c_state (cover t)) (s_revision desired) (s_active desired)
                    (s_cover_asset desired) (c_watermark (cover t))\<rparr>\<rparr>) (mgr s)),
        committer := (committer s)(p := False)\<rparr>"
      using assms(2) cm ok(2) d by (simp add: cmt_finish_def)
    show ?thesis
    proof (rule kept_inv [OF assms(1) p refl])
      show "kept ?t p s s'" by (auto simp: kept_def s' slot_updates)
    qed (use track_commit [OF f(6) [unfolded c(3)]] c(1,3) in
        \<open>simp_all add: s' slot_updates processOwnsSlot_def\<close>)
  qed
qed

lemma exp_fire_inv:
  assumes "slot_inv s" and "exp_fire p now s = Some s'"
  shows "slot_inv s'"
proof -
  have tm: "timer s p" using assms(2) by (simp add: exp_fire_def split: if_splits)
  then have p: "p < n_prep (mgr s)" by (intro pc_bounds(2) [OF assms(1)])
  note f = prep_facts [OF assms(1) p]
  let ?t = "p_tracked (preps (mgr s) p)"
  consider (no) "s' = s\<lparr>timer := (timer s)(p := False)\<rparr>"
    | (yes) "phase (preps (mgr s) p) = Prepared"
      "s' = s\<lparr>mgr := upd_p p (\<lambda>x. call_cancel (x\<lparr>phase := Expired\<rparr>)) (upd_t ?t (\<lambda>t. t\<lparr>cleaning := True\<rparr>) (mgr s)),
        timer := (timer s)(p := False), abort_calls := (p, Expired) # abort_calls s\<rparr>"
    using assms(2) tm by (auto simp: exp_fire_def expirePreparation_def Let_def split: if_splits)
  then show ?thesis
  proof cases
    case no
    show ?thesis
    proof (rule kept_inv [OF assms(1) p refl])
      show "kept ?t p s s'" by (auto simp: kept_def no)
    qed (use f(6,7) no in simp_all)
  next
    case yes
    show ?thesis
    proof (rule kept_inv [OF assms(1) p refl])
      show "kept ?t p s s'" by (auto simp: kept_def yes slot_updates ended_def)
    qed (use track_cleaning [OF f(6)] prep_expire [OF f(7) yes(1)] in
        \<open>simp_all add: yes(2) slot_updates processOwnsSlot_def\<close>)
  qed
qed

section \<open>Exit, packaging, stop\<close>

lemma abort_kill_fields [simp]:
  "trackeds (abort_kill p m) = trackeds m" "n_tracked (abort_kill p m) = n_tracked m"
  "preps (abort_kill p m) = preps m" "n_prep (abort_kill p m) = n_prep m" "n_proc (abort_kill p m) = n_proc m"
  "processes (abort_kill p m) = processes m" "preparations (abort_kill p m) = preparations m"
  "preparationOrder (abort_kill p m) = preparationOrder m" "panicked (abort_kill p m) = panicked m"
  by (simp_all add: abort_kill_def slot_updates split: option.split)

lemma abt_prepared_inv:
  assumes "slot_inv s" and "abt_prepared p s = Some s'"
  shows "slot_inv s'"
proof -
  obtain ph where a: "aborter s p = AbWaitPrepare ph" and d: "prepare_done (preps (mgr s) p)"
    and s': "s' = s\<lparr>mgr := abort_kill p (mgr s), aborter := (aborter s)(p := AbWaitExit ph)\<rparr>"
    using assms(2) by (auto simp: abt_prepared_def split: abort_pc.splits if_splits)
  then have p: "p < n_prep (mgr s)" by (intro pc_bounds(3) [OF assms(1)]) simp
  note f = prep_facts [OF assms(1) p]
  let ?t = "p_tracked (preps (mgr s) p)"
  have k: "process (trackeds (mgr s) ?t) \<noteq> Some r \<Longrightarrow> procs (abort_kill p (mgr s)) r = procs (mgr s) r"
    "alive (procs (abort_kill p (mgr s)) r) = alive (procs (mgr s) r)"
    "done_sent (procs (abort_kill p (mgr s)) r) = done_sent (procs (mgr s) r)"
    "killed (procs (mgr s) r) \<Longrightarrow> killed (procs (abort_kill p (mgr s)) r)" for r
    by (auto simp: abort_kill_def slot_updates split: option.split)
  show ?thesis
  proof (rule kept_inv [OF assms(1) p refl])
    show "kept ?t p s s'" unfolding s' by (auto simp: kept_def k)
  qed (use track_procs [OF f(6)] prep_abort_prepared [OF f(7) [unfolded a] d] in \<open>simp_all add: s' k\<close>)
qed

text \<open>A step that changes a tracked process and nothing of its preparation.\<close>

definition t_kept :: "nat \<Rightarrow> slot \<Rightarrow> slot \<Rightarrow> bool" where
  "t_kept t s s' \<longleftrightarrow> (let m = mgr s; m' = mgr s' in
     n_tracked m' = n_tracked m \<and> n_prep m' = n_prep m \<and> n_proc m' = n_proc m \<and> preps m' = preps m
   \<and> (\<forall>r. process (trackeds m t) \<noteq> Some r \<longrightarrow> procs m' r = procs m r)
   \<and> (\<forall>r. alive (procs m' r) \<longrightarrow> alive (procs m r)) \<and> (\<forall>r. killed (procs m r) \<longrightarrow> killed (procs m' r))
   \<and> processes m' = processes m \<and> panicked m' = panicked m \<and> legacy s' = legacy s \<and> owner s' = owner s
   \<and> timer s' = timer s \<and> aborter s' = aborter s \<and> cleaner s' = cleaner s \<and> committer s' = committer s
   \<and> abort_calls s' = abort_calls s \<and> commit_calls s' = commit_calls s
   \<and> (\<forall>u. u \<noteq> t \<longrightarrow> trackeds m' u = trackeds m u \<and> waiter s' u = waiter s u \<and> stopper s' u = stopper s u)
   \<and> t_stream (trackeds m' t) = t_stream (trackeds m t) \<and> prep (trackeds m' t) = prep (trackeds m t)
   \<and> process (trackeds m' t) = process (trackeds m t)
   \<and> (waiter s' t = WRun \<longrightarrow> waiter s t = WRun)
   \<and> (waiter s t = WRun \<longrightarrow> waiter s' t \<noteq> WRun \<longrightarrow>
        (\<forall>r. process (trackeds m t) = Some r \<longrightarrow> \<not> alive (procs m r))))"

lemma t_step:
  assumes "slot_inv s" and t: "t < n_tracked (mgr s)" and k: "t_kept t s s'"
    and table: "table_ok (mgr s')" "\<And>q. pending (mgr s') q \<Longrightarrow> pending (mgr s) q"
    and track: "track_inv (trackeds (mgr s') t) (waiter s' t) (stopper s' t) (procs (mgr s')) (n_proc (mgr s)) (cur (mgr s) t)"
    and leg: "prep (trackeds (mgr s) t) = None \<Longrightarrow> legacy_inv (trackeds (mgr s') t) (waiter s' t) (legacy s t) (cur (mgr s) t)"
    and prp: "\<And>p. prep (trackeds (mgr s) t) = Some p \<Longrightarrow> prep_inv (preps (mgr s) p) (trackeds (mgr s') t)
        (owner s p) (aborter s p) (cleaner s p) (waiter s' t) (cur (mgr s) t)"
    and pend: "\<And>p. prep (trackeds (mgr s) t) = Some p \<Longrightarrow> pending (mgr s') p \<Longrightarrow>
        cur (mgr s) t \<and> processOwnsSlot (trackeds (mgr s') t) \<and> \<not> remembered_pc (waiter s' t)"
  shows "slot_inv s'"
proof -
  have un: "unused_ok s" and li: "links_ok (mgr s)" and ca: "calls_ok s"
    using inv_heap [OF assms(1)] by (simp_all add: heap_ok_def)
  have same: "n_tracked (mgr s') = n_tracked (mgr s)" "n_prep (mgr s') = n_prep (mgr s)"
    "n_proc (mgr s') = n_proc (mgr s)" "preps (mgr s') = preps (mgr s)"
    "processes (mgr s') = processes (mgr s)" "legacy s' = legacy s" "owner s' = owner s"
    "timer s' = timer s" "aborter s' = aborter s" "cleaner s' = cleaner s" "committer s' = committer s"
    "abort_calls s' = abort_calls s" "commit_calls s' = commit_calls s" "panicked (mgr s') = panicked (mgr s)"
    "t_stream (trackeds (mgr s') t) = t_stream (trackeds (mgr s) t)"
    "prep (trackeds (mgr s') t) = prep (trackeds (mgr s) t)"
    and T: "\<And>u. u \<noteq> t \<Longrightarrow> trackeds (mgr s') u = trackeds (mgr s) u \<and> waiter s' u = waiter s u \<and> stopper s' u = stopper s u"
    using k by (simp_all add: t_kept_def Let_def)
  have fr: "frame t s s'"
    unfolding frame_def Let_def
    using same T table t inv_panicked [OF assms(1)] ca [unfolded calls_ok_def]
    by (intro conjI allI impI ballI) auto
  moreover have "quiet t s s'"
    using k t unfolding quiet_def t_kept_def Let_def by (intro conjI) simp_all
  moreover have "local_at t s'"
  proof -
    have "prep (trackeds (mgr s) t) = Some p" if "p < n_prep (mgr s)" "p_tracked (preps (mgr s) p) = t" for p
      using li that unfolding links_ok_def by blast
    then show ?thesis
      unfolding local_at_def Let_def same frame_cur [OF fr] using track leg prp pend by blast
  qed
  ultimately show ?thesis using quiet_inv [OF assms(1)] by blast
qed

lemma t_facts:
  assumes "slot_inv s" and "t < n_tracked (mgr s)"
  shows "track_inv (trackeds (mgr s) t) (waiter s t) (stopper s t) (procs (mgr s)) (n_proc (mgr s)) (cur (mgr s) t)"
    and "prep (trackeds (mgr s) t) = None \<Longrightarrow> legacy_inv (trackeds (mgr s) t) (waiter s t) (legacy s t) (cur (mgr s) t)"
    and "prep (trackeds (mgr s) t) = Some p \<Longrightarrow> p < n_prep (mgr s) \<and> p_tracked (preps (mgr s) p) = t"
    and "prep (trackeds (mgr s) t) = Some p \<Longrightarrow> prep_inv (preps (mgr s) p) (trackeds (mgr s) t)
        (owner s p) (aborter s p) (cleaner s p) (waiter s t) (cur (mgr s) t)"
    and "prep (trackeds (mgr s) t) = Some p \<Longrightarrow> pending (mgr s) p \<Longrightarrow>
        cur (mgr s) t \<and> processOwnsSlot (trackeds (mgr s) t) \<and> \<not> remembered_pc (waiter s t)"
proof -
  have l: "local_at t s" by (rule inv_local [OF assms(1)])
  show p: "p < n_prep (mgr s) \<and> p_tracked (preps (mgr s) p) = t" if "prep (trackeds (mgr s) t) = Some p" for p
    using inv_heap [OF assms(1)] assms(2) that unfolding heap_ok_def links_ok_def by blast
  show "track_inv (trackeds (mgr s) t) (waiter s t) (stopper s t) (procs (mgr s)) (n_proc (mgr s)) (cur (mgr s) t)"
    and "prep (trackeds (mgr s) t) = None \<Longrightarrow> legacy_inv (trackeds (mgr s) t) (waiter s t) (legacy s t) (cur (mgr s) t)"
    using l assms(2) unfolding local_at_def Let_def by blast+
  show "prep (trackeds (mgr s) t) = Some p \<Longrightarrow> prep_inv (preps (mgr s) p) (trackeds (mgr s) t)
        (owner s p) (aborter s p) (cleaner s p) (waiter s t) (cur (mgr s) t)"
    and "prep (trackeds (mgr s) t) = Some p \<Longrightarrow> pending (mgr s) p \<Longrightarrow>
        cur (mgr s) t \<and> processOwnsSlot (trackeds (mgr s) t) \<and> \<not> remembered_pc (waiter s t)"
    using l assms(2) p unfolding local_at_def Let_def by blast+
qed

end
