(* ===== verification/SlotExits.thy ===== *)
theory SlotExits
  imports SlotPreservation
begin

text \<open>
  The steps that end a process keep the invariant: its exit and \<^verbatim>\<open>wait\<close>, \<^verbatim>\<open>Stop\<close>, and
  the packaging of its archive.
\<close>

text \<open>Processes may end or be killed at any time.\<close>

lemma procs_inv:
  assumes "slot_inv s"
    and R: "\<And>r. alive (R r) \<Longrightarrow> alive (procs (mgr s) r)" "\<And>r. killed (procs (mgr s) r) \<Longrightarrow> killed (R r)"
      "\<And>r. done_sent (R r) \<Longrightarrow> done_sent (procs (mgr s) r)"
  shows "slot_inv (s\<lparr>mgr := (mgr s)\<lparr>procs := R\<rparr>\<rparr>)"
proof -
  let ?s = "s\<lparr>mgr := (mgr s)\<lparr>procs := R\<rparr>\<rparr>"
  have "entries_ok (mgr ?s) = entries_ok (mgr s)" "links_ok (mgr ?s) = links_ok (mgr s)"
    "unused_ok ?s = unused_ok s" "calls_ok ?s = calls_ok s"
    by (simp_all add: entries_ok_def links_ok_def unused_ok_def calls_ok_def)
  moreover have pend: "pending (mgr ?s) p = pending (mgr s) p" for p by (simp add: pending_def)
  moreover have "table_ok (mgr ?s) = table_ok (mgr s)" "one_pending (mgr ?s) = one_pending (mgr s)"
    using pend by (simp_all add: table_ok_def one_pending_def)
  moreover have busy: "busy ?s t = busy s t" and holds: "holds ?s t r = holds s t r" for t r
    by (simp_all add: busy_def holds_def)
  moreover have live: "live (mgr ?s) r \<Longrightarrow> live (mgr s) r" for r
    using R by (auto simp: live_def)
  moreover have "exclusive ?s = exclusive s"
    by (simp add: exclusive_def busy)
  moreover have "held ?s"
    using inv_held [OF assms(1)] live unfolding held_def busy holds by simp
  moreover have "local_at t ?s" for t
  proof -
    have l: "local_at t s" by (rule inv_local [OF assms(1)])
    have "track_inv (trackeds (mgr s) t) (waiter s t) (stopper s t) R (n_proc (mgr s)) (cur (mgr s) t)"
      if "t < n_tracked (mgr s)"
      by (rule track_procs) (use l that R in \<open>auto simp: local_at_def Let_def\<close>)
    then show ?thesis
      using l pend by (auto simp: local_at_def Let_def cur_def)
  qed
  moreover have "sent_ok (mgr ?s)"
    using inv_sent [OF assms(1)] R(1,3) unfolding sent_ok_def by auto
  ultimately show ?thesis using assms(1) by (simp add: slot_inv_def heap_ok_def)
qed

lemma upd_r_inv:
  assumes "slot_inv s" and "\<And>x. alive (f x) \<Longrightarrow> alive x" "\<And>x. killed x \<Longrightarrow> killed (f x)" "\<And>x. done_sent (f x) \<Longrightarrow> done_sent x"
  shows "slot_inv (s\<lparr>mgr := upd_r r f (mgr s)\<rparr>)"
proof -
  have "slot_inv (s\<lparr>mgr := (mgr s)\<lparr>procs := (procs (mgr s))(r := f (procs (mgr s) r))\<rparr>\<rparr>)"
    by (rule procs_inv [OF assms(1)]) (use assms(2-4) in \<open>auto split: if_splits\<close>)
  then show ?thesis by (simp add: upd_r_def)
qed

lemma prc_exit_inv: "slot_inv s \<Longrightarrow> prc_exit r s = Some s' \<Longrightarrow> slot_inv s'"
  by (auto simp: prc_exit_def split: if_splits intro!: upd_r_inv)

lemma table_kept:
  assumes "slot_inv s" and "preparations (mgr s') = preparations (mgr s)"
    and "preparationOrder (mgr s') = preparationOrder (mgr s)" and "n_prep (mgr s') = n_prep (mgr s)"
    and "preps (mgr s') = preps (mgr s)"
  shows "table_ok (mgr s')" "pending (mgr s') q = pending (mgr s) q"
  using table_same [OF assms(2-4)] inv_table [OF assms(1)] assms(5) by simp_all

lemma stopper_inv:
  assumes "slot_inv s" and "stopper s t \<noteq> SpNone"
    and "sp = SpReceipt \<Longrightarrow> \<exists>r. process (trackeds (mgr s) t) = Some r \<and> \<not> alive (procs (mgr s) r)"
  shows "slot_inv (s\<lparr>stopper := (stopper s)(t := sp)\<rparr>)"
proof -
  let ?s = "s\<lparr>stopper := (stopper s)(t := sp)\<rparr>"
  have t: "t < n_tracked (mgr s)" by (rule pc_bounds(9) [OF assms(1,2)])
  note f = t_facts [OF assms(1) t] and tab = table_kept [OF assms(1), of ?s]
  show ?thesis
  proof (rule t_step [OF assms(1) t])
    show "t_kept t s ?s" by (auto simp: t_kept_def)
  qed (use f track_stopper [OF f(1) assms(2,3)] tab in simp_all)
qed

lemma kill_tracked_inv:
  assumes "slot_inv s" and "stopper s t \<noteq> SpNone"
  shows "slot_inv (s\<lparr>mgr := kill_tracked t (mgr s)\<rparr>)"
proof -
  have "process (trackeds (mgr s) t) \<noteq> None"
    using t_facts(1) [OF assms(1) pc_bounds(9) [OF assms]] assms(2)
    by (auto simp: track_inv_def split: option.splits)
  then obtain r where "process (trackeds (mgr s) t) = Some r" by blast
  then show ?thesis using upd_r_inv [OF assms(1), of "\<lambda>x. x\<lparr>killed := True\<rparr>" r] by (simp add: kill_tracked_def)
qed

lemma stp_begin_inv:
  assumes "slot_inv s" and "stp_begin streamID receipt s = Some s'"
  shows "slot_inv s'"
proof -
  obtain t where e: "entry (mgr s) streamID = Some t" "status (trackeds (mgr s) t) = Running"
    and s': "s' = s\<lparr>mgr := upd_t t (\<lambda>x. x\<lparr>status := Stopping\<rparr>) (mgr s), stopper := (stopper s)(t := SpTerminate)\<rparr>"
    using assms(2) by (auto simp: stp_begin_def stop_begin_def Let_def split: option.splits if_splits)
  have t: "t < n_tracked (mgr s)"
    using e(1) inv_heap [OF assms(1)] unfolding heap_ok_def entries_ok_def by blast
  note f = t_facts [OF assms(1) t] and tab = table_kept [OF assms(1), of s']
  show ?thesis
  proof (rule t_step [OF assms(1) t])
    show "t_kept t s s'" by (auto simp: t_kept_def s' slot_updates)
    show "legacy_inv (trackeds (mgr s') t) (waiter s' t) (legacy s t) (cur (mgr s) t)" if "prep (trackeds (mgr s) t) = None"
      using f(2) [OF that] e(2) by (auto simp: s' slot_updates legacy_inv_def)
  qed (use f(5) track_stop [OF f(1) e(2)] prep_stop [OF f(4) e(2)] tab in
      \<open>simp_all add: s' slot_updates processOwnsSlot_def\<close>)
qed

lemma stp_terminate_inv:
  assumes "slot_inv s" and "stp_terminate t ok s = Some s'"
  shows "slot_inv s'"
proof -
  have sp: "stopper s t \<noteq> SpNone" using assms(2) by (auto simp: stp_terminate_def split: if_splits)
  have "slot_inv (s\<lparr>stopper := (stopper s)(t := SpWait)\<rparr>)" by (rule stopper_inv [OF assms(1) sp]) simp
  moreover have "slot_inv ((s\<lparr>mgr := kill_tracked t (mgr s)\<rparr>)\<lparr>stopper := (stopper (s\<lparr>mgr := kill_tracked t (mgr s)\<rparr>))(t := SpGone)\<rparr>)"
    by (rule stopper_inv [OF kill_tracked_inv [OF assms(1) sp]]) (use sp in simp_all)
  ultimately show ?thesis using assms(2) by (auto simp: stp_terminate_def split: if_splits)
qed

lemma stp_exited_inv:
  assumes "slot_inv s" and "stp_exited t s = Some s'"
  shows "slot_inv s'"
proof -
  obtain r where r: "process (trackeds (mgr s) t) = Some r" "done_sent (procs (mgr s) r)"
    and sp: "stopper s t \<noteq> SpNone"
    and s': "s' = s\<lparr>mgr := upd_r r (\<lambda>x. x\<lparr>done_sent := False\<rparr>) (mgr s), stopper := (stopper s)(t := SpReceipt)\<rparr>"
    using assms(2) by (auto simp: stp_exited_def split: option.splits if_splits)
  let ?s = "s\<lparr>mgr := upd_r r (\<lambda>x. x\<lparr>done_sent := False\<rparr>) (mgr s)\<rparr>"
  have i: "slot_inv ?s" by (rule upd_r_inv [OF assms(1)]) simp_all
  have "\<not> alive (procs (mgr s) r)"
    using t_facts(1) [OF assms(1) pc_bounds(9) [OF assms(1) sp]] r by (auto simp: track_inv_def)
  then have "slot_inv (?s\<lparr>stopper := (stopper ?s)(t := SpReceipt)\<rparr>)"
    by (intro stopper_inv [OF i]) (use sp r in \<open>simp_all add: upd_r_def\<close>)
  then show ?thesis by (simp add: s')
qed

lemma stp_grace_inv:
  assumes "slot_inv s" and "stp_grace t ok s = Some s'"
  shows "slot_inv s'"
proof -
  have sp: "stopper s t \<noteq> SpNone" using assms(2) by (auto simp: stp_grace_def split: if_splits)
  have "slot_inv (s\<lparr>stopper := (stopper s)(t := SpGone)\<rparr>)" by (rule stopper_inv [OF assms(1) sp]) simp
  moreover have "slot_inv ((s\<lparr>mgr := kill_tracked t (mgr s)\<rparr>)\<lparr>stopper := (stopper (s\<lparr>mgr := kill_tracked t (mgr s)\<rparr>))(t := SpKillWait)\<rparr>)"
    by (rule stopper_inv [OF kill_tracked_inv [OF assms(1) sp]]) (use sp in simp_all)
  ultimately show ?thesis using assms(2) by (auto simp: stp_grace_def split: if_splits)
qed

lemma stp_receipt_inv:
  assumes "slot_inv s" and "stp_receipt t ok s = Some s'"
  shows "slot_inv s'"
proof -
  have sp: "stopper s t \<noteq> SpNone" using assms(2) by (auto simp: stp_receipt_def split: if_splits)
  have i: "slot_inv (s\<lparr>stopper := (stopper s)(t := SpGone)\<rparr>)" by (rule stopper_inv [OF assms(1) sp]) simp
  let ?s = "\<lambda>rs. s\<lparr>mgr := (mgr s)\<lparr>receipts := rs\<rparr>\<rparr>"
  have "slot_inv ((?s rs)\<lparr>stopper := (stopper (?s rs))(t := SpGone)\<rparr>)" for rs
    by (rule stopper_inv [OF receipts_inv [OF assms(1)]]) (use sp in simp_all)
  with i show ?thesis using assms(2) by (auto simp: stp_receipt_def split: if_splits)
qed

text \<open>The end of a process.\<close>

lemma wat_exit_inv:
  assumes "slot_inv s" and "wat_exit t failed packager s = Some s'"
  shows "slot_inv s'"
proof -
  obtain r where r: "process (trackeds (mgr s) t) = Some r" and w: "waiter s t = WRun"
    and al: "\<not> alive (procs (mgr s) r)"
    using assms(2) by (auto simp: wat_exit_def split: option.splits if_splits)
  have t: "t < n_tracked (mgr s)" by (rule pc_bounds(8) [OF assms(1)]) (simp add: w)
  note f = t_facts [OF assms(1) t]
  let ?y = "trackeds (mgr s) t"
  let ?R = "(procs (mgr s))(r := (procs (mgr s) r)\<lparr>done_sent := True\<rparr>)"
  have e: "entry (mgr s) (t_stream ?y) = Some t"
    using f(1) w by (auto simp: track_inv_def cur_def)
  define ran where "ran st pkg = (scrubTrackedProcessJob (?y\<lparr>cleaning := True, status := st\<rparr>))\<lparr>watermark := False,
      cover := (cover (scrubTrackedProcessJob (?y\<lparr>cleaning := True\<rparr>)))\<lparr>c_source := False\<rparr>\<rparr>" for st and pkg :: "package_job option"
  have re: "\<exists>st pkg. ran_exit failed packager t m = (m\<lparr>trackeds := (trackeds m)(t := ran st pkg)\<rparr>, pkg)
      \<and> (pkg \<noteq> None \<longrightarrow> st = Packaging \<and> pkg = Some (package_of (job ?y)))"
    if "trackeds m t = ?y\<lparr>cleaning := True\<rparr>" for m
    using that unfolding ran_exit_def ran_def by (auto simp: slot_updates)
  show ?thesis
  proof (cases "prep ?y")
    case None
    obtain st pkg where ra: "ran_exit failed packager t (upd_t t (\<lambda>x. x\<lparr>cleaning := True\<rparr>) (mgr s)) =
        ((mgr s)\<lparr>trackeds := (trackeds (mgr s))(t := ran st pkg)\<rparr>, pkg)"
      and pk: "pkg \<noteq> None \<Longrightarrow> st = Packaging \<and> pkg = Some (package_of (job ?y))"
      using re [of "upd_t t (\<lambda>x. x\<lparr>cleaning := True\<rparr>) (mgr s)"] by (auto simp: upd_t_def)
    have s': "s' = s\<lparr>mgr := (mgr s)\<lparr>trackeds := (trackeds (mgr s))(t := ran st pkg), procs := ?R\<rparr>,
        waiter := (waiter s)(t := WCleanup None pkg)\<rparr>"
      using assms(2) r w al e None ra
      by (simp add: wat_exit_def wait_exit_def Let_def upd_t_def upd_r_def)
    note tab = table_kept [OF assms(1), of s']
    have lv: "alive ((if q = r then procs (mgr s) r\<lparr>done_sent := True\<rparr> else procs (mgr s) q)) = alive (procs (mgr s) q)" for q
      by simp
    show ?thesis
    proof (rule t_step [OF assms(1) t])
      show "t_kept t s s'"
        using r al by (auto simp: t_kept_def s' ran_def lv)
      show "track_inv (trackeds (mgr s') t) (waiter s' t) (stopper s' t) (procs (mgr s')) (n_proc (mgr s)) (cur (mgr s) t)"
        using track_wait_ran [OF f(1) [unfolded w] r al pk] None by (simp add: s' ran_def)
      show "legacy_inv (trackeds (mgr s') t) (waiter s' t) (legacy s t) (cur (mgr s) t)"
        using f(2) [OF None] r by (auto simp: s' legacy_inv_def)
    qed (use None tab in \<open>simp_all add: s'\<close>)
  next
    case (Some p)
    then have p: "p < n_prep (mgr s)" and pt: "p_tracked (preps (mgr s) p) = t" using f(3) by blast+
    let ?x = "preps (mgr s) p"
    have pi: "prep_inv ?x ?y (owner s p) (aborter s p) (cleaner s p) WRun (cur (mgr s) t)"
      using f(4) [OF Some] w by simp
    have pr: "process ?y \<noteq> None" using r by simp
    have ex: "exited ?x = Some False" using pi pr by (simp add: prep_inv_def owner_inv_def)
    show ?thesis
    proof (cases "phase ?x = PhRunning")
      case False
      let ?y' = "?y\<lparr>cleaning := True, status := StFailed\<rparr>"
      let ?x' = "call_cancel (?x\<lparr>exited := Some True,
          phase := (if phase ?x = Aborted \<or> phase ?x = Expired then phase ?x else PhFailed),
          p_code := (if p_code ?x = NoCode then CodeProcessExitedEarly else p_code ?x)\<rparr>)"
      let ?s = "s\<lparr>mgr := (mgr s)\<lparr>preps := (preps (mgr s))(p := ?x'), trackeds := (trackeds (mgr s))(t := ?y'),
          procs := ?R\<rparr>, waiter := (waiter s)(t := WUnstarted p)\<rparr>"
      have s': "s' = start_cleaner p ?s"
        using assms(2) r w al e Some False ex
        by (simp add: wat_exit_def wait_exit_def close_exited_def Let_def upd_t_def upd_r_def upd_p_def
            cong: if_cong)
      have "slot_inv ?s"
      proof (rule kept_inv [OF assms(1) p pt [symmetric]])
        show "kept t p s ?s" using r al by (auto simp: kept_def)
        show "track_inv (trackeds (mgr ?s) t) (waiter ?s t) (stopper ?s t) (procs (mgr ?s)) (n_proc (mgr s)) (cur (mgr s) t)"
          using track_wait_unstarted [OF f(1) [unfolded w] r al Some] by simp
        show "prep_inv (preps (mgr ?s) p) (trackeds (mgr ?s) t) (owner ?s p) (aborter ?s p) (cleaner ?s p)
            (waiter ?s t) (cur (mgr s) t)"
          using prep_wait_unstarted [OF pi pr False] by simp
      qed (simp_all add: processOwnsSlot_def)
      with start_cleaner_inv [of ?s p] p s' show ?thesis by simp
    next
      case True
      let ?x' = "?x\<lparr>exited := Some True, phase := PhFailed, p_code := CodeProcessExited\<rparr>"
      define m1 where "m1 = upd_p p (\<lambda>x. x\<lparr>phase := PhFailed, p_code := CodeProcessExited\<rparr>)
        (close_exited p (upd_t t (\<lambda>x. x\<lparr>cleaning := True\<rparr>) (mgr s)))"
      obtain st pkg where ra: "ran_exit failed packager t m1 = (m1\<lparr>trackeds := (trackeds m1)(t := ran st pkg)\<rparr>, pkg)"
        and pk: "pkg \<noteq> None \<Longrightarrow> st = Packaging \<and> pkg = Some (package_of (job ?y))"
        using re [of m1] by (auto simp: m1_def close_exited_def slot_updates)
      have m1: "m1\<lparr>trackeds := (trackeds m1)(t := ran st pkg)\<rparr> =
          (mgr s)\<lparr>trackeds := (trackeds (mgr s))(t := ran st pkg), preps := (preps (mgr s))(p := ?x')\<rparr>"
        using ex by (simp add: m1_def close_exited_def slot_updates)
      have "wait_exit failed packager (t_stream ?y) r (mgr s) =
          (case ran_exit failed packager t m1 of (m, pkg) \<Rightarrow> (m, WaitCleanup t (Some p) pkg))"
        using r e Some True by (simp add: wait_exit_def m1_def upd_t_def close_exited_def upd_p_def)
      then have we: "wait_exit failed packager (t_stream ?y) r (mgr s) =
          ((mgr s)\<lparr>trackeds := (trackeds (mgr s))(t := ran st pkg), preps := (preps (mgr s))(p := ?x')\<rparr>,
            WaitCleanup t (Some p) pkg)"
        by (simp add: ra m1)
      let ?s = "s\<lparr>mgr := (mgr s)\<lparr>trackeds := (trackeds (mgr s))(t := ran st pkg), preps := (preps (mgr s))(p := ?x'),
          procs := ?R\<rparr>, waiter := (waiter s)(t := WCleanup (Some p) pkg)\<rparr>"
      have s': "s' = start_cleaner p ?s"
        using assms(2) r w al by (simp add: wat_exit_def we upd_r_def)
      have "slot_inv ?s"
      proof (rule kept_inv [OF assms(1) p pt [symmetric]])
        show "kept t p s ?s" using r al by (auto simp: kept_def ran_def)
        show "track_inv (trackeds (mgr ?s) t) (waiter ?s t) (stopper ?s t) (procs (mgr ?s)) (n_proc (mgr s)) (cur (mgr s) t)"
          using track_wait_ran [OF f(1) [unfolded w] r al pk] Some by (simp add: ran_def)
        show "prep_inv (preps (mgr ?s) p) (trackeds (mgr ?s) t) (owner ?s p) (aborter ?s p) (cleaner ?s p)
            (waiter ?s t) (cur (mgr s) t)"
          using prep_wait_ran [OF pi pr True] by (simp add: ran_def)
      qed (simp_all add: ran_def processOwnsSlot_def)
      with start_cleaner_inv [of ?s p] p s' show ?thesis by simp
    qed
  qed
qed

text \<open>A step of \<^verbatim>\<open>wait\<close> that remembers the preparation as finished.\<close>

lemma remember_step:
  assumes "slot_inv s" and t: "t < n_tracked (mgr s)" and pr: "prep (trackeds (mgr s) t) = Some p"
    and w: "waiter s t \<noteq> WRun" "w' \<noteq> WRun"
    and y: "t_stream y = t_stream (trackeds (mgr s) t)" "prep y = Some p"
      "process y = process (trackeds (mgr s) t)"
    and tr: "track_inv y w' (stopper s t) (procs (mgr s)) (n_proc (mgr s)) (cur (mgr s) t)"
    and pi: "prep_inv (preps (mgr s) p) y (owner s p) (aborter s p) (cleaner s p) w' (cur (mgr s) t)"
  shows "slot_inv (s\<lparr>mgr := rememberPreparationTerminalLocked p (upd_t t (\<lambda>x. y) (mgr s)),
    waiter := (waiter s)(t := w')\<rparr>)"
proof -
  let ?m = "upd_t t (\<lambda>x. y) (mgr s)"
  have tab: "table_ok ?m" "pending ?m q = pending (mgr s) q" for q
    using table_same [of ?m "mgr s"] inv_table [OF assms(1)] by (simp_all add: slot_updates)
  show ?thesis (is "slot_inv ?s")
  proof (rule t_step [OF assms(1) t])
    show "t_kept t s ?s" using w y pr by (auto simp: t_kept_def slot_updates)
    show "table_ok (mgr ?s)" using remember_table(1) [OF tab(1)] by simp
    show "pending (mgr ?s) q \<Longrightarrow> pending (mgr s) q" for q
      using remember_table(2) [OF tab(1), of p q] tab(2) by simp
    show "prep (trackeds (mgr s) t) = Some q \<Longrightarrow> pending (mgr ?s) q \<Longrightarrow>
        cur (mgr s) t \<and> processOwnsSlot (trackeds (mgr ?s) t) \<and> \<not> remembered_pc (waiter ?s t)" for q
      using remember_table(2) [OF tab(1), of p q] pr by simp
  qed (use tr pi pr in \<open>simp_all add: slot_updates\<close>)
qed

lemma wat_unstarted_inv:
  assumes "slot_inv s" and "wat_unstarted t s = Some s'"
  shows "slot_inv s'"
proof -
  obtain p where w: "waiter s t = WUnstarted p"
    and s': "s' = s\<lparr>mgr := wait_unstarted_final t p (mgr s), waiter := (waiter s)(t := WDone)\<rparr>"
    using assms(2) by (auto simp: wat_unstarted_def split: wait_pc.splits if_splits)
  have t: "t < n_tracked (mgr s)" by (rule pc_bounds(8) [OF assms(1)]) (simp add: w)
  note f = t_facts [OF assms(1) t]
  have pr: "prep (trackeds (mgr s) t) = Some p" and r: "process (trackeds (mgr s) t) \<noteq> None"
    using f(1) w by (auto simp: track_inv_def split: option.splits)
  let ?y = "scrubTrackedProcessJob ((trackeds (mgr s) t)\<lparr>cleaning := False\<rparr>)"
  have pi: "prep_inv (preps (mgr s) p) (trackeds (mgr s) t) (owner s p) (aborter s p) (cleaner s p) WDone (cur (mgr s) t)"
    using prep_wait_done [OF f(4) [OF pr]] w r by blast
  have "slot_inv (s\<lparr>mgr := rememberPreparationTerminalLocked p (upd_t t (\<lambda>x. ?y) (mgr s)), waiter := (waiter s)(t := WDone)\<rparr>)"
  proof (rule remember_step [OF assms(1) t pr])
    show "track_inv ?y WDone (stopper s t) (procs (mgr s)) (n_proc (mgr s)) (cur (mgr s) t)"
      using track_unstarted_final [OF f(1) [unfolded w]] by simp
    show "prep_inv (preps (mgr s) p) ?y (owner s p) (aborter s p) (cleaner s p) WDone (cur (mgr s) t)"
      by (rule prep_fields [OF pi]) (use r in simp_all)
  qed (use w pr in simp_all)
  then show ?thesis by (simp add: s' wait_unstarted_final_def upd_t_def)
qed

lemma wat_cleaned_inv:
  assumes "slot_inv s" and "wat_cleaned t s = Some s'"
  shows "slot_inv s'"
proof -
  obtain po pkg where w: "waiter s t = WCleanup po pkg"
    and s': "s' = s\<lparr>mgr := wait_final t po (mgr s), waiter := (waiter s)(t := (case pkg of None \<Rightarrow> WDone | Some j \<Rightarrow> WPackage j))\<rparr>"
    using assms(2) by (auto simp: wat_cleaned_def split: wait_pc.splits if_splits)
  have t: "t < n_tracked (mgr s)" by (rule pc_bounds(8) [OF assms(1)]) (simp add: w)
  note f = t_facts [OF assms(1) t]
  let ?w = "case pkg of None \<Rightarrow> WDone | Some j \<Rightarrow> WPackage j"
  let ?y = "(trackeds (mgr s) t)\<lparr>cleaning := False\<rparr>"
  have pr: "prep (trackeds (mgr s) t) = po" and r: "process (trackeds (mgr s) t) \<noteq> None"
    using f(1) w by (auto simp: track_inv_def split: option.splits)
  have tr: "track_inv ?y ?w (stopper s t) (procs (mgr s)) (n_proc (mgr s)) (cur (mgr s) t)"
    using track_final [OF f(1) [unfolded w]] .
  show ?thesis
  proof (cases po)
    case None
    note tab = table_kept [OF assms(1), of s']
    show ?thesis
    proof (rule t_step [OF assms(1) t])
      show "t_kept t s s'" using w None by (auto simp: t_kept_def s' wait_final_def slot_updates split: option.splits)
      show "legacy_inv (trackeds (mgr s') t) (waiter s' t) (legacy s t) (cur (mgr s) t)"
        using f(2) pr None by (auto simp: s' legacy_inv_def wait_final_def slot_updates split: option.splits)
    qed (use tab tr pr None in \<open>simp_all add: s' wait_final_def slot_updates\<close>)
  next
    case (Some p)
    have "prep_inv (preps (mgr s) p) (trackeds (mgr s) t) (owner s p) (aborter s p) (cleaner s p) ?w (cur (mgr s) t)"
      using prep_wait_done [OF f(4), of p] prep_wait_package [OF f(4), of p] w r pr Some
      by (cases pkg) simp_all
    then have pi: "prep_inv (preps (mgr s) p) ?y (owner s p) (aborter s p) (cleaner s p) ?w (cur (mgr s) t)"
      by (rule prep_fields) simp_all
    have "slot_inv (s\<lparr>mgr := rememberPreparationTerminalLocked p (upd_t t (\<lambda>x. ?y) (mgr s)), waiter := (waiter s)(t := ?w)\<rparr>)"
      by (rule remember_step [OF assms(1) t _ _ _ _ _ _ tr pi]) (use w pr Some in \<open>simp_all split: option.splits\<close>)
    then show ?thesis
      by (simp add: s' Some wait_final_def upd_t_def)
  qed
qed

section \<open>Packaging\<close>

lemma pkg_step:
  assumes "slot_inv s" and w: "waiter s t = WPackage j \<and> w' = WPackaging j \<or> waiter s t = WPackaging j \<and> w' = WDone"
    and y: "t_stream y = t_stream (trackeds (mgr s) t)" "prep y = prep (trackeds (mgr s) t)"
      "process y = process (trackeds (mgr s) t)"
    and tr: "track_inv y w' (stopper s t) (procs (mgr s)) (n_proc (mgr s)) (cur (mgr s) t)"
  shows "slot_inv (s\<lparr>mgr := upd_t t (\<lambda>x. y) (mgr s), waiter := (waiter s)(t := w')\<rparr>)" (is "slot_inv ?s")
proof -
  have t: "t < n_tracked (mgr s)" by (rule pc_bounds(8) [OF assms(1)]) (use w in auto)
  note f = t_facts [OF assms(1) t]
  have r: "process (trackeds (mgr s) t) \<noteq> None" using f(1) w by (auto simp: track_inv_def split: option.splits)
  have w': "w' \<notin> {WNone, WRun}" using w by auto
  have rem: "remembered_pc (waiter s t)" using w by auto
  note tab = table_kept [OF assms(1), of ?s]
  show ?thesis
  proof (rule t_step [OF assms(1) t])
    show "t_kept t s ?s" using w y by (auto simp: t_kept_def slot_updates)
    show "prep (trackeds (mgr s) t) = None \<Longrightarrow> legacy_inv (trackeds (mgr ?s) t) (waiter ?s t) (legacy s t) (cur (mgr s) t)"
      using f(2) w' y r by (auto simp: legacy_inv_def slot_updates)
    show "prep (trackeds (mgr s) t) = Some p \<Longrightarrow> pending (mgr ?s) p \<Longrightarrow>
        cur (mgr s) t \<and> processOwnsSlot (trackeds (mgr ?s) t) \<and> \<not> remembered_pc (waiter ?s t)" for p
      using f(5) rem tab(2) [of p] by (simp add: slot_updates)
    show "prep_inv (preps (mgr s) p) (trackeds (mgr ?s) t) (owner s p) (aborter s p) (cleaner s p)
        (waiter ?s t) (cur (mgr s) t)" if "prep (trackeds (mgr s) t) = Some p" for p
    proof -
      have "prep_inv (preps (mgr s) p) (trackeds (mgr s) t) (owner s p) (aborter s p) (cleaner s p) w' (cur (mgr s) t)"
        using prep_wait_done [OF f(4) [OF that]] prep_wait_package [OF f(4) [OF that]] w r by blast
      then show ?thesis
        using prep_fields [of _ _ _ _ _ w' _ y] w' r y by (simp add: slot_updates)
    qed
  qed (use tab tr in \<open>simp_all add: slot_updates\<close>)
qed

lemma pkg_entry:
  assumes "slot_inv s" and "waiter s t = WPackage j \<or> waiter s t = WPackaging j"
  shows "entry (mgr s) (PkgStreamID j) = Some t" and "archive_map (trackeds (mgr s) t) \<noteq> None"
    and "track_inv (trackeds (mgr s) t) (waiter s t) (stopper s t) (procs (mgr s)) (n_proc (mgr s)) (cur (mgr s) t)"
proof -
  have t: "t < n_tracked (mgr s)" by (rule pc_bounds(8) [OF assms(1)]) (use assms(2) in auto)
  show f: "track_inv (trackeds (mgr s) t) (waiter s t) (stopper s t) (procs (mgr s)) (n_proc (mgr s)) (cur (mgr s) t)"
    by (rule t_facts(1) [OF assms(1) t])
  then show "entry (mgr s) (PkgStreamID j) = Some t" "archive_map (trackeds (mgr s) t) \<noteq> None"
    using assms(2) by (auto simp: track_inv_def packaging_inv_def cur_def)
qed

lemma pkg_begin_inv:
  assumes "slot_inv s" and "pkg_begin t s = Some s'"
  shows "slot_inv s'"
proof -
  obtain j where w: "waiter s t = WPackage j"
    and s': "s' = s\<lparr>mgr := package_begin j (mgr s), waiter := (waiter s)(t := WPackaging j)\<rparr>"
    using assms(2) by (auto simp: pkg_begin_def split: wait_pc.splits)
  note e = pkg_entry [OF assms(1) disjI1 [OF w]]
  have "slot_inv (s\<lparr>mgr := upd_t t (\<lambda>x. (trackeds (mgr s) t)\<lparr>status := Packaging\<rparr>) (mgr s), waiter := (waiter s)(t := WPackaging j)\<rparr>)"
    by (rule pkg_step [OF assms(1)]) (use w track_package_begin [OF e(3) [unfolded w]] in simp_all)
  then show ?thesis by (simp add: s' package_begin_def e(1) upd_t_def)
qed

lemma pkg_failed_inv:
  assumes "slot_inv s" and "pkg_failed t s = Some s'"
  shows "slot_inv s'"
proof -
  obtain j where w: "waiter s t = WPackaging j"
    and s': "s' = s\<lparr>mgr := package_failed j (mgr s), waiter := (waiter s)(t := WDone)\<rparr>"
    using assms(2) by (auto simp: pkg_failed_def split: wait_pc.splits)
  note e = pkg_entry [OF assms(1) disjI2 [OF w]]
  have "slot_inv (s\<lparr>mgr := upd_t t (\<lambda>x. scrubTrackedProcessJob ((trackeds (mgr s) t)\<lparr>status := PackageFailed\<rparr>)) (mgr s),
      waiter := (waiter s)(t := WDone)\<rparr>)"
    by (rule pkg_step [OF assms(1)])
      (use w track_package_end [OF e(3) [unfolded w], of PackageFailed "archive_map (trackeds (mgr s) t)"] in simp_all)
  then show ?thesis by (simp add: s' package_failed_def e(1) upd_t_def)
qed

lemma pkg_done_inv:
  assumes "slot_inv s" and "pkg_done t results s = Some s'"
  shows "slot_inv s'"
proof -
  obtain j where w: "waiter s t = WPackaging j"
    and s': "s' = s\<lparr>mgr := package_completed j results (mgr s), waiter := (waiter s)(t := WDone)\<rparr>"
    using assms(2) by (auto simp: pkg_done_def split: wait_pc.splits)
  note e = pkg_entry [OF assms(1) disjI2 [OF w]]
  obtain a where a: "archive_map (trackeds (mgr s) t) = Some a" using e(2) by blast
  let ?a = "Some (foldr (\<lambda>(k, v). AList.update k v) results a)"
  have "slot_inv (s\<lparr>mgr := upd_t t (\<lambda>x. scrubTrackedProcessJob ((trackeds (mgr s) t)\<lparr>status := Completed, archive_map := ?a\<rparr>)) (mgr s),
      waiter := (waiter s)(t := WDone)\<rparr>)"
    by (rule pkg_step [OF assms(1)]) (use w track_package_end [OF e(3) [unfolded w], of Completed ?a] in simp_all)
  then show ?thesis by (simp add: s' package_completed_def e(1) a Let_def upd_t_def)
qed

end
