(* ===== verification/SlotStarts.thy ===== *)
theory SlotStarts
  imports SlotExits
begin

text \<open>
  The steps that create a process or a record keep the invariant, and with them every calm
  step does.
\<close>

section \<open>A prepared process\<close>

lemma spawn_fields:
  assumes "owner s p = OwnChecked" and "slot_inv s"
  shows "p < n_prep (mgr s)" and "process (trackeds (mgr s) (p_tracked (preps (mgr s) p))) = None"
    and "\<not> holds s (p_tracked (preps (mgr s) p)) r"
proof -
  show p: "p < n_prep (mgr s)" using assms(1) by (intro pc_bounds(1) [OF assms(2)]) simp
  note f = prep_facts [OF assms(2) p]
  show "process (trackeds (mgr s) (p_tracked (preps (mgr s) p))) = None"
    using f(7) assms(1) by (simp add: prep_inv_def owner_inv_def)
  with f(2,3) assms(1) show "\<not> holds s (p_tracked (preps (mgr s) p)) r"
    by (auto simp: holds_def)
qed

lemma own_spawn_inv:
  assumes "slot_inv s" and "own_spawn p s = Some s'"
  shows "slot_inv s'"
proof -
  have o1: "owner s p = OwnChecked" using assms(2) by (simp add: own_spawn_def split: if_splits)
  note n = spawn_fields [OF o1 assms(1)]
  note f = prep_facts [OF assms(1) n(1)]
  let ?t = "p_tracked (preps (mgr s) p)" and ?r = "n_proc (mgr s)"
  let ?R = "(procs (mgr s))(?r := \<lparr>alive = True, killed = False, done_sent = False\<rparr>)"
  have s': "s' = s\<lparr>mgr := (mgr s)\<lparr>procs := ?R, n_proc := ?r + 1\<rparr>, owner := (owner s)(p := OwnSpawned ?r)\<rparr>"
    using assms(2) o1 by (simp add: own_spawn_def spawn_def split: if_splits)
  have lt: "holds s u r \<Longrightarrow> r < ?r" for u r using inv_held [OF assms(1)] by (auto simp: held_def)
  have pend: "pending (mgr s') q = pending (mgr s) q" "table_ok (mgr s') = table_ok (mgr s)" for q
    by (simp_all add: s' pending_def table_ok_def)
  have fr: "frame ?t s s'"
    unfolding frame_def Let_def
    using f(1) n(1) pend inv_table [OF assms(1)] inv_panicked [OF assms(1)]
      inv_heap [OF assms(1), unfolded heap_ok_def calls_ok_def]
    by (intro conjI) (auto simp: s')
  moreover have "procs_frame ?t s s'"
    unfolding procs_frame_def Let_def
    using lt n(3) f(1-3) o1 by (intro conjI) (auto simp: s' holds_def busy_def live_def)
  moreover have "local_at ?t s'"
  proof -
    have "track_inv (trackeds (mgr s) ?t) (waiter s ?t) (stopper s ?t) ?R (Suc ?r) (cur (mgr s) ?t)"
      using track_inv_frame [OF f(6), of "cur (mgr s) ?t" "Suc ?r" ?R] n(2) by simp
    moreover have "prep_inv (preps (mgr s) p) (trackeds (mgr s) ?t) (OwnSpawned ?r) (aborter s p) (cleaner s p)
        (waiter s ?t) (cur (mgr s) ?t)"
      using f(7) o1 n(2) unfolding prep_inv_def by (auto simp: owner_inv_def)
    ultimately show ?thesis
      unfolding local_at_def Let_def frame_cur [OF fr] pend
      using f(2,4,8) by (auto simp: s')
  qed
  ultimately show ?thesis by (rule local_inv [OF assms(1)])
qed

lemma own_install_inv:
  assumes "slot_inv s" and "own_install p now ctx_over j c fr artifacts s = Some s'"
  shows "slot_inv s'"
proof -
  obtain r where o1: "owner s p = OwnSpawned r" and j: "prepareStart_job (identity (preps (mgr s) p)) j"
    using assms(2) by (auto simp: own_install_def split: owner_pc.splits if_splits)
  have p: "p < n_prep (mgr s)" using o1 by (intro pc_bounds(1) [OF assms(1)]) simp
  note f = prep_facts [OF assms(1) p]
  let ?t = "p_tracked (preps (mgr s) p)"
  let ?b = "phase (preps (mgr s) p) \<noteq> Preparing \<or> ctx_over \<or> start_cancelled (preps (mgr s) p)"
  let ?x = "(preps (mgr s) p)\<lparr>frame := Some fr, phase := (if ?b then phase (preps (mgr s) p) else Prepared),
      expires_at := now + preparation_lifetime, exited := Some False\<rparr>"
  let ?y = "(trackeds (mgr s) ?t)\<lparr>t_stream := JobStreamID j, status := Starting,
      archive_map := Some artifacts, process := Some r, job := j, watermark := True,
      cover := c\<lparr>c_source := True, c_replay := [], c_terminal := c_terminal (cover (trackeds (mgr s) ?t)),
                  c_replay_order := c_replay_order (cover (trackeds (mgr s) ?t))\<rparr>\<rparr>"
  have s': "s' = s\<lparr>mgr := (mgr s)\<lparr>trackeds := (trackeds (mgr s))(?t := ?y), preps := (preps (mgr s))(p := ?x)\<rparr>,
      owner := (owner s)(p := OwnInstalled ?b), waiter := (waiter s)(?t := WRun)\<rparr>"
    using assms(2) o1 j by (simp add: own_install_def install_prepared_def upd_t_def upd_p_def Let_def cong: if_cong)
  have st: "starting_pc (owner s p)" by (simp add: o1)
  have y: "process (trackeds (mgr s) ?t) = None" "status (trackeds (mgr s) ?t) = Starting" and c: "cur (mgr s) ?t"
    using f(7) st by (simp_all add: prep_inv_def owner_inv_def)
  have w: "waiter s ?t = WNone" "stopper s ?t = SpNone"
    using f(6) y by (simp_all add: track_inv_def)
  have js: "JobStreamID j = t_stream (trackeds (mgr s) ?t)"
    using j inv_heap [OF assms(1)] p by (auto simp: prepareStart_job_def heap_ok_def links_ok_def)
  have h: "holds s ?t q \<longleftrightarrow> q = r" for q
    using f(1-3) y o1 by (auto simp: holds_def)
  have h': "holds s' ?t q \<longleftrightarrow> q = r" for q
    using f(1-3) o1 by (auto simp: holds_def s')
  have b': "busy s' ?t" and b: "busy s ?t" using f(1,2) st by (auto simp: busy_def s')
  have hn: "holds s u q \<Longrightarrow> q < n_proc (mgr s)" for u q using inv_held [OF assms(1)] by (auto simp: held_def)
  then have r: "r < n_proc (mgr s)" using h by blast
  have pend: "pending (mgr s') q = pending (mgr s) q" "table_ok (mgr s') = table_ok (mgr s)" for q
    using table_same [of "mgr s'" "mgr s"] by (simp_all add: s')
  have fr: "frame ?t s s'"
    unfolding frame_def Let_def
    using f(1) p pend inv_table [OF assms(1)] inv_panicked [OF assms(1)] js
      inv_heap [OF assms(1), unfolded heap_ok_def calls_ok_def]
    by (intro conjI) (auto simp: s')
  moreover have "procs_frame ?t s s'"
    unfolding procs_frame_def Let_def h h'
    using r b b' by (intro conjI) (auto simp: s' live_def)
  moreover have "local_at ?t s'"
  proof -
    have "track_inv ?y WRun SpNone (procs (mgr s)) (n_proc (mgr s)) (cur (mgr s) ?t)"
      by (rule track_install [OF f(6) [unfolded w]])
        (use c r js inv_sent [OF assms(1)] in \<open>auto simp: sent_ok_def\<close>)
    moreover have "prep_inv ?x ?y (OwnInstalled ?b) (aborter s p) (cleaner s p) WRun (cur (mgr s) ?t)"
      by (rule prep_install [OF f(7) [unfolded o1 w]]) (use j in \<open>auto simp: prepareStart_job_def split: option.splits\<close>)
    ultimately show ?thesis
      unfolding local_at_def Let_def frame_cur [OF fr] pend
      using f(2,4,8) w by (auto simp: s' processOwnsSlot_def)
  qed
  ultimately show ?thesis by (rule local_inv [OF assms(1)])
qed

section \<open>New records\<close>

text \<open>A tracked process that a step does not touch, except that its entry may go to another one.\<close>

lemma local_untouched:
  assumes "slot_inv s" and u: "u < n_tracked (mgr s)" "n_proc (mgr s) \<le> n_proc (mgr s')"
    and same: "trackeds (mgr s') u = trackeds (mgr s) u" "waiter s' u = waiter s u" "stopper s' u = stopper s u"
      "legacy s' u = legacy s u"
    and R: "\<And>r. process (trackeds (mgr s) u) = Some r \<Longrightarrow> procs (mgr s') r = procs (mgr s) r"
    and P: "\<And>p. p < n_prep (mgr s') \<Longrightarrow> p_tracked (preps (mgr s') p) = u \<Longrightarrow> p < n_prep (mgr s)
      \<and> preps (mgr s') p = preps (mgr s) p \<and> owner s' p = owner s p \<and> aborter s' p = aborter s p
      \<and> cleaner s' p = cleaner s p \<and> (pending (mgr s') p \<longrightarrow> pending (mgr s) p)"
    and c: "cur (mgr s) u \<Longrightarrow> processOwnsSlot (trackeds (mgr s) u) \<Longrightarrow> cur (mgr s') u"
  shows "local_at u s'"
proof -
  have l: "local_at u s" by (rule inv_local [OF assms(1)])
  have "track_inv (trackeds (mgr s) u) (waiter s u) (stopper s u) (procs (mgr s')) (n_proc (mgr s')) (cur (mgr s') u)"
    by (rule track_inv_frame [where R = "procs (mgr s)" and n = "n_proc (mgr s)" and c = "cur (mgr s) u"])
      (use l u c R in \<open>auto simp: local_at_def Let_def\<close>)
  moreover have "legacy_inv (trackeds (mgr s) u) (waiter s u) (legacy s u) (cur (mgr s') u)"
    if "prep (trackeds (mgr s) u) = None"
    using that l u c by (auto simp: local_at_def Let_def intro: legacy_inv_frame)
  moreover have "prep_inv (preps (mgr s') p) (trackeds (mgr s) u) (owner s' p) (aborter s' p) (cleaner s' p)
        (waiter s u) (cur (mgr s') u)
      \<and> (pending (mgr s') p \<longrightarrow> cur (mgr s') u \<and> processOwnsSlot (trackeds (mgr s) u) \<and> \<not> remembered_pc (waiter s u))"
    if "p < n_prep (mgr s')" "p_tracked (preps (mgr s') p) = u" for p
  proof -
    note q = P [OF that]
    then have pt: "p_tracked (preps (mgr s) p) = u" using that by simp
    from l u q pt have "prep_inv (preps (mgr s) p) (trackeds (mgr s) u) (owner s p) (aborter s p) (cleaner s p)
          (waiter s u) (cur (mgr s) u)"
      and pe: "pending (mgr s) p \<Longrightarrow> cur (mgr s) u \<and> processOwnsSlot (trackeds (mgr s) u) \<and> \<not> remembered_pc (waiter s u)"
      by (auto simp: local_at_def Let_def)
    from prep_inv_frame [OF this(1) c] q pe c show ?thesis by auto
  qed
  ultimately show ?thesis unfolding local_at_def Let_def same by blast
qed

text \<open>What is busy has its entry and owns the slot.\<close>

lemma busy_current:
  assumes "slot_inv s" and "busy s t"
  shows "cur (mgr s) t" and "processOwnsSlot (trackeds (mgr s) t)"
    and "map_of (processes (mgr s)) (t_stream (trackeds (mgr s) t)) = Some t"
proof -
  have t: "t < n_tracked (mgr s)" using assms(2) by (simp add: busy_def)
  note f = t_facts [OF assms(1) t]
  consider (w) "waiter s t = WRun" | (l) "legacy_busy (legacy s t)"
    | (p) p where "prep (trackeds (mgr s) t) = Some p" "starting_pc (owner s p)"
    using assms(2) by (auto simp: busy_def)
  then have "cur (mgr s) t \<and> processOwnsSlot (trackeds (mgr s) t)"
  proof cases
    case w
    then show ?thesis using f(1) by (auto simp: track_inv_def processOwnsSlot_def)
  next
    case l
    then have "legacy s t \<noteq> LgNone" by auto
    then have "prep (trackeds (mgr s) t) = None" using pc_bounds(10) [OF assms(1)] by blast
    then show ?thesis using f(2) l by (auto simp: legacy_inv_def processOwnsSlot_def)
  next
    case p
    then show ?thesis using f(4) [OF p(1)] by (auto simp: prep_inv_def owner_inv_def processOwnsSlot_def)
  qed
  then show "cur (mgr s) t" "processOwnsSlot (trackeds (mgr s) t)"
    "map_of (processes (mgr s)) (t_stream (trackeds (mgr s) t)) = Some t"
    by (simp_all add: cur_def)
qed

lemma drained_entry: "isDrained m \<Longrightarrow> map_of (processes m) i = Some t \<Longrightarrow> \<not> processOwnsSlot (trackeds m t)"
  by (auto simp: isDrained_def list_all_iff dest!: map_of_SomeD)

lemma drained_idle: "slot_inv s \<Longrightarrow> isDrained (mgr s) \<Longrightarrow> \<not> busy s t"
  using busy_current(2,3) drained_entry by metis

lemma pending_current:
  assumes "slot_inv s" and "pending (mgr s) p"
  shows "p < n_prep (mgr s)" and "map_of (processes (mgr s)) (t_stream (trackeds (mgr s) (p_tracked (preps (mgr s) p))))
      = Some (p_tracked (preps (mgr s) p))"
    and "processOwnsSlot (trackeds (mgr s) (p_tracked (preps (mgr s) p)))"
    and "prep (trackeds (mgr s) (p_tracked (preps (mgr s) p))) = Some p"
proof -
  show p: "p < n_prep (mgr s)"
    using inv_table [OF assms(1)] assms(2) unfolding pending_def table_ok_def Let_def by blast
  show "map_of (processes (mgr s)) (t_stream (trackeds (mgr s) (p_tracked (preps (mgr s) p))))
      = Some (p_tracked (preps (mgr s) p))"
    "processOwnsSlot (trackeds (mgr s) (p_tracked (preps (mgr s) p)))"
    "prep (trackeds (mgr s) (p_tracked (preps (mgr s) p))) = Some p"
    using prep_facts [OF assms(1) p] assms(2) by (auto simp: cur_def)
qed

lemma taken_entry:
  "\<not> slot_taken m i \<Longrightarrow> map_of (processes m) k = Some t \<Longrightarrow> processOwnsSlot (trackeds m t) \<Longrightarrow>
    k \<noteq> i \<and> prep (trackeds m t) = None"
  by (force simp: slot_taken_def list_ex_iff dest!: map_of_SomeD)

lemma unused_facts:
  assumes "slot_inv s"
  shows "n_tracked (mgr s) \<le> t \<Longrightarrow> waiter s t = WNone \<and> stopper s t = SpNone \<and> legacy s t = LgNone"
    and "n_prep (mgr s) \<le> p \<Longrightarrow> owner s p = OwnNone \<and> \<not> timer s p \<and> aborter s p = AbNone \<and> cleaner s p = ClNone
        \<and> \<not> committer s p"
  using inv_heap [OF assms] by (simp_all add: heap_ok_def unused_ok_def)

lemma entries_update:
  assumes "entries_ok m" and "processes m' = AList.update i (n_tracked m) (processes m)"
    and "n_tracked m' = n_tracked m + 1" and "\<And>t. t < n_tracked m \<Longrightarrow> trackeds m' t = trackeds m t"
    and "t_stream (trackeds m' (n_tracked m)) = i"
  shows "entries_ok m'"
proof -
  have "distinct (map fst (processes m'))"
    using assms(1,2) by (simp add: entries_ok_def distinct_update)
  moreover have "t < n_tracked m' \<and> t_stream (trackeds m' t) = k" if "map_of (processes m') k = Some t" for k t
  proof (cases "k = i")
    case True
    with that assms(2,3,5) show ?thesis by (simp add: update_conv')
  next
    case False
    with that assms(2) have "map_of (processes m) k = Some t" by (simp add: update_conv')
    with assms(1) have "t < n_tracked m \<and> t_stream (trackeds m t) = k" unfolding entries_ok_def by blast
    with assms(3,4) show ?thesis by simp
  qed
  ultimately show ?thesis unfolding entries_ok_def by blast
qed

lemma own_begin_inv:
  assumes "slot_inv s" and "own_begin i previous s = Some s'"
  shows "slot_inv s'"
proof -
  let ?m = "mgr s" and ?t = "n_tracked (mgr s)" and ?p = "n_prep (mgr s)"
  let ?y = "zero_tracked\<lparr>t_stream := IdStreamID i, prep := Some ?p\<rparr>"
  have dr: "isDrained ?m" and fresh: "map_of (preparations ?m) (IdStartID i) = None"
    and s': "s' = s\<lparr>mgr := ?m\<lparr>trackeds := (trackeds ?m)(?t := ?y), n_tracked := ?t + 1,
        preps := (preps ?m)(?p := new_preparation i ?t), n_prep := ?p + 1,
        processes := AList.update (IdStreamID i) ?t (processes ?m),
        preparations := AList.update (IdStartID i) ?p (preparations ?m)\<rparr>, owner := (owner s)(?p := OwnBegun)\<rparr>"
    using assms(2) by (auto simp: own_begin_def beginStartPreparation_def Let_def split: if_splits sum.splits)
  note u = unused_facts [OF assms(1)] and h = inv_heap [OF assms(1), unfolded heap_ok_def]
  have idle: "\<not> busy s v" for v by (rule drained_idle [OF assms(1) dr])
  have tab: "map_of (preparations ?m) k = Some q \<Longrightarrow> q < ?p \<and> IdStartID (identity (preps ?m q)) = k" for k q
    using inv_table [OF assms(1)] unfolding table_ok_def by blast
  have none: "\<not> pending ?m q" for q
    using pending_current [OF assms(1)] drained_entry [OF dr] by metis
  have pend: "pending (mgr s') q \<Longrightarrow> q = ?p" for q
  proof (rule ccontr)
    assume a: "pending (mgr s') q" "q \<noteq> ?p"
    let ?k = "IdStartID (identity (preps ?m q))"
    have "map_of (preparations ?m) ?k = Some q" "?k \<notin> set (preparationOrder ?m)"
      using a by (auto simp: pending_def s' Let_def update_conv' split: if_splits)
    then show False using none [of q] by (simp add: pending_def)
  qed
  have link: "v < ?t \<Longrightarrow> prep (trackeds ?m v) = Some q \<Longrightarrow> q < ?p \<and> p_tracked (preps ?m q) = v"
      "q < ?p \<Longrightarrow> p_tracked (preps ?m q) < ?t" for v q
    using h unfolding links_ok_def by blast+
  then have link': "q < ?p \<Longrightarrow> p_tracked (preps ?m q) \<noteq> ?t" for q
    by (metis less_irrefl)
  have "heap_ok s'"
  proof -
    have "entries_ok (mgr s')"
      by (rule entries_update [of ?m]) (use h in \<open>simp_all add: s' zero_tracked_def\<close>)
    moreover have "links_ok (mgr s')"
      using h link link' by (auto simp: links_ok_def s' new_preparation_def less_Suc_eq)
    moreover have "unused_ok s'" using h by (auto simp: unused_ok_def s' less_Suc_eq u)
    moreover have "calls_ok s'" using h by (auto simp: calls_ok_def s' less_Suc_eq)
    ultimately show ?thesis by (simp add: heap_ok_def)
  qed
  moreover have "table_ok (mgr s')"
  proof -
    have "distinct (map fst (preparations (mgr s')))"
      using inv_table [OF assms(1)] by (simp add: table_ok_def s' distinct_update)
    moreover have "q < n_prep (mgr s') \<and> IdStartID (identity (preps (mgr s') q)) = k"
      if "map_of (preparations (mgr s')) k = Some q" for k q
      using that tab [of k q] by (auto simp: s' update_conv' new_preparation_def split: if_splits)
    ultimately show ?thesis using inv_table [OF assms(1)] unfolding table_ok_def by (simp add: s')
  qed
  moreover have "one_pending (mgr s')" using pend unfolding one_pending_def by blast
  moreover have busy: "busy s' v \<Longrightarrow> v = ?t" for v
  proof (rule ccontr)
    assume a: "busy s' v" "v \<noteq> ?t"
    then have "v < ?t" by (simp add: busy_def s')
    with a link(1) [of v] have "busy s v" by (auto simp: busy_def s' split: if_splits)
    with idle show False by blast
  qed
  moreover from this have "exclusive s'" unfolding exclusive_def by blast
  moreover have "held s'"
  proof -
    have "holds s' v r \<longleftrightarrow> holds s v r" for v r
    proof (cases "v < ?t")
      case True
      then have T: "trackeds (mgr s') v = trackeds ?m v" "v < n_tracked (mgr s')" "legacy s' = legacy s"
        and O: "\<And>q. prep (trackeds ?m v) = Some q \<Longrightarrow> owner s' q = owner s q"
        using link(1) [of v] by (auto simp: s')
      show ?thesis unfolding holds_def T(1,3) using T(2) True O by auto
    next
      case False
      then show ?thesis using u(1) by (auto simp: holds_def s' zero_tracked_def)
    qed
    moreover have "\<not> live (mgr s') r" for r
      using inv_held [OF assms(1)] idle by (auto simp: held_def s' live_def)
    ultimately show ?thesis using inv_held [OF assms(1)] unfolding held_def by (simp add: s')
  qed
  moreover have "sent_ok (mgr s')" using inv_sent [OF assms(1)] by (simp add: sent_ok_def s')
  moreover have "\<not> panicked (mgr s')" using inv_panicked [OF assms(1)] by (simp add: s')
  moreover have "local_at v s'" for v
  proof -
    consider (new) "v = ?t" | (old) "v < ?t" | (out) "?t < v" by linarith
    then show ?thesis
    proof cases
      case new
      have c: "cur (mgr s') ?t" by (simp add: cur_def s' update_conv')
      have "track_inv ?y WNone SpNone (procs ?m) (n_proc ?m) True"
        by (simp add: track_inv_def zero_tracked_def processOwnsSlot_def)
      moreover have "prep_inv (new_preparation i ?t) ?y OwnBegun AbNone ClNone WNone True"
        by (simp add: prep_inv_def owner_inv_def phase_inv_def abort_inv_def cleaner_inv_def
            new_preparation_def zero_tracked_def)
      ultimately show ?thesis
        using new c u link' by (auto simp: local_at_def Let_def s' less_Suc_eq processOwnsSlot_def zero_tracked_def)
    next
      case old
      show ?thesis
      proof (rule local_untouched [OF assms(1) old])
        show "cur (mgr s') v" if "cur ?m v" "processOwnsSlot (trackeds ?m v)"
          using that drained_entry [OF dr] by (auto simp: cur_def)
        show "q < ?p \<and> preps (mgr s') q = preps ?m q \<and> owner s' q = owner s q \<and> aborter s' q = aborter s q
            \<and> cleaner s' q = cleaner s q \<and> (pending (mgr s') q \<longrightarrow> pending ?m q)"
          if "q < n_prep (mgr s')" "p_tracked (preps (mgr s') q) = v" for q
        proof -
          have "q \<noteq> ?p" using that(2) old by (auto simp: s' new_preparation_def)
          moreover from this have "\<not> pending (mgr s') q" using pend by blast
          moreover have "q < Suc ?p" using that(1) by (simp add: s')
          moreover have "preps (mgr s') q = preps ?m q" "owner s' q = owner s q" "aborter s' q = aborter s q"
            "cleaner s' q = cleaner s q"
            using \<open>q \<noteq> ?p\<close> by (simp_all add: s')
          ultimately show ?thesis by simp
        qed
      qed (use old in \<open>simp_all add: s'\<close>)
    next
      case out
      then show ?thesis by (simp add: local_at_def s' Let_def)
    qed
  qed
  ultimately show ?thesis by (simp add: slot_inv_def)
qed

section \<open>Independent starts\<close>

lemma legacy_facts:
  assumes "slot_inv s" and "legacy_busy (legacy s t)"
  shows "t < n_tracked (mgr s)" and "prep (trackeds (mgr s) t) = None" and "process (trackeds (mgr s) t) = None"
    and "cur (mgr s) t" and "busy s t" and "waiter s t = WNone" and "stopper s t = SpNone"
    and "status (trackeds (mgr s) t) = Starting"
    and "holds s t r \<longleftrightarrow> legacy s t = LgSpawned r"
    and "cur (mgr s) u \<Longrightarrow> u \<noteq> t \<Longrightarrow> t_stream (trackeds (mgr s) u) \<noteq> t_stream (trackeds (mgr s) t)"
proof -
  have "legacy s t \<noteq> LgNone" using assms(2) by auto
  then show t: "t < n_tracked (mgr s)" and p: "prep (trackeds (mgr s) t) = None"
    using pc_bounds(10) [OF assms(1)] by blast+
  note f = t_facts [OF assms(1) t]
  show r: "process (trackeds (mgr s) t) = None" and c: "cur (mgr s) t" and "status (trackeds (mgr s) t) = Starting"
    using f(2) [OF p] assms(2) by (simp_all add: legacy_inv_def)
  show "waiter s t = WNone" "stopper s t = SpNone" using f(1) r by (simp_all add: track_inv_def)
  show "busy s t" using t assms(2) by (simp add: busy_def)
  show "holds s t r \<longleftrightarrow> legacy s t = LgSpawned r" using t p r by (auto simp: holds_def)
  show "cur (mgr s) u \<Longrightarrow> u \<noteq> t \<Longrightarrow> t_stream (trackeds (mgr s) u) \<noteq> t_stream (trackeds (mgr s) t)"
    using c by (auto simp: cur_def)
qed

lemma reserve_inv:
  assumes "slot_inv s" and "\<not> slot_taken (mgr s) (JobStreamID j)"
  shows "slot_inv (s\<lparr>mgr := (mgr s)\<lparr>trackeds := (trackeds (mgr s))(n_tracked (mgr s) :=
        zero_tracked\<lparr>t_stream := JobStreamID j, job := j\<rparr>), n_tracked := n_tracked (mgr s) + 1,
      processes := AList.update (JobStreamID j) (n_tracked (mgr s)) (processes (mgr s))\<rparr>,
    legacy := (legacy s)(n_tracked (mgr s) := LgReserved)\<rparr>)" (is "slot_inv ?s")
proof -
  let ?m = "mgr s" and ?t = "n_tracked (mgr s)"
  let ?y = "zero_tracked\<lparr>t_stream := JobStreamID j, job := j\<rparr>"
  note u = unused_facts [OF assms(1)] and h = inv_heap [OF assms(1), unfolded heap_ok_def]
  have link: "q < n_prep ?m \<Longrightarrow> p_tracked (preps ?m q) < ?t" for q
    using h unfolding links_ok_def by blast
  then have link': "q < n_prep ?m \<Longrightarrow> p_tracked (preps ?m q) \<noteq> ?t" for q
    by (metis less_irrefl)
  have pend: "pending (mgr ?s) q = pending ?m q" "table_ok (mgr ?s) = table_ok ?m" for q
    using table_same [of "mgr ?s" ?m] by simp_all
  have other: "t_stream (trackeds ?m v) \<noteq> JobStreamID j \<and> prep (trackeds ?m v) = None"
    if "cur ?m v" "processOwnsSlot (trackeds ?m v)" for v
    using taken_entry [OF assms(2)] that by (auto simp: cur_def)
  have "heap_ok ?s"
  proof -
    have "entries_ok (mgr ?s)"
      by (rule entries_update [of ?m]) (use h in simp_all)
    moreover have "links_ok (mgr ?s)"
      using h link link' by (auto simp: links_ok_def less_Suc_eq zero_tracked_def)
    moreover have "unused_ok ?s" using h by (auto simp: unused_ok_def less_Suc_eq zero_tracked_def u)
    moreover have "calls_ok ?s" using h by (simp add: calls_ok_def)
    ultimately show ?thesis by (simp add: heap_ok_def)
  qed
  moreover have "one_pending (mgr ?s)" using inv_one_pending [OF assms(1)] unfolding one_pending_def pend .
  moreover have same: "holds ?s v r = holds s v r" "v \<noteq> ?t \<Longrightarrow> busy ?s v = busy s v" for v r
    using u(1) by (cases "v = ?t"; auto simp: holds_def busy_def zero_tracked_def)+
  moreover have "busy ?s ?t" by (simp add: busy_def)
  moreover have "exclusive ?s"
    unfolding exclusive_def
  proof (intro allI impI)
    fix v w assume "busy ?s v"
    show "prep (trackeds (mgr ?s) v) = None"
    proof (cases "v = ?t")
      case True
      then show ?thesis by (simp add: zero_tracked_def)
    next
      case False
      then have "busy s v" using \<open>busy ?s v\<close> same(2) by blast
      then have "prep (trackeds ?m v) = None" using busy_current [OF assms(1)] other by blast
      with False show ?thesis by simp
    qed
  qed
  moreover have "held ?s"
    unfolding held_def
  proof (intro conjI allI impI)
    fix r assume "live (mgr ?s) r"
    then obtain v where v: "holds s v r" "busy s v"
      using inv_held [OF assms(1)] by (auto simp: held_def live_def)
    then have "v \<noteq> ?t" by (auto simp: holds_def)
    with v same show "\<exists>v. holds ?s v r \<and> busy ?s v" by blast
  qed (use inv_held [OF assms(1)] same(1) in \<open>auto simp: held_def\<close>)
  moreover have "sent_ok (mgr ?s)" using inv_sent [OF assms(1)] by (simp add: sent_ok_def)
  moreover have "local_at v ?s" for v
  proof -
    consider (new) "v = ?t" | (old) "v < ?t" | (out) "?t < v" by linarith
    then show ?thesis
    proof cases
      case new
      have c: "cur (mgr ?s) ?t" by (simp add: cur_def update_conv')
      have "track_inv ?y WNone SpNone (procs ?m) (n_proc ?m) True" "legacy_inv ?y WNone LgReserved True"
        by (simp_all add: track_inv_def legacy_inv_def zero_tracked_def processOwnsSlot_def)
      then show ?thesis
        using new c u(1) link' by (auto simp: local_at_def Let_def zero_tracked_def)
    next
      case old
      show ?thesis
      proof (rule local_untouched [OF assms(1) old])
        show "cur (mgr ?s) v" if "cur ?m v" "processOwnsSlot (trackeds ?m v)"
          using that other [OF that] old by (simp add: cur_def update_conv')
      qed (use old pend(1) in \<open>auto simp del: fun_upd_apply simp: fun_upd_other\<close>)
    next
      case out
      then show ?thesis by (simp add: local_at_def Let_def)
    qed
  qed
  ultimately show ?thesis
    using inv_table [OF assms(1)] inv_panicked [OF assms(1)] pend(2) by (simp add: slot_inv_def)
qed

lemma leg_reserve_inv:
  assumes "slot_inv s" and "leg_reserve j s = Some s'"
  shows "slot_inv s'"
proof -
  let ?s = "s\<lparr>mgr := (mgr s)\<lparr>receipts := removeAll (JobStreamID j) (receipts (mgr s))\<rparr>\<rparr>"
  have i: "slot_inv ?s" by (rule receipts_inv [OF assms(1)])
  show ?thesis
  proof (cases "slot_taken (mgr ?s) (JobStreamID j)")
    case True
    then have "s' = ?s" using assms(2) by (simp add: leg_reserve_def reserve_start_def split: if_splits)
    with i show ?thesis by simp
  next
    case False
    from reserve_inv [OF i this] show ?thesis
      using assms(2) False by (simp add: leg_reserve_def reserve_start_def Let_def split: if_splits)
  qed
qed

lemma leg_spawn_inv:
  assumes "slot_inv s" and "leg_spawn t s = Some s'"
  shows "slot_inv s'"
proof -
  let ?r = "n_proc (mgr s)"
  let ?R = "(procs (mgr s))(?r := \<lparr>alive = True, killed = False, done_sent = False\<rparr>)"
  have l: "legacy s t = LgReserved" and s': "s' = s\<lparr>mgr := (mgr s)\<lparr>procs := ?R, n_proc := ?r + 1\<rparr>,
      legacy := (legacy s)(t := LgSpawned ?r)\<rparr>"
    using assms(2) by (auto simp: leg_spawn_def spawn_def split: if_splits)
  have lb: "legacy_busy (legacy s t)" by (simp add: l)
  note f = legacy_facts [OF assms(1) lb]
  note g = t_facts [OF assms(1) f(1)]
  have lt: "holds s u r \<Longrightarrow> r < ?r" for u r using inv_held [OF assms(1)] by (auto simp: held_def)
  have pend: "pending (mgr s') q = pending (mgr s) q" "table_ok (mgr s') = table_ok (mgr s)" for q
    using table_same [of "mgr s'" "mgr s"] by (simp_all add: s')
  have np: "p < n_prep (mgr s) \<Longrightarrow> p_tracked (preps (mgr s) p) \<noteq> t" for p
    using prep_facts(2) [OF assms(1)] f(2) by (metis option.distinct(1))
  have fr: "frame t s s'"
    unfolding frame_def Let_def
    using f pend inv_table [OF assms(1)] inv_panicked [OF assms(1)]
      inv_heap [OF assms(1), unfolded heap_ok_def calls_ok_def]
    by (intro conjI) (auto simp: s')
  moreover have "procs_frame t s s'"
    unfolding procs_frame_def Let_def f(9) using lt f(1-5) l
    by (intro conjI) (auto simp: s' holds_def busy_def live_def)
  moreover have "local_at t s'"
  proof -
    have "track_inv (trackeds (mgr s) t) (waiter s t) (stopper s t) ?R (Suc ?r) (cur (mgr s) t)"
      using track_inv_frame [OF g(1), of "cur (mgr s) t" "Suc ?r" ?R] f(3) by simp
    moreover have "legacy_inv (trackeds (mgr s) t) (waiter s t) (LgSpawned ?r) (cur (mgr s) t)"
      using g(2) [OF f(2)] l f(6) by (simp add: legacy_inv_def)
    ultimately show ?thesis
      unfolding local_at_def Let_def frame_cur [OF fr] pend using np by (auto simp: s')
  qed
  ultimately show ?thesis by (rule local_inv [OF assms(1)])
qed

text \<open>A reservation that is given up; its process, if any, has been killed.\<close>

lemma release_inv:
  assumes "slot_inv s" and "legacy_busy (legacy s t)"
    and dead: "\<And>r. legacy s t = LgSpawned r \<Longrightarrow> killed (procs (mgr s) r)"
  shows "slot_inv (s\<lparr>mgr := (mgr s)\<lparr>processes := AList.delete (t_stream (trackeds (mgr s) t)) (processes (mgr s))\<rparr>,
    legacy := (legacy s)(t := LgGone)\<rparr>)" (is "slot_inv ?s")
proof -
  let ?m = "mgr s"
  note f = legacy_facts [OF assms(1,2)] and h = inv_heap [OF assms(1), unfolded heap_ok_def]
  have pend: "pending (mgr ?s) q = pending ?m q" "table_ok (mgr ?s) = table_ok ?m" for q
    using table_same [of "mgr ?s" ?m] by simp_all
  have "heap_ok ?s"
  proof -
    have "entries_ok (mgr ?s)"
      using h by (auto simp: entries_ok_def distinct_delete delete_conv' split: if_splits)
    moreover have "links_ok (mgr ?s)" using h by (simp add: links_ok_def)
    moreover have "unused_ok ?s" using h f(1,2) by (auto simp: unused_ok_def)
    moreover have "calls_ok ?s" using h by (simp add: calls_ok_def)
    ultimately show ?thesis by (simp add: heap_ok_def)
  qed
  moreover have "one_pending (mgr ?s)" using inv_one_pending [OF assms(1)] unfolding one_pending_def pend .
  moreover have none: "\<not> holds ?s t r" "\<not> busy ?s t" for r
    using f(2,3,6) by (auto simp: holds_def busy_def)
  moreover have same: "v \<noteq> t \<Longrightarrow> holds ?s v r = holds s v r" "v \<noteq> t \<Longrightarrow> busy ?s v = busy s v" for v r
    by (auto simp: holds_def busy_def)
  moreover have "exclusive ?s"
    unfolding exclusive_def
  proof (intro allI impI)
    fix v w assume "busy ?s v" "busy ?s w" "v \<noteq> w"
    with none(2) same(2) have "busy s v" "busy s w" "v \<noteq> w" by metis+
    then show "prep (trackeds (mgr ?s) v) = None"
      using inv_exclusive [OF assms(1)] by (auto simp: exclusive_def)
  qed
  moreover have "held ?s"
    unfolding held_def
  proof (intro conjI allI impI)
    fix v w r assume "holds ?s v r" "holds ?s w r"
    with none(1) same(1) have "holds s v r" "holds s w r" by metis+
    then show "v = w" using inv_held [OF assms(1)] unfolding held_def by blast
  next
    fix v r assume "holds ?s v r"
    with none(1) same(1) have "holds s v r" by metis
    then show "r < n_proc (mgr ?s)" using inv_held [OF assms(1)] by (auto simp: held_def)
  next
    fix r assume l: "live (mgr ?s) r"
    then obtain v where v: "holds s v r" "busy s v"
      using inv_held [OF assms(1)] by (auto simp: held_def live_def)
    have "v \<noteq> t"
    proof
      assume "v = t"
      with v f(9) have "legacy s t = LgSpawned r" by blast
      from dead [OF this] l show False by (simp add: live_def)
    qed
    with v same show "\<exists>v. holds ?s v r \<and> busy ?s v" by blast
  qed
  moreover have "sent_ok (mgr ?s)" using inv_sent [OF assms(1)] by (simp add: sent_ok_def)
  moreover have "local_at v ?s" for v
  proof -
    consider (self) "v = t" | (old) "v < n_tracked ?m" "v \<noteq> t" | (out) "n_tracked ?m \<le> v" by linarith
    then show ?thesis
    proof cases
      case self
      note g = t_facts [OF assms(1) f(1)]
      have np: "p < n_prep ?m \<Longrightarrow> p_tracked (preps ?m p) \<noteq> t" for p
        using prep_facts(2) [OF assms(1)] f(2) by (metis option.distinct(1))
      have "track_inv (trackeds ?m t) (waiter s t) (stopper s t) (procs ?m) (n_proc ?m) c" for c
        using g(1) f(3,6) by (auto simp: track_inv_def)
      moreover have "legacy_inv (trackeds ?m t) (waiter s t) LgGone c" for c
        using f(6) by (simp add: legacy_inv_def)
      ultimately show ?thesis using self np by (auto simp: local_at_def Let_def)
    next
      case old
      show ?thesis
      proof (rule local_untouched [OF assms(1) old(1)])
        show "cur (mgr ?s) v" if "cur ?m v"
          using f(10) [OF that old(2)] that by (simp add: cur_def delete_conv')
      qed (use old pend(1) in \<open>simp_all\<close>)
    next
      case out
      then show ?thesis by (simp add: local_at_def Let_def)
    qed
  qed
  ultimately show ?thesis
    using inv_table [OF assms(1)] inv_panicked [OF assms(1)] pend(2) by (simp add: slot_inv_def)
qed

lemma leg_fail_inv:
  assumes "slot_inv s" and "leg_fail t s = Some s'"
  shows "slot_inv s'"
proof -
  have "legacy_busy (legacy s t)" using assms(2) by (auto simp: leg_fail_def split: legacy_pc.splits)
  note f = legacy_facts [OF assms(1) this]
  have e: "entry (mgr s) (t_stream (trackeds (mgr s) t)) = Some t" using f(4) by (simp add: cur_def)
  show ?thesis
  proof (cases "legacy s t")
    case LgReserved
    have "slot_inv (s\<lparr>mgr := (mgr s)\<lparr>processes := AList.delete (t_stream (trackeds (mgr s) t)) (processes (mgr s))\<rparr>,
        legacy := (legacy s)(t := LgGone)\<rparr>)"
      by (rule release_inv [OF assms(1)]) (simp_all add: LgReserved)
    then show ?thesis using assms(2) LgReserved e by (simp add: leg_fail_def release_start_def Let_def)
  next
    case (LgSpawned r)
    let ?s = "s\<lparr>mgr := upd_r r (\<lambda>x. x\<lparr>killed := True\<rparr>) (mgr s)\<rparr>"
    have i: "slot_inv ?s" by (rule upd_r_inv [OF assms(1)]) simp_all
    have "slot_inv (?s\<lparr>mgr := (mgr ?s)\<lparr>processes := AList.delete (t_stream (trackeds (mgr ?s) t)) (processes (mgr ?s))\<rparr>,
        legacy := (legacy ?s)(t := LgGone)\<rparr>)"
      by (rule release_inv [OF i]) (simp_all add: LgSpawned upd_r_def)
    then show ?thesis using assms(2) LgSpawned e by (simp add: leg_fail_def release_start_def Let_def upd_r_def)
  qed (use \<open>legacy_busy (legacy s t)\<close> in simp_all)
qed

lemma leg_install_inv:
  assumes "slot_inv s" and "leg_install t j c artifacts s = Some s'"
  shows "slot_inv s'"
proof -
  let ?m = "mgr s" and ?t = "n_tracked (mgr s)"
  obtain r where l: "legacy s t = LgSpawned r" and js: "JobStreamID j = t_stream (trackeds ?m t)"
    using assms(2) by (auto simp: leg_install_def split: legacy_pc.splits if_splits)
  have lb: "legacy_busy (legacy s t)" by (simp add: l)
  note f = legacy_facts [OF assms(1) lb] and u = unused_facts [OF assms(1)]
    and h = inv_heap [OF assms(1), unfolded heap_ok_def]
  let ?y = "\<lparr>t_stream = JobStreamID j, status = Running, archive_map = Some artifacts, process = Some r,
      job = j, watermark = True, cover = c\<lparr>c_source := True, c_replay := []\<rparr>, prep = None, cleaning = False\<rparr>"
  have s': "s' = s\<lparr>mgr := ?m\<lparr>trackeds := (trackeds ?m)(?t := ?y), n_tracked := ?t + 1,
      processes := AList.update (JobStreamID j) ?t (processes ?m)\<rparr>, legacy := (legacy s)(t := LgGone),
      waiter := (waiter s)(?t := WRun)\<rparr>"
    using assms(2) l js by (simp add: leg_install_def install_start_def Let_def)
  have hr: "holds s t r" and t: "t \<noteq> ?t" using f(1,9) l by auto
  have rn: "r < n_proc ?m" using inv_held [OF assms(1)] hr by (auto simp: held_def)
  have link: "q < n_prep ?m \<Longrightarrow> p_tracked (preps ?m q) < ?t \<and> p_tracked (preps ?m q) \<noteq> t" for q
    using prep_facts(1,2) [OF assms(1)] f(2) by (metis option.distinct(1))
  then have link': "q < n_prep ?m \<Longrightarrow> p_tracked (preps ?m q) \<noteq> ?t" for q
    by (metis less_irrefl)
  have pend: "pending (mgr s') q = pending ?m q" "table_ok (mgr s') = table_ok ?m" for q
    using table_same [of "mgr s'" ?m] by (simp_all add: s')
  have "heap_ok s'"
  proof -
    have "entries_ok (mgr s')"
      by (rule entries_update [of ?m]) (use h in \<open>simp_all add: s'\<close>)
    moreover have "links_ok (mgr s')"
      using h link link' by (auto simp: links_ok_def less_Suc_eq s')
    moreover have "unused_ok s'" using h f(1,2) by (auto simp: unused_ok_def less_Suc_eq u s')
    moreover have "calls_ok s'" using h by (simp add: calls_ok_def s')
    ultimately show ?thesis by (simp add: heap_ok_def)
  qed
  moreover have "one_pending (mgr s')" using inv_one_pending [OF assms(1)] unfolding one_pending_def pend .
  moreover have new: "holds s' ?t q \<longleftrightarrow> q = r" "busy s' ?t" for q
    using u(1) t by (auto simp: holds_def busy_def s')
  moreover have none: "\<not> holds s' t q" "\<not> busy s' t" for q
    using f(2,3,6) t by (auto simp: holds_def busy_def s')
  moreover have same: "v \<noteq> t \<Longrightarrow> v \<noteq> ?t \<Longrightarrow> holds s' v q = holds s v q"
      "v \<noteq> t \<Longrightarrow> v \<noteq> ?t \<Longrightarrow> busy s' v = busy s v" for v q
    by (auto simp: holds_def busy_def s' less_Suc_eq)
  have other: "v = ?t \<and> q = r \<or> v \<noteq> t \<and> v \<noteq> ?t \<and> holds s v q" if "holds s' v q" for v q
    using that new(1) none(1) same(1) by metis
  have distinct: "q \<noteq> r" if "holds s v q" "v \<noteq> t" for v q
    using inv_held [OF assms(1)] that hr unfolding held_def by blast
  moreover have "exclusive s'"
    unfolding exclusive_def
  proof (intro allI impI)
    fix v w assume "busy s' v"
    show "prep (trackeds (mgr s') v) = None"
    proof (cases "v = ?t")
      case True
      then show ?thesis by (simp add: s')
    next
      case False
      with \<open>busy s' v\<close> none(2) same(2) have "busy s v" "v \<noteq> t" by metis+
      then have "prep (trackeds ?m v) = None"
        using inv_exclusive [OF assms(1)] f(5) by (auto simp: exclusive_def)
      with False show ?thesis by (simp add: s')
    qed
  qed
  moreover have "held s'"
    unfolding held_def
  proof (intro conjI allI impI)
    fix v w q assume "holds s' v q" "holds s' w q"
    from other [OF this(1)] other [OF this(2)] distinct show "v = w"
      using inv_held [OF assms(1)] unfolding held_def by metis
  next
    fix v q assume "holds s' v q"
    from other [OF this] rn inv_held [OF assms(1)] show "q < n_proc (mgr s')"
      by (auto simp: held_def s')
  next
    fix q assume "live (mgr s') q"
    then obtain v where v: "holds s v q" "busy s v"
      using inv_held [OF assms(1)] by (auto simp: held_def live_def s')
    show "\<exists>v. holds s' v q \<and> busy s' v"
    proof (cases "v = t")
      case True
      with v f(9) l have "q = r" by simp
      with new show ?thesis by blast
    next
      case False
      moreover have "v \<noteq> ?t" using v(2) by (auto simp: busy_def)
      ultimately show ?thesis using v same by blast
    qed
  qed
  moreover have "sent_ok (mgr s')" using inv_sent [OF assms(1)] by (simp add: sent_ok_def s')
  moreover have "local_at v s'" for v
  proof -
    consider (self) "v = t" | (new) "v = ?t" | (old) "v < ?t" "v \<noteq> t" | (out) "?t < v" by linarith
    then show ?thesis
    proof cases
      case self
      note g = t_facts [OF assms(1) f(1)]
      have "track_inv (trackeds ?m t) (waiter s t) (stopper s t) (procs ?m) (n_proc ?m) b" for b
        using g(1) f(3,6) by (auto simp: track_inv_def)
      moreover have "legacy_inv (trackeds ?m t) (waiter s t) LgGone b" for b
        using f(6) by (simp add: legacy_inv_def)
      ultimately show ?thesis using self t link by (auto simp: local_at_def Let_def s')
    next
      case new
      have c: "cur (mgr s') ?t" by (simp add: cur_def update_conv' s')
      have "track_inv ?y WRun SpNone (procs ?m) (n_proc ?m) True" "legacy_inv ?y WRun LgNone True"
        using rn inv_sent [OF assms(1)]
        by (auto simp: track_inv_def legacy_inv_def processOwnsSlot_def sent_ok_def)
      then show ?thesis
        using new c u(1) [of ?t] t link' by (auto simp: local_at_def Let_def s')
    next
      case old
      show ?thesis
      proof (rule local_untouched [OF assms(1) old(1)])
        show "cur (mgr s') v" if "cur ?m v"
          using f(10) [OF that old(2)] that old(1) by (simp add: cur_def update_conv' s' js)
      qed (use old pend(1) in \<open>simp_all add: s' \<close>)
    next
      case out
      then show ?thesis by (simp add: local_at_def Let_def s')
    qed
  qed
  ultimately show ?thesis
    using inv_table [OF assms(1)] inv_panicked [OF assms(1)] pend(2) by (simp add: slot_inv_def s')
qed

section \<open>Every run\<close>

lemma init_inv: "slot_inv init"
  by (simp add: slot_inv_def init_def heap_ok_def entries_ok_def links_ok_def unused_ok_def calls_ok_def
      empty_manager_def table_ok_def one_pending_def pending_def exclusive_def busy_def held_def holds_def
      live_def sent_ok_def local_at_def Let_def)

lemmas step_inv = own_begin_inv own_set_cleanup_inv own_fail_inv own_check_inv own_spawn_inv own_install_inv
  own_return_inv abt_request_inv abt_prepared_inv abt_exited_inv abt_final_inv abt_timeout_inv
  cln_take_inv cln_done_inv cmt_request_inv cmt_enter_inv cmt_finish_inv exp_fire_inv prc_exit_inv
  wat_exit_inv wat_unstarted_inv wat_cleaned_inv pkg_begin_inv pkg_failed_inv pkg_done_inv stp_begin_inv
  stp_terminate_inv stp_exited_inv stp_grace_inv stp_receipt_inv leg_reserve_inv leg_spawn_inv leg_fail_inv
  leg_install_inv

lemma exec_inv:
  assumes "slot_inv s" and "\<not> racy e s" and "exec e s = Some s'"
  shows "slot_inv s'"
proof (cases "\<exists>p ph. e = EvAbortEnter p ph")
  case True
  then show ?thesis using assms abt_enter_inv by (auto simp: racy_def)
next
  case False
  show ?thesis
    by (rule exec.elims [OF assms(3)]; (use False in blast)?)
      (simp_all only: step_inv [OF assms(1)])
qed

lemma calm_inv: "calm s \<Longrightarrow> slot_inv s"
  by (induction rule: calm.induct) (auto intro: init_inv exec_inv)

end
