(* ===== verification/SlotProperties.thy ===== *)
theory SlotProperties
  imports SlotStarts
begin

text \<open>
  What the process table guarantees. The statements are about \<open>calm\<close> states, those of runs
  without the one race of \<open>racy\<close>; the last section shows what the race, and an abort that
  gives up waiting, do.
\<close>

lemma holds_code [code]:
  "holds s t r \<longleftrightarrow> t < n_tracked (mgr s) \<and> (process (trackeds (mgr s) t) = Some r \<or> legacy s t = LgSpawned r
     \<or> (case prep (trackeds (mgr s) t) of None \<Rightarrow> False | Some p \<Rightarrow> owner s p = OwnSpawned r))"
  by (auto simp: holds_def split: option.splits)

fun calm_run :: "event list \<Rightarrow> slot \<Rightarrow> slot option" where
  "calm_run [] s = Some s"
| "calm_run (e # es) s = (if racy e s then None else case exec e s of None \<Rightarrow> None | Some s \<Rightarrow> calm_run es s)"

lemma calm_run: "calm s \<Longrightarrow> calm_run es s = Some s' \<Longrightarrow> calm s'"
  by (induction es arbitrary: s) (auto split: if_splits option.splits intro: calm_step)

lemma run_reachable: "reachable s \<Longrightarrow> run es s = Some s' \<Longrightarrow> reachable s'"
  by (induction es arbitrary: s) (auto split: option.splits intro: reachable_step)

text \<open>A check of the state at the end of a run gives a state with its properties.\<close>

lemma calm_run_state:
  assumes "case calm_run es init of None \<Rightarrow> False | Some s \<Rightarrow> P s"
  obtains s where "calm_run es init = Some s" and "calm s" and "P s"
  using assms calm_run [OF calm_init] by (auto split: option.splits)

section \<open>Sample runs\<close>

definition sample_identity :: prep_identity where
  "sample_identity = \<lparr>IdStreamID = ''a'', IdStartID = ''s1'', IdServiceID = ''enc'', IdJobGeneration = 1,
     IdArchiveRunID = ''r1''\<rparr>"

definition sample_prepared_job :: stream_job where
  "sample_prepared_job = zeroJob\<lparr>JobStreamID := ''a'', JobRunID := ''r1'', StreamKey := ''key'',
     VideoCoverStart := Some \<lparr>s_job_generation = 1, s_revision = 1, s_active = False, s_idempotency_key = [], s_cover_asset = None\<rparr>\<rparr>"

definition prepared_run :: "event list" where
  "prepared_run = [EvBegin sample_identity (Inr 0), EvSetCleanup 0, EvCheck 0 sample_prepared_job, EvSpawn 0,
     EvInstall 0 0 False sample_prepared_job zero_cover_track [] []]"

definition independent_run :: "string \<Rightarrow> nat \<Rightarrow> event list" where
  "independent_run i t = [EvReserve (zeroJob\<lparr>JobStreamID := i\<rparr>), EvLegacySpawn t,
     EvLegacyInstall t (zeroJob\<lparr>JobStreamID := i\<rparr>) zero_cover_track []]"

definition failed_start_run :: "event list" where
  "failed_start_run = prepared_run @ [EvOwnerReturn 0 True, EvExit 0, EvWait 0 True True, EvCleanupTake 0,
     EvCleanupDone 0, EvWaitUnstarted 0]"

definition aborted_run :: "event list" where
  "aborted_run = prepared_run @ [EvAbortRequest (sample_identity\<lparr>IdArchiveRunID := []\<rparr>), EvOwnerReturn 0 True,
     EvAbortEnter 0 Aborted, EvAbortPrepared 0, EvExit 0, EvWait 0 True True]"

definition two_streams_run :: "event list" where
  "two_streams_run = independent_run ''a'' 0 @ independent_run ''b'' 2"

definition ended_run :: "event list" where
  "ended_run = independent_run ''a'' 0 @ [EvExit 0, EvWait 1 True False, EvWaitCleaned 1]"

definition stopped_run :: "event list" where
  "stopped_run = independent_run ''a'' 0 @ [EvStop ''a'' (Inr False), EvTerminate 1 True, EvExit 0,
     EvWait 1 False False, EvStopExited 1]"

definition second_identity :: prep_identity where
  "second_identity = sample_identity\<lparr>IdStartID := ''s2'', IdJobGeneration := 2, IdArchiveRunID := ''r2''\<rparr>"

definition taken_over_run :: "event list" where
  "taken_over_run = prepared_run @ [EvAbortRequest sample_identity, EvOwnerReturn 0 True, EvExit 0,
     EvWait 0 True True, EvCleanupTake 0, EvCleanupDone 0, EvWaitUnstarted 0, EvBegin second_identity (Inr 1)]"

section \<open>The slot\<close>

lemma live_held:
  assumes "slot_inv s" and "live (mgr s) r"
  obtains t where "holds s t r" and "busy s t"
  using inv_held [OF assms(1)] assms(2) by (auto simp: held_def)

lemma held_once:
  assumes "slot_inv s" and "holds s t r" and "holds s t q"
  shows "q = r"
proof -
  have t: "t < n_tracked (mgr s)" using assms(2) by (simp add: holds_def)
  note f = t_facts [OF assms(1) t]
  consider (r) "process (trackeds (mgr s) t) \<noteq> None" | (l) "legacy_busy (legacy s t)" "process (trackeds (mgr s) t) = None"
    | (n) "\<not> legacy_busy (legacy s t)" "process (trackeds (mgr s) t) = None"
    by blast
  then show ?thesis
  proof cases
    case r
    have "\<not> legacy_busy (legacy s t)" using legacy_facts(3) [OF assms(1), of t] r by auto
    moreover have "\<not> starting_pc (owner s p)" if "prep (trackeds (mgr s) t) = Some p" for p
      using f(4) [OF that] r by (auto simp: prep_inv_def owner_inv_def)
    ultimately show ?thesis using assms(2,3) by (auto simp: holds_def)
  next
    case l
    with legacy_facts(9) [OF assms(1) l(1)] assms(2,3) show ?thesis by auto
  next
    case n
    then show ?thesis using assms(2,3) by (auto simp: holds_def)
  qed
qed





text \<open>
  C18. Nothing of the table crashes the node: no channel is closed twice, no nil map is written
  and no nil pointer is read in any order of the steps.
\<close>

theorem table_never_panics:
  assumes "calm s"
  shows "\<not> panicked (mgr s)"
  by (rule inv_panicked [OF calm_inv [OF assms]])

theorem table_never_panics_witness:
  "\<exists>s. calm_run aborted_run init = Some s
     \<and> status (trackeds (mgr s) 0) = StFailed \<and> \<not> panicked (mgr s)"
proof -
  have "case calm_run aborted_run init of None \<Rightarrow> False | Some s \<Rightarrow> status (trackeds (mgr s) 0) = StFailed"
    by code_simp
  then obtain s where s: "calm_run aborted_run init = Some s" "calm s" "status (trackeds (mgr s) 0) = StFailed"
    by (rule calm_run_state)
  with table_never_panics [OF s(2)] show ?thesis by auto
qed

text \<open>
  C14. Secrets go with the slot: a record that no longer owns the slot holds no input
  or output address, stream key, folder, service account or token.
\<close>

theorem freed_slot_scrubbed:
  assumes "calm s" and "t < n_tracked (mgr s)" and "\<not> processOwnsSlot (trackeds (mgr s) t)"
  shows "job_scrubbed (job (trackeds (mgr s) t))"
  using t_facts(1) [OF calm_inv [OF assms(1)] assms(2)] assms(3) by (auto simp: track_inv_def)

theorem freed_slot_scrubbed_witness:
  "\<exists>s. calm_run failed_start_run init = Some s
     \<and> JobStreamID (job (trackeds (mgr s) 0)) = ''a'' \<and> job_scrubbed (job (trackeds (mgr s) 0))"
proof -
  have "case calm_run failed_start_run init of None \<Rightarrow> False
      | Some s \<Rightarrow> JobStreamID (job (trackeds (mgr s) 0)) = ''a'' \<and> 0 < n_tracked (mgr s)
          \<and> \<not> processOwnsSlot (trackeds (mgr s) 0)"
    by code_simp
  then obtain s where s: "calm_run failed_start_run init = Some s" "calm s"
      "JobStreamID (job (trackeds (mgr s) 0)) = ''a'' \<and> 0 < n_tracked (mgr s) \<and> \<not> processOwnsSlot (trackeds (mgr s) 0)"
    by (rule calm_run_state)
  with freed_slot_scrubbed [OF s(2), of 0] show ?thesis by auto
qed

text \<open>
  The table of preparations is bounded: it knows at most the last 64 finished ones and
  one that is under way, each under its own start identifier.
\<close>

theorem preparations_bounded:
  assumes "calm s"
  shows "length (preparations (mgr s)) \<le> 65 \<and> length (preparationOrder (mgr s)) \<le> 64
    \<and> distinct (map fst (preparations (mgr s))) \<and> distinct (preparationOrder (mgr s))
    \<and> (\<forall>(i, p) \<in> set (preparations (mgr s)). IdStartID (identity (preps (mgr s) p)) = i)"
proof -
  let ?m = "mgr s"
  have i: "slot_inv s" by (rule calm_inv [OF assms])
  have tab: "distinct (preparationOrder ?m)" "length (preparationOrder ?m) \<le> 64"
    "distinct (map fst (preparations ?m))"
    and own: "\<And>k p. map_of (preparations ?m) k = Some p \<Longrightarrow> IdStartID (identity (preps ?m p)) = k"
    using inv_table [OF i] unfolding table_ok_def by blast+
  have own': "\<forall>(i, p) \<in> set (preparations ?m). IdStartID (identity (preps ?m p)) = i"
    using own tab(3) by auto
  let ?open = "fst ` set (preparations ?m) - set (preparationOrder ?m)"
  have pend: "\<exists>p. pending ?m p \<and> IdStartID (identity (preps ?m p)) = k" if "k \<in> ?open" for k
  proof -
    from that obtain p where p: "map_of (preparations ?m) k = Some p" "k \<notin> set (preparationOrder ?m)"
      using weak_map_of_SomeI by fastforce
    with own [OF p(1)] show ?thesis by (auto simp: pending_def Let_def)
  qed
  have "card ?open \<le> 1"
  proof (rule card_le_Suc0_iff_eq [THEN iffD2, folded One_nat_def])
    show "\<forall>k \<in> ?open. \<forall>l \<in> ?open. k = l"
      using pend inv_one_pending [OF i] unfolding one_pending_def by metis
  qed simp
  moreover have "card (set (preparationOrder ?m)) \<le> 64" using tab(1,2) by (simp add: distinct_card)
  moreover have "length (preparations ?m) = card (fst ` set (preparations ?m))"
    using tab(3) by (metis distinct_card image_set length_map)
  moreover have "card (fst ` set (preparations ?m)) \<le> card (set (preparationOrder ?m)) + card ?open"
    by (metis (no_types, lifting) Un_Diff_cancel card_Un_le card_mono finite_UnI finite_set finite_imageI
        finite_Diff le_trans Un_upper2)
  ultimately show ?thesis using tab own' by linarith
qed

theorem preparations_bounded_witness:
  "\<exists>s. calm_run failed_start_run init = Some s
     \<and> preparationOrder (mgr s) = [''s1''] \<and> length (preparations (mgr s)) \<le> 65"
proof -
  have "case calm_run failed_start_run init of None \<Rightarrow> False
      | Some s \<Rightarrow> preparationOrder (mgr s) = [''s1'']"
    by code_simp
  then obtain s where s: "calm_run failed_start_run init = Some s" "calm s" "preparationOrder (mgr s) = [''s1'']"
    by (rule calm_run_state)
  with preparations_bounded [OF s(2)] show ?thesis by auto
qed

text \<open>
  C22. A durable stop receipt is evidence: when \<^verbatim>\<open>Stop\<close> comes to write it, the FFmpeg process
  it stopped has exited; a kill alone does not lead there.
\<close>

theorem stop_receipt_after_exit:
  assumes "calm s" and "exec (EvStopReceipt t ok) s = Some s'"
  shows "\<exists>r. process (trackeds (mgr s) t) = Some r \<and> \<not> alive (procs (mgr s) r)"
proof -
  have sp: "stopper s t = SpReceipt" using assms(2) by (simp add: stp_receipt_def split: if_splits)
  have i: "slot_inv s" by (rule calm_inv [OF assms(1)])
  have t: "t < n_tracked (mgr s)" by (rule pc_bounds(9) [OF i]) (simp add: sp)
  show ?thesis using t_facts(1) [OF i t] sp by (auto simp: track_inv_def split: option.splits)
qed

theorem stop_receipt_after_exit_witness:
  "\<exists>s s'. calm_run stopped_run init = Some s
     \<and> exec (EvStopReceipt 1 True) s = Some s' \<and> receipts (mgr s') = [''a'']
     \<and> (\<exists>r. process (trackeds (mgr s) 1) = Some r \<and> \<not> alive (procs (mgr s) r))"
proof -
  have "case calm_run stopped_run init of None \<Rightarrow> False
      | Some s \<Rightarrow> case exec (EvStopReceipt 1 True) s of None \<Rightarrow> False | Some s' \<Rightarrow> receipts (mgr s') = [''a'']"
    by code_simp
  then obtain s where s: "calm_run stopped_run init = Some s" "calm s"
      "case exec (EvStopReceipt 1 True) s of None \<Rightarrow> False | Some s' \<Rightarrow> receipts (mgr s') = [''a'']"
    by (rule calm_run_state)
  from s(3) obtain s' where "exec (EvStopReceipt 1 True) s = Some s'" "receipts (mgr s') = [''a'']"
    by (auto split: option.splits)
  with stop_receipt_after_exit [OF s(2)] s(1) show ?thesis by blast
qed

text \<open>The phases a preparation can take after another.\<close>

fun phase_next :: "prep_phase \<Rightarrow> prep_phase \<Rightarrow> bool" where
  "phase_next Preparing ph = (ph = Preparing \<or> ph = Prepared \<or> ended ph)"
| "phase_next Prepared ph = (ph = Prepared \<or> ph = Committing \<or> ended ph)"
| "phase_next Committing ph = (ph = Committing \<or> ph = PhRunning \<or> ended ph)"
| "phase_next PhRunning ph = (ph = PhRunning \<or> ended ph)"
| "phase_next _ ph = ended ph"

lemma phase_next_refl [simp]: "phase_next ph ph"
  by (cases ph) (simp_all add: ended_def)

lemma phase_next_ended [simp]: "ended ph' \<Longrightarrow> phase_next ph ph'"
  by (cases ph) simp_all

definition phase_kept :: "nat \<Rightarrow> manager \<Rightarrow> manager \<Rightarrow> bool" where
  "phase_kept p m m' \<longleftrightarrow> phase_next (phase (preps m p)) (phase (preps m' p)) \<and> identity (preps m' p) = identity (preps m p)
     \<and> p_tracked (preps m' p) = p_tracked (preps m p)"

lemma phase_kept_same [simp]: "preps m' = preps m \<Longrightarrow> phase_kept p m m'"
  by (simp add: phase_kept_def)

lemma call_cancel_same [simp]:
  "phase (call_cancel x) = phase x" "identity (call_cancel x) = identity x" "p_tracked (call_cancel x) = p_tracked x"
  by (simp_all add: call_cancel_def)

lemma owner_done_phase [simp]: "phase_kept p (mgr s) (mgr (owner_done q b s))"
  by (simp add: owner_done_def finishStartPreparation_def phase_kept_def slot_updates)

lemma start_cleaner_phase [simp]: "preps (mgr (start_cleaner q s)) p = (preps (mgr s) p)\<lparr>cleanup_once := cleanup_once (preps (mgr s) p) \<or> q = p\<rparr>"
  by (auto simp: start_cleaner_def cleanup_start_def slot_updates)

lemma phase_owner:
  "own_set_cleanup q s = Some s' \<Longrightarrow> phase_kept p (mgr s) (mgr s')"
  "own_fail q s = Some s' \<Longrightarrow> phase_kept p (mgr s) (mgr s')"
  "own_check q j s = Some s' \<Longrightarrow> phase_kept p (mgr s) (mgr s')"
  "own_spawn q s = Some s' \<Longrightarrow> phase_kept p (mgr s) (mgr s')"
  "own_install q now over j c fr a s = Some s' \<Longrightarrow> phase_kept p (mgr s) (mgr s')"
  "own_return q b s = Some s' \<Longrightarrow> phase_kept p (mgr s) (mgr s')"
proof -
  show "own_set_cleanup q s = Some s' \<Longrightarrow> phase_kept p (mgr s) (mgr s')"
    by (auto simp: own_set_cleanup_def setPreparationCleanup_def owner_done_def finishStartPreparation_def phase_kept_def
        slot_updates split: if_splits)
  show "own_fail q s = Some s' \<Longrightarrow> phase_kept p (mgr s) (mgr s')"
    by (auto simp: own_fail_def split: if_splits)
  show "own_check q j s = Some s' \<Longrightarrow> phase_kept p (mgr s) (mgr s')"
    by (auto simp: own_check_def Let_def owner_done_def finishStartPreparation_def phase_kept_def slot_updates split: if_splits)
  show "own_spawn q s = Some s' \<Longrightarrow> phase_kept p (mgr s) (mgr s')"
    by (auto simp: own_spawn_def spawn_def split: if_splits)
  show "own_install q now over j c fr a s = Some s' \<Longrightarrow> phase_kept p (mgr s) (mgr s')"
    by (auto simp: own_install_def install_prepared_def phase_kept_def slot_updates split: owner_pc.splits if_splits)
  show "own_return q b s = Some s' \<Longrightarrow> phase_kept p (mgr s) (mgr s')"
    by (auto simp: own_return_def Let_def owner_done_def finishStartPreparation_def phase_kept_def slot_updates
        split: owner_pc.splits if_splits)
qed

lemma phase_abort:
  assumes "slot_inv s"
  shows "abt_enter q ph s = Some s' \<Longrightarrow> phase_kept p (mgr s) (mgr s')"
    and "abt_prepared q s = Some s' \<Longrightarrow> phase_kept p (mgr s) (mgr s')"
    and "abt_exited q s = Some s' \<Longrightarrow> phase_kept p (mgr s) (mgr s')"
    and "abt_final q s = Some s' \<Longrightarrow> phase_kept p (mgr s) (mgr s')"
proof -
  show "abt_enter q ph s = Some s' \<Longrightarrow> phase_kept p (mgr s) (mgr s')"
    using pc_bounds(6) [OF assms, of q ph]
    by (auto simp: abt_enter_def abort_enter_def Let_def phase_kept_def slot_updates split: if_splits)
  show "abt_prepared q s = Some s' \<Longrightarrow> phase_kept p (mgr s) (mgr s')"
    by (auto simp: abt_prepared_def split: abort_pc.splits if_splits)
  show "abt_exited q s = Some s' \<Longrightarrow> phase_kept p (mgr s) (mgr s')"
    by (auto simp: abt_exited_def phase_kept_def split: abort_pc.splits if_splits)
  show "phase_kept p (mgr s) (mgr s')" if a: "abt_final q s = Some s'"
  proof -
    obtain ph where ph: "aborter s q = AbWaitCleanup ph"
      using a by (auto simp: abt_final_def split: abort_pc.splits)
    then have "q < n_prep (mgr s)" by (intro pc_bounds(3) [OF assms]) simp
    with prep_facts(7) [OF assms this] ph have "ended ph" by (simp add: prep_inv_def abort_inv_def)
    with a ph show ?thesis
      by (auto simp: abt_final_def abort_final_def phase_kept_def slot_updates split: if_splits)
  qed
qed

lemma phase_commit:
  "cln_take q s = Some s' \<Longrightarrow> phase_kept p (mgr s) (mgr s')"
  "cln_done q s = Some s' \<Longrightarrow> phase_kept p (mgr s) (mgr s')"
  "cmt_enter q now b s = Some s' \<Longrightarrow> phase_kept p (mgr s) (mgr s')"
  "cmt_finish q oc s = Some s' \<Longrightarrow> phase_kept p (mgr s) (mgr s')"
  "exp_fire q now s = Some s' \<Longrightarrow> phase_kept p (mgr s) (mgr s')"
proof -
  show "cln_take q s = Some s' \<Longrightarrow> phase_kept p (mgr s) (mgr s')"
    by (auto simp: cln_take_def cleanup_take_def slot_updates split: if_splits)
  show "cln_done q s = Some s' \<Longrightarrow> phase_kept p (mgr s) (mgr s')"
    by (auto simp: cln_done_def cleanup_report_def phase_kept_def slot_updates split: cleanup_pc.splits)
  show "cmt_enter q now b s = Some s' \<Longrightarrow> phase_kept p (mgr s) (mgr s')"
    by (auto simp: cmt_enter_def commit_enter_def Let_def phase_kept_def slot_updates split: if_splits)
  show "cmt_finish q oc s = Some s' \<Longrightarrow> phase_kept p (mgr s) (mgr s')"
    by (auto simp: cmt_finish_def commit_finish_def Let_def phase_kept_def slot_updates split: if_splits option.splits)
  show "exp_fire q now s = Some s' \<Longrightarrow> phase_kept p (mgr s) (mgr s')"
    by (auto simp: exp_fire_def expirePreparation_def Let_def phase_kept_def slot_updates ended_def split: if_splits)
qed

lemma phase_wait:
  "wat_exit t fl pk s = Some s' \<Longrightarrow> phase_kept p (mgr s) (mgr s')"
  "wat_unstarted t s = Some s' \<Longrightarrow> phase_kept p (mgr s) (mgr s')"
  "wat_cleaned t s = Some s' \<Longrightarrow> phase_kept p (mgr s) (mgr s')"
proof -
  have ran: "ran_exit fl pk t m = (m', pkg) \<Longrightarrow> preps m' = preps m" for m m' t pkg
    by (auto simp: ran_exit_def slot_updates split: if_splits)
  have w: "wait_exit fl pk i r m = (m', nx) \<Longrightarrow> phase_kept p m m'" for i r m m' nx
    by (auto simp: wait_exit_def Let_def close_exited_def phase_kept_def slot_updates ended_def
        split: option.splits prod.splits if_splits dest!: ran)
  show "wat_unstarted t s = Some s' \<Longrightarrow> phase_kept p (mgr s) (mgr s')"
    by (auto simp: wat_unstarted_def wait_unstarted_final_def slot_updates split: wait_pc.splits if_splits)
  show "wat_cleaned t s = Some s' \<Longrightarrow> phase_kept p (mgr s) (mgr s')"
    by (auto simp: wat_cleaned_def wait_final_def slot_updates split: wait_pc.splits if_splits option.splits)
  show "wat_exit t fl pk s = Some s' \<Longrightarrow> phase_kept p (mgr s) (mgr s')"
    by (auto dest!: w simp: wat_exit_def phase_kept_def Let_def slot_updates
        split: option.splits if_splits prod.splits wait_next.splits) 
qed

lemma phase_rest:
  "abt_request i s = Some s' \<Longrightarrow> phase_kept p (mgr s) (mgr s')"
  "abt_timeout q s = Some s' \<Longrightarrow> phase_kept p (mgr s) (mgr s')"
  "cmt_request i s = Some s' \<Longrightarrow> phase_kept p (mgr s) (mgr s')"
  "prc_exit r s = Some s' \<Longrightarrow> phase_kept p (mgr s) (mgr s')"
  "pkg_begin t s = Some s' \<Longrightarrow> phase_kept p (mgr s) (mgr s')"
  "pkg_failed t s = Some s' \<Longrightarrow> phase_kept p (mgr s) (mgr s')"
  "pkg_done t rs s = Some s' \<Longrightarrow> phase_kept p (mgr s) (mgr s')"
  "stp_begin k rc s = Some s' \<Longrightarrow> phase_kept p (mgr s) (mgr s')"
  "stp_terminate t ok s = Some s' \<Longrightarrow> phase_kept p (mgr s) (mgr s')"
  "stp_exited t s = Some s' \<Longrightarrow> phase_kept p (mgr s) (mgr s')"
  "stp_grace t ok s = Some s' \<Longrightarrow> phase_kept p (mgr s) (mgr s')"
  "stp_receipt t ok s = Some s' \<Longrightarrow> phase_kept p (mgr s) (mgr s')"
  "leg_reserve j s = Some s' \<Longrightarrow> phase_kept p (mgr s) (mgr s')"
  "leg_spawn t s = Some s' \<Longrightarrow> phase_kept p (mgr s) (mgr s')"
  "leg_fail t s = Some s' \<Longrightarrow> phase_kept p (mgr s) (mgr s')"
  "leg_install t j c a s = Some s' \<Longrightarrow> phase_kept p (mgr s) (mgr s')"
  by (auto simp: abt_request_def abt_timeout_def cmt_request_def prc_exit_def pkg_begin_def pkg_failed_def
      pkg_done_def package_begin_def package_failed_def package_completed_def stp_begin_def stop_begin_def
      stp_terminate_def kill_tracked_def stp_exited_def stp_grace_def stp_receipt_def leg_reserve_def
      reserve_start_def leg_spawn_def spawn_def leg_fail_def release_start_def leg_install_def install_start_def
      slot_updates split: if_splits option.splits sum.splits abort_pc.splits wait_pc.splits legacy_pc.splits)

lemma phase_begin: "own_begin i pv s = Some s' \<Longrightarrow> p < n_prep (mgr s) \<Longrightarrow> phase_kept p (mgr s) (mgr s')"
  by (auto simp: own_begin_def beginStartPreparation_def Let_def phase_kept_def split: if_splits sum.splits)

text \<open>
  C10. The life of a preparation: it is prepared once, commits only when prepared, runs only when
  committed, and a failed, aborted or expired one never comes back; who it is and which
  record it has never change.
\<close>

theorem preparation_phases:
  assumes "calm s" and "exec e s = Some s'" and "p < n_prep (mgr s)"
  shows "phase_next (phase (preps (mgr s) p)) (phase (preps (mgr s') p))
    \<and> identity (preps (mgr s') p) = identity (preps (mgr s) p)
    \<and> p_tracked (preps (mgr s') p) = p_tracked (preps (mgr s) p)"
proof -
  note i = calm_inv [OF assms(1)]
  have "phase_kept p (mgr s) (mgr s')"
    using assms(2,3) i
    by (cases e) (simp_all only: exec.simps phase_owner phase_abort phase_commit phase_wait phase_rest phase_begin)
  then show ?thesis by (simp add: phase_kept_def)
qed

theorem preparation_phases_witness:
  "\<exists>s s'. calm_run prepared_run init = Some s \<and> exec (EvCommitRequest sample_identity) s \<noteq> None
     \<and> exec (EvExit 0) s = Some s' \<and> phase_next Prepared (phase (preps (mgr s') 0))
     \<and> identity (preps (mgr s') 0) = sample_identity"
proof -
  have "case calm_run prepared_run init of None \<Rightarrow> False | Some s \<Rightarrow> phase (preps (mgr s) 0) = Prepared
      \<and> identity (preps (mgr s) 0) = sample_identity \<and> n_prep (mgr s) = 1
      \<and> exec (EvCommitRequest sample_identity) s \<noteq> None \<and> exec (EvExit 0) s \<noteq> None"
    by code_simp
  then obtain s where s: "calm_run prepared_run init = Some s" "calm s" "phase (preps (mgr s) 0) = Prepared
      \<and> identity (preps (mgr s) 0) = sample_identity \<and> n_prep (mgr s) = 1
      \<and> exec (EvCommitRequest sample_identity) s \<noteq> None \<and> exec (EvExit 0) s \<noteq> None"
    by (rule calm_run_state)
  then obtain s' where "exec (EvExit 0) s = Some s'" by auto
  with preparation_phases [OF s(2) this, of 0] s show ?thesis by auto
qed

section \<open>Fencing\<close>

text \<open>The tracked process an event works on.\<close>

fun event_record :: "event \<Rightarrow> slot \<Rightarrow> nat option" where
  "event_record (EvBegin i previous) s = None"
| "event_record (EvSetCleanup p) s = Some (p_tracked (preps (mgr s) p))"
| "event_record (EvOwnerFail p) s = Some (p_tracked (preps (mgr s) p))"
| "event_record (EvCheck p j) s = Some (p_tracked (preps (mgr s) p))"
| "event_record (EvSpawn p) s = Some (p_tracked (preps (mgr s) p))"
| "event_record (EvInstall p now over j c fr a) s = Some (p_tracked (preps (mgr s) p))"
| "event_record (EvOwnerReturn p ok) s = Some (p_tracked (preps (mgr s) p))"
| "event_record (EvAbortRequest i) s = None"
| "event_record (EvAbortEnter p ph) s = Some (p_tracked (preps (mgr s) p))"
| "event_record (EvAbortPrepared p) s = Some (p_tracked (preps (mgr s) p))"
| "event_record (EvAbortExited p) s = Some (p_tracked (preps (mgr s) p))"
| "event_record (EvAbortFinal p) s = Some (p_tracked (preps (mgr s) p))"
| "event_record (EvAbortTimeout p) s = Some (p_tracked (preps (mgr s) p))"
| "event_record (EvCleanupTake p) s = Some (p_tracked (preps (mgr s) p))"
| "event_record (EvCleanupDone p) s = Some (p_tracked (preps (mgr s) p))"
| "event_record (EvCommitRequest i) s = None"
| "event_record (EvCommitEnter p now ok) s = Some (p_tracked (preps (mgr s) p))"
| "event_record (EvCommitFinish p oc) s = Some (p_tracked (preps (mgr s) p))"
| "event_record (EvExpire p now) s = Some (p_tracked (preps (mgr s) p))"
| "event_record (EvWait t fl pk) s = Some t"
| "event_record (EvWaitUnstarted t) s = Some t"
| "event_record (EvWaitCleaned t) s = Some t"
| "event_record (EvPackageBegin t) s = Some t"
| "event_record (EvPackageFailed t) s = Some t"
| "event_record (EvPackageDone t rs) s = Some t"
| "event_record (EvStop i rc) s = entry (mgr s) i"
| "event_record (EvTerminate t ok) s = Some t"
| "event_record (EvStopExited t) s = Some t"
| "event_record (EvStopGrace t ok) s = Some t"
| "event_record (EvStopReceipt t ok) s = Some t"
| "event_record (EvLegacySpawn t) s = Some t"
| "event_record (EvLegacyFail t) s = Some t"
| "event_record _ s = None"

definition same_record :: "nat \<Rightarrow> manager \<Rightarrow> manager \<Rightarrow> bool" where
  "same_record u m m' \<longleftrightarrow> trackeds m' u = trackeds m u
     \<and> (\<forall>r. process (trackeds m u) = Some r \<longrightarrow> alive (procs m' r) = alive (procs m r) \<and> killed (procs m' r) = killed (procs m r))"

lemma same_record_refl [simp]: "trackeds m' = trackeds m \<Longrightarrow> procs m' = procs m \<Longrightarrow> same_record u m m'"
  by (simp add: same_record_def)

lemma other_process:
  assumes "slot_inv s" and "process (trackeds (mgr s) u) = Some r" and "u < n_tracked (mgr s)" and "holds s t r"
  shows "t = u"
proof -
  have "holds s u r" using assms(2,3) by (simp add: holds_def)
  with assms(1,4) show ?thesis using inv_held unfolding held_def by blast
qed

lemma same_owner:
  assumes "u < n_tracked (mgr s)"
  shows "own_begin i previous s = Some s' \<Longrightarrow> same_record u (mgr s) (mgr s')"
    and "own_set_cleanup p s = Some s' \<Longrightarrow> same_record u (mgr s) (mgr s')"
    and "own_fail p s = Some s' \<Longrightarrow> same_record u (mgr s) (mgr s')"
    and "own_check p j s = Some s' \<Longrightarrow> same_record u (mgr s) (mgr s')"
    and "own_return p b s = Some s' \<Longrightarrow> same_record u (mgr s) (mgr s')"
    and "own_install p now over j c fr a s = Some s' \<Longrightarrow> u \<noteq> p_tracked (preps (mgr s) p) \<Longrightarrow> same_record u (mgr s) (mgr s')"
  using assms
  by (auto simp: own_begin_def beginStartPreparation_def own_set_cleanup_def setPreparationCleanup_def
      own_fail_def own_check_def own_return_def own_install_def install_prepared_def owner_done_def
      finishStartPreparation_def same_record_def slot_updates split: if_splits sum.splits owner_pc.splits)

lemma same_spawn:
  assumes "slot_inv s" and "u < n_tracked (mgr s)"
  shows "own_spawn p s = Some s' \<Longrightarrow> same_record u (mgr s) (mgr s')"
    and "leg_spawn t s = Some s' \<Longrightarrow> same_record u (mgr s) (mgr s')"
proof -
  have "r < n_proc (mgr s)" if "process (trackeds (mgr s) u) = Some r" for r
    using inv_held [OF assms(1)] that assms(2) by (auto simp: held_def holds_def)
  then show "own_spawn p s = Some s' \<Longrightarrow> same_record u (mgr s) (mgr s')"
    "leg_spawn t s = Some s' \<Longrightarrow> same_record u (mgr s) (mgr s')"
    by (auto simp: own_spawn_def leg_spawn_def spawn_def same_record_def split: if_splits)
qed

lemma start_cleaner_heaps [simp]:
  "trackeds (mgr (start_cleaner p s)) = trackeds (mgr s)" "procs (mgr (start_cleaner p s)) = procs (mgr s)"
  by (auto simp: start_cleaner_def cleanup_start_def slot_updates)

lemma same_abort:
  assumes "slot_inv s" and u: "u < n_tracked (mgr s)" "u \<noteq> p_tracked (preps (mgr s) p)"
  shows "abt_enter p ph s = Some s' \<Longrightarrow> same_record u (mgr s) (mgr s')"
    and "abt_prepared p s = Some s' \<Longrightarrow> same_record u (mgr s) (mgr s')"
    and "abt_exited p s = Some s' \<Longrightarrow> same_record u (mgr s) (mgr s')"
    and "abt_final p s = Some s' \<Longrightarrow> same_record u (mgr s) (mgr s')"
    and "cln_take p s = Some s' \<Longrightarrow> same_record u (mgr s) (mgr s')"
    and "cln_done p s = Some s' \<Longrightarrow> same_record u (mgr s) (mgr s')"
    and "cmt_enter p now b s = Some s' \<Longrightarrow> same_record u (mgr s) (mgr s')"
    and "cmt_finish p oc s = Some s' \<Longrightarrow> same_record u (mgr s) (mgr s')"
    and "exp_fire p now s = Some s' \<Longrightarrow> same_record u (mgr s) (mgr s')"
proof -
  show "same_record u (mgr s) (mgr s')" if a: "abt_prepared p s = Some s'"
  proof -
    have "aborter s p \<noteq> AbNone" using a by (auto simp: abt_prepared_def)
    then have p: "p < n_prep (mgr s)" by (rule pc_bounds(3) [OF assms(1)])
    have "process (trackeds (mgr s) u) \<noteq> Some r" if "process (trackeds (mgr s) (p_tracked (preps (mgr s) p))) = Some r" for r
      using other_process [OF assms(1) _ u(1), of r "p_tracked (preps (mgr s) p)"] that u(2)
        prep_facts(1) [OF assms(1) p] by (auto simp: holds_def)
    then show ?thesis
      using a by (auto simp: abt_prepared_def abort_kill_def same_record_def slot_updates
          split: abort_pc.splits option.splits if_splits)
  qed
qed (use u(2) in \<open>auto simp: abt_enter_def abort_enter_def abt_exited_def abt_final_def abort_final_def
      cln_take_def cleanup_take_def cln_done_def cleanup_report_def cmt_enter_def commit_enter_def cmt_finish_def
      commit_finish_def exp_fire_def expirePreparation_def same_record_def slot_updates
      split: if_splits abort_pc.splits cleanup_pc.splits option.splits\<close>)

lemma same_exit:
  assumes "slot_inv s" and u: "u < n_tracked (mgr s)" "u \<noteq> t"
  shows "wat_exit t fl pk s = Some s' \<Longrightarrow> same_record u (mgr s) (mgr s')"
    and "wat_unstarted t s = Some s' \<Longrightarrow> same_record u (mgr s) (mgr s')"
    and "wat_cleaned t s = Some s' \<Longrightarrow> same_record u (mgr s) (mgr s')"
    and "pkg_begin t s = Some s' \<Longrightarrow> same_record u (mgr s) (mgr s')"
    and "pkg_failed t s = Some s' \<Longrightarrow> same_record u (mgr s) (mgr s')"
    and "pkg_done t rs s = Some s' \<Longrightarrow> same_record u (mgr s) (mgr s')"
proof -
  show "same_record u (mgr s) (mgr s')" if a: "wat_exit t fl pk s = Some s'"
  proof -
    have w: "waiter s t = WRun" using a by (auto simp: wat_exit_def split: option.splits if_splits)
    then have t: "t < n_tracked (mgr s)" by (intro pc_bounds(8) [OF assms(1)]) simp
    have e: "entry (mgr s) (t_stream (trackeds (mgr s) t)) = Some t"
      using t_facts(1) [OF assms(1) t] w by (simp add: track_inv_def cur_def)
    have ran: "ran_exit fl pk t m = (m', pkg) \<Longrightarrow> trackeds m' u = trackeds m u \<and> procs m' = procs m" for m m' pkg
      using u(2) by (auto simp: ran_exit_def slot_updates split: if_splits)
    have ex: "wait_exit fl pk (t_stream (trackeds (mgr s) t)) r (mgr s) = (m', nx)
        \<Longrightarrow> trackeds m' u = trackeds (mgr s) u \<and> procs m' = procs (mgr s)" for r m' nx
      using u(2) e by (auto simp: wait_exit_def close_exited_def slot_updates
          split: option.splits prod.splits if_splits dest!: ran)
    show ?thesis
      using a by (auto simp: wat_exit_def same_record_def slot_updates
          split: option.splits if_splits prod.splits wait_next.splits dest!: ex)
  qed
  have e: "waiter s t = WPackage j \<Longrightarrow> entry (mgr s) (PkgStreamID j) = Some t"
    "waiter s t = WPackaging j \<Longrightarrow> entry (mgr s) (PkgStreamID j) = Some t" for j
    using pkg_entry(1) [OF assms(1)] by blast+
  show "pkg_begin t s = Some s' \<Longrightarrow> same_record u (mgr s) (mgr s')"
    "pkg_failed t s = Some s' \<Longrightarrow> same_record u (mgr s) (mgr s')"
    "pkg_done t rs s = Some s' \<Longrightarrow> same_record u (mgr s) (mgr s')"
    using u(2)
    by (auto simp: pkg_begin_def package_begin_def pkg_failed_def package_failed_def pkg_done_def
        package_completed_def same_record_def slot_updates e split: wait_pc.splits option.splits)
qed (use u(2) in \<open>auto simp: wat_unstarted_def wait_unstarted_final_def wat_cleaned_def wait_final_def
      same_record_def slot_updates split: wait_pc.splits if_splits option.splits\<close>)

lemma same_stop:
  assumes "slot_inv s" and u: "u < n_tracked (mgr s)"
  shows "u \<noteq> t \<Longrightarrow> stp_terminate t ok s = Some s' \<Longrightarrow> same_record u (mgr s) (mgr s')"
    and "u \<noteq> t \<Longrightarrow> stp_grace t ok s = Some s' \<Longrightarrow> same_record u (mgr s) (mgr s')"
    and "u \<noteq> t \<Longrightarrow> leg_fail t s = Some s' \<Longrightarrow> same_record u (mgr s) (mgr s')"
    and "Some u \<noteq> entry (mgr s) i \<Longrightarrow> stp_begin i rc s = Some s' \<Longrightarrow> same_record u (mgr s) (mgr s')"
    and "stp_exited t s = Some s' \<Longrightarrow> same_record u (mgr s) (mgr s')"
    and "stp_receipt t ok s = Some s' \<Longrightarrow> same_record u (mgr s) (mgr s')"
    and "leg_reserve j s = Some s' \<Longrightarrow> same_record u (mgr s) (mgr s')"
    and "leg_install t j c a s = Some s' \<Longrightarrow> same_record u (mgr s) (mgr s')"
proof -
  have other: "process (trackeds (mgr s) u) \<noteq> Some r" if "holds s t r" "u \<noteq> t" for r
    using other_process [OF assms(1) _ u that(1)] that(2) by blast
  have kill: "same_record u (mgr s) (kill_tracked t (mgr s))" if "t < n_tracked (mgr s)" "u \<noteq> t"
    using other that by (auto simp: kill_tracked_def same_record_def slot_updates holds_def split: option.splits)
  show "same_record u (mgr s) (mgr s')" if "u \<noteq> t" "stp_terminate t ok s = Some s'"
  proof -
    have "stopper s t \<noteq> SpNone" using that(2) by (auto simp: stp_terminate_def split: if_splits)
    then have "t < n_tracked (mgr s)" by (rule pc_bounds(9) [OF assms(1)])
    then show ?thesis using that kill by (auto simp: stp_terminate_def split: if_splits)
  qed
  show "same_record u (mgr s) (mgr s')" if "u \<noteq> t" "stp_grace t ok s = Some s'"
  proof -
    have "stopper s t \<noteq> SpNone" using that(2) by (auto simp: stp_grace_def split: if_splits)
    then have "t < n_tracked (mgr s)" by (rule pc_bounds(9) [OF assms(1)])
    then show ?thesis using that kill by (auto simp: stp_grace_def split: if_splits)
  qed
  show "same_record u (mgr s) (mgr s')" if "u \<noteq> t" "leg_fail t s = Some s'"
  proof -
    have "legacy s t \<noteq> LgNone" using that(2) by (auto simp: leg_fail_def)
    then have t: "t < n_tracked (mgr s)" using pc_bounds(10) [OF assms(1)] by blast
    have "process (trackeds (mgr s) u) \<noteq> Some r" if "legacy s t = LgSpawned r" for r
      using other [of r] that t \<open>u \<noteq> t\<close> by (simp add: holds_def)
    then show ?thesis
      using that(2) by (auto simp: leg_fail_def release_start_def same_record_def slot_updates
          split: legacy_pc.splits if_splits)
  qed
qed (use u in \<open>auto simp: stp_begin_def stop_begin_def stp_exited_def stp_receipt_def leg_reserve_def
      reserve_start_def leg_install_def install_start_def same_record_def slot_updates
      split: if_splits option.splits sum.splits legacy_pc.splits\<close>)

lemma same_rest:
  "abt_request i s = Some s' \<Longrightarrow> same_record u (mgr s) (mgr s')"
  "abt_timeout p s = Some s' \<Longrightarrow> same_record u (mgr s) (mgr s')"
  "cmt_request i s = Some s' \<Longrightarrow> same_record u (mgr s) (mgr s')"
  by (auto simp: abt_request_def abt_timeout_def cmt_request_def
      split: sum.splits prod.splits option.splits abort_pc.splits)



section \<open>An abort that gives up\<close>

text \<open>
  A preparation whose abort stopped waiting before the owner was done. The owner has left without
  a process, and nothing is left that would clean up.
\<close>

definition abandoned :: "nat \<Rightarrow> slot \<Rightarrow> bool" where
  "abandoned p s \<longleftrightarrow> (let t = p_tracked (preps (mgr s) p) in
     p < n_prep (mgr s) \<and> aborter s p = AbTimedOut \<and> owner s p = OwnGone \<and> cleaner s p = ClNone
   \<and> waiter s t = WNone \<and> is_current (mgr s) p \<and> process (trackeds (mgr s) t) = None
   \<and> status (trackeds (mgr s) t) = Starting \<and> cleaning (trackeds (mgr s) t))"

lemma abandoned_facts:
  assumes "slot_inv s" and "abandoned p s"
  defines "t \<equiv> p_tracked (preps (mgr s) p)"
  shows "\<not> isDrained (mgr s)" and "slot_taken (mgr s) i"
    and "abort_started (preps (mgr s) p)" and "\<not> cleanup_done (preps (mgr s) p)"
    and "ended (phase (preps (mgr s) p))" and "stopper s t = SpNone" and "prep (trackeds (mgr s) t) = Some p"
    and "legacy s t = LgNone" and "t < n_tracked (mgr s)"
    and "q < n_prep (mgr s) \<Longrightarrow> q \<noteq> p \<Longrightarrow> p_tracked (preps (mgr s) q) \<noteq> t"
    and "t_stream (trackeds (mgr s) t) = IdStreamID (identity (preps (mgr s) p))"
    and "q < n_prep (mgr s) \<Longrightarrow> p_tracked (preps (mgr s) p) = p_tracked (preps (mgr s) q) \<Longrightarrow> q = p"
proof -
  have p: "p < n_prep (mgr s)" and e: "map_of (processes (mgr s)) (IdStreamID (identity (preps (mgr s) p))) = Some t"
    and o1: "processOwnsSlot (trackeds (mgr s) t)"
    using assms(2) by (simp_all add: abandoned_def is_current_def processOwnsSlot_def Let_def t_def)
  note f = prep_facts [OF assms(1) p, folded t_def]
  from e have mem: "(IdStreamID (identity (preps (mgr s) p)), t) \<in> set (processes (mgr s))" by (rule map_of_SomeD)
  then show "\<not> isDrained (mgr s)" using o1 by (auto simp: isDrained_def list_all_iff)
  show "slot_taken (mgr s) i" using mem o1 f(2) by (force simp: slot_taken_def list_ex_iff)
  show "abort_started (preps (mgr s) p)" "\<not> cleanup_done (preps (mgr s) p)" "ended (phase (preps (mgr s) p))"
    using f(7) assms(2) by (simp_all add: prep_inv_def phase_inv_def cleaner_inv_def abandoned_def Let_def)
  show "stopper s t = SpNone" using f(6) assms(2) by (simp add: track_inv_def abandoned_def Let_def t_def)
  show "prep (trackeds (mgr s) t) = Some p" "legacy s t = LgNone" "t < n_tracked (mgr s)" by (rule f)+
  show "q < n_prep (mgr s) \<Longrightarrow> q \<noteq> p \<Longrightarrow> p_tracked (preps (mgr s) q) \<noteq> t" using f(4) by blast
  show "q < n_prep (mgr s) \<Longrightarrow> p_tracked (preps (mgr s) p) = p_tracked (preps (mgr s) q) \<Longrightarrow> q = p"
    using f(4) [of q] by (simp add: t_def)
  show "t_stream (trackeds (mgr s) t) = IdStreamID (identity (preps (mgr s) p))"
    using inv_heap [OF assms(1)] p unfolding heap_ok_def links_ok_def t_def by blast
qed

text \<open>
  An abort whose context ends while it waits for the owner can leave the slot blocked: when the
  owner has then left without a process, every further abort, expiry and failure report of the
  preparation is refused, the node never counts as drained, every new preparation and every
  independent start is refused, and \<^verbatim>\<open>Stop\<close> says that the stream is starting.
\<close>

theorem abandoned_abort_blocks_slot:
  assumes "calm s" and "abandoned p s"
  shows "abort_enter ph p (mgr s) = (mgr s, AbortConflict) \<and> \<not> isDrained (mgr s)
    \<and> (\<exists>e. beginStartPreparation previous i (mgr s) = (mgr s, Inl e))
    \<and> reserve_start j (mgr s) = (mgr s, Inl ErrAlreadyRunning)
    \<and> stop_begin (IdStreamID (identity (preps (mgr s) p))) receipt (mgr s) = (mgr s, Inl (ErrStarting, Some Starting))"
proof -
  have inv: "slot_inv s" by (rule calm_inv [OF assms(1)])
  note f = abandoned_facts [OF inv assms(2)]
  have cur: "is_current (mgr s) p" and st: "status (trackeds (mgr s) (p_tracked (preps (mgr s) p))) = Starting"
    using assms(2) by (simp_all add: abandoned_def Let_def)
  have "abort_enter ph p (mgr s) = (mgr s, AbortConflict)"
    using cur f(3,4) by (simp add: abort_enter_def Let_def)
  moreover have "\<exists>e. beginStartPreparation previous i (mgr s) = (mgr s, Inl e)"
    using f(1) by (simp add: beginStartPreparation_def)
  moreover have "reserve_start j (mgr s) = (mgr s, Inl ErrAlreadyRunning)"
    using f(2) by (simp add: reserve_start_def)
  moreover have "stop_begin (IdStreamID (identity (preps (mgr s) p))) receipt (mgr s)
      = (mgr s, Inl (ErrStarting, Some Starting))"
    using cur st by (simp add: stop_begin_def is_current_def Let_def)
  ultimately show ?thesis using f(1) by blast
qed

text \<open>The request of an abort ends before the owner is done; the owner then gives up.\<close>

definition abandoned_run :: "event list" where
  "abandoned_run = [EvBegin sample_identity (Inr 0), EvAbortRequest sample_identity, EvAbortEnter 0 Aborted,
     EvAbortTimeout 0, EvOwnerFail 0, EvAbortEnter 0 PhFailed]"

theorem abandoned_abort_blocks_slot_witness:
  "\<exists>s. calm_run abandoned_run init = Some s \<and> abandoned 0 s \<and> \<not> isDrained (mgr s)
     \<and> abort_enter Aborted 0 (mgr s) = (mgr s, AbortConflict)"
proof -
  have "case calm_run abandoned_run init of None \<Rightarrow> False | Some s \<Rightarrow> abandoned 0 s"
    by code_simp
  then obtain s where s: "calm_run abandoned_run init = Some s" "calm s" "abandoned 0 s"
    by (rule calm_run_state)
  with abandoned_abort_blocks_slot [OF s(2,3)] show ?thesis by auto
qed

section \<open>The race\<close>

text \<open>
  A committed start whose process exits by itself: while \<^verbatim>\<open>wait\<close> cleans up before it packages the archive, an
  abort gets past its checks, marks the record failed and so frees the slot; a new start of the
  stream takes it over, and the packaging, which looks its record up by the stream, comes upon
  the new one.
\<close>

definition raced_run :: "event list" where
  "raced_run = prepared_run @ [EvOwnerReturn 0 True, EvCommitRequest sample_identity, EvCommitEnter 0 0 True,
     EvCommitFinish 0 None, EvExit 0, EvWait 0 False True, EvAbortRequest sample_identity,
     EvAbortEnter 0 Aborted, EvAbortPrepared 0, EvAbortExited 0, EvCleanupTake 0, EvCleanupDone 0,
     EvAbortFinal 0, EvWaitCleaned 0, EvBegin second_identity (Inr 1), EvPackageBegin 0]"

lemma reachable_run_state:
  assumes "case run es init of None \<Rightarrow> False | Some s \<Rightarrow> P s"
  obtains s where "run es init = Some s" and "reachable s" and "P s"
  using assms run_reachable [OF reachable_init] by (auto split: option.splits)

text \<open>
  The race between an abort and the packaging of a stream that ended by itself is real: a
  run reaches a state in which the record of a second start, whose process has not been started,
  is marked as packaging by the first; when that packaging completes, it writes to the second
  record's nil map and the node crashes.
\<close>

theorem abort_packaging_race:
  "\<exists>s s'. reachable s \<and> entry (mgr s) ''a'' = Some 1 \<and> prep (trackeds (mgr s) 1) = Some 1
     \<and> process (trackeds (mgr s) 1) = None \<and> status (trackeds (mgr s) 1) = Packaging
     \<and> phase (preps (mgr s) 1) = Preparing
     \<and> exec (EvPackageDone 0 []) s = Some s' \<and> panicked (mgr s')"
proof -
  have "case run raced_run init of None \<Rightarrow> False | Some s \<Rightarrow>
      entry (mgr s) ''a'' = Some 1 \<and> prep (trackeds (mgr s) 1) = Some 1
     \<and> process (trackeds (mgr s) 1) = None \<and> status (trackeds (mgr s) 1) = Packaging
     \<and> phase (preps (mgr s) 1) = Preparing
     \<and> (case exec (EvPackageDone 0 []) s of None \<Rightarrow> False | Some s' \<Rightarrow> panicked (mgr s'))"
    by code_simp
  then obtain s where "run raced_run init = Some s" "reachable s"
      "entry (mgr s) ''a'' = Some 1 \<and> prep (trackeds (mgr s) 1) = Some 1
     \<and> process (trackeds (mgr s) 1) = None \<and> status (trackeds (mgr s) 1) = Packaging
     \<and> phase (preps (mgr s) 1) = Preparing
     \<and> (case exec (EvPackageDone 0 []) s of None \<Rightarrow> False | Some s' \<Rightarrow> panicked (mgr s'))"
    by (rule reachable_run_state)
  then show ?thesis by (auto split: option.splits)
qed

section \<open>Stop\<close>

text \<open>
  What \<^verbatim>\<open>Stop\<close> answers: a running stream is claimed for one stop, of two concurrent stops the second
  is told that the stream has stopped already; a stream that is being stopped, packaged or has
  ended is \<^verbatim>\<open>ErrAlreadyStopped\<close>, except a completed one, which is \<^verbatim>\<open>ErrNotRunning\<close>; a stream without
  an entry is answered from its durable receipt; and an answer changes nothing.
\<close>

theorem stop_answers:
  "(case stop_begin i receipt m of
      (m', Inr t) \<Rightarrow> entry m i = Some t \<and> status (trackeds m t) = Running \<and> status (trackeds m' t) = Stopping
        \<and> snd (stop_begin i receipt m') = Inl (ErrAlreadyStopped, Some Stopping)
    | (m', Inl (e, st)) \<Rightarrow> m' = m
        \<and> (e = ErrAlreadyStopped \<longleftrightarrow>
             (case entry m i of None \<Rightarrow> receipt = Inr True
              | Some t \<Rightarrow> status (trackeds m t) \<notin> {Starting, Running, Completed}))
        \<and> (e = ErrStarting \<longleftrightarrow> (\<exists>t. entry m i = Some t \<and> status (trackeds m t) = Starting))
        \<and> (e = ErrNotRunning \<longleftrightarrow>
             (case entry m i of None \<Rightarrow> receipt = Inr False | Some t \<Rightarrow> status (trackeds m t) = Completed)))"
proof (cases "entry m i")
  case None
  then show ?thesis by (auto simp: stop_begin_def split: sum.splits bool.splits)
next
  case (Some t)
  then show ?thesis
    by (cases "status (trackeds m t)") (simp_all add: stop_begin_def upd_t_def)
qed

text \<open>
  A preparation is found only by a request that names all of its identity: the start, stream,
  service and job generation, and the archive run when the request gives one.
\<close>

theorem preparation_found_by_identity:
  assumes "calm s" and "findPreparationLocked i (mgr s) = Inr p"
  shows "p < n_prep (mgr s)
    \<and> identity (preps (mgr s) p) = i\<lparr>IdArchiveRunID := IdArchiveRunID (identity (preps (mgr s) p))\<rparr>
    \<and> (IdArchiveRunID i \<noteq> [] \<longrightarrow> identity (preps (mgr s) p) = i)"
proof -
  have tab: "table_ok (mgr s)" by (rule inv_table [OF calm_inv [OF assms(1)]])
  from assms(2) have m: "map_of (preparations (mgr s)) (IdStartID i) = Some p"
    and e: "IdStreamID (identity (preps (mgr s) p)) = IdStreamID i" "IdServiceID (identity (preps (mgr s) p)) = IdServiceID i"
      "IdJobGeneration (identity (preps (mgr s) p)) = IdJobGeneration i"
      "IdArchiveRunID i \<noteq> [] \<longrightarrow> IdArchiveRunID (identity (preps (mgr s) p)) = IdArchiveRunID i"
    by (auto simp: findPreparationLocked_def Let_def split: option.splits if_splits)
  from tab m have "p < n_prep (mgr s)" "IdStartID (identity (preps (mgr s) p)) = IdStartID i"
    unfolding table_ok_def by blast+
  with e show ?thesis by (cases i; cases "identity (preps (mgr s) p)") auto
qed

theorem preparation_found_by_identity_witness:
  "\<exists>s. calm_run prepared_run init = Some s
     \<and> findPreparationLocked (sample_identity\<lparr>IdArchiveRunID := []\<rparr>) (mgr s) = Inr 0
     \<and> identity (preps (mgr s) 0) = sample_identity
     \<and> findPreparationLocked (sample_identity\<lparr>IdJobGeneration := 2\<rparr>) (mgr s) = Inl ErrPreparationConflict"
proof -
  have "case calm_run prepared_run init of None \<Rightarrow> False | Some s \<Rightarrow>
      findPreparationLocked sample_identity (mgr s) = Inr 0
      \<and> findPreparationLocked (sample_identity\<lparr>IdArchiveRunID := []\<rparr>) (mgr s) = Inr 0
      \<and> findPreparationLocked (sample_identity\<lparr>IdJobGeneration := 2\<rparr>) (mgr s) = Inl ErrPreparationConflict"
    by code_simp
  then obtain s where s: "calm_run prepared_run init = Some s" "calm s"
      "findPreparationLocked sample_identity (mgr s) = Inr 0
      \<and> findPreparationLocked (sample_identity\<lparr>IdArchiveRunID := []\<rparr>) (mgr s) = Inr 0
      \<and> findPreparationLocked (sample_identity\<lparr>IdJobGeneration := 2\<rparr>) (mgr s) = Inl ErrPreparationConflict"
    by (rule calm_run_state)
  then have "identity (preps (mgr s) 0) = sample_identity"
    using preparation_found_by_identity [OF s(2), of sample_identity 0] by (simp add: sample_identity_def)
  with s show ?thesis by blast
qed


end
