(* ===== verification/Spec2Isabelle.thy ===== *)
theory Spec2Isabelle
  imports AudioIngest VideoIngest FfmpegArgs WorkerEvents PackageProperties DriveProperties MigrationPlan ProcessIo IngestToken CoverRuntime DurableState SlotProperties
begin

text \<open>
  The encoder and recorder node: it receives a stream's media, runs FFmpeg for it, and
  archives what was recorded.
\<close>

end
